(* ===== verification/Rounding.thy ===== *)
theory Rounding
  imports Complex_Main
begin

text \<open>
  Rounding of exact rational results to a fixed number of significant digits, as Python's
  \<open>decimal\<close> module (base 10, 28 digits, half to even, the default context, which no file
  of the repository changes) and its binary64 \<open>float\<close> (base 2, 53 digits) do. Exponents are
  unbounded here: the overflow, underflow, NaN and infinity of the two formats are outside
  the model.

  The locale \<open>rounded\<close> is the interface the components use: what a rounded result promises
  about signs, order and exactness, whatever the base. It is interpreted on both formats
  in \<open>Decimal_Context\<close>.
\<close>

subsection \<open>Round half to even\<close>

definition rhe :: "rat \<Rightarrow> int" where
  "rhe x = (let f = \<lfloor>x\<rfloor>; r = x - of_int f
            in if r < 1 / 2 then f
               else if 1 / 2 < r then f + 1
               else if even f then f else f + 1)"

lemma rhe_bounds: "\<bar>of_int (rhe x) - x\<bar> \<le> 1 / 2"
proof -
  have "of_int \<lfloor>x\<rfloor> \<le> x" "x < of_int \<lfloor>x\<rfloor> + 1" by linarith+
  then show ?thesis by (auto simp: rhe_def Let_def)
qed

lemma rhe_of_int [simp]: "rhe (of_int n) = n"
  by (simp add: rhe_def)

lemma rhe_mono:
  assumes "x \<le> y" shows "rhe x \<le> rhe y"
proof -
  have f: "\<lfloor>x\<rfloor> \<le> \<lfloor>y\<rfloor>" using assms by (rule floor_mono)
  consider "\<lfloor>x\<rfloor> = \<lfloor>y\<rfloor>" | "\<lfloor>x\<rfloor> + 1 \<le> \<lfloor>y\<rfloor>" using f by linarith
  then show ?thesis
  proof cases
    case 1
    then show ?thesis using assms by (auto simp: rhe_def Let_def)
  next
    case 2
    have "rhe x \<le> \<lfloor>x\<rfloor> + 1" by (auto simp: rhe_def Let_def)
    moreover have "\<lfloor>y\<rfloor> \<le> rhe y" by (auto simp: rhe_def Let_def)
    ultimately show ?thesis using 2 by linarith
  qed
qed

lemma rhe_minus: "rhe (- x) = - rhe x"
proof (cases "x = of_int \<lfloor>x\<rfloor>")
  case True
  then obtain n where "x = of_int n" by blast
  then show ?thesis by (metis of_int_minus rhe_of_int)
next
  case False
  have fl: "\<lfloor>- x\<rfloor> = - \<lfloor>x\<rfloor> - 1"
    using False by (metis (no_types) ceiling_altdef ceiling_def add_diff_cancel_right' minus_minus minus_diff_eq uminus_add_conv_diff diff_minus_eq_add floor_minus)
  show ?thesis by (auto simp: rhe_def Let_def fl)
qed

subsection \<open>The exponent of a positive rational\<close>

fun ndig :: "nat \<Rightarrow> nat \<Rightarrow> nat" where
  "ndig b n = (if n = 0 \<or> b < 2 then 0 else Suc (ndig b (n div b)))"

declare ndig.simps [simp del]

lemma ndig_bounds:
  assumes "2 \<le> b" "0 < n"
  shows "b ^ (ndig b n - 1) \<le> n \<and> n < b ^ ndig b n \<and> 0 < ndig b n"
  using assms
proof (induction b n rule: ndig.induct)
  case (1 b n)
  show ?case
  proof (cases "n div b = 0")
    case True
    then have "n < b" using "1.prems" by (simp add: div_eq_0_iff)
    then show ?thesis using "1.prems" True
      by (simp add: ndig.simps [of b n] ndig.simps [of b 0])
  next
    case False
    then have IH: "b ^ (ndig b (n div b) - 1) \<le> n div b" "n div b < b ^ ndig b (n div b)"
      "0 < ndig b (n div b)" using "1.IH" "1.prems" by auto
    have e: "ndig b n = Suc (ndig b (n div b))" using "1.prems" by (simp add: ndig.simps [of b n])
    have "b ^ ndig b (n div b) = b ^ (ndig b (n div b) - 1) * b"
      using IH(3) by (metis power_minus_mult)
    also have "\<dots> \<le> n" using IH(1) by (metis div_times_less_eq_dividend le_trans mult_le_mono1)
    finally have lo: "b ^ ndig b (n div b) \<le> n" .
    have "n < b ^ ndig b (n div b) * b"
      using IH(2) "1.prems"(1) by (simp add: div_less_iff_less_mult)
    then show ?thesis using lo e by (simp add: mult.commute)
  qed
qed

definition flog :: "nat \<Rightarrow> rat \<Rightarrow> int" where
  "flog b x = (let (n, d) = quotient_of x;
                   k = int (ndig b (nat n)) - int (ndig b (nat d))
               in if of_nat b powi k \<le> x then k else k - 1)"

lemma flog_bounds:
  assumes b: "2 \<le> b" and x: "0 < x"
  shows "of_nat b powi flog b x \<le> x \<and> x < of_nat b powi (flog b x + 1)"
proof -
  obtain n d where q: "quotient_of x = (n, d)" by fastforce
  have d: "0 < d" using q by (rule quotient_of_denom_pos)
  have xe: "x = of_int n / of_int d" using q by (rule quotient_of_div)
  have n: "0 < n" using x d xe by (simp add: zero_less_divide_iff)
  define i j where "i = ndig b (nat n)" and "j = ndig b (nat d)"
  have B: "(1::rat) < of_nat b" using b by simp
  have bn: "b ^ (i - 1) \<le> nat n" "nat n < b ^ i" "0 < i"
    using ndig_bounds [OF b, of "nat n"] n by (auto simp: i_def)
  have bd: "b ^ (j - 1) \<le> nat d" "nat d < b ^ j" "0 < j"
    using ndig_bounds [OF b, of "nat d"] d by (auto simp: j_def)
  have N: "of_nat b ^ (i - 1) \<le> (of_int n :: rat)" "(of_int n :: rat) < of_nat b ^ i"
    using bn(1,2) n by (metis of_nat_power of_nat_le_iff of_nat_less_iff of_nat_nat order_less_imp_le of_int_of_nat_eq)+
  have D: "of_nat b ^ (j - 1) \<le> (of_int d :: rat)" "(of_int d :: rat) < of_nat b ^ j"
    using bd(1,2) d by (metis of_nat_power of_nat_le_iff of_nat_less_iff of_nat_nat order_less_imp_le of_int_of_nat_eq)+
  have up: "x < of_nat b powi (int i - int j + 1)"
  proof -
    have "x < of_nat b ^ i / of_nat b ^ (j - 1)"
      unfolding xe using N(2) D(1) B n d
      by (intro frac_less) (auto intro: order_less_imp_le)
    also have "\<dots> = of_nat b powi (int i - int j + 1)"
      using B bd(3) by (simp add: power_int_diff power_int_add of_nat_diff divide_simps power_eq_if)
    finally show ?thesis .
  qed
  have lo: "of_nat b powi (int i - int j - 1) \<le> x"
  proof -
    have "of_nat b powi (int i - int j - 1) = (of_nat b :: rat) powi int (i - 1) / of_nat b powi int j"
      using B bn(3) power_int_diff [of "of_nat b :: rat" "int i - 1" "int j"]
      by (simp add: of_nat_diff algebra_simps)
    also have "\<dots> = of_nat b ^ (i - 1) / of_nat b ^ j" by simp
    also have "\<dots> \<le> x"
      unfolding xe using N(1) D(2) B d n by (intro frac_le) auto
    finally show ?thesis .
  qed
  show ?thesis
    using lo up by (auto simp: flog_def q Let_def i_def j_def)
qed

lemma flog_unique:
  assumes b: "2 \<le> b" and "0 < x" "of_nat b powi e \<le> x" "x < of_nat b powi (e + 1)"
  shows "flog b x = e"
proof -
  have B: "(1::rat) < of_nat b" using b by simp
  have "(of_nat b :: rat) powi e < of_nat b powi (flog b x + 1)"
    "(of_nat b :: rat) powi (flog b x) < of_nat b powi (e + 1)"
    using flog_bounds [OF b assms(2)] assms by (auto intro: le_less_trans)
  then have "e < flog b x + 1" "flog b x < e + 1"
    using B by (meson power_int_increasing linorder_not_le order_less_imp_le)+
  then show ?thesis by simp
qed


subsection \<open>Rounding to p significant digits\<close>

definition rnd :: "nat \<Rightarrow> nat \<Rightarrow> rat \<Rightarrow> rat" where
  "rnd b p x = (if x = 0 then 0
     else let u = of_nat b powi (flog b \<bar>x\<bar> - int p + 1) in of_int (rhe (x / u)) * u)"

definition representable :: "nat \<Rightarrow> nat \<Rightarrow> rat \<Rightarrow> bool" where
  "representable b p x \<longleftrightarrow> (\<exists>m e. x = of_int m * of_nat b powi e \<and> \<bar>m\<bar> \<le> int b ^ p)"

lemma rnd_0 [simp]: "rnd b p 0 = 0"
  by (simp add: rnd_def)

lemma rnd_minus [simp]: "rnd b p (- x) = - rnd b p x"
  by (simp add: rnd_def Let_def rhe_minus)

lemma rnd_pos_bounds:
  assumes b: "2 \<le> b" and p: "0 < p" and x: "0 < x"
  shows "of_nat b powi flog b x \<le> rnd b p x \<and> rnd b p x \<le> of_nat b powi (flog b x + 1)"
proof -
  define e where "e = flog b x"
  define u :: rat where "u = of_nat b powi (e - int p + 1)"
  have B: "(1::rat) < of_nat b" using b by simp
  have u: "0 < u" using B by (simp add: u_def)
  have lo: "of_nat b powi e = of_int (int b ^ (p - 1)) * u"
    using B p by (simp add: u_def power_int_add [symmetric] of_nat_diff flip: power_int_of_nat)
  have hi: "of_nat b powi (e + 1) = of_int (int b ^ p) * u"
    using B p by (simp add: u_def power_int_add [symmetric] flip: power_int_of_nat)
  have "of_nat b powi e \<le> x" "x < of_nat b powi (e + 1)"
    using flog_bounds [OF b x] by (simp_all add: e_def)
  then have "of_int (int b ^ (p - 1)) \<le> x / u" "x / u \<le> of_int (int b ^ p)"
    using u unfolding lo hi by (simp_all add: pos_le_divide_eq pos_divide_le_eq order_less_imp_le)
  then have "int b ^ (p - 1) \<le> rhe (x / u)" "rhe (x / u) \<le> int b ^ p"
    by (metis rhe_mono rhe_of_int)+
  then have "of_int (int b ^ (p - 1)) * u \<le> of_int (rhe (x / u)) * u"
    "of_int (rhe (x / u)) * u \<le> of_int (int b ^ p) * u"
    using u by (simp_all only: mult_le_cancel_right_pos of_int_le_iff)
  then show ?thesis
    unfolding lo [symmetric] hi [symmetric] using x by (simp add: rnd_def Let_def e_def u_def)
qed


lemma rnd_pos [simp]:
  assumes b: "2 \<le> b" and p: "0 < p" and x: "0 < x"
  shows "0 < rnd b p x"
proof -
  have "(0::rat) < of_nat b powi flog b x" using b by simp
  then show ?thesis using rnd_pos_bounds [OF b p x] by linarith
qed

lemma rnd_mono_pos:
  assumes b: "2 \<le> b" and p: "0 < p" and x: "0 < x" and xy: "x \<le> y"
  shows "rnd b p x \<le> rnd b p y"
proof (cases "flog b x = flog b y")
  case True
  define u :: rat where "u = of_nat b powi (flog b y - int p + 1)"
  have u: "0 < u" using b by (simp add: u_def)
  have "rhe (x / u) \<le> rhe (y / u)" using u xy by (intro rhe_mono divide_right_mono) auto
  then have "of_int (rhe (x / u)) * u \<le> of_int (rhe (y / u)) * u"
    using u by (simp add: mult_right_mono)
  then show ?thesis using x xy True by (simp add: rnd_def Let_def u_def)
next
  case False
  have y: "0 < y" using x xy by linarith
  have B: "(1::rat) < of_nat b" using b by simp
  have "of_nat b powi flog b x < (of_nat b :: rat) powi (flog b y + 1)"
    using flog_bounds [OF b x] flog_bounds [OF b y] xy by linarith
  then have "flog b x < flog b y + 1"
    using B by (meson power_int_increasing linorder_not_le order_less_imp_le)
  with False have "(of_nat b :: rat) powi (flog b x + 1) \<le> of_nat b powi flog b y"
    using B by (intro power_int_increasing) auto
  then show ?thesis using rnd_pos_bounds [OF b p x] rnd_pos_bounds [OF b p y] by linarith
qed

lemma rnd_mono:
  assumes b: "2 \<le> b" and p: "0 < p" and xy: "x \<le> y"
  shows "rnd b p x \<le> rnd b p y"
proof -
  consider "0 < x" | "y < 0" | "x \<le> 0" "0 \<le> y" using xy by linarith
  then show ?thesis
  proof cases
    case 1
    then show ?thesis using rnd_mono_pos [OF b p _ xy] by simp
  next
    case 2
    then have "rnd b p (- y) \<le> rnd b p (- x)" using xy by (intro rnd_mono_pos [OF b p]) auto
    then show ?thesis by simp
  next
    case 3
    have "rnd b p x \<le> 0" using rnd_pos [OF b p, of "- x"] 3 by (cases "x = 0") auto
    moreover have "0 \<le> rnd b p y" using rnd_pos [OF b p, of y] 3 by (cases "y = 0") auto
    ultimately show ?thesis by linarith
  qed
qed

lemma representable_minus [simp]: "representable b p (- x) \<longleftrightarrow> representable b p x"
proof -
  have "representable b p (- x)" if "representable b p x" for x
    using that unfolding representable_def
    by (metis abs_minus_cancel mult_minus_left of_int_minus)
  then show ?thesis by (metis minus_minus)
qed

lemma representable_rnd_pos:
  assumes b: "2 \<le> b" and p: "0 < p" and x: "0 < x"
  shows "representable b p (rnd b p x)"
proof -
  define u :: rat where "u = of_nat b powi (flog b x - int p + 1)"
  have r: "rnd b p x = of_int (rhe (x / u)) * u" using x by (simp add: rnd_def Let_def u_def)
  have u: "0 < u" using b by (simp add: u_def)
  have hi: "of_nat b powi (flog b x + 1) = of_int (int b ^ p) * u"
    using b by (simp add: u_def power_int_add [symmetric] flip: power_int_of_nat)
  have "of_int (rhe (x / u)) * u \<le> of_int (int b ^ p) * u"
    using rnd_pos_bounds [OF assms] unfolding r hi by simp
  then have "rhe (x / u) \<le> int b ^ p" using u by (simp only: mult_le_cancel_right_pos of_int_le_iff)
  moreover have "0 < of_int (rhe (x / u)) * u" using rnd_pos [OF assms] unfolding r .
  then have "0 < rhe (x / u)" using u by (simp add: zero_less_mult_iff)
  ultimately show ?thesis unfolding representable_def r u_def by (metis abs_of_pos)
qed

lemma representable_0 [simp]: "representable b p 0"
  unfolding representable_def by (intro exI [of _ "0::int"]) auto

lemma representable_rnd:
  assumes b: "2 \<le> b" and p: "0 < p"
  shows "representable b p (rnd b p x)"
proof -
  consider "x = 0" | "0 < x" | "0 < - x" by linarith
  then show ?thesis
    by cases (use representable_rnd_pos [OF b p, of x] representable_rnd_pos [OF b p, of "- x"] in simp_all)
qed

lemma rnd_exact_pos:
  assumes b: "2 \<le> b" and p: "0 < p" and m: "0 < m" "m \<le> int b ^ p"
  shows "rnd b p (of_int m * of_nat b powi e) = of_int m * of_nat b powi e"
proof -
  define x :: rat where "x = of_int m * of_nat b powi e"
  define u :: rat where "u = of_nat b powi (flog b x - int p + 1)"
  have B: "(1::rat) < of_nat b" using b by simp
  have x: "0 < x" using b m by (simp add: x_def)
  have u: "0 < u" using b by (simp add: u_def)
  have r: "rnd b p x = of_int (rhe (x / u)) * u" using x by (simp add: rnd_def Let_def u_def)
  show ?thesis
  proof (cases "m = int b ^ p")
    case True
    have "x = of_nat b powi (int p + e)"
      using B by (simp add: x_def True power_int_add flip: power_int_of_nat)
    moreover have "flog b x = int p + e"
      using B x by (intro flog_unique [OF b]) (auto simp: calculation intro!: power_int_strict_increasing)
    ultimately have "x / u = of_int (int b ^ (p - 1))"
      using B p by (simp add: u_def power_int_diff [symmetric] of_nat_diff flip: power_int_of_nat)
    then have "rnd b p x = x / u * u" unfolding r by (metis rhe_of_int)
    then show ?thesis using u by (simp add: x_def)
  next
    case False
    have "(of_int m :: rat) < of_int (int b ^ p)" using m False by (simp only: of_int_less_iff)
    then have "x < of_int (int b ^ p) * of_nat b powi e"
      using B unfolding x_def by (intro mult_strict_right_mono) auto
    also have "\<dots> = of_nat b powi (int p + e)"
      using B by (simp add: power_int_add flip: power_int_of_nat)
    finally have "of_nat b powi flog b x < (of_nat b :: rat) powi (int p + e)"
      using flog_bounds [OF b x] by linarith
    then have "flog b x < int p + e"
      using B by (meson power_int_increasing linorder_not_le order_less_imp_le)
    then obtain k where "e - (flog b x - int p + 1) = int k"
      by (rule_tac nonneg_int_cases [of "e - (flog b x - int p + 1)"]) auto
    then have k: "e = flog b x - int p + 1 + int k" by simp
    have "of_nat b powi e = of_nat b ^ k * u"
      using B by (simp add: u_def k power_int_add)
    then have "x / u = of_int (m * int b ^ k)"
      using u by (simp add: x_def)
    then have "rnd b p x = x / u * u" unfolding r by (metis rhe_of_int)
    then show ?thesis using u by (simp add: x_def)
  qed
qed

lemma rnd_exact:
  assumes b: "2 \<le> b" and p: "0 < p" and x: "representable b p x"
  shows "rnd b p x = x"
proof -
  obtain m e where xe: "x = of_int m * of_nat b powi e" and m: "\<bar>m\<bar> \<le> int b ^ p"
    using x unfolding representable_def by blast
  consider "m = 0" | "0 < m" | "0 < - m" by linarith
  then show ?thesis
  proof cases
    case 3
    then have "rnd b p (- x) = - x"
      using rnd_exact_pos [OF b p, of "- m" e] m unfolding xe by simp
    then show ?thesis by simp
  qed (use m xe rnd_exact_pos [OF b p, of m e] in auto)
qed


subsection \<open>The interface of a rounded arithmetic\<close>

locale rounded =
  fixes round_to :: "rat \<Rightarrow> rat"
    and exact :: "rat \<Rightarrow> bool"
  assumes round_mono: "x \<le> y \<Longrightarrow> round_to x \<le> round_to y"
    and round_neg: "round_to (- x) = - round_to x"
    and round_positive: "0 < x \<Longrightarrow> 0 < round_to x"
    and exact_round: "exact (round_to x)"
    and round_exact: "exact x \<Longrightarrow> round_to x = x"
begin

lemma round_zero: "round_to 0 = 0"
  using round_neg [of 0] by simp

lemma round_gt_0: "0 < round_to x \<longleftrightarrow> 0 < x"
  using round_positive [of x] round_positive [of "- x"] round_zero round_neg [of x]
  by (cases x "0 :: rat" rule: linorder_cases) auto

lemma round_lt_0: "round_to x < 0 \<longleftrightarrow> x < 0"
  using round_gt_0 [of "- x"] by (simp add: round_neg)

lemma round_ge_0: "0 \<le> round_to x \<longleftrightarrow> 0 \<le> x"
  using round_lt_0 [of x] by (simp add: not_less [symmetric])

lemma round_le_0: "round_to x \<le> 0 \<longleftrightarrow> x \<le> 0"
  using round_gt_0 [of x] by (simp add: not_less [symmetric])

lemma round_eq_0: "round_to x = 0 \<longleftrightarrow> x = 0"
  using round_ge_0 [of x] round_le_0 [of x] by (auto simp: order_eq_iff)

lemmas round_signs = round_zero round_gt_0 round_lt_0 round_ge_0 round_le_0 round_eq_0

lemma round_idem: "round_to (round_to x) = round_to x"
  by (rule round_exact) (rule exact_round)

lemma round_le_exact: "x \<le> l \<Longrightarrow> exact l \<Longrightarrow> round_to x \<le> l"
  using round_mono [of x l] round_exact [of l] by simp

lemma exact_le_round: "l \<le> x \<Longrightarrow> exact l \<Longrightarrow> l \<le> round_to x"
  using round_mono [of l x] round_exact [of l] by simp

lemma exact_less_roundD: "exact l \<Longrightarrow> l < round_to x \<Longrightarrow> l < x"
  using round_le_exact [of x l] by linarith

lemma round_less_exactD: "exact l \<Longrightarrow> round_to x < l \<Longrightarrow> x < l"
  using exact_le_round [of l x] by linarith

lemma exact_neg: "exact x \<Longrightarrow> exact (- x)"
  using exact_round [of "- x"] by (simp add: round_neg round_exact)

lemma exact_zero: "exact 0"
  using exact_round [of 0] by (simp add: round_zero)

lemma exact_iff: "exact x \<longleftrightarrow> round_to x = x"
  using exact_round [of x] round_exact [of x] by auto

end

lemma rounded_rnd: "2 \<le> b \<Longrightarrow> 0 < p \<Longrightarrow> rounded (rnd b p) (representable b p)"
  by unfold_locales (auto simp: rnd_mono representable_rnd rnd_exact)

lemma representable_int: "\<bar>n\<bar> \<le> int b ^ p \<Longrightarrow> representable b p (of_int n)"
  unfolding representable_def by (rule exI [of _ n], rule exI [of _ 0]) auto

text \<open>A quotient with a denominator that divides a power of the base.\<close>

lemma representable_frac:
  assumes b: "2 \<le> b" and n: "0 < n" "n dvd int b ^ k"
    and m: "\<bar>m * (int b ^ k div n)\<bar> \<le> int b ^ p"
  shows "representable b p (of_int m / of_int n)"
proof -
  have "(of_int (int b ^ k div n) :: rat) = of_int (int b ^ k) / of_int n"
    using n(2) by (rule of_int_div)
  then have "of_int m / of_int n = of_int (m * (int b ^ k div n)) * (of_nat b :: rat) powi (- int k)"
    using b n(1) by (simp add: power_int_minus field_simps)
  then show ?thesis using m unfolding representable_def by blast
qed

end
