(* ===== verification/Decimal_Context.thy ===== *)
theory Decimal_Context
  imports Rounding
begin

text \<open>
  Python's \<open>Decimal\<close> and \<open>float\<close> values as the rationals they denote. Every arithmetic
  operator of \<open>Decimal\<close> rounds its exact result to the context's 28 digits (\<open>dround\<close>);
  comparisons, \<open>max\<close>, \<open>min\<close> and the constructors from \<open>str\<close> and \<open>int\<close> are exact.
  Binary64 operators round to 53 bits (\<open>fround\<close>).
\<close>

type_synonym decimal = rat

named_theorems decimal_eval \<open>evaluation of closed decimal arithmetic\<close>

definition dround :: "rat \<Rightarrow> decimal" where
  "dround = rnd 10 28"

definition dexact :: "rat \<Rightarrow> bool" where
  "dexact = representable 10 28"

definition fround :: "rat \<Rightarrow> rat" where
  "fround = rnd 2 53"

definition fexact :: "rat \<Rightarrow> bool" where
  "fexact = representable 2 53"

interpretation dec: rounded dround dexact
  unfolding dround_def dexact_def by (rule rounded_rnd) auto

interpretation flt: rounded fround fexact
  unfolding fround_def fexact_def by (rule rounded_rnd) auto

declare dec.round_signs [simp] dec.round_neg [simp] dec.round_idem [simp]
  dec.exact_round [simp] dec.exact_zero [simp]
declare flt.round_signs [simp] flt.round_neg [simp] flt.round_idem [simp]
  flt.exact_round [simp] flt.exact_zero [simp]

subsection \<open>The operators\<close>

definition dadd :: "decimal \<Rightarrow> decimal \<Rightarrow> decimal" where
  "dadd x y = dround (x + y)"

definition dsub :: "decimal \<Rightarrow> decimal \<Rightarrow> decimal" where
  "dsub x y = dround (x - y)"

definition dmul :: "decimal \<Rightarrow> decimal \<Rightarrow> decimal" where
  "dmul x y = dround (x * y)"

definition ddiv :: "decimal \<Rightarrow> decimal \<Rightarrow> decimal" where
  \<comment> \<open>Python raises on a zero divisor: every use stands under the guard the code has\<close>
  "ddiv x y = dround (x / y)"

definition dneg :: "decimal \<Rightarrow> decimal" where
  "dneg x = dround (- x)"

definition dabs :: "decimal \<Rightarrow> decimal" where
  "dabs x = dround \<bar>x\<bar>"

definition dsum :: "decimal list \<Rightarrow> decimal" where
  \<comment> \<open>\<open>sum(xs, Decimal(0))\<close>: from the left\<close>
  "dsum xs = foldl dadd 0 xs"

lemmas dec_ops = dadd_def dsub_def dmul_def ddiv_def dneg_def dabs_def

subsection \<open>Order and sign of rounded results\<close>

lemma dround_mono: "x \<le> y \<Longrightarrow> dround x \<le> dround y"
  by (rule dec.round_mono)

lemma dadd_mono: "a \<le> c \<Longrightarrow> b \<le> d \<Longrightarrow> dadd a b \<le> dadd c d"
  unfolding dadd_def by (intro dround_mono add_mono)

lemma dsub_mono: "a \<le> c \<Longrightarrow> d \<le> b \<Longrightarrow> dsub a b \<le> dsub c d"
  unfolding dsub_def by (intro dround_mono diff_mono)

lemma dmul_mono: "a \<le> c \<Longrightarrow> b \<le> d \<Longrightarrow> 0 \<le> a \<Longrightarrow> 0 \<le> b \<Longrightarrow> dmul a b \<le> dmul c d"
  unfolding dmul_def by (intro dround_mono mult_mono) auto

lemma ddiv_mono: "a \<le> c \<Longrightarrow> 0 < b \<Longrightarrow> ddiv a b \<le> ddiv c b"
  unfolding ddiv_def by (intro dround_mono divide_right_mono) auto

lemma dexact_ops [simp]:
  "dexact (dadd x y)" "dexact (dsub x y)" "dexact (dmul x y)" "dexact (ddiv x y)"
  "dexact (dneg x)" "dexact (dabs x)"
  by (simp_all add: dec_ops dec.exact_neg)

lemma dadd_nonneg [simp]: "0 \<le> x \<Longrightarrow> 0 \<le> y \<Longrightarrow> 0 \<le> dadd x y"
  and dadd_pos: "0 < x \<Longrightarrow> 0 \<le> y \<Longrightarrow> 0 < dadd x y"
  by (simp_all add: dadd_def)

lemma dsub_sign [simp]:
  "0 < dsub x y \<longleftrightarrow> y < x" "dsub x y < 0 \<longleftrightarrow> x < y" "dsub x y = 0 \<longleftrightarrow> x = y"
  "0 \<le> dsub x y \<longleftrightarrow> y \<le> x" "dsub x y \<le> 0 \<longleftrightarrow> x \<le> y"
  by (simp_all add: dsub_def)

lemma dmul_sign [simp]:
  "0 < dmul x y \<longleftrightarrow> 0 < x * y" "dmul x y < 0 \<longleftrightarrow> x * y < 0" "dmul x y = 0 \<longleftrightarrow> x = 0 \<or> y = 0"
  "0 \<le> dmul x y \<longleftrightarrow> 0 \<le> x * y" "dmul x y \<le> 0 \<longleftrightarrow> x * y \<le> 0"
  by (simp_all add: dmul_def)

lemma ddiv_sign [simp]:
  "0 < ddiv x y \<longleftrightarrow> 0 < x / y" "ddiv x y < 0 \<longleftrightarrow> x / y < 0" "ddiv x y = 0 \<longleftrightarrow> x = 0 \<or> y = 0"
  "0 \<le> ddiv x y \<longleftrightarrow> 0 \<le> x / y" "ddiv x y \<le> 0 \<longleftrightarrow> x / y \<le> 0"
  by (simp_all add: ddiv_def)

lemma dabs_nonneg [simp]: "0 \<le> dabs x"
  by (simp add: dabs_def)

lemma dneg_sign [simp]:
  "0 < dneg x \<longleftrightarrow> x < 0" "dneg x < 0 \<longleftrightarrow> 0 < x" "dneg x = 0 \<longleftrightarrow> x = 0"
  "0 \<le> dneg x \<longleftrightarrow> x \<le> 0" "dneg x \<le> 0 \<longleftrightarrow> 0 \<le> x"
  by (simp_all add: dneg_def)

lemma dadd_zero: "dexact x \<Longrightarrow> dadd x 0 = x" "dexact x \<Longrightarrow> dadd 0 x = x"
  by (simp_all add: dadd_def dec.round_exact)

lemma dadd_commute: "dadd x y = dadd y x"
  by (simp add: dadd_def add.commute)

lemma dsub_self [simp]: "dsub x x = 0"
  by (simp add: dsub_def)

lemma dmul_zero [simp]: "dmul 0 x = 0" "dmul x 0 = 0"
  by (simp_all add: dmul_def)

lemma ddiv_zero [simp]: "ddiv 0 x = 0"
  by (simp add: ddiv_def)

lemma ddiv_le_1: "0 \<le> x \<Longrightarrow> x \<le> y \<Longrightarrow> 0 < y \<Longrightarrow> ddiv x y \<le> 1"
proof -
  have "dexact 1" unfolding dexact_def using representable_int [of 1 10 28] by simp
  moreover assume "0 \<le> x" "x \<le> y" "0 < y"
  then have "x / y \<le> 1" by simp
  ultimately show ?thesis unfolding ddiv_def by (simp add: dec.round_le_exact)
qed

lemma foldl_dadd_nonneg: "0 \<le> a \<Longrightarrow> \<forall>x \<in> set xs. 0 \<le> x \<Longrightarrow> 0 \<le> foldl dadd a xs"
  by (induction xs arbitrary: a) auto

lemma dsum_nonneg: "\<forall>x \<in> set xs. 0 \<le> x \<Longrightarrow> 0 \<le> dsum xs"
  by (simp add: dsum_def foldl_dadd_nonneg)

lemma dsum_Nil [simp]: "dsum [] = 0"
  by (simp add: dsum_def)

lemma dsum_snoc [simp]: "dsum (xs @ [x]) = dadd (dsum xs) x"
  by (simp add: dsum_def)

subsection \<open>Evaluation on concrete values\<close>

text \<open>
  Integers up to \<open>10 ^ 28\<close>, and fractions whose denominator divides \<open>10 ^ 18\<close>, are exact:
  with these rules \<open>simp\<close> evaluates closed decimal arithmetic.
\<close>

lemma dexact_numeral [decimal_eval]:
  "dexact 1" "(numeral n :: int) \<le> 10 ^ 28 \<Longrightarrow> dexact (numeral n)"
  "dexact (- 1)" "(numeral n :: int) \<le> 10 ^ 28 \<Longrightarrow> dexact (- numeral n)"
  using representable_int [of 1 10 28] representable_int [of "numeral n" 10 28]
  by (simp_all add: dexact_def)

lemma dexact_frac_int:
  assumes "0 < d" "d dvd 10 ^ 18" "\<bar>m\<bar> * (10 ^ 18 div d) \<le> 10 ^ 28"
  shows "dexact (of_int m / of_int d)" "dexact (- (of_int m / of_int d))"
proof -
  have "0 \<le> (10 ^ 18 :: int) div d" using assms(1) by (simp add: pos_imp_zdiv_nonneg_iff)
  then have "\<bar>m * (10 ^ 18 div d)\<bar> \<le> 10 ^ 28" using assms(3) by (simp add: abs_mult)
  then show "dexact (of_int m / of_int d)"
    using representable_frac [of 10 d 18 m 28] assms by (simp add: dexact_def)
  then show "dexact (- (of_int m / of_int d))" by (rule dec.exact_neg)
qed

lemma dexact_unit_frac:
  assumes "0 < d" "d dvd 10 ^ 18" shows "dexact (1 / of_int d)"
proof -
  have "10 ^ 18 div d \<le> 10 ^ 18 div 1" using assms(1) by (intro zdiv_mono2) auto
  then have "\<bar>1\<bar> * (10 ^ 18 div d) \<le> 10 ^ 28" by simp
  then show ?thesis using dexact_frac_int(1) [OF assms, of 1] by simp
qed

lemma dexact_frac [decimal_eval]:
  "(numeral d :: int) dvd 10 ^ 18 \<Longrightarrow> dexact (1 / numeral d)"
  "(numeral d :: int) dvd 10 ^ 18 \<Longrightarrow> dexact (- (1 / numeral d))"
  "(numeral d :: int) dvd 10 ^ 18 \<Longrightarrow> (numeral n :: int) * (10 ^ 18 div numeral d) \<le> 10 ^ 28 \<Longrightarrow>
     dexact (numeral n / numeral d)"
  "(numeral d :: int) dvd 10 ^ 18 \<Longrightarrow> (numeral n :: int) * (10 ^ 18 div numeral d) \<le> 10 ^ 28 \<Longrightarrow>
     dexact (- (numeral n / numeral d))"
  using dexact_unit_frac [of "numeral d"] dexact_frac_int [of "numeral d" "numeral n"]
  by (simp_all only: dec.exact_neg of_int_numeral abs_numeral zero_less_numeral)

lemma dround_exact [decimal_eval]: "dexact x \<Longrightarrow> dround x = x"
  by (rule dec.round_exact)

end
