(* ===== verification/Trading_Prelude.thy ===== *)
theory Trading_Prelude
  imports Decimal_Context
begin

text \<open>
  What every component shares: identifiers, results that carry the exception the source
  raises, Python's list slices, \<open>max\<close> and \<open>min\<close> over a sequence, and the clock.
\<close>

subsection \<open>Identifiers and results\<close>

type_synonym uuid = nat

type_synonym ('e, 'a) result = "'e + 'a"

named_theorems result_simps \<open>inversion of a computation that may raise\<close>

fun res_bind :: "('e, 'a) result \<Rightarrow> ('a \<Rightarrow> ('e, 'b) result) \<Rightarrow> ('e, 'b) result" where
  "res_bind (Inl e) f = Inl e"
| "res_bind (Inr x) f = f x"

definition raise_if :: "bool \<Rightarrow> 'e \<Rightarrow> ('e, unit) result" where
  "raise_if b e = (if b then Inl e else Inr ())"

lemma res_bind_Inr_iff [result_simps]:
  "res_bind m f = Inr y \<longleftrightarrow> (\<exists>x. m = Inr x \<and> f x = Inr y)"
  by (cases m) auto

lemma res_bind_Inl_iff [result_simps]:
  "res_bind m f = Inl e \<longleftrightarrow> m = Inl e \<or> (\<exists>x. m = Inr x \<and> f x = Inl e)"
  by (cases m) auto

lemma raise_if_iff [result_simps]:
  "raise_if b e = Inr u \<longleftrightarrow> \<not> b" "raise_if b e = Inl e' \<longleftrightarrow> b \<and> e' = e"
  by (auto simp: raise_if_def)

subsection \<open>Loops that may raise\<close>

fun run_steps :: "('s \<Rightarrow> 'i \<Rightarrow> ('e, 's) result) \<Rightarrow> 's \<Rightarrow> 'i list \<Rightarrow> ('e, 's) result" where
  "run_steps step s [] = Inr s"
| "run_steps step s (x # xs) = res_bind (step s x) (\<lambda>t. run_steps step t xs)"

lemma run_steps_append:
  "run_steps step s (xs @ ys) = res_bind (run_steps step s xs) (\<lambda>t. run_steps step t ys)"
proof (induction xs arbitrary: s)
  case (Cons x xs)
  then show ?case by (cases "step s x") auto
qed simp

lemma run_steps_cong:
  "(\<And>s x. x \<in> set xs \<Longrightarrow> f s x = g s x) \<Longrightarrow> run_steps f s xs = run_steps g s xs"
proof (induction xs arbitrary: s)
  case (Cons x xs)
  then show ?case by (cases "g s x") auto
qed simp

text \<open>A body that relates its states by a preorder: the loop relates its ends by it.\<close>

locale loop_progress =
  fixes step :: "'s \<Rightarrow> 'i \<Rightarrow> ('e, 's) result"
    and rel :: "'s \<Rightarrow> 's \<Rightarrow> bool"
  assumes rel_refl: "rel s s"
    and rel_trans: "rel s t \<Longrightarrow> rel t u \<Longrightarrow> rel s u"
    and step_rel: "step s x = Inr t \<Longrightarrow> rel s t"
begin

lemma run_rel: "run_steps step s xs = Inr t \<Longrightarrow> rel s t"
proof (induction xs arbitrary: s)
  case (Cons x xs)
  then show ?case by (auto simp: result_simps intro: rel_trans step_rel)
qed (simp add: rel_refl)

end

text \<open>A system that moves by a step relation: an invariant that every step keeps holds in every reachable state.\<close>

locale state_machine =
  fixes step :: "'s \<Rightarrow> 's \<Rightarrow> bool"
    and inv :: "'s \<Rightarrow> bool"
  assumes step_keeps: "inv s \<Longrightarrow> step s t \<Longrightarrow> inv t"
begin

lemma reachable_keeps: "step\<^sup>*\<^sup>* s t \<Longrightarrow> inv s \<Longrightarrow> inv t"
  by (induction rule: rtranclp_induct) (auto intro: step_keeps)

end

subsection \<open>Sequences\<close>

definition slice :: "nat \<Rightarrow> nat \<Rightarrow> 'a list \<Rightarrow> 'a list" where
  \<comment> \<open>\<open>xs[i:j]\<close> for non-negative bounds\<close>
  "slice i j xs = take (j - i) (drop i xs)"

definition last_n :: "nat \<Rightarrow> 'a list \<Rightarrow> 'a list" where
  \<comment> \<open>\<open>xs[-n:]\<close> for positive \<open>n\<close>\<close>
  "last_n n xs = drop (length xs - n) xs"

lemma length_slice [simp]: "length (slice i j xs) = min (j - i) (length xs - i)"
  by (simp add: slice_def)

lemma nth_slice: "i + k < j \<Longrightarrow> j \<le> length xs \<Longrightarrow> slice i j xs ! k = xs ! (i + k)"
  by (simp add: slice_def)

lemma slice_drop: "slice i j (drop k xs) = slice (i + k) (j + k) xs"
  by (simp add: slice_def add.commute)

lemma slice_append_left: "j \<le> length xs \<Longrightarrow> slice i j (xs @ ys) = slice i j xs"
  by (simp add: slice_def)

lemma length_last_n [simp]: "length (last_n n xs) = min n (length xs)"
  by (simp add: last_n_def)

lemma last_n_all: "length xs \<le> n \<Longrightarrow> last_n n xs = xs"
  by (simp add: last_n_def)

lemma set_slice: "x \<in> set (slice i j xs) \<Longrightarrow> x \<in> set xs"
  by (auto simp: slice_def dest!: in_set_takeD in_set_dropD)

lemma set_slice_eq:
  assumes "j \<le> length xs" shows "set (slice i j xs) = (!) xs ` {i..<j}"
proof -
  have "slice i j xs = map ((!) xs) [i..<j]"
    using assms by (intro nth_equalityI) (auto simp: nth_slice)
  then show ?thesis by simp
qed

fun seq_max :: "'a :: linorder list \<Rightarrow> 'a" where
  \<comment> \<open>\<open>max(iterable)\<close>; Python raises on an empty one, and every use has an element\<close>
  "seq_max [] = undefined"
| "seq_max (x # xs) = foldl max x xs"

fun seq_min :: "'a :: linorder list \<Rightarrow> 'a" where
  "seq_min [] = undefined"
| "seq_min (x # xs) = foldl min x xs"

lemma foldl_max_Max: "foldl max (x :: 'a :: linorder) xs = Max (insert x (set xs))"
proof (induction xs arbitrary: x)
  case (Cons y ys)
  have "foldl max x (y # ys) = Max (insert (max x y) (set ys))" by (simp add: Cons.IH)
  also have "\<dots> = Max (insert x (set (y # ys)))"
    by (cases "ys = []") (auto simp: max.assoc)
  finally show ?case .
qed simp

lemma foldl_min_Min: "foldl min (x :: 'a :: linorder) xs = Min (insert x (set xs))"
proof (induction xs arbitrary: x)
  case (Cons y ys)
  have "foldl min x (y # ys) = Min (insert (min x y) (set ys))" by (simp add: Cons.IH)
  also have "\<dots> = Min (insert x (set (y # ys)))"
    by (cases "ys = []") (auto simp: min.assoc)
  finally show ?case .
qed simp

lemma seq_max_Max: "xs \<noteq> [] \<Longrightarrow> seq_max xs = Max (set xs)"
  by (cases xs) (simp_all add: foldl_max_Max)

lemma seq_min_Min: "xs \<noteq> [] \<Longrightarrow> seq_min xs = Min (set xs)"
  by (cases xs) (simp_all add: foldl_min_Min)

lemma less_seq_min_iff: "xs \<noteq> [] \<Longrightarrow> y < seq_min xs \<longleftrightarrow> (\<forall>x \<in> set xs. y < x)"
  by (simp add: seq_min_Min)

lemma seq_max_less_iff: "xs \<noteq> [] \<Longrightarrow> seq_max xs < y \<longleftrightarrow> (\<forall>x \<in> set xs. x < y)"
  by (simp add: seq_max_Max)

lemma foldl_keeps:
  assumes "P a" "\<And>a x. x \<in> set xs \<Longrightarrow> P a \<Longrightarrow> P (f a x)"
  shows "P (foldl f a xs)"
  using assms by (induction xs arbitrary: a) auto

lemma sorted_hd_le: "sorted xs \<Longrightarrow> x \<in> set xs \<Longrightarrow> hd xs \<le> x"
  by (cases xs) auto

lemma sorted_le_last: "sorted xs \<Longrightarrow> x \<in> set xs \<Longrightarrow> x \<le> last xs"
  by (induction xs) auto

subsection \<open>The clock\<close>

text \<open>
  An aware UTC \<open>datetime\<close> is its number of microseconds since 1970-01-01, a \<open>timedelta\<close> a
  number of microseconds, a \<open>date\<close> a number of days.
\<close>

type_synonym datetime = int
type_synonym timedelta = int

definition seconds :: "int \<Rightarrow> timedelta" where
  "seconds s = s * 1000000"

definition day_length :: timedelta where
  "day_length = 86400 * 1000000"

definition date_of :: "datetime \<Rightarrow> int" where
  "date_of t = t div day_length"

definition weekday_of :: "int \<Rightarrow> int" where
  \<comment> \<open>Monday is 0, and day 0 was a Thursday\<close>
  "weekday_of d = (d + 3) mod 7"

definition total_seconds :: "timedelta \<Rightarrow> rat" where
  \<comment> \<open>a \<open>float\<close>: the quotient is rounded to binary64\<close>
  "total_seconds td = fround (of_int td / 1000000)"

lemma date_of_mono: "s \<le> t \<Longrightarrow> date_of s \<le> date_of t"
  by (simp add: date_of_def day_length_def zdiv_mono1)

lemma weekday_of_range: "0 \<le> weekday_of d \<and> weekday_of d < 7"
  by (simp add: weekday_of_def)

lemma total_seconds_0 [simp]: "total_seconds 0 = 0"
  by (simp add: total_seconds_def)

lemma total_seconds_mono: "s \<le> t \<Longrightarrow> total_seconds s \<le> total_seconds t"
  unfolding total_seconds_def by (rule flt.round_mono) (simp add: divide_right_mono)

lemma total_seconds_nonneg [simp]: "0 \<le> total_seconds t \<longleftrightarrow> 0 \<le> t"
  by (simp add: total_seconds_def)

end
