(* ===== verification/Market.thy ===== *)
theory Market
  imports Trading_Prelude
begin

text \<open>
  The market data the trading code reads: candles (\<open>app/models/market_data.py\<close>), instruments
  (\<open>app/models/instruments.py\<close>), timeframes (\<open>app/exchanges/types.py\<close>) and the aggregation
  of hourly candles (\<open>bar_aggregation.py\<close>).
\<close>

record candle =
  c_id :: uuid
  c_instrument :: uuid
  c_timeframe :: string
  c_open_time :: datetime
  c_close_time :: datetime
  c_open :: decimal
  c_high :: decimal
  c_low :: decimal
  c_close :: decimal
  c_volume :: "decimal option"
  c_final :: bool

record instrument =
  i_id :: uuid
  i_exchange :: uuid
  i_symbol :: string
  i_quote_asset :: string
  i_tick_size :: decimal
  i_step_size :: decimal
  i_min_quantity :: "decimal option"
  i_max_quantity :: "decimal option"

datatype signal_action = Buy | Sell | Hold

fun timeframe_seconds :: "string \<Rightarrow> nat option" where
  "timeframe_seconds tf =
     (if tf = ''1m'' then Some 60 else if tf = ''5m'' then Some 300
      else if tf = ''15m'' then Some 900 else if tf = ''30m'' then Some 1800
      else if tf = ''1h'' then Some 3600 else if tf = ''4h'' then Some 14400
      else if tf = ''1d'' then Some 86400 else None)"

definition timeframe_delta :: "string \<Rightarrow> (string, timedelta) result" where
  "timeframe_delta tf = (case timeframe_seconds tf of
     Some s \<Rightarrow> Inr (seconds (int s)) | None \<Rightarrow> Inl ''Unsupported timeframe'')"

definition candle_ok :: "candle \<Rightarrow> bool" where
  \<comment> \<open>the shape the ingestion code and the table's checks give a stored candle\<close>
  "candle_ok c \<longleftrightarrow> 0 < c_low c \<and> c_low c \<le> c_open c \<and> c_low c \<le> c_close c \<and>
     c_open c \<le> c_high c \<and> c_close c \<le> c_high c \<and> c_open_time c < c_close_time c"

lemma timeframe_seconds_pos: "timeframe_seconds tf = Some s \<Longrightarrow> 0 < s"
  by (auto split: if_splits)

declare timeframe_seconds.simps [simp del]

end
