(* ===== verification/Indicators.thy ===== *)
theory Indicators
  imports Market
begin

text \<open>
  The technical indicators of \<open>app/market_data/application/indicators.py\<close>. Periods are
  positive at every call site.
\<close>

subsection \<open>Average true range\<close>

definition true_range :: "candle \<Rightarrow> candle \<Rightarrow> decimal" where
  "true_range previous current =
     max (max (dsub (c_high current) (c_low current))
              (dabs (dsub (c_high current) (c_close previous))))
         (dabs (dsub (c_low current) (c_close previous)))"

definition true_ranges :: "candle list \<Rightarrow> decimal list" where
  "true_ranges candles = map (\<lambda>(p, c). true_range p c) (zip candles (tl candles))"

definition wilder_step :: "nat \<Rightarrow> decimal \<Rightarrow> decimal \<Rightarrow> decimal" where
  \<comment> \<open>\<open>(average * (period - 1) + value) / period\<close>\<close>
  "wilder_step period average value =
     ddiv (dadd (dmul average (of_nat (period - 1))) value) (of_nat period)"

definition mean_of :: "nat \<Rightarrow> decimal list \<Rightarrow> decimal" where
  "mean_of period xs = ddiv (dsum (take period xs)) (of_nat period)"

definition average_true_range :: "candle list \<Rightarrow> nat \<Rightarrow> decimal option" where
  "average_true_range candles period =
     (if length candles < period + 1 then None
      else let trs = true_ranges candles
           in Some (foldl (wilder_step period) (mean_of period trs) (drop period trs)))"

subsection \<open>Exponential moving average\<close>

definition ema_step :: "decimal \<Rightarrow> decimal \<Rightarrow> decimal \<Rightarrow> decimal" where
  "ema_step multiplier ema close = dadd (dmul (dsub close ema) multiplier) ema"

definition exponential_moving_average :: "candle list \<Rightarrow> nat \<Rightarrow> decimal option" where
  "exponential_moving_average candles period =
     (if length candles < period then None
      else let closes = map c_close candles;
               multiplier = ddiv 2 (of_nat (period + 1))
           in Some (foldl (ema_step multiplier) (mean_of period closes) (drop period closes)))"

subsection \<open>Relative strength index\<close>

definition price_changes :: "candle list \<Rightarrow> decimal list" where
  "price_changes candles =
     map (\<lambda>(p, c). dsub (c_close c) (c_close p)) (zip candles (tl candles))"

definition rsi_of :: "decimal \<Rightarrow> decimal \<Rightarrow> decimal" where
  "rsi_of avg_gain avg_loss =
     (if avg_loss = 0 then (if 0 < avg_gain then 100 else 50)
      else dsub 100 (ddiv 100 (dadd 1 (ddiv avg_gain avg_loss))))"

definition relative_strength_index :: "candle list \<Rightarrow> nat \<Rightarrow> decimal option" where
  "relative_strength_index candles period =
     (if length candles < period + 1 then None
      else let changes = price_changes candles;
               gains = map (\<lambda>c. max c 0) changes;
               losses = map (\<lambda>c. max (dneg c) 0) changes
           in Some (rsi_of
                (foldl (wilder_step period) (mean_of period gains) (drop period gains))
                (foldl (wilder_step period) (mean_of period losses) (drop period losses))))"

subsection \<open>Lemmas\<close>

lemma length_true_ranges [simp]: "length (true_ranges cs) = length cs - 1"
  by (simp add: true_ranges_def)

lemma true_range_nonneg: "0 \<le> true_range p c"
  by (simp add: true_range_def max.coboundedI2)

lemma true_ranges_nonneg: "x \<in> set (true_ranges cs) \<Longrightarrow> 0 \<le> x"
  by (auto simp: true_ranges_def true_range_nonneg)

lemma wilder_step_nonneg: "0 \<le> a \<Longrightarrow> 0 \<le> x \<Longrightarrow> 0 \<le> wilder_step n a x"
  by (simp add: wilder_step_def)

lemma mean_of_nonneg: "\<forall>x \<in> set xs. 0 \<le> x \<Longrightarrow> 0 \<le> mean_of n xs"
  using dsum_nonneg [of "take n xs"] by (simp add: mean_of_def zero_le_divide_iff)
    (blast dest: in_set_takeD)

lemma wilder_fold_nonneg:
  "\<forall>x \<in> set xs. 0 \<le> x \<Longrightarrow> 0 \<le> foldl (wilder_step n) (mean_of n xs) (drop m xs)"
  by (rule foldl_keeps) (auto simp: mean_of_nonneg wilder_step_nonneg dest: in_set_dropD)

lemma average_true_range_nonneg: "average_true_range cs n = Some a \<Longrightarrow> 0 \<le> a"
  by (auto simp: average_true_range_def Let_def true_ranges_nonneg wilder_fold_nonneg split: if_splits)

lemma average_true_range_defined: "average_true_range cs n = None \<longleftrightarrow> length cs \<le> n"
  by (auto simp: average_true_range_def Let_def)

lemma exponential_moving_average_defined:
  "exponential_moving_average cs n = None \<longleftrightarrow> length cs < n"
  by (auto simp: exponential_moving_average_def Let_def)

lemma relative_strength_index_defined: "relative_strength_index cs n = None \<longleftrightarrow> length cs \<le> n"
  by (auto simp: relative_strength_index_def Let_def)

lemma dexact_small [simp]: "dexact 1" "dexact 100"
  by (simp_all add: decimal_eval)

lemma rsi_of_range:
  assumes "0 \<le> g" "0 \<le> l" shows "0 \<le> rsi_of g l \<and> rsi_of g l \<le> 100"
proof (cases "l = 0")
  case False
  have ge1: "1 \<le> dadd 1 (ddiv g l)"
    using assms unfolding dadd_def by (intro dec.exact_le_round) auto
  then have "100 / dadd 1 (ddiv g l) \<le> 100" by (simp add: pos_divide_le_eq)
  then have "ddiv 100 (dadd 1 (ddiv g l)) \<le> 100" unfolding ddiv_def
    by (intro dec.round_le_exact) auto
  moreover have "0 \<le> ddiv 100 (dadd 1 (ddiv g l))" using ge1 by simp
  ultimately show ?thesis
    using False by (simp add: rsi_of_def dsub_def dec.round_le_exact)
qed (simp add: rsi_of_def)

text \<open>
  Where the intermediate products fit in 28 digits, Wilder's average stays below any bound
  on its inputs: the products of the bound with \<open>period - 1\<close> and \<open>period\<close> must be exact.
\<close>

lemma wilder_step_le:
  assumes "a \<le> h" "x \<le> h" "0 < n"
    and ex: "dexact h" "dexact (h * of_nat (n - 1))" "dexact (h * of_nat n)"
  shows "wilder_step n a x \<le> h"
proof -
  have "dmul a (of_nat (n - 1)) \<le> h * of_nat (n - 1)"
    unfolding dmul_def using assms(1) ex(2) by (intro dec.round_le_exact mult_right_mono) auto
  then have "dmul a (of_nat (n - 1)) + x \<le> h * of_nat n"
    using assms(2,3) by (simp add: of_nat_diff algebra_simps)
  then have "dadd (dmul a (of_nat (n - 1))) x \<le> h * of_nat n"
    unfolding dadd_def using ex(3) by (rule dec.round_le_exact)
  then have "dadd (dmul a (of_nat (n - 1))) x / of_nat n \<le> h"
    using assms(3) by (simp add: pos_divide_le_eq)
  then show ?thesis unfolding wilder_step_def ddiv_def using ex(1) by (rule dec.round_le_exact)
qed


lemma foldl_dadd_le:
  assumes "a \<le> h * of_nat j" "\<forall>x \<in> set xs. x \<le> h"
    and ex: "\<forall>k \<le> j + length xs. dexact (h * of_nat k)"
  shows "foldl dadd a xs \<le> h * of_nat (j + length xs)"
  using assms
proof (induction xs arbitrary: a j)
  case (Cons x xs)
  have "a + x \<le> h * of_nat (Suc j)" using Cons.prems(1,2) by (simp add: algebra_simps)
  moreover have "dexact (h * of_nat (Suc j))" using Cons.prems(3) by (auto simp del: of_nat_Suc)
  ultimately have "dadd a x \<le> h * of_nat (Suc j)"
    unfolding dadd_def by (rule dec.round_le_exact)
  then have "foldl dadd (dadd a x) xs \<le> h * of_nat (Suc j + length xs)"
    using Cons.prems(2,3) by (intro Cons.IH) auto
  then show ?case by simp
qed simp

lemma mean_of_le:
  assumes "\<forall>x \<in> set xs. x \<le> h" "0 < n" "n \<le> length xs"
    and ex: "\<forall>k \<le> n. dexact (h * of_nat k)"
  shows "mean_of n xs \<le> h"
proof -
  have "dsum (take n xs) \<le> h * of_nat n"
    using foldl_dadd_le [of 0 h 0 "take n xs"] assms unfolding dsum_def
    by (auto dest: in_set_takeD)
  then have "dsum (take n xs) / of_nat n \<le> h" using assms(2) by (simp add: pos_divide_le_eq)
  moreover have "dexact h" using ex assms(2) by (metis One_nat_def Suc_leI mult.right_neutral of_nat_1)
  ultimately show ?thesis unfolding mean_of_def ddiv_def by (rule dec.round_le_exact)
qed

text \<open>
  The average true range of candles whose true ranges stay below \<open>h\<close> lies between 0
  and \<open>h\<close>, with the context's rounding, as long as the multiples of \<open>h\<close> up to the period
  fit in 28 digits. Without that the last digit may exceed the bound.
\<close>

theorem average_true_range_bounds:
  assumes "average_true_range cs n = Some a" "0 < n"
    and "\<forall>x \<in> set (true_ranges cs). x \<le> h" "\<forall>k \<le> n. dexact (h * of_nat k)"
  shows "0 \<le> a \<and> a \<le> h"
proof -
  have len: "n \<le> length (true_ranges cs)"
    and a: "a = foldl (wilder_step n) (mean_of n (true_ranges cs)) (drop n (true_ranges cs))"
    using assms(1) by (auto simp: average_true_range_def Let_def split: if_splits)
  have h: "dexact h" using assms(2,4) by (metis One_nat_def Suc_leI mult.right_neutral of_nat_1)
  have "dexact (h * of_nat (n - 1))" using assms(4) by (meson diff_le_self)
  then have "a \<le> h"
    unfolding a using assms(2-4) len h
    by (intro foldl_keeps [where P = "\<lambda>a. a \<le> h"] mean_of_le wilder_step_le)
      (auto dest: in_set_dropD)
  then show ?thesis using average_true_range_nonneg [OF assms(1)] by simp
qed

text \<open>
  The relative strength index, when there are enough candles for one, lies
  between 0 and 100 whatever the prices, with every intermediate result rounded.
\<close>

theorem relative_strength_index_range:
  assumes "relative_strength_index cs n = Some r"
  shows "0 \<le> r \<and> r \<le> 100"
  using assms
  by (auto simp: relative_strength_index_def Let_def split: if_splits
      intro!: rsi_of_range wilder_fold_nonneg)

end
