(* ===== verification/Fills.thy ===== *)
theory Fills
  imports Market
begin

text \<open>
  Fill simulation and net-position accounting over in-memory values,
  \<open>app/trading/application/backtest_fill.py\<close>. Errors are the code of the
  \<open>BacktestFillError\<close> raised.
\<close>

datatype order_side = Buy_order | Sell_order
datatype position_side = Long | Short

record simulated_fill =
  sf_price :: decimal
  sf_quantity :: decimal
  sf_fee :: decimal

record backtest_position =
  bp_side :: position_side
  bp_quantity :: decimal
  bp_entry :: decimal

record fill_outcome =
  fo_position :: "backtest_position option"
  fo_realized_pnl :: decimal

fun side_of_signal :: "signal_action \<Rightarrow> order_side" where
  "side_of_signal Buy = Buy_order"
| "side_of_signal Sell = Sell_order"
| "side_of_signal Hold = undefined"

fun opening_side :: "order_side \<Rightarrow> position_side" where
  "opening_side Buy_order = Long"
| "opening_side Sell_order = Short"

fun closing_side :: "position_side \<Rightarrow> order_side" where
  "closing_side Long = Sell_order"
| "closing_side Short = Buy_order"

fun direction :: "position_side \<Rightarrow> decimal" where
  "direction Long = 1"
| "direction Short = - 1"

definition fee_buffer :: "string \<Rightarrow> decimal \<Rightarrow> decimal \<Rightarrow> (string, decimal) result" where
  "fee_buffer exchange_code price quantity =
     (if exchange_code = ''oanda'' then Inr 0
      else if exchange_code = ''binance'' then Inr (dmul (dmul price quantity) (1 / 1000))
      else Inl ''unsupported_exchange'')"

definition simulate_fill ::
  "string \<Rightarrow> order_side \<Rightarrow> decimal \<Rightarrow> decimal \<Rightarrow> decimal \<Rightarrow> (string, simulated_fill) result" where
  "simulate_fill exchange_code side candle_close quantity expected_slippage =
     (let fill_price = (if side = Buy_order then dadd candle_close expected_slippage
                        else dsub candle_close expected_slippage)
      in if fill_price \<le> 0 then Inl ''invalid_fill_price''
         else res_bind (fee_buffer exchange_code candle_close quantity) (\<lambda>fee.
           Inr \<lparr>sf_price = fill_price, sf_quantity = quantity, sf_fee = fee\<rparr>))"

definition apply_fill_to_position ::
  "backtest_position option \<Rightarrow> simulated_fill \<Rightarrow> order_side \<Rightarrow> bool \<Rightarrow>
     (string, fill_outcome) result" where
  "apply_fill_to_position position fill side allow_short = (case position of
     None \<Rightarrow>
       if opening_side side = Short \<and> \<not> allow_short then Inl ''short_not_supported''
       else Inr \<lparr>fo_position = Some \<lparr>bp_side = opening_side side, bp_quantity = sf_quantity fill,
                                     bp_entry = sf_price fill\<rparr>,
                 fo_realized_pnl = 0\<rparr>
   | Some p \<Rightarrow>
       if opening_side side = bp_side p then
         (let total_cost = dadd (dmul (bp_entry p) (bp_quantity p))
                                (dmul (sf_price fill) (sf_quantity fill));
              new_quantity = dadd (bp_quantity p) (sf_quantity fill)
          in Inr \<lparr>fo_position = Some (p\<lparr>bp_quantity := new_quantity,
                                       bp_entry := ddiv total_cost new_quantity\<rparr>),
                  fo_realized_pnl = 0\<rparr>)
       else
         (let closing_quantity = min (sf_quantity fill) (bp_quantity p);
              realized_pnl = dmul (dmul (dsub (sf_price fill) (bp_entry p)) closing_quantity)
                                  (direction (bp_side p));
              remainder = dsub (sf_quantity fill) (bp_quantity p)
          in if 0 < remainder then
               (if \<not> allow_short then Inl ''short_not_supported''
                else Inr \<lparr>fo_position = Some \<lparr>bp_side = opening_side side, bp_quantity = remainder,
                                              bp_entry = sf_price fill\<rparr>,
                          fo_realized_pnl = realized_pnl\<rparr>)
             else if remainder = 0 then
               Inr \<lparr>fo_position = None, fo_realized_pnl = realized_pnl\<rparr>
             else
               Inr \<lparr>fo_position = Some (p\<lparr>bp_quantity := dsub (bp_quantity p) (sf_quantity fill)\<rparr>),
                    fo_realized_pnl = realized_pnl\<rparr>))"

subsection \<open>Lemmas\<close>

definition signed_quantity :: "backtest_position option \<Rightarrow> decimal" where
  "signed_quantity position =
     (case position of None \<Rightarrow> 0 | Some p \<Rightarrow> direction (bp_side p) * bp_quantity p)"

definition fill_sign :: "order_side \<Rightarrow> decimal" where
  "fill_sign side = (if side = Buy_order then 1 else - 1)"

definition position_ok :: "backtest_position option \<Rightarrow> bool" where
  "position_ok position = (case position of None \<Rightarrow> True | Some p \<Rightarrow> 0 < bp_quantity p \<and> 0 < bp_entry p)"

definition long_or_flat :: "backtest_position option \<Rightarrow> bool" where
  "long_or_flat position = (case position of None \<Rightarrow> True | Some p \<Rightarrow> bp_side p = Long)"

definition held_quantity :: "backtest_position option \<Rightarrow> decimal" where
  "held_quantity position = (case position of None \<Rightarrow> 0 | Some p \<Rightarrow> bp_quantity p)"

lemma side_cases:
  "(opening_side side = ps) = (side = (case ps of Long \<Rightarrow> Buy_order | Short \<Rightarrow> Sell_order))"
  "(opening_side side = ps) = (side \<noteq> closing_side ps)"
  by (cases side; cases ps; simp)+

lemma opening_side_short: "opening_side side = Short \<longleftrightarrow> side = Sell_order"
  by (cases side) auto

lemma closing_side_iff [simp]: "closing_side ps = Sell_order \<longleftrightarrow> ps = Long" "closing_side ps = Buy_order \<longleftrightarrow> ps = Short"
  by (cases ps; simp)+

lemma position_side_neq: "(a :: position_side) \<noteq> Long \<longleftrightarrow> a = Short" "a \<noteq> Short \<longleftrightarrow> a = Long"
  by (cases a; simp)+

lemma simulate_fill_Inr:
  "simulate_fill ex side price q slip = Inr f \<Longrightarrow>
     0 < sf_price f \<and> sf_quantity f = q \<and> fee_buffer ex price q = Inr (sf_fee f)
     \<and> sf_price f = (if side = Buy_order then dadd price slip else dsub price slip)"
  by (auto simp: simulate_fill_def Let_def result_simps split: if_splits)

lemma fee_buffer_nonneg: "fee_buffer ex price q = Inr fee \<Longrightarrow> 0 \<le> price \<Longrightarrow> 0 \<le> q \<Longrightarrow> 0 \<le> fee"
  by (auto simp: fee_buffer_def split: if_splits)

lemma dsub_flip: "dsub x y = - dsub y x"
  unfolding dsub_def by (metis dec.round_neg minus_diff_eq)

text \<open>
  Net accounting: whatever the fill does, open, increase, reduce, close or
  flip, the signed quantity held afterwards is the signed quantity before plus the signed fill,
  rounded once.
\<close>

theorem apply_fill_signed_quantity:
  assumes "apply_fill_to_position pos fill side allow = Inr out"
    and "dexact (sf_quantity fill)"
  shows "signed_quantity (fo_position out)
       = dround (signed_quantity pos + fill_sign side * sf_quantity fill)"
proof (cases pos)
  case None
  then show ?thesis using assms
    by (cases side) (auto simp: apply_fill_to_position_def signed_quantity_def fill_sign_def
        dec.round_exact split: if_splits)
next
  case (Some p)
  show ?thesis
  proof (cases "opening_side side = bp_side p")
    case True
    then show ?thesis using assms(1) Some
      by (cases side) (auto simp: apply_fill_to_position_def signed_quantity_def fill_sign_def
          Let_def dadd_def dec.round_neg [symmetric] simp del: dec.round_neg)
  next
    case False
    then show ?thesis using assms(1) Some
      by (cases side; cases "bp_side p")
        (auto simp: apply_fill_to_position_def signed_quantity_def fill_sign_def
          Let_def dsub_def dec.round_neg [symmetric] simp del: dec.round_neg split: if_splits)
  qed
qed

text \<open>
  A fill of positive price and quantity keeps an open position's quantity and
  entry price positive.
\<close>

lemma apply_fill_position_ok:
  assumes "apply_fill_to_position pos fill side allow = Inr out" "position_ok pos"
    and "0 < sf_quantity fill" "0 < sf_price fill"
  shows "position_ok (fo_position out)"
  using assms
  by (auto simp: apply_fill_to_position_def position_ok_def Let_def dadd_pos
      intro!: divide_pos_pos split: option.splits if_splits)

text \<open>
  Without permission to short, a long or flat position stays long or flat, and the
  fill is refused exactly when it sells more than is held.
\<close>

lemma apply_fill_long_only:
  assumes "long_or_flat pos" "0 < sf_quantity fill"
  shows "(case apply_fill_to_position pos fill side False of
            Inr out \<Rightarrow> long_or_flat (fo_position out) \<and> (side = Buy_order \<or> sf_quantity fill \<le> held_quantity pos)
          | Inl e \<Rightarrow> e = ''short_not_supported'' \<and> side = Sell_order \<and> held_quantity pos < sf_quantity fill)"
  using assms
  by (cases side) (auto simp: apply_fill_to_position_def long_or_flat_def held_quantity_def Let_def
      split: option.splits if_splits)

end
