(* ===== verification/Risk_Gate.thy ===== *)
theory Risk_Gate
  imports Indicators Fills
begin

text \<open>
  The pure half of \<open>app/trading/application/risk_gate.py\<close>: the conservative-v1 numbers, the
  stop distance, position sizing and the threshold checks of \<open>_evaluate_conservative_v1\<close>.
  The JSON rules are a record (a missing key, which raises in the code, has no counterpart), and
  the string values of \<open>rule_results\<close> are the numbers they print.
\<close>

subsection \<open>The rules\<close>

record risk_rules =
  risk_per_trade :: decimal
  risk_per_trade_hard :: decimal
  all_open_risk_limit :: decimal
  all_open_risk_limit_hard :: decimal
  daily_loss_limit :: decimal
  daily_loss_limit_hard :: decimal
  weekly_loss_limit :: decimal
  weekly_loss_limit_hard :: decimal
  peak_drawdown_limit :: decimal
  peak_drawdown_limit_hard :: decimal
  consecutive_loss_limit :: nat
  consecutive_loss_limit_hard :: nat
  min_reward_risk :: decimal
  min_reward_risk_hard :: decimal
  min_order_interval_minutes :: nat
  min_order_interval_minutes_hard :: nat
  max_data_delay_bars :: nat
  max_data_delay_bars_hard :: nat
  oanda_leverage_cap :: decimal
  oanda_stop_atr_multiplier :: decimal
  oanda_stop_spread_multiplier :: decimal
  binance_stop_atr_multiplier :: decimal
  binance_stop_spread_multiplier :: decimal
  binance_fee_rate :: decimal
  binance_order_limit_pct :: decimal
  binance_btc_cap_pct :: decimal

definition conservative_v1_rules :: risk_rules where
  "conservative_v1_rules = \<lparr>
     risk_per_trade = 5 / 1000, risk_per_trade_hard = 2 / 100,
     all_open_risk_limit = 15 / 1000, all_open_risk_limit_hard = 5 / 100,
     daily_loss_limit = 2 / 100, daily_loss_limit_hard = 5 / 100,
     weekly_loss_limit = 4 / 100, weekly_loss_limit_hard = 8 / 100,
     peak_drawdown_limit = 5 / 100, peak_drawdown_limit_hard = 10 / 100,
     consecutive_loss_limit = 3, consecutive_loss_limit_hard = 7,
     min_reward_risk = 2, min_reward_risk_hard = 1,
     min_order_interval_minutes = 15, min_order_interval_minutes_hard = 1,
     max_data_delay_bars = 2, max_data_delay_bars_hard = 5,
     oanda_leverage_cap = 3, oanda_stop_atr_multiplier = 15 / 10,
     oanda_stop_spread_multiplier = 3,
     binance_stop_atr_multiplier = 2, binance_stop_spread_multiplier = 3,
     binance_fee_rate = 1 / 1000, binance_order_limit_pct = 10 / 100,
     binance_btc_cap_pct = 25 / 100\<rparr>"

definition atr_history_candles :: nat where
  "atr_history_candles = 260"

subsection \<open>Distances\<close>

definition fee_buffer_per_unit :: "string \<Rightarrow> decimal \<Rightarrow> risk_rules \<Rightarrow> (string, decimal) result" where
  "fee_buffer_per_unit exchange_code price rules =
     (if exchange_code = ''oanda'' then Inr 0
      else if exchange_code = ''binance'' then Inr (dmul price (binance_fee_rate rules))
      else Inl ''unsupported_exchange'')"

definition stop_distance_of ::
  "string \<Rightarrow> instrument \<Rightarrow> candle list \<Rightarrow> decimal \<Rightarrow> risk_rules \<Rightarrow> (string, decimal) result" where
  "stop_distance_of exchange_code instrument candles spread rules =
     (let atr = average_true_range candles 14;
          component = (\<lambda>atr_multiplier spread_multiplier.
            [case atr of Some a \<Rightarrow> dmul a atr_multiplier | None \<Rightarrow> 0, dmul spread spread_multiplier])
      in if exchange_code = ''oanda'' then
           Inr (seq_max (component (oanda_stop_atr_multiplier rules) (oanda_stop_spread_multiplier rules)
                         @ [dmul (i_tick_size instrument) 50]))
         else if exchange_code = ''binance'' then
           Inr (seq_max (component (binance_stop_atr_multiplier rules) (binance_stop_spread_multiplier rules)))
         else Inl ''KeyError'')"

subsection \<open>The state and the result of an evaluation\<close>

record risk_state =
  rs_action :: order_side
  rs_now :: datetime
  rs_rules :: risk_rules
  rs_exchange :: string
  rs_instrument :: instrument
  rs_market_price :: decimal
  rs_latest_close_time :: datetime
  rs_bar_seconds :: nat
  rs_stop_distance :: decimal
  rs_expected_slippage :: decimal
  rs_fee_per_unit :: decimal
  rs_equity :: decimal
  rs_available_cash :: decimal
  rs_existing_open_risk :: decimal
  rs_has_open_position :: bool
  rs_existing_quantity :: decimal
  rs_day_start_equity :: "decimal option"
  rs_week_start_equity :: "decimal option"
  rs_peak_equity :: "decimal option"
  rs_consecutive_losses :: nat
  rs_minutes_since_last_order :: "decimal option"

record rule_entry =
  re_name :: string
  re_passed :: bool
  re_values :: "(string \<times> decimal) list"

datatype risk_outcome = Allow | Allow_with_adjustment | Deny

record pure_risk_result =
  pr_rule_results :: "rule_entry list"
  pr_outcome :: risk_outcome
  pr_quantity :: "decimal option"
  pr_reason :: "string option"

record check_acc =
  ca_results :: "rule_entry list"
  ca_hard :: bool
  ca_initial :: bool

definition record_check :: "string \<Rightarrow> (string \<times> decimal) list \<Rightarrow> bool \<Rightarrow> bool \<Rightarrow> check_acc \<Rightarrow> check_acc" where
  \<comment> \<open>\<open>results[name] = {passed: not hard, ...}; if hard: ... elif initial: ...\<close>\<close>
  "record_check name values hard initial acc =
     \<lparr>ca_results = ca_results acc @ [\<lparr>re_name = name, re_passed = \<not> hard, re_values = values\<rparr>],
      ca_hard = (ca_hard acc \<or> hard),
      ca_initial = (ca_initial acc \<or> \<not> hard \<and> initial)\<rparr>"

subsection \<open>Position sizing\<close>

definition stress_adjusted_stop :: "risk_state \<Rightarrow> decimal" where
  "stress_adjusted_stop s = dadd (dadd (rs_stop_distance s) (rs_expected_slippage s)) (rs_fee_per_unit s)"

definition raw_quantity :: "risk_state \<Rightarrow> decimal" where
  "raw_quantity s =
     (let risk_budget = dmul (rs_equity s) (risk_per_trade (rs_rules s))
      in if 0 < stress_adjusted_stop s then ddiv risk_budget (stress_adjusted_stop s) else 0)"

definition exposure_limit_quantity :: "risk_state \<Rightarrow> decimal" where
  "exposure_limit_quantity s =
     (let all_open_limit_amount = dmul (rs_equity s) (all_open_risk_limit (rs_rules s));
          remaining_risk_budget = dsub all_open_limit_amount (rs_existing_open_risk s)
      in if 0 < remaining_risk_budget \<and> 0 < stress_adjusted_stop s
         then ddiv remaining_risk_budget (stress_adjusted_stop s) else 0)"

fun min_option :: "decimal option \<Rightarrow> decimal \<Rightarrow> decimal" where
  "min_option None x = x"
| "min_option (Some y) x = min y x"

definition broker_limit_quantity :: "risk_state \<Rightarrow> decimal option" where
  "broker_limit_quantity s =
     (let limit = i_max_quantity (rs_instrument s);
          limit = (if rs_exchange s = ''binance'' then
                     (let order_limit_notional = dmul (max 0 (rs_available_cash s)) (binance_order_limit_pct (rs_rules s));
                          q = (if 0 < rs_market_price s then ddiv order_limit_notional (rs_market_price s) else 0)
                      in Some (min_option limit q))
                   else limit)
      in if rs_exchange s = ''oanda'' then
           (let q = (if 0 < rs_market_price s
                     then ddiv (dmul (rs_equity s) (oanda_leverage_cap (rs_rules s))) (rs_market_price s) else 0)
            in Some (min_option limit q))
         else limit)"

definition round_down_to_step :: "decimal \<Rightarrow> decimal \<Rightarrow> decimal" where
  \<comment> \<open>\<open>(quantity / step).to_integral_value(ROUND_FLOOR) * step\<close>\<close>
  "round_down_to_step quantity step =
     (if 0 < step then dmul (of_int \<lfloor>ddiv quantity step\<rfloor>) step else quantity)"

definition sized_quantity :: "risk_state \<Rightarrow> decimal" where
  "sized_quantity s =
     (let candidates = [raw_quantity s, exposure_limit_quantity s]
            @ (case broker_limit_quantity s of None \<Rightarrow> [] | Some q \<Rightarrow> [q]);
          quantity = seq_min candidates;
          quantity = (if quantity < 0 then 0 else quantity)
      in round_down_to_step quantity (i_step_size (rs_instrument s)))"

definition quantity_too_small :: "risk_state \<Rightarrow> decimal \<Rightarrow> bool" where
  "quantity_too_small s quantity \<longleftrightarrow> quantity \<le> 0 \<or>
     (case i_min_quantity (rs_instrument s) of None \<Rightarrow> False | Some m \<Rightarrow> quantity < m)"

subsection \<open>The checks\<close>

definition check_sizing :: "risk_state \<Rightarrow> decimal \<Rightarrow> check_acc \<Rightarrow> check_acc" where
  "check_sizing s quantity = record_check ''quantity_calculation''
     ([(''raw_quantity'', raw_quantity s), (''exposure_limit_quantity'', exposure_limit_quantity s)]
      @ (case broker_limit_quantity s of None \<Rightarrow> [] | Some q \<Rightarrow> [(''broker_limit_quantity'', q)])
      @ [(''final_quantity'', quantity), (''stop_distance'', rs_stop_distance s),
         (''expected_slippage'', rs_expected_slippage s), (''fee_buffer_per_unit'', rs_fee_per_unit s)])
     (quantity_too_small s quantity) False"

definition loss_at_stop :: "risk_state \<Rightarrow> decimal \<Rightarrow> decimal" where
  "loss_at_stop s quantity = dmul quantity (stress_adjusted_stop s)"

definition loss_pct :: "risk_state \<Rightarrow> decimal \<Rightarrow> decimal" where
  "loss_pct s quantity = (if 0 < rs_equity s then ddiv (loss_at_stop s quantity) (rs_equity s) else 1)"

definition all_open_pct :: "risk_state \<Rightarrow> decimal \<Rightarrow> decimal" where
  "all_open_pct s quantity =
     (if 0 < rs_equity s then ddiv (dadd (rs_existing_open_risk s) (loss_at_stop s quantity)) (rs_equity s) else 1)"

definition check_upper :: "string \<Rightarrow> string \<Rightarrow> decimal \<Rightarrow> decimal \<Rightarrow> decimal \<Rightarrow> check_acc \<Rightarrow> check_acc" where
  "check_upper name label x initial hard = record_check name [(label, x)] (hard < x) (initial < x)"

definition check_loss :: "risk_state \<Rightarrow> decimal \<Rightarrow> check_acc \<Rightarrow> check_acc" where
  "check_loss s quantity = check_upper ''per_trade_loss'' ''pct'' (loss_pct s quantity)
     (risk_per_trade (rs_rules s)) (risk_per_trade_hard (rs_rules s))"

definition check_all_open :: "risk_state \<Rightarrow> decimal \<Rightarrow> check_acc \<Rightarrow> check_acc" where
  "check_all_open s quantity = check_upper ''all_open_risk'' ''pct'' (all_open_pct s quantity)
     (all_open_risk_limit (rs_rules s)) (all_open_risk_limit_hard (rs_rules s))"

definition decline_pct :: "decimal \<Rightarrow> decimal \<Rightarrow> decimal" where
  "decline_pct reference equity = max 0 (ddiv (dsub reference equity) reference)"

definition check_decline :: "string \<Rightarrow> decimal option \<Rightarrow> decimal \<Rightarrow> decimal \<Rightarrow> decimal \<Rightarrow> check_acc \<Rightarrow> check_acc" where
  "check_decline name reference equity initial hard = (case reference of
     None \<Rightarrow> record_check name [] False False
   | Some r \<Rightarrow> if r \<le> 0 then record_check name [] False False
               else check_upper name ''pct'' (decline_pct r equity) initial hard)"

definition check_windows :: "risk_state \<Rightarrow> check_acc \<Rightarrow> check_acc" where
  "check_windows s acc =
     check_decline ''weekly_loss'' (rs_week_start_equity s) (rs_equity s)
       (weekly_loss_limit (rs_rules s)) (weekly_loss_limit_hard (rs_rules s))
       (check_decline ''daily_loss'' (rs_day_start_equity s) (rs_equity s)
         (daily_loss_limit (rs_rules s)) (daily_loss_limit_hard (rs_rules s)) acc)"

definition check_drawdown :: "risk_state \<Rightarrow> check_acc \<Rightarrow> check_acc" where
  "check_drawdown s = check_decline ''peak_drawdown'' (rs_peak_equity s) (rs_equity s)
     (peak_drawdown_limit (rs_rules s)) (peak_drawdown_limit_hard (rs_rules s))"

definition check_consecutive :: "risk_state \<Rightarrow> check_acc \<Rightarrow> check_acc" where
  "check_consecutive s = record_check ''consecutive_losses''
     [(''count'', of_nat (rs_consecutive_losses s))]
     (consecutive_loss_limit_hard (rs_rules s) < rs_consecutive_losses s)
     (consecutive_loss_limit (rs_rules s) < rs_consecutive_losses s)"

definition check_reward_risk :: "check_acc \<Rightarrow> check_acc" where
  "check_reward_risk = record_check ''reward_risk'' [] False False"

definition check_interval :: "risk_state \<Rightarrow> check_acc \<Rightarrow> check_acc" where
  "check_interval s = (case rs_minutes_since_last_order s of
     None \<Rightarrow> record_check ''order_interval'' [] False False
   | Some m \<Rightarrow> record_check ''order_interval'' [(''minutes_since_last_order'', m)]
                 (m < of_nat (min_order_interval_minutes_hard (rs_rules s)))
                 (m < of_nat (min_order_interval_minutes (rs_rules s))))"

definition delay_bars :: "risk_state \<Rightarrow> decimal" where
  "delay_bars s = ddiv (total_seconds (rs_now s - rs_latest_close_time s)) (of_nat (rs_bar_seconds s))"

definition check_delay :: "risk_state \<Rightarrow> check_acc \<Rightarrow> check_acc" where
  "check_delay s = check_upper ''data_delay'' ''bars'' (delay_bars s)
     (of_nat (max_data_delay_bars (rs_rules s))) (of_nat (max_data_delay_bars_hard (rs_rules s)))"

definition prospective_notional :: "risk_state \<Rightarrow> decimal \<Rightarrow> decimal" where
  "prospective_notional s quantity =
     dmul (if rs_action s = Buy_order then dadd (rs_existing_quantity s) quantity
           else max 0 (dsub (rs_existing_quantity s) quantity)) (rs_market_price s)"

definition check_binance :: "risk_state \<Rightarrow> decimal \<Rightarrow> check_acc \<Rightarrow> check_acc" where
  "check_binance s quantity acc =
     (if rs_exchange s = ''binance'' then
        (let acc = record_check ''binance_no_short'' []
               (rs_action s = Sell_order \<and> \<not> rs_has_open_position s) False acc;
             btc_cap = dmul (rs_equity s) (binance_btc_cap_pct (rs_rules s));
             notional = prospective_notional s quantity
         in record_check ''binance_btc_holding_cap''
              [(''existing_position_quantity'', rs_existing_quantity s),
               (''prospective_notional'', notional), (''cap'', btc_cap)]
              (btc_cap < notional) False acc)
      else acc)"

definition run_checks :: "risk_state \<Rightarrow> decimal \<Rightarrow> check_acc" where
  "run_checks s quantity =
     (check_binance s quantity \<circ> check_delay s \<circ> check_interval s \<circ> check_reward_risk
      \<circ> check_consecutive s \<circ> check_drawdown s \<circ> check_windows s \<circ> check_all_open s quantity
      \<circ> check_loss s quantity \<circ> check_sizing s quantity)
     \<lparr>ca_results = [\<lparr>re_name = ''equity'', re_passed = True, re_values = [(''value'', rs_equity s)]\<rparr>],
      ca_hard = False, ca_initial = False\<rparr>"

definition evaluate_conservative_v1 :: "risk_state \<Rightarrow> pure_risk_result" where
  "evaluate_conservative_v1 s =
     (let quantity = sized_quantity s;
          was_adjusted = quantity < raw_quantity s;
          acc = run_checks s quantity
      in if ca_hard acc \<or> ca_initial acc then
           \<lparr>pr_rule_results = ca_results acc, pr_outcome = Deny, pr_quantity = None,
            pr_reason = Some (if ca_hard acc then ''hard_limit_breach'' else ''initial_threshold_breach'')\<rparr>
         else if was_adjusted then
           \<lparr>pr_rule_results = ca_results acc, pr_outcome = Allow_with_adjustment,
            pr_quantity = Some quantity, pr_reason = None\<rparr>
         else
           \<lparr>pr_rule_results = ca_results acc, pr_outcome = Allow,
            pr_quantity = Some quantity, pr_reason = None\<rparr>)"


subsection \<open>Lemmas: the checks\<close>

lemma record_check_sel [simp]:
  "ca_hard (record_check n v h i acc) \<longleftrightarrow> ca_hard acc \<or> h"
  "ca_initial (record_check n v h i acc) \<longleftrightarrow> ca_initial acc \<or> \<not> h \<and> i"
  "ca_results (record_check n v h i acc) =
     ca_results acc @ [\<lparr>re_name = n, re_passed = \<not> h, re_values = v\<rparr>]"
  by (simp_all add: record_check_def)

lemmas check_defs = check_sizing_def check_loss_def check_all_open_def check_windows_def
  check_drawdown_def check_consecutive_def check_reward_risk_def check_interval_def
  check_delay_def check_binance_def check_upper_def check_decline_def

definition acc_consistent :: "check_acc \<Rightarrow> bool" where
  "acc_consistent acc \<longleftrightarrow> (ca_hard acc \<longleftrightarrow> (\<exists>e \<in> set (ca_results acc). \<not> re_passed e))"

lemma record_check_consistent [simp]:
  "acc_consistent acc \<Longrightarrow> acc_consistent (record_check n v h i acc)"
  by (auto simp: acc_consistent_def)

lemma run_checks_consistent: "acc_consistent (run_checks s q)"
proof -
  have "acc_consistent \<lparr>ca_results = [\<lparr>re_name = ''equity'', re_passed = True,
      re_values = [(''value'', rs_equity s)]\<rparr>], ca_hard = False, ca_initial = False\<rparr>"
    by (simp add: acc_consistent_def)
  then show ?thesis
    by (simp add: run_checks_def check_defs Let_def split: option.split)
qed

definition declined :: "decimal option \<Rightarrow> decimal \<Rightarrow> decimal \<Rightarrow> bool" where
  \<comment> \<open>a reference equity is known, positive, and lost more than \<open>limit\<close> of itself\<close>
  "declined reference equity limit =
     (case reference of None \<Rightarrow> False | Some r \<Rightarrow> 0 < r \<and> limit < decline_pct r equity)"

lemma check_decline_sel [simp]:
  "ca_hard (check_decline n r e i h acc) \<longleftrightarrow> ca_hard acc \<or> declined r e h"
  "ca_initial (check_decline n r e i h acc) \<longleftrightarrow> ca_initial acc \<or> \<not> declined r e h \<and> declined r e i"
  by (auto simp: check_decline_def check_upper_def declined_def split: option.split)

text \<open>What no breach at all means, check by check.\<close>

lemma no_breach_iff:
  "\<not> ca_hard (run_checks s q) \<and> \<not> ca_initial (run_checks s q) \<longleftrightarrow>
     \<not> quantity_too_small s q
     \<and> loss_pct s q \<le> min (risk_per_trade (rs_rules s)) (risk_per_trade_hard (rs_rules s))
     \<and> all_open_pct s q \<le> min (all_open_risk_limit (rs_rules s)) (all_open_risk_limit_hard (rs_rules s))
     \<and> \<not> declined (rs_day_start_equity s) (rs_equity s) (daily_loss_limit_hard (rs_rules s))
     \<and> \<not> declined (rs_day_start_equity s) (rs_equity s) (daily_loss_limit (rs_rules s))
     \<and> \<not> declined (rs_week_start_equity s) (rs_equity s) (weekly_loss_limit_hard (rs_rules s))
     \<and> \<not> declined (rs_week_start_equity s) (rs_equity s) (weekly_loss_limit (rs_rules s))
     \<and> \<not> declined (rs_peak_equity s) (rs_equity s) (peak_drawdown_limit_hard (rs_rules s))
     \<and> \<not> declined (rs_peak_equity s) (rs_equity s) (peak_drawdown_limit (rs_rules s))
     \<and> rs_consecutive_losses s \<le> min (consecutive_loss_limit (rs_rules s)) (consecutive_loss_limit_hard (rs_rules s))
     \<and> (\<forall>m. rs_minutes_since_last_order s = Some m \<longrightarrow>
           of_nat (max (min_order_interval_minutes (rs_rules s)) (min_order_interval_minutes_hard (rs_rules s))) \<le> m)
     \<and> delay_bars s \<le> of_nat (min (max_data_delay_bars (rs_rules s)) (max_data_delay_bars_hard (rs_rules s)))
     \<and> (rs_exchange s = ''binance'' \<longrightarrow>
           (rs_action s = Sell_order \<longrightarrow> rs_has_open_position s)
           \<and> prospective_notional s q \<le> dmul (rs_equity s) (binance_btc_cap_pct (rs_rules s)))"
proof -
  have interval: "ca_hard (check_interval s acc) \<longleftrightarrow> ca_hard acc \<or>
      (\<exists>m. rs_minutes_since_last_order s = Some m \<and> m < of_nat (min_order_interval_minutes_hard (rs_rules s)))"
    "ca_initial (check_interval s acc) \<longleftrightarrow> ca_initial acc \<or>
      (\<exists>m. rs_minutes_since_last_order s = Some m \<and> \<not> m < of_nat (min_order_interval_minutes_hard (rs_rules s))
         \<and> m < of_nat (min_order_interval_minutes (rs_rules s)))" for acc
    by (auto simp: check_interval_def split: option.split)
  show ?thesis
    by (simp add: run_checks_def check_sizing_def check_loss_def check_all_open_def check_upper_def
        check_windows_def check_drawdown_def check_consecutive_def check_reward_risk_def
        check_delay_def check_binance_def Let_def interval)
      (auto simp: not_less of_nat_max of_nat_min)
qed

lemma outcome_iff:
  "pr_outcome (evaluate_conservative_v1 s) = Deny \<longleftrightarrow>
     ca_hard (run_checks s (sized_quantity s)) \<or> ca_initial (run_checks s (sized_quantity s))"
  by (simp add: evaluate_conservative_v1_def Let_def)

lemma rule_results_agree:
  "(pr_reason (evaluate_conservative_v1 s) = Some ''hard_limit_breach'' \<longleftrightarrow>
     (\<exists>e \<in> set (pr_rule_results (evaluate_conservative_v1 s)). \<not> re_passed e))
   \<and> (pr_outcome (evaluate_conservative_v1 s) = Deny \<longleftrightarrow> pr_quantity (evaluate_conservative_v1 s) = None)
   \<and> (pr_outcome (evaluate_conservative_v1 s) = Deny \<longleftrightarrow> pr_reason (evaluate_conservative_v1 s) \<noteq> None)"
  using run_checks_consistent [of s "sized_quantity s"]
  by (auto simp: evaluate_conservative_v1_def Let_def acc_consistent_def)

text \<open>
  The recorded rule results and the decision agree: the reason is a hard breach
  exactly when some recorded rule has not passed, and an approval has passed every one.
\<close>

theorem rule_results_decide:
  "(pr_reason (evaluate_conservative_v1 s) = Some ''hard_limit_breach'' \<longleftrightarrow>
     (\<exists>e \<in> set (pr_rule_results (evaluate_conservative_v1 s)). \<not> re_passed e))
   \<and> (pr_outcome (evaluate_conservative_v1 s) = Deny \<longleftrightarrow> pr_quantity (evaluate_conservative_v1 s) = None)
   \<and> (pr_outcome (evaluate_conservative_v1 s) = Deny \<longleftrightarrow> pr_reason (evaluate_conservative_v1 s) \<noteq> None)"
  by (rule rule_results_agree)

lemma approval_limits:
  assumes "pr_quantity (evaluate_conservative_v1 s) = Some q"
  shows "0 < q \<and> (\<forall>m. i_min_quantity (rs_instrument s) = Some m \<longrightarrow> m \<le> q)
    \<and> loss_pct s q \<le> risk_per_trade (rs_rules s)
    \<and> all_open_pct s q \<le> all_open_risk_limit (rs_rules s)
    \<and> \<not> declined (rs_day_start_equity s) (rs_equity s) (daily_loss_limit (rs_rules s))
    \<and> \<not> declined (rs_week_start_equity s) (rs_equity s) (weekly_loss_limit (rs_rules s))
    \<and> \<not> declined (rs_peak_equity s) (rs_equity s) (peak_drawdown_limit (rs_rules s))
    \<and> rs_consecutive_losses s \<le> consecutive_loss_limit (rs_rules s)
    \<and> (\<forall>m. rs_minutes_since_last_order s = Some m \<longrightarrow> of_nat (min_order_interval_minutes (rs_rules s)) \<le> m)
    \<and> delay_bars s \<le> of_nat (max_data_delay_bars (rs_rules s))
    \<and> (rs_exchange s = ''binance'' \<longrightarrow>
         (rs_action s = Sell_order \<longrightarrow> rs_has_open_position s)
         \<and> prospective_notional s q \<le> dmul (rs_equity s) (binance_btc_cap_pct (rs_rules s)))"
proof -
  have q: "q = sized_quantity s"
    and nb: "\<not> ca_hard (run_checks s q) \<and> \<not> ca_initial (run_checks s q)"
    using assms by (auto simp: evaluate_conservative_v1_def Let_def split: if_splits)
  show ?thesis
    using nb unfolding no_breach_iff
    by (auto simp: quantity_too_small_def not_less of_nat_max split: option.splits)
qed


text \<open>
  With no positive equity every signal is denied, because the loss of any size is
  read as the whole account.
\<close>

theorem no_equity_denied:
  assumes "rs_equity s \<le> 0" "risk_per_trade_hard (rs_rules s) < 1"
  shows "pr_outcome (evaluate_conservative_v1 s) = Deny
    \<and> pr_reason (evaluate_conservative_v1 s) = Some ''hard_limit_breach''"
proof -
  have "ca_hard (run_checks s q)" for q
    using assms by (simp add: run_checks_def check_defs Let_def loss_pct_def split: option.split)
  then show ?thesis by (simp add: evaluate_conservative_v1_def Let_def)
qed


subsection \<open>Lemmas: sizing\<close>

lemma dexact_scale:
  assumes "dexact x" shows "dexact (x * 10 powi e)" "dexact (x / 10 powi e)"
proof -
  obtain m k where "x = of_int m * 10 powi k" "\<bar>m\<bar> \<le> 10 ^ 28"
    using assms unfolding dexact_def representable_def by auto
  then have "x * 10 powi e = of_int m * 10 powi (k + e) \<and> \<bar>m\<bar> \<le> 10 ^ 28" for e
    by (simp add: power_int_add)
  then have ex: "dexact (x * 10 powi e)" for e
    unfolding dexact_def representable_def by auto
  show "dexact (x * 10 powi e)" by (rule ex)
  show "dexact (x / 10 powi e)" using ex [of "- e"] by (simp add: power_int_minus field_simps)
qed

lemma dexact_floor:
  assumes "dexact x" "0 \<le> x" shows "dexact (of_int \<lfloor>x\<rfloor>)"
proof -
  obtain m k where x: "x = of_int m * 10 powi k" and m: "\<bar>m\<bar> \<le> 10 ^ 28"
    using assms(1) unfolding dexact_def representable_def by auto
  show ?thesis
  proof (cases "0 \<le> k")
    case True
    then have "x = of_int (m * 10 ^ nat k)" by (simp add: x power_int_def)
    then show ?thesis using assms(1) by (metis floor_of_int)
  next
    case False
    have "(10 :: rat) powi k \<le> 10 powi 0" using False by (intro power_int_increasing) auto
    moreover have "0 < (10 :: rat) powi k" by simp
    then have "0 \<le> m" using assms(2) unfolding x by (simp add: zero_le_mult_iff not_le [symmetric])
    ultimately have "x \<le> of_int m" unfolding x by (simp add: mult_left_le)
    then have "\<lfloor>x\<rfloor> \<le> m" by linarith
    moreover have "0 \<le> \<lfloor>x\<rfloor>" using assms(2) by simp
    moreover have "\<bar>m\<bar> \<le> int 10 ^ 28" using m by (simp only: of_nat_numeral)
    ultimately have "\<bar>\<lfloor>x\<rfloor>\<bar> \<le> int 10 ^ 28" by linarith
    then show ?thesis unfolding dexact_def by (rule representable_int)
  qed
qed

lemma round_down_to_step_exact:
  assumes "dexact q" "0 \<le> q" "step = 10 powi e"
  shows "round_down_to_step q step = of_int \<lfloor>q / step\<rfloor> * step"
    and "round_down_to_step q step \<le> q" and "q < round_down_to_step q step + step"
proof -
  have st: "0 < step" by (simp add: assms(3))
  have "ddiv q step = q / step"
    unfolding ddiv_def assms(3) by (intro dec.round_exact dexact_scale assms(1))
  moreover have "dexact (of_int \<lfloor>q / step\<rfloor>)"
    using assms st by (intro dexact_floor) (simp_all add: dexact_scale)
  ultimately show r: "round_down_to_step q step = of_int \<lfloor>q / step\<rfloor> * step"
    using st by (simp add: round_down_to_step_def dmul_def assms(3) dec.round_exact dexact_scale)
  show "round_down_to_step q step \<le> q" "q < round_down_to_step q step + step"
    using floor_divide_lower [OF st, of q] floor_divide_upper [OF st, of q]
    unfolding r by (simp_all add: algebra_simps)
qed

lemma round_down_to_step_mono:
  assumes "0 \<le> p" "p \<le> q" shows "round_down_to_step p st \<le> round_down_to_step q st"
  using assms unfolding round_down_to_step_def
  by (auto intro!: dmul_mono ddiv_mono floor_mono)

lemma round_down_to_step_nonneg: "0 \<le> q \<Longrightarrow> 0 \<le> round_down_to_step q st"
  by (auto simp: round_down_to_step_def)

definition quantity_limits :: "risk_state \<Rightarrow> decimal list" where
  "quantity_limits s = [raw_quantity s, exposure_limit_quantity s]
     @ (case broker_limit_quantity s of None \<Rightarrow> [] | Some q \<Rightarrow> [q])"

lemma sized_quantity_eq:
  "sized_quantity s = round_down_to_step (max 0 (seq_min (quantity_limits s))) (i_step_size (rs_instrument s))"
  by (auto simp: sized_quantity_def quantity_limits_def Let_def max_def)

lemma quantity_limits_exact:
  assumes "\<forall>m. i_max_quantity (rs_instrument s) = Some m \<longrightarrow> dexact m"
  shows "\<forall>x \<in> set (quantity_limits s). dexact x"
proof -
  have "dexact x" if "broker_limit_quantity s = Some x" for x
    using that assms
    by (cases "i_max_quantity (rs_instrument s)")
      (auto simp: broker_limit_quantity_def Let_def min_def split: if_splits)
  then show ?thesis
    by (auto simp: quantity_limits_def raw_quantity_def exposure_limit_quantity_def Let_def split: option.splits)
qed

lemma seq_min_in: "xs \<noteq> [] \<Longrightarrow> seq_min xs \<in> set xs"
  by (simp add: seq_min_Min)

lemma seq_min_le: "x \<in> set xs \<Longrightarrow> seq_min xs \<le> x"
  by (cases xs) (auto simp: seq_min_Min simp del: seq_min.simps)

text \<open>
  C21 (bounds). On an instrument whose step is a power of ten, the sized quantity is a whole
  number of steps, not negative, at most each of the risk, exposure and broker limits that is
  not negative, and less than one step below the smallest of them. The step must be a power of
  ten because dividing by any other step may round the number of steps up.
\<close>

theorem sized_quantity_bounds:
  assumes "i_step_size (rs_instrument s) = 10 powi e"
    and "\<forall>m. i_max_quantity (rs_instrument s) = Some m \<longrightarrow> dexact m"
  shows "(\<exists>k. sized_quantity s = of_int k * 10 powi e) \<and> 0 \<le> sized_quantity s
    \<and> (\<forall>x \<in> {raw_quantity s, exposure_limit_quantity s} \<union> set_option (broker_limit_quantity s).
         sized_quantity s \<le> max 0 x)
    \<and> seq_min (quantity_limits s) < sized_quantity s + 10 powi e"
proof -
  let ?q = "max 0 (seq_min (quantity_limits s))"
  have ne: "quantity_limits s \<noteq> []" by (simp add: quantity_limits_def)
  have ex: "dexact ?q" using quantity_limits_exact [OF assms(2)] seq_min_in [OF ne] by (auto simp: max_def)
  note r = round_down_to_step_exact [OF ex _ assms(1), folded sized_quantity_eq]
  have le: "sized_quantity s \<le> max 0 x" if "x \<in> set (quantity_limits s)" for x
    using r(2) seq_min_le [OF that] by simp
  have "set (quantity_limits s) = {raw_quantity s, exposure_limit_quantity s} \<union> set_option (broker_limit_quantity s)"
    by (auto simp: quantity_limits_def split: option.splits)
  moreover have "0 \<le> sized_quantity s" by (simp add: sized_quantity_eq round_down_to_step_nonneg)
  moreover have "seq_min (quantity_limits s) < sized_quantity s + 10 powi e" using r(3) by (simp add: assms(1))
  ultimately show ?thesis using r(1) le assms(1) by auto
qed

text \<open>
  Sizing is monotone in risk: moving the stop further away, with everything else
  the same, never sizes a larger quantity.
\<close>

theorem wider_stop_never_larger:
  assumes "0 \<le> rs_equity s" "0 \<le> risk_per_trade (rs_rules s)"
    and "rs_stop_distance s \<le> d" "0 < stress_adjusted_stop s"
  shows "sized_quantity (s\<lparr>rs_stop_distance := d\<rparr>) \<le> sized_quantity s"
proof -
  let ?t = "s\<lparr>rs_stop_distance := d\<rparr>"
  have st: "stress_adjusted_stop s \<le> stress_adjusted_stop ?t"
    using assms(3) by (simp add: stress_adjusted_stop_def dadd_mono)
  have div: "ddiv x (stress_adjusted_stop ?t) \<le> ddiv x (stress_adjusted_stop s)" if "0 \<le> x" for x
    unfolding ddiv_def using that st assms(4) by (intro dround_mono divide_left_mono) auto
  have "raw_quantity ?t \<le> raw_quantity s"
    using st assms div by (simp add: raw_quantity_def Let_def)
  moreover have "exposure_limit_quantity ?t \<le> exposure_limit_quantity s"
    using st assms(4) div by (simp add: exposure_limit_quantity_def Let_def)
  moreover have "broker_limit_quantity ?t = broker_limit_quantity s"
    by (simp add: broker_limit_quantity_def Let_def)
  ultimately have "seq_min (quantity_limits ?t) \<le> seq_min (quantity_limits s)"
    by (auto simp: quantity_limits_def intro: min.mono split: option.splits)
  then show ?thesis
    unfolding sized_quantity_eq by (auto intro!: round_down_to_step_mono max.mono)
qed

end
