(* ===== verification/Signals.thy ===== *)
theory Signals
  imports Indicators
begin

text \<open>
  The signal generators: \<open>dummy_signal.py\<close>, \<open>donchian_breakout_signal.py\<close>,
  \<open>ema_trend_signal.py\<close>, \<open>rsi_mean_reversion_signal.py\<close>, the buy filter of
  \<open>confluence_signal.py\<close>, and \<open>live_strategies.py\<close>, which resolves a stored definition.
\<close>

subsection \<open>The generators\<close>

definition generate_dummy_signal :: "candle list \<Rightarrow> nat \<Rightarrow> signal_action" where
  "generate_dummy_signal candles period =
     (if length candles < period then Hold
      else let window = last_n period candles;
               average = ddiv (dsum (map c_close window)) (of_nat period);
               latest_close = c_close (last window)
           in if average < latest_close then Buy
              else if latest_close < average then Sell
              else Hold)"

definition breaks_above :: "candle list \<Rightarrow> nat \<Rightarrow> nat \<Rightarrow> bool" where
  "breaks_above candles index period \<longleftrightarrow>
     seq_max (map c_high (slice (index - period) index candles)) < c_close (candles ! index)"

definition breaks_below :: "candle list \<Rightarrow> nat \<Rightarrow> nat \<Rightarrow> bool" where
  "breaks_below candles index period \<longleftrightarrow>
     c_close (candles ! index) < seq_min (map c_low (slice (index - period) index candles))"

definition generate_donchian_breakout_signal :: "nat \<Rightarrow> nat \<Rightarrow> candle list \<Rightarrow> signal_action" where
  "generate_donchian_breakout_signal entry_period exit_period candles =
     (if length candles < max entry_period exit_period + 2 then Hold
      else let last = length candles - 1
           in if breaks_above candles last entry_period
                 \<and> \<not> breaks_above candles (last - 1) entry_period then Buy
              else if breaks_below candles last exit_period
                 \<and> \<not> breaks_below candles (last - 1) exit_period then Sell
              else Hold)"

definition generate_ema_trend_signal :: "nat \<Rightarrow> nat \<Rightarrow> nat \<Rightarrow> candle list \<Rightarrow> signal_action" where
  "generate_ema_trend_signal fast_period slow_period trend_period candles =
     (if length candles < trend_period + 1 then Hold
      else case (exponential_moving_average candles fast_period,
                 exponential_moving_average candles slow_period,
                 exponential_moving_average candles trend_period,
                 exponential_moving_average (butlast candles) fast_period,
                 exponential_moving_average (butlast candles) slow_period) of
        (Some fast_now, Some slow_now, Some trend_now, Some fast_prev, Some slow_prev) \<Rightarrow>
          (let crossed_up = fast_prev \<le> slow_prev \<and> slow_now < fast_now;
               crossed_down = slow_prev \<le> fast_prev \<and> fast_now < slow_now
           in if crossed_up \<and> trend_now < c_close (last candles) then Buy
              else if crossed_down then Sell
              else Hold)
      | _ \<Rightarrow> Hold)"

definition generate_rsi_mean_reversion_signal ::
  "nat \<Rightarrow> decimal \<Rightarrow> decimal \<Rightarrow> nat \<Rightarrow> candle list \<Rightarrow> signal_action" where
  "generate_rsi_mean_reversion_signal rsi_period oversold exit_level trend_period candles =
     (if length candles < max (rsi_period + 2) trend_period then Hold
      else case (relative_strength_index candles rsi_period,
                 relative_strength_index (butlast candles) rsi_period,
                 exponential_moving_average candles trend_period) of
        (Some rsi_now, Some rsi_prev, Some trend) \<Rightarrow>
          (if oversold \<le> rsi_prev \<and> rsi_now < oversold \<and> trend < c_close (last candles) then Buy
           else if rsi_prev \<le> exit_level \<and> exit_level < rsi_now then Sell
           else Hold)
      | _ \<Rightarrow> Hold)"

subsection \<open>The confluence filter\<close>

datatype volatility_filter = Any_vol | Calm | Expanding

record indicator_snapshot =
  trend_ema :: "rat option"
  atr_pct :: "rat option"
  atr_pct_median :: "rat option"
  rsi :: "rat option"

record confluence_filters =
  f_trend :: bool
  f_volatility :: volatility_filter
  f_momentum_cap :: bool

definition momentum_cap :: rat where
  "momentum_cap = 75"

definition no_filters :: confluence_filters where
  "no_filters = \<lparr>f_trend = False, f_volatility = Any_vol, f_momentum_cap = False\<rparr>"

definition all_filter_combinations :: "confluence_filters list" where
  "all_filter_combinations =
     [\<lparr>f_trend = t, f_volatility = v, f_momentum_cap = m\<rparr>.
        t \<leftarrow> [False, True], v \<leftarrow> [Any_vol, Calm, Expanding], m \<leftarrow> [False, True]]"

definition allows_buy :: "confluence_filters \<Rightarrow> rat \<Rightarrow> indicator_snapshot option \<Rightarrow> bool" where
  "allows_buy f close snapshot =
     (if f = no_filters then True
      else case snapshot of
        None \<Rightarrow> False
      | Some s \<Rightarrow>
          if f_trend f \<and> (case trend_ema s of None \<Rightarrow> True | Some e \<Rightarrow> close \<le> e) then False
          else if f_volatility f \<noteq> Any_vol \<and>
            (case (atr_pct s, atr_pct_median s) of
               (Some a, Some m) \<Rightarrow> (a \<le> m) \<noteq> (f_volatility f = Calm)
             | _ \<Rightarrow> True) then False
          else \<not> (f_momentum_cap f \<and> (case rsi s of None \<Rightarrow> True | Some r \<Rightarrow> momentum_cap \<le> r)))"

definition make_confluence_signal ::
  "(datetime \<Rightarrow> indicator_snapshot option) \<Rightarrow> confluence_filters \<Rightarrow> nat \<Rightarrow> nat \<Rightarrow>
     candle list \<Rightarrow> signal_action" where
  "make_confluence_signal table filters entry_period exit_period candles =
     (let action = generate_donchian_breakout_signal entry_period exit_period candles
      in if action \<noteq> Buy then action
         else if allows_buy filters (fround (c_close (last candles)))
                   (table (c_open_time (last candles))) then Buy else Hold)"

subsection \<open>Live strategies\<close>

datatype json = JNull | JBool bool | JInt int | JStr string | JList "json list" | JObj "(string \<times> json) list" | JOther

datatype live_exit_policy = Exit_signal | Exit_stop_loss

record live_strategy =
  ls_kind :: string
  ls_entry :: nat
  ls_exit :: nat
  ls_generate :: "candle list \<Rightarrow> signal_action"
  ls_exit_policy :: live_exit_policy

definition positive_int :: "(string \<rightharpoonup> json) \<Rightarrow> string \<Rightarrow> (string, nat) result" where
  "positive_int definition key = (case definition key of
     Some (JInt n) \<Rightarrow> (if n \<le> 0 then Inl ''must be a positive integer'' else Inr (nat n))
   | _ \<Rightarrow> Inl ''must be a positive integer'')"

definition exit_policy_of :: "(string \<rightharpoonup> json) \<Rightarrow> (string, live_exit_policy) result" where
  "exit_policy_of definition = (case definition ''exit_policy'' of
     None \<Rightarrow> Inr Exit_signal
   | Some v \<Rightarrow> if v = JStr ''signal'' then Inr Exit_signal
               else if v = JStr ''stop_loss'' then Inr Exit_stop_loss
               else Inl ''exit_policy is not supported for live bots'')"

definition resolve_live_strategy :: "(string \<rightharpoonup> json) option \<Rightarrow> (string, live_strategy) result" where
  "resolve_live_strategy definition = (case definition of
     None \<Rightarrow> Inl ''strategy definition is missing''
   | Some d \<Rightarrow>
       res_bind (exit_policy_of d) (\<lambda>policy.
         if d ''kind'' = Some (JStr ''donchian_breakout'')
         then res_bind (positive_int d ''entry_period'') (\<lambda>entry.
              res_bind (positive_int d ''exit_period'') (\<lambda>exit.
                Inr \<lparr>ls_kind = ''donchian_breakout'', ls_entry = entry, ls_exit = exit,
                     ls_generate = generate_donchian_breakout_signal entry exit,
                     ls_exit_policy = policy\<rparr>))
         else Inl ''unknown strategy kind''))"


subsection \<open>Breakouts\<close>

lemma breaks_above_iff:
  assumes "0 < n" "n \<le> i" "i \<le> length cs"
  shows "breaks_above cs i n \<longleftrightarrow> (\<forall>k \<in> {i - n..<i}. c_high (cs ! k) < c_close (cs ! i))"
proof -
  have ne: "slice (i - n) i cs \<noteq> []" using assms by (auto simp flip: length_greater_0_conv)
  then show ?thesis using assms(3) by (simp add: breaks_above_def seq_max_less_iff set_slice_eq)
qed

lemma breaks_below_iff:
  assumes "0 < n" "n \<le> i" "i \<le> length cs"
  shows "breaks_below cs i n \<longleftrightarrow> (\<forall>k \<in> {i - n..<i}. c_close (cs ! i) < c_low (cs ! k))"
proof -
  have ne: "slice (i - n) i cs \<noteq> []" using assms by (auto simp flip: length_greater_0_conv)
  then show ?thesis using assms(3) by (simp add: breaks_below_def less_seq_min_iff set_slice_eq)
qed

lemma breaks_drop:
  assumes "n \<le> i" "d + i < length cs"
  shows "breaks_above (drop d cs) i n = breaks_above cs (d + i) n"
    and "breaks_below (drop d cs) i n = breaks_below cs (d + i) n"
  using assms by (simp_all add: breaks_above_def breaks_below_def slice_drop add.commute)

lemma breaks_append:
  assumes "i < length cs"
  shows "breaks_above (cs @ ds) i n = breaks_above cs i n"
    and "breaks_below (cs @ ds) i n = breaks_below cs i n"
  using assms by (simp_all add: breaks_above_def breaks_below_def slice_append_left nth_append)

lemma donchian_buy_iff:
  "generate_donchian_breakout_signal m n cs = Buy \<longleftrightarrow>
     max m n + 2 \<le> length cs \<and> breaks_above cs (length cs - 1) m \<and> \<not> breaks_above cs (length cs - 2) m"
  by (auto simp: generate_donchian_breakout_signal_def Let_def numeral_2_eq_2)

lemma donchian_sell_iff:
  "generate_donchian_breakout_signal m n cs = Sell \<longleftrightarrow>
     max m n + 2 \<le> length cs \<and> breaks_below cs (length cs - 1) n \<and> \<not> breaks_below cs (length cs - 2) n
     \<and> \<not> (breaks_above cs (length cs - 1) m \<and> \<not> breaks_above cs (length cs - 2) m)"
  by (auto simp: generate_donchian_breakout_signal_def Let_def numeral_2_eq_2)

lemma signal_action_eqI: "(a = Buy \<longleftrightarrow> b = Buy) \<Longrightarrow> (a = Sell \<longleftrightarrow> b = Sell) \<Longrightarrow> a = b"
  by (cases a; cases b) auto

text \<open>
  The breakout signal depends only on the last \<open>max(entry, exit) + 2\<close>
  candles: any longer history window, the bot's, the backtest's or the parity check's, gives
  the same action.
\<close>

theorem donchian_window_independent:
  assumes "max entry exit + 2 \<le> w" "w \<le> length cs"
  shows "generate_donchian_breakout_signal entry exit (last_n w cs)
       = generate_donchian_breakout_signal entry exit cs"
proof -
  let ?d = "length cs - w"
  have e: "?d + (w - 1) = length cs - 1" "?d + (w - 2) = length cs - 2" using assms by auto
  have "breaks_above (last_n w cs) (w - 1) entry = breaks_above cs (length cs - 1) entry"
    "breaks_above (last_n w cs) (w - 2) entry = breaks_above cs (length cs - 2) entry"
    "breaks_below (last_n w cs) (w - 1) exit = breaks_below cs (length cs - 1) exit"
    "breaks_below (last_n w cs) (w - 2) exit = breaks_below cs (length cs - 2) exit"
    unfolding last_n_def e [symmetric] using assms by (intro breaks_drop; simp)+
  moreover have "length (last_n w cs) = w" "max entry exit + 2 \<le> length cs" using assms by auto
  ultimately show ?thesis
    using assms(1)
    by (intro signal_action_eqI) (simp_all only: donchian_buy_iff donchian_sell_iff simp_thms)
qed

text \<open>
  A breakout fires once: the bar after a buy signal never gives another buy.
\<close>

theorem donchian_buy_not_repeated:
  assumes "generate_donchian_breakout_signal entry exit cs = Buy"
  shows "generate_donchian_breakout_signal entry exit (cs @ [c]) \<noteq> Buy"
proof
  assume "generate_donchian_breakout_signal entry exit (cs @ [c]) = Buy"
  then have "\<not> breaks_above (cs @ [c]) (length cs - 1) entry"
    by (simp add: donchian_buy_iff)
  moreover have "breaks_above cs (length cs - 1) entry" "length cs - 1 < length cs"
    using assms by (auto simp: donchian_buy_iff)
  ultimately show False by (simp add: breaks_append)
qed

subsection \<open>Filters and live strategies\<close>

lemma make_confluence_only_blocks_buys:
  "make_confluence_signal table f m n cs \<in> {generate_donchian_breakout_signal m n cs, Hold}"
  by (simp add: make_confluence_signal_def Let_def)

text \<open>
  The documents the language of the strategies admits, said of the stored values themselves, and the
  policy a document asks for.
\<close>

definition period_is :: "(string \<rightharpoonup> json) \<Rightarrow> string \<Rightarrow> nat \<Rightarrow> bool" where
  "period_is d key n \<longleftrightarrow> 0 < n \<and> d key = Some (JInt (int n))"

definition asks_for_exit :: "(string \<rightharpoonup> json) \<Rightarrow> live_exit_policy \<Rightarrow> bool" where
  "asks_for_exit d p \<longleftrightarrow>
     (case p of
        Exit_signal \<Rightarrow> d ''exit_policy'' \<in> {None, Some (JStr ''signal'')}
      | Exit_stop_loss \<Rightarrow> d ''exit_policy'' = Some (JStr ''stop_loss''))"

lemma positive_int_iff:
  "positive_int d k = Inr n \<longleftrightarrow> period_is d k n"
  "positive_int d k = Inl e \<longleftrightarrow> (\<nexists>n. period_is d k n) \<and> e = ''must be a positive integer''"
proof -
  show inr: "positive_int d k = Inr n \<longleftrightarrow> period_is d k n" for n
    by (auto simp: positive_int_def period_is_def split: option.splits json.splits)
  have "positive_int d k = Inl e \<Longrightarrow> e = ''must be a positive integer''" for e
    by (auto simp: positive_int_def split: option.splits json.splits if_splits)
  then show "positive_int d k = Inl e \<longleftrightarrow> (\<nexists>n. period_is d k n) \<and> e = ''must be a positive integer''"
    using inr by (cases "positive_int d k") auto
qed

lemma exit_policy_of_iff:
  "exit_policy_of d = Inr p \<longleftrightarrow> asks_for_exit d p"
  "exit_policy_of d = Inl e \<longleftrightarrow> (\<nexists>p. asks_for_exit d p) \<and> e = ''exit_policy is not supported for live bots''"
proof -
  show inr: "exit_policy_of d = Inr p \<longleftrightarrow> asks_for_exit d p" for p
    by (cases p) (auto simp: exit_policy_of_def asks_for_exit_def split: option.splits)
  have "exit_policy_of d = Inl e \<Longrightarrow> e = ''exit_policy is not supported for live bots''" for e
    by (auto simp: exit_policy_of_def split: option.splits if_splits)
  then show "exit_policy_of d = Inl e \<longleftrightarrow> (\<nexists>p. asks_for_exit d p) \<and> e = ''exit_policy is not supported for live bots''"
    using inr by (cases "exit_policy_of d") auto
qed

lemma asks_iff:
  "(\<exists>p. asks_for_exit d p) \<longleftrightarrow> d ''exit_policy'' \<in> {None, Some (JStr ''signal''), Some (JStr ''stop_loss'')}"
proof -
  have "(\<exists>p. asks_for_exit d p) \<longleftrightarrow> asks_for_exit d Exit_signal \<or> asks_for_exit d Exit_stop_loss"
    by (metis live_exit_policy.exhaust)
  then show ?thesis by (auto simp: asks_for_exit_def)
qed

lemma resolve_accepted:
  assumes "resolve_live_strategy (Some d) = Inr s"
  obtains p m n where "asks_for_exit d p" "d ''kind'' = Some (JStr ''donchian_breakout'')" "period_is d ''entry_period'' m"
    "period_is d ''exit_period'' n"
    "s = \<lparr>ls_kind = ''donchian_breakout'', ls_entry = m, ls_exit = n,
        ls_generate = generate_donchian_breakout_signal m n, ls_exit_policy = p\<rparr>"
  using assms by (auto simp: resolve_live_strategy_def res_bind_Inr_iff positive_int_iff exit_policy_of_iff split: if_splits)

lemma resolve_refused:
  assumes "resolve_live_strategy (Some d) = Inl reason"
  obtains "exit_policy_of d = Inl reason"
  | "\<exists>p. asks_for_exit d p" "d ''kind'' \<noteq> Some (JStr ''donchian_breakout'')" "reason = ''unknown strategy kind''"
  | "\<exists>p. asks_for_exit d p" "d ''kind'' = Some (JStr ''donchian_breakout'')"
    "positive_int d ''entry_period'' = Inl reason \<or> positive_int d ''exit_period'' = Inl reason"
  using assms by (auto simp: resolve_live_strategy_def res_bind_Inl_iff exit_policy_of_iff(1) split: if_splits)

text \<open>
  C26 (type). A definition resolves exactly when it is there, names a Donchian breakout with two
  positive integers as its periods, and asks for no exit policy, for \<open>signal\<close> or for
  \<open>stop_loss\<close>; the strategy then generates exactly that signal, and its exit policy is the one
  asked for, \<open>signal\<close> by default. Every other definition is refused, a missing one included, with
  the first of four reasons that applies: it is missing, its exit policy, its kind, its periods.
\<close>

theorem resolve_live_strategy_sound:
  "case resolve_live_strategy definition of
     Inr s \<Rightarrow> \<exists>d. definition = Some d \<and> d ''kind'' = Some (JStr ''donchian_breakout'')
       \<and> ls_kind s = ''donchian_breakout''
       \<and> 0 < ls_entry s \<and> d ''entry_period'' = Some (JInt (int (ls_entry s)))
       \<and> 0 < ls_exit s \<and> d ''exit_period'' = Some (JInt (int (ls_exit s)))
       \<and> ls_generate s = generate_donchian_breakout_signal (ls_entry s) (ls_exit s)
       \<and> (d ''exit_policy'' = None \<and> ls_exit_policy s = Exit_signal
          \<or> d ''exit_policy'' = Some (JStr ''signal'') \<and> ls_exit_policy s = Exit_signal
          \<or> d ''exit_policy'' = Some (JStr ''stop_loss'') \<and> ls_exit_policy s = Exit_stop_loss)
   | Inl reason \<Rightarrow>
       (case definition of
          None \<Rightarrow> reason = ''strategy definition is missing''
        | Some d \<Rightarrow>
            if d ''exit_policy'' \<notin> {None, Some (JStr ''signal''), Some (JStr ''stop_loss'')}
            then reason = ''exit_policy is not supported for live bots''
            else if d ''kind'' \<noteq> Some (JStr ''donchian_breakout'') then reason = ''unknown strategy kind''
            else reason = ''must be a positive integer''
              \<and> \<not> (\<exists>m n. 0 < m \<and> 0 < n \<and> d ''entry_period'' = Some (JInt m) \<and> d ''exit_period'' = Some (JInt n)))"
proof (cases "definition")
  case None
  then show ?thesis by (simp add: resolve_live_strategy_def)
next
  case (Some d)
  show ?thesis
  proof (cases "resolve_live_strategy (Some d)")
    case (Inr s)
    then obtain p m n where s: "asks_for_exit d p" "d ''kind'' = Some (JStr ''donchian_breakout'')" "period_is d ''entry_period'' m"
      "period_is d ''exit_period'' n" "s = \<lparr>ls_kind = ''donchian_breakout'', ls_entry = m, ls_exit = n,
        ls_generate = generate_donchian_breakout_signal m n, ls_exit_policy = p\<rparr>"
      by (rule resolve_accepted)
    then show ?thesis using Some Inr by (cases p) (simp_all add: period_is_def asks_for_exit_def)
  next
    case (Inl reason)
    from this show ?thesis
    proof (cases rule: resolve_refused)
      case 1
      then show ?thesis using Some Inl asks_iff [of d] by (simp add: exit_policy_of_iff)
    next
      case 2
      then show ?thesis using Some Inl asks_iff [of d] by simp
    next
      case 3
      have "\<not> (0 < m \<and> 0 < n \<and> d ''entry_period'' = Some (JInt m) \<and> d ''exit_period'' = Some (JInt n))" for m n
        using 3(3) by (auto simp: positive_int_iff(2) period_is_def dest: spec [of _ "nat m"] spec [of _ "nat n"])
      moreover have "reason = ''must be a positive integer''" using 3(3) by (auto simp: positive_int_iff(2))
      ultimately show ?thesis using Some Inl 3(1,2) asks_iff [of d] by simp
    qed
  qed
qed

end
