(* ===== verification/Replay.thy ===== *)
theory Replay
  imports Risk_Gate Signals
begin

text \<open>
  The backtest replay harness, \<open>app/trading/application/backtest_replay.py\<close>: a bar-by-bar walk
  over a candle series with in-memory state, calling the fill simulation and the Risk Gate.
\<close>

subsection \<open>Data\<close>

datatype exit_reason = By_signal | By_stop_loss | By_take_profit
datatype exit_policy = Signal_only | Stop_loss | Stop_and_target | Trailing_stop

record monitor_bar =
  mb_open_time :: datetime
  mb_close_time :: datetime
  mb_open :: decimal
  mb_high :: decimal
  mb_low :: decimal

definition bar_of_candle :: "candle \<Rightarrow> monitor_bar" where
  "bar_of_candle c = \<lparr>mb_open_time = c_open_time c, mb_close_time = c_close_time c,
     mb_open = c_open c, mb_high = c_high c, mb_low = c_low c\<rparr>"

record trade_record =
  tr_sequence_no :: nat
  tr_side :: order_side
  tr_entry_time :: datetime
  tr_exit_time :: datetime
  tr_entry_price :: decimal
  tr_exit_price :: decimal
  tr_quantity :: decimal
  tr_fees :: decimal
  tr_realized_pnl :: decimal
  tr_exit_reason :: exit_reason

record replay_result =
  rr_trades :: "trade_record list"
  rr_ending_equity :: decimal
  rr_ending_position :: "backtest_position option"
  rr_equity_curve :: "(datetime \<times> decimal) list"

record replay_state =
  cash_equity :: decimal
  position :: "backtest_position option"
  position_opened_at :: "datetime option"
  day_start_date :: "int option"
  day_start_equity :: decimal
  week_start_date :: "int option"
  week_start_equity :: decimal
  peak_equity :: decimal
  consecutive_losses :: nat
  last_order_time :: "datetime option"
  stop_price :: "decimal option"
  take_profit_price :: "decimal option"
  trail_distance :: "decimal option"
  highest_since_entry :: "decimal option"
  open_entry_fees :: decimal
  trades :: "trade_record list"
  equity_curve :: "(datetime \<times> decimal) list"
  next_sequence_no :: nat
  lock_since :: "datetime option"

definition initial_state :: "decimal \<Rightarrow> replay_state" where
  "initial_state initial_equity = \<lparr>cash_equity = initial_equity, position = None,
     position_opened_at = None, day_start_date = None, day_start_equity = 0,
     week_start_date = None, week_start_equity = 0, peak_equity = 0, consecutive_losses = 0,
     last_order_time = None, stop_price = None, take_profit_price = None, trail_distance = None,
     highest_since_entry = None, open_entry_fees = 0, trades = [], equity_curve = [],
     next_sequence_no = 1, lock_since = None\<rparr>"

record replay_config =
  rc_instrument :: instrument
  rc_timeframe :: string
  rc_exchange :: string
  rc_rules :: risk_rules
  rc_spread :: decimal
  rc_generator :: "candle list \<Rightarrow> signal_action"
  rc_exit_policy :: exit_policy
  rc_stop_slippage :: decimal
  rc_stop_monitor :: "(datetime \<rightharpoonup> monitor_bar list) option"
  rc_lock_release_days :: "int option"

definition history_window :: nat where
  "history_window = atr_history_candles"

subsection \<open>Locks and valuation\<close>

definition release_expired_lock ::
  "replay_state \<Rightarrow> risk_rules \<Rightarrow> datetime \<Rightarrow> decimal \<Rightarrow> timedelta \<Rightarrow> replay_state" where
  "release_expired_lock s rules now equity release_after =
     (let streak_locked = consecutive_loss_limit rules < consecutive_losses s;
          drawdown_locked = 0 < peak_equity s \<and>
            peak_drawdown_limit rules < ddiv (dsub (peak_equity s) equity) (peak_equity s)
      in if \<not> (streak_locked \<or> drawdown_locked) then s\<lparr>lock_since := None\<rparr>
         else case lock_since s of
           None \<Rightarrow> s\<lparr>lock_since := Some now\<rparr>
         | Some since \<Rightarrow>
             if release_after \<le> now - since
             then s\<lparr>consecutive_losses := 0, peak_equity := equity, lock_since := None\<rparr>
             else s)"

definition market_value :: "backtest_position option \<Rightarrow> decimal \<Rightarrow> decimal" where
  "market_value pos price = (case pos of None \<Rightarrow> 0
     | Some p \<Rightarrow> dmul (dmul price (bp_quantity p)) (direction (bp_side p)))"

definition unrealized_pnl :: "backtest_position option \<Rightarrow> decimal \<Rightarrow> decimal" where
  "unrealized_pnl pos price = (case pos of None \<Rightarrow> 0
     | Some p \<Rightarrow> dmul (dmul (dsub price (bp_entry p)) (bp_quantity p)) (direction (bp_side p)))"

definition slippage_coefficient :: "string \<Rightarrow> decimal option" where
  "slippage_coefficient exchange_code =
     (if exchange_code = ''oanda'' then Some (1 / 2)
      else if exchange_code = ''binance'' then Some 1 else None)"

definition expected_slippage :: "string \<Rightarrow> decimal \<Rightarrow> decimal" where
  "expected_slippage exchange_code spread =
     dmul spread (case slippage_coefficient exchange_code of Some c \<Rightarrow> c | None \<Rightarrow> 0)"

subsection \<open>Applying a fill\<close>

definition closing_quantity_of :: "backtest_position option \<Rightarrow> simulated_fill \<Rightarrow> order_side \<Rightarrow> decimal" where
  "closing_quantity_of pre fill side = (case pre of
     Some p \<Rightarrow> if side = closing_side (bp_side p) then min (sf_quantity fill) (bp_quantity p) else 0
   | None \<Rightarrow> 0)"

definition record_trade ::
  "replay_state \<Rightarrow> backtest_position \<Rightarrow> simulated_fill \<Rightarrow> order_side \<Rightarrow> datetime \<Rightarrow> datetime \<Rightarrow>
     decimal \<Rightarrow> decimal \<Rightarrow> decimal \<Rightarrow> exit_reason \<Rightarrow> replay_state" where
  "record_trade s p fill side opened now closing_quantity closing_fee pnl reason =
     (let entry_fee_share = ddiv (dmul (open_entry_fees s) closing_quantity) (bp_quantity p)
      in s\<lparr>open_entry_fees := dsub (open_entry_fees s) entry_fee_share,
           trades := trades s @ [\<lparr>tr_sequence_no = next_sequence_no s, tr_side = side,
             tr_entry_time = opened, tr_exit_time = now, tr_entry_price = bp_entry p,
             tr_exit_price = sf_price fill, tr_quantity = closing_quantity,
             tr_fees = dadd closing_fee entry_fee_share, tr_realized_pnl = pnl,
             tr_exit_reason = reason\<rparr>],
           next_sequence_no := next_sequence_no s + 1,
           consecutive_losses := (if pnl < 0 then consecutive_losses s + 1 else 0)\<rparr>)"

definition update_position ::
  "replay_state \<Rightarrow> backtest_position option \<Rightarrow> backtest_position option \<Rightarrow> datetime \<Rightarrow> replay_state" where
  "update_position s pre post now =
     (let opened_from_flat = (pre = None \<and> post \<noteq> None);
          flipped = (case (post, pre) of (Some q, Some p) \<Rightarrow> bp_side q \<noteq> bp_side p | _ \<Rightarrow> False);
          s = (if opened_from_flat \<or> flipped then s\<lparr>position_opened_at := Some now\<rparr>
               else if post = None then
                 s\<lparr>position_opened_at := None, stop_price := None, take_profit_price := None,
                   trail_distance := None, highest_since_entry := None, open_entry_fees := 0\<rparr>
               else s)
      in s\<lparr>position := post\<rparr>)"

definition apply_and_record ::
  "replay_state \<Rightarrow> backtest_position option \<Rightarrow> simulated_fill \<Rightarrow> order_side \<Rightarrow> datetime \<Rightarrow> bool \<Rightarrow>
     exit_reason \<Rightarrow> (string, replay_state) result" where
  "apply_and_record s pre fill side now allow_short reason =
     res_bind (apply_fill_to_position pre fill side allow_short) (\<lambda>outcome.
       (let notional = dmul (sf_price fill) (sf_quantity fill);
            s = s\<lparr>cash_equity := dadd (cash_equity s)
                   (dsub (if side = Sell_order then notional else dneg notional) (sf_fee fill))\<rparr>;
            closing_quantity = closing_quantity_of pre fill side;
            closing_fee = (if sf_quantity fill \<noteq> 0
                           then ddiv (dmul (sf_fee fill) closing_quantity) (sf_quantity fill) else 0)
        in res_bind
             (case pre of
                Some p \<Rightarrow>
                  if side = closing_side (bp_side p) then
                    (case position_opened_at s of
                       None \<Rightarrow> Inl ''AssertionError''
                     | Some opened \<Rightarrow> Inr (record_trade s p fill side opened now closing_quantity
                                            closing_fee (fo_realized_pnl outcome) reason))
                  else Inr s
              | None \<Rightarrow> Inr s)
             (\<lambda>s. let s = s\<lparr>open_entry_fees := dadd (open_entry_fees s) (dsub (sf_fee fill) closing_fee)\<rparr>
                  in Inr (update_position s pre (fo_position outcome) now))))"

subsection \<open>Protective exits\<close>

definition protective_exit ::
  "monitor_bar \<Rightarrow> backtest_position \<Rightarrow> decimal \<Rightarrow> decimal option \<Rightarrow> (decimal \<times> exit_reason) option" where
  "protective_exit bar p stop target =
     (if bp_side p = Long then
        (if mb_open bar \<le> stop then Some (mb_open bar, By_stop_loss)
         else if mb_low bar \<le> stop then Some (stop, By_stop_loss)
         else case target of
           None \<Rightarrow> None
         | Some t \<Rightarrow> if t \<le> mb_open bar then Some (mb_open bar, By_take_profit)
                     else if t \<le> mb_high bar then Some (t, By_take_profit)
                     else None)
      else
        (if stop \<le> mb_open bar then Some (mb_open bar, By_stop_loss)
         else if stop \<le> mb_high bar then Some (stop, By_stop_loss)
         else case target of
           None \<Rightarrow> None
         | Some t \<Rightarrow> if mb_open bar \<le> t then Some (mb_open bar, By_take_profit)
                     else if mb_low bar \<le> t then Some (t, By_take_profit)
                     else None))"

definition slipped_stop_price :: "decimal \<Rightarrow> position_side \<Rightarrow> decimal \<Rightarrow> decimal" where
  "slipped_stop_price price side slippage =
     (if side = Long then dmul price (dsub 1 slippage) else dmul price (dadd 1 slippage))"

definition raise_trailing_stop :: "replay_state \<Rightarrow> monitor_bar \<Rightarrow> replay_state" where
  "raise_trailing_stop s bar =
     (case (trail_distance s, highest_since_entry s, stop_price s, position s) of
        (Some trail, Some highest, Some stop, Some p) \<Rightarrow>
          if bp_side p \<noteq> Long then s
          else (let highest = max highest (mb_high bar)
                in s\<lparr>highest_since_entry := Some highest,
                     stop_price := Some (max stop (dsub highest trail))\<rparr>)
      | _ \<Rightarrow> s)"

fun check_probes :: "replay_config \<Rightarrow> replay_state \<Rightarrow> monitor_bar list \<Rightarrow> (string, replay_state) result" where
  "check_probes cfg s [] = Inr s"
| "check_probes cfg s (probe # probes) =
     (if rc_exit_policy cfg = Signal_only then Inr s
      else case (position s, stop_price s) of
        (Some held, Some stop) \<Rightarrow>
          (case protective_exit probe held stop (take_profit_price s) of
             None \<Rightarrow> check_probes cfg (raise_trailing_stop s probe) probes
           | Some (exit_price, reason) \<Rightarrow>
               (let exit_side = closing_side (bp_side held);
                    exit_price = (if reason = By_stop_loss
                                  then slipped_stop_price exit_price (bp_side held) (rc_stop_slippage cfg)
                                  else exit_price)
                in res_bind (simulate_fill (rc_exchange cfg) exit_side exit_price (bp_quantity held)
                               (expected_slippage (rc_exchange cfg) (rc_spread cfg)))
                     (\<lambda>exit_fill. apply_and_record s (Some held) exit_fill exit_side (mb_close_time probe)
                                    (rc_exchange cfg = ''oanda'') reason)))
      | _ \<Rightarrow> Inr s)"

definition probes_of :: "replay_config \<Rightarrow> candle \<Rightarrow> monitor_bar list" where
  "probes_of cfg candle = (case rc_stop_monitor cfg of
     None \<Rightarrow> [bar_of_candle candle]
   | Some monitor \<Rightarrow> (case monitor (c_open_time candle) of
       None \<Rightarrow> [bar_of_candle candle]
     | Some bars \<Rightarrow> if bars = [] then [bar_of_candle candle] else bars))"

subsection \<open>One bar\<close>

definition mark_to_market :: "replay_state \<Rightarrow> decimal \<Rightarrow> decimal" where
  "mark_to_market s price = dadd (cash_equity s) (market_value (position s) price)"

definition mark_bar :: "replay_config \<Rightarrow> candle \<Rightarrow> replay_state \<Rightarrow> replay_state" where
  "mark_bar cfg candle s =
     (let now = c_close_time candle;
          equity = mark_to_market s (c_close candle);
          s = s\<lparr>equity_curve := equity_curve s @ [(now, equity)], peak_equity := max (peak_equity s) equity\<rparr>;
          s = (case rc_lock_release_days cfg of None \<Rightarrow> s
               | Some days \<Rightarrow> release_expired_lock s (rc_rules cfg) now equity (days * day_length));
          today = date_of now;
          s = (if day_start_date s \<noteq> Some today
               then s\<lparr>day_start_date := Some today, day_start_equity := equity\<rparr> else s);
          week_start_day = today - weekday_of today
      in if week_start_date s \<noteq> Some week_start_day
         then s\<lparr>week_start_date := Some week_start_day, week_start_equity := equity\<rparr> else s)"

definition opposing :: "signal_action \<Rightarrow> backtest_position option \<Rightarrow> bool" where
  "opposing action existing = (case existing of None \<Rightarrow> False
     | Some p \<Rightarrow> action = Buy \<and> bp_side p = Short \<or> action = Sell \<and> bp_side p = Long)"

definition risk_state_of ::
  "replay_config \<Rightarrow> candle \<Rightarrow> order_side \<Rightarrow> nat \<Rightarrow> decimal \<Rightarrow> decimal \<Rightarrow> replay_state \<Rightarrow> risk_state" where
  "risk_state_of cfg candle action bar_seconds stop_distance fee_per_unit s =
     \<lparr>rs_action = action, rs_now = c_close_time candle, rs_rules = rc_rules cfg,
      rs_exchange = rc_exchange cfg, rs_instrument = rc_instrument cfg,
      rs_market_price = c_close candle, rs_latest_close_time = c_close_time candle,
      rs_bar_seconds = bar_seconds, rs_stop_distance = stop_distance,
      rs_expected_slippage = expected_slippage (rc_exchange cfg) (rc_spread cfg),
      rs_fee_per_unit = fee_per_unit, rs_equity = mark_to_market s (c_close candle),
      rs_available_cash = cash_equity s,
      rs_existing_open_risk = max 0 (dneg (unrealized_pnl (position s) (c_close candle))),
      rs_has_open_position = (position s \<noteq> None),
      rs_existing_quantity = held_quantity (position s),
      rs_day_start_equity = Some (day_start_equity s), rs_week_start_equity = Some (week_start_equity s),
      rs_peak_equity = Some (peak_equity s), rs_consecutive_losses = consecutive_losses s,
      rs_minutes_since_last_order =
        map_option (\<lambda>t. ddiv (total_seconds (c_close_time candle - t)) 60) (last_order_time s)\<rparr>"

definition set_protection ::
  "replay_config \<Rightarrow> order_side \<Rightarrow> decimal \<Rightarrow> decimal \<Rightarrow> backtest_position option \<Rightarrow> replay_state \<Rightarrow> replay_state" where
  "set_protection cfg side entry_price stop_distance pre s =
     (let opened_new_position = (case position s of None \<Rightarrow> False
            | Some q \<Rightarrow> (case pre of None \<Rightarrow> True | Some p \<Rightarrow> bp_side p \<noteq> bp_side q))
      in if rc_exit_policy cfg \<noteq> Signal_only \<and> opened_new_position then
           (let dir = (if side = Buy_order then 1 else - 1);
                s = s\<lparr>stop_price := Some (dsub entry_price (dmul dir stop_distance))\<rparr>;
                s = (if rc_exit_policy cfg = Trailing_stop
                     then s\<lparr>trail_distance := Some stop_distance, highest_since_entry := Some entry_price\<rparr> else s)
            in if rc_exit_policy cfg = Stop_and_target
               then s\<lparr>take_profit_price := Some (dadd entry_price
                        (dmul (dmul dir stop_distance) (min_reward_risk (rc_rules cfg))))\<rparr>
               else s)
         else s)"

definition close_opposing ::
  "replay_config \<Rightarrow> candle \<Rightarrow> order_side \<Rightarrow> backtest_position \<Rightarrow> replay_state \<Rightarrow> (string, replay_state) result" where
  "close_opposing cfg candle side existing s =
     res_bind (simulate_fill (rc_exchange cfg) side (c_close candle) (bp_quantity existing)
                 (expected_slippage (rc_exchange cfg) (rc_spread cfg)))
       (\<lambda>fill. apply_and_record s (Some existing) fill side (c_close_time candle)
                 (rc_exchange cfg = ''oanda'') By_signal)"

definition try_entry ::
  "replay_config \<Rightarrow> candle \<Rightarrow> candle list \<Rightarrow> order_side \<Rightarrow> nat \<Rightarrow> replay_state \<Rightarrow> (string, replay_state) result" where
  "try_entry cfg candle history side bar_seconds s =
     res_bind (stop_distance_of (rc_exchange cfg) (rc_instrument cfg) (last_n atr_history_candles history)
                 (rc_spread cfg) (rc_rules cfg)) (\<lambda>stop_distance.
     res_bind (fee_buffer_per_unit (rc_exchange cfg) (c_close candle) (rc_rules cfg)) (\<lambda>fee_per_unit.
     let result = evaluate_conservative_v1
           (risk_state_of cfg candle side bar_seconds stop_distance fee_per_unit s)
     in if pr_outcome result = Deny then Inr s
        else case pr_quantity result of
         None \<Rightarrow> Inl ''AssertionError''
       | Some quantity \<Rightarrow>
           res_bind (simulate_fill (rc_exchange cfg) side (c_close candle) quantity
                       (expected_slippage (rc_exchange cfg) (rc_spread cfg))) (\<lambda>entry_fill.
           res_bind (apply_and_record s (position s) entry_fill side (c_close_time candle)
                       (rc_exchange cfg = ''oanda'') By_signal) (\<lambda>t.
             Inr (set_protection cfg side (sf_price entry_fill) stop_distance (position s)
                    (t\<lparr>last_order_time := Some (c_close_time candle)\<rparr>))))))"

definition history_at :: "candle list \<Rightarrow> nat \<Rightarrow> candle list" where
  "history_at candles i = slice (i + 1 - history_window) (i + 1) candles"

definition act_on_signal ::
  "replay_config \<Rightarrow> nat \<Rightarrow> candle list \<Rightarrow> candle \<Rightarrow> replay_state \<Rightarrow> (string, replay_state) result" where
  "act_on_signal cfg bar_seconds history candle s =
     (let action = rc_generator cfg history
      in case position s of
           Some existing \<Rightarrow>
             if opposing action (Some existing)
             then close_opposing cfg candle (side_of_signal action) existing s
             else if action = Hold then Inr s
             else try_entry cfg candle history (side_of_signal action) bar_seconds s
         | None \<Rightarrow>
             if action = Hold then Inr s
             else try_entry cfg candle history (side_of_signal action) bar_seconds s)"

definition bar_step ::
  "replay_config \<Rightarrow> nat \<Rightarrow> candle list \<Rightarrow> replay_state \<Rightarrow> nat \<Rightarrow> (string, replay_state) result" where
  "bar_step cfg bar_seconds candles s i =
     res_bind (check_probes cfg s (probes_of cfg (candles ! i))) (\<lambda>t.
       act_on_signal cfg bar_seconds (history_at candles i) (candles ! i)
         (mark_bar cfg (candles ! i) t))"

subsection \<open>The run\<close>

definition result_of :: "candle list \<Rightarrow> replay_state \<Rightarrow> replay_result" where
  "result_of candles s = \<lparr>rr_trades = trades s,
     rr_ending_equity = dadd (cash_equity s) (market_value (position s) (c_close (last candles))),
     rr_ending_position = position s, rr_equity_curve = equity_curve s\<rparr>"

definition run_replay ::
  "replay_config \<Rightarrow> candle list \<Rightarrow> decimal \<Rightarrow> int \<Rightarrow> (string, replay_result) result" where
  "run_replay cfg candles initial_equity warmup_bars =
     (if warmup_bars < 0 then Inl ''warmup_bars must be non-negative''
      else if rc_stop_slippage cfg < 0 then Inl ''stop_slippage must be non-negative''
      else if int (length candles) \<le> warmup_bars then
        Inr \<lparr>rr_trades = [], rr_ending_equity = initial_equity, rr_ending_position = None,
             rr_equity_curve = []\<rparr>
      else case timeframe_seconds (rc_timeframe cfg) of
        None \<Rightarrow> Inl ''KeyError''
      | Some bar_seconds \<Rightarrow>
          res_bind (run_steps (bar_step cfg bar_seconds candles) (initial_state initial_equity)
                      [nat warmup_bars..<length candles]) (\<lambda>s.
            Inr (result_of candles s)))"


subsection \<open>Lemmas: positions\<close>

definition replay_inv :: "replay_config \<Rightarrow> replay_state \<Rightarrow> bool" where
  "replay_inv cfg s \<longleftrightarrow> position_ok (position s)
     \<and> (position s = None \<longleftrightarrow> position_opened_at s = None)
     \<and> (rc_exchange cfg \<noteq> ''oanda'' \<longrightarrow> long_or_flat (position s))
     \<and> (position s = None \<longrightarrow> stop_price s = None \<and> take_profit_price s = None
          \<and> trail_distance s = None \<and> highest_since_entry s = None \<and> open_entry_fees s = 0)
     \<and> (rc_exit_policy cfg = Signal_only \<longrightarrow> stop_price s = None)
     \<and> map tr_sequence_no (trades s) = [1..<length (trades s) + 1]
     \<and> next_sequence_no s = length (trades s) + 1
     \<and> (\<forall>t \<in> set (trades s). 0 < tr_quantity t \<and> 0 < tr_entry_price t \<and> 0 < tr_exit_price t)"

definition replay_good :: "replay_config \<Rightarrow> (string, replay_state) result \<Rightarrow> bool" where
  \<comment> \<open>a state that satisfies the invariant, or the one error a replay may raise\<close>
  "replay_good cfg r \<longleftrightarrow> (case r of Inr t \<Rightarrow> replay_inv cfg t | Inl e \<Rightarrow> e = ''invalid_fill_price'')"

lemma replay_good_bind:
  "replay_good cfg m \<Longrightarrow> (\<And>t. m = Inr t \<Longrightarrow> replay_inv cfg t \<Longrightarrow> replay_good cfg (f t)) \<Longrightarrow>
     replay_good cfg (res_bind m f)"
  by (cases m) (auto simp: replay_good_def)

lemma simulate_fill_supported:
  "ex \<in> {''oanda'', ''binance''} \<Longrightarrow> simulate_fill ex side price q slip = Inl e \<Longrightarrow> e = ''invalid_fill_price''"
  by (auto simp: simulate_fill_def fee_buffer_def Let_def result_simps split: if_splits)

lemma replay_inv_initial: "replay_inv cfg (initial_state e)"
  by (simp add: replay_inv_def initial_state_def position_ok_def long_or_flat_def)

text \<open>A fill of exactly the held quantity in the closing direction: one trade, and flat.\<close>

definition closed_state ::
  "replay_state \<Rightarrow> backtest_position \<Rightarrow> simulated_fill \<Rightarrow> datetime \<Rightarrow> datetime \<Rightarrow> exit_reason \<Rightarrow> replay_state" where
  "closed_state s p fill opened now reason =
     (let closing_fee = ddiv (dmul (sf_fee fill) (bp_quantity p)) (bp_quantity p);
          notional = dmul (sf_price fill) (bp_quantity p);
          pnl = dmul (dmul (dsub (sf_price fill) (bp_entry p)) (bp_quantity p)) (direction (bp_side p));
          t = record_trade (s\<lparr>cash_equity := dadd (cash_equity s)
                (dsub (if bp_side p = Long then notional else dneg notional) (sf_fee fill))\<rparr>)
              p fill (closing_side (bp_side p)) opened now (bp_quantity p) closing_fee pnl reason
      in t\<lparr>position_opened_at := None, stop_price := None, take_profit_price := None,
           trail_distance := None, highest_since_entry := None, open_entry_fees := 0, position := None\<rparr>)"

lemma apply_fill_close:
  "sf_quantity fill = bp_quantity p \<Longrightarrow>
     apply_fill_to_position (Some p) fill (closing_side (bp_side p)) allow =
       Inr \<lparr>fo_position = None, fo_realized_pnl =
         dmul (dmul (dsub (sf_price fill) (bp_entry p)) (bp_quantity p)) (direction (bp_side p))\<rparr>"
  by (cases "bp_side p") (simp_all add: apply_fill_to_position_def Let_def)

lemma apply_and_record_close:
  assumes "position_opened_at s = Some opened" "sf_quantity fill = bp_quantity p" "bp_quantity p \<noteq> 0"
  shows "apply_and_record s (Some p) fill (closing_side (bp_side p)) now allow reason =
    Inr (closed_state s p fill opened now reason)"
  using assms unfolding apply_and_record_def apply_fill_close [OF assms(2)]
  by (simp add: closing_quantity_of_def update_position_def closed_state_def record_trade_def Let_def)

lemma closed_state_sel [simp]:
  "position (closed_state s p fill opened now reason) = None"
  "position_opened_at (closed_state s p fill opened now reason) = None"
  "stop_price (closed_state s p fill opened now reason) = None"
  "take_profit_price (closed_state s p fill opened now reason) = None"
  "trail_distance (closed_state s p fill opened now reason) = None"
  "highest_since_entry (closed_state s p fill opened now reason) = None"
  "open_entry_fees (closed_state s p fill opened now reason) = 0"
  "next_sequence_no (closed_state s p fill opened now reason) = next_sequence_no s + 1"
  "equity_curve (closed_state s p fill opened now reason) = equity_curve s"
  by (simp_all add: closed_state_def record_trade_def Let_def)

lemma closed_state_trades:
  "\<exists>t. trades (closed_state s p fill opened now reason) = trades s @ [t]
    \<and> tr_sequence_no t = next_sequence_no s \<and> tr_quantity t = bp_quantity p
    \<and> tr_entry_price t = bp_entry p \<and> tr_exit_price t = sf_price fill \<and> tr_entry_time t = opened
    \<and> tr_exit_time t = now \<and> tr_side t = closing_side (bp_side p) \<and> tr_exit_reason t = reason"
  by (simp add: closed_state_def record_trade_def Let_def)

text \<open>A fill that opens or increases: no trade, and the entry fee is carried.\<close>

lemma apply_and_record_enter:
  assumes "\<forall>p. pre = Some p \<longrightarrow> opening_side side = bp_side p"
    and "apply_and_record s pre fill side now allow reason = Inr t"
  shows "\<exists>out. apply_fill_to_position pre fill side allow = Inr out
    \<and> position t = fo_position out \<and> fo_position out \<noteq> None
    \<and> (\<forall>q. fo_position out = Some q \<longrightarrow> bp_side q = opening_side side)
    \<and> position_opened_at t = (if pre = None then Some now else position_opened_at s)
    \<and> trades t = trades s \<and> next_sequence_no t = next_sequence_no s \<and> equity_curve t = equity_curve s
    \<and> stop_price t = stop_price s \<and> take_profit_price t = take_profit_price s
    \<and> trail_distance t = trail_distance s \<and> highest_since_entry t = highest_since_entry s"
proof -
  have "side \<noteq> closing_side (bp_side p)" if "pre = Some p" for p
    using assms(1) that by (cases side; cases "bp_side p") auto
  then show ?thesis
    using assms
    by (cases pre) (auto simp: apply_and_record_def apply_fill_to_position_def update_position_def
        Let_def result_simps split: if_splits)
qed

lemma opposing_closing_side:
  "opposing action (Some p) \<Longrightarrow> side_of_signal action = closing_side (bp_side p)"
  by (cases "bp_side p") (auto simp: opposing_def)

lemma not_opposing_opening_side:
  "\<not> opposing action (Some p) \<Longrightarrow> action \<noteq> Hold \<Longrightarrow> opening_side (side_of_signal action) = bp_side p"
  by (cases action; cases "bp_side p") (auto simp: opposing_def)

lemma close_keeps:
  assumes "replay_inv cfg s" "position s = Some p" "0 < sf_price fill" "sf_quantity fill = bp_quantity p"
  shows "replay_good cfg (apply_and_record s (Some p) fill (closing_side (bp_side p)) now allow reason)"
proof -
  obtain opened where o: "position_opened_at s = Some opened"
    using assms(1,2) by (auto simp: replay_inv_def)
  have q: "0 < bp_quantity p" "0 < bp_entry p" using assms(1,2) by (auto simp: replay_inv_def position_ok_def)
  have "replay_inv cfg (closed_state s p fill opened now reason)"
    using closed_state_trades [of s p fill opened now reason] assms q
    by (auto simp: replay_inv_def position_ok_def long_or_flat_def)
  then show ?thesis using apply_and_record_close [OF o assms(4)] q by (simp add: replay_good_def)
qed

lemma simulate_and_close:
  assumes "rc_exchange cfg \<in> {''oanda'', ''binance''}" "replay_inv cfg s" "position s = Some p"
  shows "replay_good cfg (res_bind (simulate_fill (rc_exchange cfg) (closing_side (bp_side p)) price (bp_quantity p) slip)
    (\<lambda>fill. apply_and_record s (Some p) fill (closing_side (bp_side p)) now allow reason))"
proof (cases "simulate_fill (rc_exchange cfg) (closing_side (bp_side p)) price (bp_quantity p) slip")
  case (Inl e)
  then show ?thesis using simulate_fill_supported [OF assms(1) Inl] by (simp add: replay_good_def)
next
  case (Inr fill)
  then show ?thesis using assms by (auto dest!: simulate_fill_Inr intro: close_keeps)
qed

lemma raise_trailing_stop_keeps: "replay_inv cfg s \<Longrightarrow> replay_inv cfg (raise_trailing_stop s bar)"
  by (auto simp: raise_trailing_stop_def replay_inv_def Let_def split: option.splits)

lemma check_probes_keeps:
  assumes "rc_exchange cfg \<in> {''oanda'', ''binance''}" "replay_inv cfg s"
  shows "replay_good cfg (check_probes cfg s probes)"
  using assms(2)
proof (induction probes arbitrary: s)
  case Nil
  then show ?case by (simp add: replay_good_def)
next
  case (Cons probe probes)
  consider "rc_exit_policy cfg = Signal_only \<or> position s = None \<or> stop_price s = None"
    | held stop where "rc_exit_policy cfg \<noteq> Signal_only" "position s = Some held" "stop_price s = Some stop"
    by (cases "position s"; cases "stop_price s") auto
  then show ?case
  proof cases
    case 1
    then show ?thesis using Cons.prems
      by (auto simp: replay_good_def split: option.splits)
  next
    case 2
    then show ?thesis
      using Cons.prems Cons.IH [OF raise_trailing_stop_keeps [OF Cons.prems]]
      by (auto simp: Let_def intro!: simulate_and_close [OF assms(1)] split: option.split)
  qed
qed

lemma mark_bar_sel [simp]:
  "position (mark_bar cfg c s) = position s" "cash_equity (mark_bar cfg c s) = cash_equity s"
  "position_opened_at (mark_bar cfg c s) = position_opened_at s"
  "trades (mark_bar cfg c s) = trades s" "next_sequence_no (mark_bar cfg c s) = next_sequence_no s"
  "stop_price (mark_bar cfg c s) = stop_price s" "take_profit_price (mark_bar cfg c s) = take_profit_price s"
  "trail_distance (mark_bar cfg c s) = trail_distance s"
  "highest_since_entry (mark_bar cfg c s) = highest_since_entry s"
  "open_entry_fees (mark_bar cfg c s) = open_entry_fees s"
  "equity_curve (mark_bar cfg c s) = equity_curve s @ [(c_close_time c, mark_to_market s (c_close c))]"
  by (simp_all add: mark_bar_def release_expired_lock_def Let_def split: option.split)

lemma mark_bar_keeps: "replay_inv cfg s \<Longrightarrow> replay_inv cfg (mark_bar cfg c s)"
  by (simp add: replay_inv_def)


subsection \<open>Lemmas: entries\<close>

lemma apply_and_record_enter_defined:
  assumes "\<forall>p. pre = Some p \<longrightarrow> opening_side side = bp_side p"
    and "allow \<or> side = Buy_order \<or> pre \<noteq> None"
  shows "\<exists>t. apply_and_record s pre fill side now allow reason = Inr t"
proof (cases pre)
  case None
  then show ?thesis using assms
    by (cases side) (auto simp: apply_and_record_def apply_fill_to_position_def Let_def)
next
  case (Some p)
  moreover from this have "side \<noteq> closing_side (bp_side p)"
    using assms(1) by (cases side; cases "bp_side p") auto
  ultimately show ?thesis using assms
    by (auto simp: apply_and_record_def apply_fill_to_position_def Let_def)
qed

lemma set_protection_sel [simp]:
  "position (set_protection cfg side price d pre s) = position s"
  "position_opened_at (set_protection cfg side price d pre s) = position_opened_at s"
  "trades (set_protection cfg side price d pre s) = trades s"
  "next_sequence_no (set_protection cfg side price d pre s) = next_sequence_no s"
  "equity_curve (set_protection cfg side price d pre s) = equity_curve s"
  by (simp_all add: set_protection_def Let_def)

lemma set_protection_keeps:
  "replay_inv cfg s \<Longrightarrow> position s \<noteq> None \<Longrightarrow> replay_inv cfg (set_protection cfg side price d pre s)"
  by (auto simp: replay_inv_def) (auto simp: set_protection_def Let_def)

lemma replay_inv_last_order [simp]: "replay_inv cfg (s\<lparr>last_order_time := t\<rparr>) = replay_inv cfg s"
  by (simp add: replay_inv_def)

lemma enter_keeps:
  assumes s: "replay_inv cfg s" and side: "\<forall>p. position s = Some p \<longrightarrow> opening_side side = bp_side p"
    and fill: "0 < sf_quantity fill" "0 < sf_price fill"
    and short: "rc_exchange cfg = ''oanda'' \<or> side = Buy_order \<or> position s \<noteq> None"
  shows "\<exists>t. apply_and_record s (position s) fill side now (rc_exchange cfg = ''oanda'') reason = Inr t
    \<and> replay_inv cfg t \<and> position t \<noteq> None"
proof -
  obtain t where t: "apply_and_record s (position s) fill side now (rc_exchange cfg = ''oanda'') reason = Inr t"
    using apply_and_record_enter_defined [OF side short] by blast
  obtain out where out: "apply_fill_to_position (position s) fill side (rc_exchange cfg = ''oanda'') = Inr out"
    and pos: "position t = fo_position out" "fo_position out \<noteq> None"
    and rest: "position_opened_at t = (if position s = None then Some now else position_opened_at s)"
      "trades t = trades s" "next_sequence_no t = next_sequence_no s" "stop_price t = stop_price s"
    using apply_and_record_enter [OF side t] by blast
  have "position_ok (fo_position out)"
    using apply_fill_position_ok [OF out] s fill by (simp add: replay_inv_def)
  moreover have "long_or_flat (fo_position out)" if "rc_exchange cfg \<noteq> ''oanda''"
    using apply_fill_long_only [of "position s" fill side] out s fill(1) that by (simp add: replay_inv_def)
  ultimately have "replay_inv cfg t"
    using s pos rest by (auto simp: replay_inv_def)
  then show ?thesis using t pos by auto
qed

lemma distances_supported:
  assumes "ex \<in> {''oanda'', ''binance''}"
  shows "\<exists>d. stop_distance_of ex i cs spread rules = Inr d" "\<exists>f. fee_buffer_per_unit ex price rules = Inr f"
  using assms by (auto simp: stop_distance_of_def fee_buffer_per_unit_def Let_def)

lemma try_entry_keeps:
  assumes ex: "rc_exchange cfg \<in> {''oanda'', ''binance''}" and s: "replay_inv cfg s"
    and side: "\<forall>p. position s = Some p \<longrightarrow> opening_side side = bp_side p"
  shows "replay_good cfg (try_entry cfg c history side bar_seconds s)"
proof -
  obtain d where d: "stop_distance_of (rc_exchange cfg) (rc_instrument cfg)
      (last_n atr_history_candles history) (rc_spread cfg) (rc_rules cfg) = Inr d"
    using distances_supported(1) [OF ex] by blast
  obtain f where f: "fee_buffer_per_unit (rc_exchange cfg) (c_close c) (rc_rules cfg) = Inr f"
    using distances_supported(2) [OF ex] by blast
  let ?r = "risk_state_of cfg c side bar_seconds d f s"
  show ?thesis
  proof (cases "pr_quantity (evaluate_conservative_v1 ?r)")
    case None
    then have "pr_outcome (evaluate_conservative_v1 ?r) = Deny" using rule_results_agree [of ?r] by blast
    then show ?thesis using s by (simp add: try_entry_def d f Let_def replay_good_def)
  next
    case (Some q)
    then have "pr_outcome (evaluate_conservative_v1 ?r) \<noteq> Deny" using rule_results_agree [of ?r] by simp
    have q: "0 < q" and "rc_exchange cfg = ''binance'' \<longrightarrow> side = Sell_order \<longrightarrow> position s \<noteq> None"
      using approval_limits [OF Some] by (auto simp: risk_state_of_def)
    then have short: "rc_exchange cfg = ''oanda'' \<or> side = Buy_order \<or> position s \<noteq> None"
      using ex by (cases side) auto
    let ?sim = "simulate_fill (rc_exchange cfg) side (c_close c) q (expected_slippage (rc_exchange cfg) (rc_spread cfg))"
    show ?thesis
    proof (cases ?sim)
      case (Inl e)
      then show ?thesis using simulate_fill_supported [OF ex Inl] Some \<open>pr_outcome _ \<noteq> Deny\<close>
        by (simp add: try_entry_def d f Let_def replay_good_def)
    next
      case (Inr fill)
      then obtain t where "apply_and_record s (position s) fill side (c_close_time c) (rc_exchange cfg = ''oanda'') By_signal = Inr t"
        "replay_inv cfg t" "position t \<noteq> None"
        using enter_keeps [OF s side _ _ short, of fill] q simulate_fill_Inr [OF Inr] by blast
      moreover from this have "replay_inv cfg (set_protection cfg side (sf_price fill) d (position s)
          (t\<lparr>last_order_time := Some (c_close_time c)\<rparr>))"
        by (intro set_protection_keeps) simp_all
      ultimately show ?thesis
        using Inr Some \<open>pr_outcome _ \<noteq> Deny\<close> by (simp add: try_entry_def d f Let_def replay_good_def)
    qed
  qed
qed

lemma act_on_signal_keeps:
  assumes ex: "rc_exchange cfg \<in> {''oanda'', ''binance''}" and s: "replay_inv cfg s"
  shows "replay_good cfg (act_on_signal cfg bar_seconds history c s)"
proof (cases "position s")
  case None
  then show ?thesis using s
    by (auto simp: act_on_signal_def Let_def replay_good_def intro!: try_entry_keeps [OF ex s, unfolded replay_good_def])
next
  case (Some p)
  show ?thesis
  proof (cases "opposing (rc_generator cfg history) (Some p)")
    case True
    then show ?thesis
      using simulate_and_close [OF ex s Some]
      by (simp add: act_on_signal_def Let_def Some close_opposing_def opposing_closing_side [OF True])
  next
    case False
    then have "replay_good cfg (try_entry cfg c history (side_of_signal (rc_generator cfg history)) bar_seconds s)"
      if "rc_generator cfg history \<noteq> Hold"
      using that by (intro try_entry_keeps [OF ex s]) (simp add: Some not_opposing_opening_side)
    then show ?thesis using False s
      by (auto simp: act_on_signal_def Let_def Some replay_good_def)
  qed
qed

lemma bar_step_keeps:
  assumes "rc_exchange cfg \<in> {''oanda'', ''binance''}" "replay_inv cfg s"
  shows "replay_good cfg (bar_step cfg bar_seconds candles s i)"
  unfolding bar_step_def
  by (rule replay_good_bind [OF check_probes_keeps [OF assms]])
    (rule act_on_signal_keeps [OF assms(1) mark_bar_keeps])


subsection \<open>The run\<close>

lemma run_steps_good:
  assumes "rc_exchange cfg \<in> {''oanda'', ''binance''}" "replay_inv cfg s"
  shows "replay_good cfg (run_steps (bar_step cfg bar_seconds candles) s is)"
  using assms(2)
proof (induction "is" arbitrary: s)
  case (Cons i "is")
  show ?case
    using Cons.IH by (auto intro: replay_good_bind [OF bar_step_keeps [OF assms(1) Cons.prems]])
qed (simp add: replay_good_def)

text \<open>
  On a supported exchange and timeframe a replay raises nothing but
  \<open>invalid_fill_price\<close>: no internal assertion fails, no short is refused after the Risk Gate
  approved it, no bookkeeping error reaches the caller.
\<close>

theorem run_replay_errors:
  assumes "rc_exchange cfg \<in> {''oanda'', ''binance''}" "timeframe_seconds (rc_timeframe cfg) \<noteq> None"
    and "0 \<le> warmup" "0 \<le> rc_stop_slippage cfg" "run_replay cfg candles e0 warmup = Inl e"
  shows "e = ''invalid_fill_price''"
proof -
  obtain b where b: "timeframe_seconds (rc_timeframe cfg) = Some b" using assms(2) by blast
  have "run_steps (bar_step cfg b candles) (initial_state e0) [nat warmup..<length candles] = Inl e"
  proof (cases "int (length candles) \<le> warmup")
    case True
    then show ?thesis using assms(3-5) by (simp add: run_replay_def)
  next
    case False
    then have eq: "run_replay cfg candles e0 warmup = res_bind (run_steps (bar_step cfg b candles)
        (initial_state e0) [nat warmup..<length candles]) (\<lambda>s. Inr (result_of candles s))"
      using assms(3,4) by (simp add: run_replay_def b not_less [symmetric])
    show ?thesis using trans [OF sym [OF eq] assms(5)] by (auto simp only: res_bind_Inl_iff sum.simps)
  qed
  moreover have "replay_good cfg (run_steps (bar_step cfg b candles) (initial_state e0) [nat warmup..<length candles])"
    by (rule run_steps_good [OF assms(1) replay_inv_initial])
  ultimately show ?thesis by (simp only: replay_good_def sum.case)
qed

lemma run_replay_Inr:
  assumes "run_replay cfg candles e0 warmup = Inr r"
  shows "0 \<le> warmup \<and> (length candles \<le> nat warmup \<and> rr_trades r = [] \<and> rr_equity_curve r = []
        \<and> rr_ending_position r = None \<and> rr_ending_equity r = e0
    \<or> nat warmup < length candles \<and> (\<exists>b s. timeframe_seconds (rc_timeframe cfg) = Some b
        \<and> run_steps (bar_step cfg b candles) (initial_state e0) [nat warmup..<length candles] = Inr s
        \<and> rr_trades r = trades s \<and> rr_equity_curve r = equity_curve s \<and> rr_ending_position r = position s
        \<and> rr_ending_equity r = dadd (cash_equity s) (market_value (position s) (c_close (last candles)))))"
  using assms by (auto simp: run_replay_def result_of_def result_simps split: if_splits option.splits)

text \<open>
  The result of a replay is well formed: trades are numbered 1, 2, 3, ... in
  order, each with positive quantity and prices; the position left open, if any, has a positive
  quantity and entry price, and off OANDA it is never short.
\<close>

theorem run_replay_well_formed:
  assumes "rc_exchange cfg \<in> {''oanda'', ''binance''}" "run_replay cfg candles e0 warmup = Inr r"
  shows "map tr_sequence_no (rr_trades r) = [1..<length (rr_trades r) + 1]
    \<and> (\<forall>t \<in> set (rr_trades r). 0 < tr_quantity t \<and> 0 < tr_entry_price t \<and> 0 < tr_exit_price t)
    \<and> position_ok (rr_ending_position r)
    \<and> (rc_exchange cfg \<noteq> ''oanda'' \<longrightarrow> long_or_flat (rr_ending_position r))"
proof -
  have inv: "replay_inv cfg s" if "run_steps (bar_step cfg b candles) (initial_state e0) js = Inr s" for b js s
    using run_steps_good [OF assms(1) replay_inv_initial] that by (metis replay_good_def sum.case(2))
  consider "rr_trades r = []" "rr_ending_position r = None"
    | b s where "run_steps (bar_step cfg b candles) (initial_state e0) [nat warmup..<length candles] = Inr s"
        "rr_trades r = trades s" "rr_ending_position r = position s"
    using run_replay_Inr [OF assms(2)] by fastforce
  then show ?thesis
  proof cases
    case 1
    then show ?thesis by (simp add: position_ok_def long_or_flat_def)
  next
    case 2
    then show ?thesis using inv [OF 2(1)] unfolding 2(2,3) replay_inv_def by blast
  qed
qed

subsection \<open>No look-ahead\<close>

definition extends :: "replay_state \<Rightarrow> replay_state \<Rightarrow> bool" where
  "extends s t \<longleftrightarrow> (\<exists>ts. trades t = trades s @ ts) \<and> (\<exists>es. equity_curve t = equity_curve s @ es)"

lemma extends_refl [simp]: "extends s s"
  by (simp add: extends_def)

lemma extends_trans [trans]: "extends s t \<Longrightarrow> extends t u \<Longrightarrow> extends s u"
  by (auto simp: extends_def)

lemma record_trade_curve [simp]:
  "equity_curve (record_trade s p fill side o' now cq cf pnl reason) = equity_curve s"
  "\<exists>t. trades (record_trade s p fill side o' now cq cf pnl reason) = trades s @ [t]"
  by (simp_all add: record_trade_def Let_def)

lemma update_position_curve [simp]:
  "equity_curve (update_position s pre post now) = equity_curve s"
  "trades (update_position s pre post now) = trades s"
  by (auto simp: update_position_def Let_def)

lemma apply_and_record_extends:
  assumes "apply_and_record s pre fill side now allow reason = Inr t"
  shows "equity_curve t = equity_curve s \<and> (\<exists>ts. trades t = trades s @ ts)"
proof (cases "\<exists>p. pre = Some p \<and> side = closing_side (bp_side p)")
  case True
  then obtain p where "pre = Some p" "side = closing_side (bp_side p)" by blast
  then show ?thesis using assms
    by (auto simp: apply_and_record_def Let_def res_bind_Inr_iff record_trade_def split: option.splits)
next
  case False
  then show ?thesis using assms
    by (cases pre) (auto simp: apply_and_record_def Let_def res_bind_Inr_iff split: option.splits)
qed

lemma raise_trailing_stop_curve [simp]:
  "equity_curve (raise_trailing_stop s bar) = equity_curve s"
  "trades (raise_trailing_stop s bar) = trades s"
  by (simp_all add: raise_trailing_stop_def Let_def split: option.split)

lemma check_probes_extends:
  assumes "check_probes cfg s probes = Inr t"
  shows "equity_curve t = equity_curve s \<and> (\<exists>ts. trades t = trades s @ ts)"
  using assms
proof (induction probes arbitrary: s)
  case (Cons probe probes)
  then show ?case
    by (fastforce simp: Let_def result_simps dest: apply_and_record_extends
        split: if_splits option.splits prod.splits)
qed simp

lemma try_entry_extends:
  assumes "try_entry cfg c h side b s = Inr t"
  shows "equity_curve t = equity_curve s \<and> (\<exists>ts. trades t = trades s @ ts)"
  using assms
  by (auto simp: try_entry_def Let_def result_simps split: if_splits option.splits
      dest: apply_and_record_extends)

lemma act_on_signal_extends:
  assumes "act_on_signal cfg b h c s = Inr t"
  shows "equity_curve t = equity_curve s \<and> (\<exists>ts. trades t = trades s @ ts)"
  using assms
  by (auto simp: act_on_signal_def close_opposing_def Let_def result_simps
      split: if_splits option.splits dest: try_entry_extends apply_and_record_extends)

lemma bar_step_extends:
  assumes "bar_step cfg b candles s i = Inr t"
  shows "(\<exists>ts. trades t = trades s @ ts)
    \<and> (\<exists>e. equity_curve t = equity_curve s @ [(c_close_time (candles ! i), e)])"
proof -
  obtain u where u: "check_probes cfg s (probes_of cfg (candles ! i)) = Inr u"
    and t: "act_on_signal cfg b (history_at candles i) (candles ! i) (mark_bar cfg (candles ! i) u) = Inr t"
    using assms by (auto simp: bar_step_def result_simps)
  show ?thesis
    using check_probes_extends [OF u] act_on_signal_extends [OF t] by auto
qed

interpretation replay_extends: loop_progress "bar_step cfg b candles" extends
  by unfold_locales (auto simp: extends_def dest: bar_step_extends)

lemma run_steps_curve:
  "run_steps (bar_step cfg b candles) s is = Inr t \<Longrightarrow>
     map fst (equity_curve t) = map fst (equity_curve s) @ map (\<lambda>i. c_close_time (candles ! i)) is"
proof (induction "is" arbitrary: s)
  case (Cons i "is")
  then show ?case by (fastforce simp: result_simps dest!: bar_step_extends)
qed simp

lemma bar_step_append:
  assumes "i < length xs"
  shows "bar_step cfg b (xs @ ys) s i = bar_step cfg b xs s i"
  using assms by (simp add: bar_step_def history_at_def nth_append slice_append_left)

text \<open>
  A replay marks the account once per bar after the warm-up, at the bars' close
  times in order.
\<close>

theorem run_replay_curve_times:
  assumes "run_replay cfg candles e0 warmup = Inr r"
  shows "map fst (rr_equity_curve r) = map c_close_time (drop (nat warmup) candles)"
proof -
  have "map (\<lambda>i. c_close_time (candles ! i)) [nat warmup..<length candles]
      = map c_close_time (drop (nat warmup) candles)"
    by (rule nth_equalityI) auto
  then show ?thesis
    using run_replay_Inr [OF assms] run_steps_curve by (fastforce simp: initial_state_def)
qed

text \<open>
  C1 (safety). No look-ahead: extending the candle series with later bars changes neither the
  trades nor the equity points of the earlier bars, for any signal generator, exit policy, stop
  monitor and lock setting.
\<close>

theorem replay_no_look_ahead:
  assumes "run_replay cfg (xs @ ys) e0 warmup = Inr r'"
  shows "\<exists>r ts. run_replay cfg xs e0 warmup = Inr r \<and> rr_trades r' = rr_trades r @ ts
    \<and> rr_equity_curve r = take (length xs - nat warmup) (rr_equity_curve r')"
proof (cases "length xs \<le> nat warmup")
  case True
  then show ?thesis using assms by (auto simp: run_replay_def split: if_splits)
next
  case False
  let ?w = "nat warmup"
  have w: "0 \<le> warmup" "?w < length (xs @ ys)" "\<not> int (length xs) \<le> warmup"
    using False run_replay_Inr [OF assms] by auto
  obtain b t where b: "timeframe_seconds (rc_timeframe cfg) = Some b"
    and t: "run_steps (bar_step cfg b (xs @ ys)) (initial_state e0) [?w..<length (xs @ ys)] = Inr t"
    and r': "rr_trades r' = trades t" "rr_equity_curve r' = equity_curve t"
    using run_replay_Inr [OF assms] w(2) by auto
  have "[?w..<length (xs @ ys)] = [?w..<length xs] @ [length xs..<length (xs @ ys)]"
    using False by (simp add: upt_add_eq_append [of _ "length xs", symmetric])
  then obtain s where "run_steps (bar_step cfg b (xs @ ys)) (initial_state e0) [?w..<length xs] = Inr s"
    and st: "run_steps (bar_step cfg b (xs @ ys)) s [length xs..<length (xs @ ys)] = Inr t"
    using t by (auto simp: run_steps_append result_simps)
  then have s: "run_steps (bar_step cfg b xs) (initial_state e0) [?w..<length xs] = Inr s"
    using run_steps_cong [of "[?w..<length xs]" "bar_step cfg b (xs @ ys)" "bar_step cfg b xs"]
    by (simp add: bar_step_append)
  have "length (equity_curve s) = length xs - ?w"
    using run_steps_curve [OF s] by (simp add: initial_state_def flip: length_map [of fst])
  then have "equity_curve s = take (length xs - ?w) (equity_curve t)" "\<exists>ts. trades t = trades s @ ts"
    using replay_extends.run_rel [OF st] by (auto simp: extends_def)
  then show ?thesis
    using s r' w assms b by (auto simp: run_replay_def result_of_def split: if_splits)
qed


subsection \<open>Exits\<close>

text \<open>
  A protective exit fills at a price that traded in the bar; a stop never fills
  better than its level and a target never worse; and no exit means the bar stayed clear of the stop.
\<close>

theorem protective_exit_tradable:
  assumes "mb_low bar \<le> mb_open bar" "mb_open bar \<le> mb_high bar"
  shows "(case protective_exit bar p stop target of
      Some (price, reason) \<Rightarrow> mb_low bar \<le> price \<and> price \<le> mb_high bar
        \<and> (reason = By_stop_loss \<and> (if bp_side p = Long then price \<le> stop else stop \<le> price)
           \<or> reason = By_take_profit \<and> (\<exists>t. target = Some t
                \<and> (if bp_side p = Long then t \<le> price \<and> stop < mb_low bar else price \<le> t \<and> mb_high bar < stop)))
    | None \<Rightarrow> (if bp_side p = Long then stop < mb_low bar else mb_high bar < stop))"
  using assms by (auto simp: protective_exit_def split: option.split)

definition one_trade_closes :: "replay_state \<Rightarrow> replay_state \<Rightarrow> bool" where
  "one_trade_closes s t \<longleftrightarrow> (\<exists>p tr. position s = Some p \<and> trades t = trades s @ [tr]
     \<and> tr_quantity tr = bp_quantity p \<and> tr_entry_price tr = bp_entry p
     \<and> tr_side tr = closing_side (bp_side p) \<and> position_opened_at s = Some (tr_entry_time tr))"

lemma one_trade_closes_cong:
  "position u = position s \<Longrightarrow> trades u = trades s \<Longrightarrow> position_opened_at u = position_opened_at s \<Longrightarrow>
     one_trade_closes u t = one_trade_closes s t"
  by (simp add: one_trade_closes_def)

lemma one_trade_closes_flat: "position s = None \<Longrightarrow> \<not> one_trade_closes s t"
  and one_trade_closes_cong2: "trades v = trades u \<Longrightarrow> one_trade_closes s v = one_trade_closes s u"
  and one_trade_closes_neq: "one_trade_closes s t \<Longrightarrow> trades t \<noteq> trades s"
  by (auto simp: one_trade_closes_def)

lemma close_trades:
  assumes "replay_inv cfg s" "position s = Some p" "sf_quantity fill = bp_quantity p"
    and "apply_and_record s (Some p) fill (closing_side (bp_side p)) now allow reason = Inr t"
  shows "one_trade_closes s t \<and> position t = None"
proof -
  obtain opened where o: "position_opened_at s = Some opened"
    using assms(1,2) by (auto simp: replay_inv_def)
  have "bp_quantity p \<noteq> 0" using assms(1,2) by (auto simp: replay_inv_def position_ok_def)
  then have "t = closed_state s p fill opened now reason"
    using apply_and_record_close [OF o assms(3)] assms(4) by simp
  then show ?thesis
    using closed_state_trades [of s p fill opened now reason] assms(2) o by (auto simp: one_trade_closes_def)
qed

lemma raise_trailing_stop_frame [simp]:
  "position (raise_trailing_stop s bar) = position s"
  "position_opened_at (raise_trailing_stop s bar) = position_opened_at s"
  by (simp_all add: raise_trailing_stop_def Let_def split: option.split)

definition trade_reason :: "replay_state \<Rightarrow> exit_reason" where
  "trade_reason t = tr_exit_reason (last (trades t))"

lemma close_reason:
  assumes "replay_inv cfg s" "position s = Some p" "sf_quantity fill = bp_quantity p"
    and "apply_and_record s (Some p) fill (closing_side (bp_side p)) now allow reason = Inr t"
  shows "trade_reason t = reason"
proof -
  obtain opened where o: "position_opened_at s = Some opened"
    using assms(1,2) by (auto simp: replay_inv_def)
  then have "t = closed_state s p fill opened now reason"
    using apply_and_record_close [OF o assms(3)] assms(1,2,4)
    by (auto simp: replay_inv_def position_ok_def)
  then show ?thesis
    using closed_state_trades [of s p fill opened now reason] by (auto simp: trade_reason_def)
qed

lemma protective_exit_reason: "protective_exit bar p stop target = Some (price, reason) \<Longrightarrow> reason \<noteq> By_signal"
  by (auto simp: protective_exit_def split: if_splits option.splits)

lemma check_probes_cases:
  assumes "replay_inv cfg s" "check_probes cfg s probes = Inr t"
  shows "one_trade_closes s t \<and> position t = None \<and> trade_reason t \<noteq> By_signal
    \<or> trades t = trades s \<and> position t = position s \<and> position_opened_at t = position_opened_at s"
  using assms
proof (induction probes arbitrary: s)
  case (Cons probe probes)
  have "one_trade_closes s t \<longleftrightarrow> one_trade_closes (raise_trailing_stop s probe) t"
    by (simp add: one_trade_closes_def)
  then show ?case
    using Cons.prems(2) Cons.IH [OF raise_trailing_stop_keeps [OF Cons.prems(1)]]
    by (auto simp: Let_def res_bind_Inr_iff split: if_splits option.splits prod.splits
        dest!: simulate_fill_Inr protective_exit_reason
        dest: close_trades [OF Cons.prems(1)] close_reason [OF Cons.prems(1)])
qed simp

text \<open>
  The two ways an entry may change the position of a bar: it opens the quantity the Risk Gate approved
  for a flat account, at the close moved by the slippage, or it adds an approved quantity to the side held.
\<close>

definition gate_approves ::
  "replay_config \<Rightarrow> nat \<Rightarrow> candle \<Rightarrow> order_side \<Rightarrow> replay_state \<Rightarrow> decimal \<Rightarrow> bool" where
  "gate_approves cfg b c side v quantity \<longleftrightarrow>
     (\<exists>stop fee. pr_quantity (evaluate_conservative_v1 (risk_state_of cfg c side b stop fee v)) = Some quantity)"

definition opened_from_flat ::
  "replay_config \<Rightarrow> nat \<Rightarrow> candle list \<Rightarrow> candle \<Rightarrow> replay_state \<Rightarrow> bool" where
  "opened_from_flat cfg b h c t \<longleftrightarrow>
     (let side = side_of_signal (rc_generator cfg h);
          slip = expected_slippage (rc_exchange cfg) (rc_spread cfg)
      in rc_generator cfg h \<noteq> Hold \<and> position_opened_at t = Some (c_close_time c)
         \<and> (\<exists>v quantity. position v = None \<and> gate_approves cfg b c side v quantity
              \<and> position t = Some \<lparr>bp_side = opening_side side, bp_quantity = quantity,
                   bp_entry = (if side = Buy_order then dadd (c_close c) slip else dsub (c_close c) slip)\<rparr>))"

definition kept_or_added :: "backtest_position \<Rightarrow> replay_state \<Rightarrow> bool" where
  "kept_or_added p t \<longleftrightarrow> (\<exists>q. position t = Some q \<and> bp_side q = bp_side p
     \<and> (q = p \<or> (\<exists>x > 0. bp_quantity q = dadd (bp_quantity p) x)))"

lemma try_entry_steps:
  assumes "try_entry cfg c h side b s = Inr t" "t \<noteq> s"
  obtains quantity fill u where "gate_approves cfg b c side s quantity" "0 < quantity"
    "simulate_fill (rc_exchange cfg) side (c_close c) quantity (expected_slippage (rc_exchange cfg) (rc_spread cfg)) = Inr fill"
    "apply_and_record s (position s) fill side (c_close_time c) (rc_exchange cfg = ''oanda'') By_signal = Inr u"
    "position t = position u" "trades t = trades u" "position_opened_at t = position_opened_at u"
proof -
  obtain d f where "pr_outcome (evaluate_conservative_v1 (risk_state_of cfg c side b d f s)) \<noteq> Deny"
    and t: "(case pr_quantity (evaluate_conservative_v1 (risk_state_of cfg c side b d f s)) of
         None \<Rightarrow> Inl ''AssertionError''
       | Some quantity \<Rightarrow>
           res_bind (simulate_fill (rc_exchange cfg) side (c_close c) quantity
                       (expected_slippage (rc_exchange cfg) (rc_spread cfg))) (\<lambda>entry_fill.
           res_bind (apply_and_record s (position s) entry_fill side (c_close_time c)
                       (rc_exchange cfg = ''oanda'') By_signal) (\<lambda>t.
             Inr (set_protection cfg side (sf_price entry_fill) d (position s)
                    (t\<lparr>last_order_time := Some (c_close_time c)\<rparr>))))) = Inr t"
    using assms by (auto simp: try_entry_def Let_def res_bind_Inr_iff split: if_splits)
  show ?thesis
  proof (cases "pr_quantity (evaluate_conservative_v1 (risk_state_of cfg c side b d f s))")
    case (Some quantity)
    then have "gate_approves cfg b c side s quantity" "0 < quantity"
      using approval_limits [OF Some] by (auto simp: gate_approves_def)
    with t Some show ?thesis by (auto simp: res_bind_Inr_iff intro: that)
  qed (use t in simp)
qed

lemma try_entry_flat:
  assumes "position s = None" "rc_generator cfg h \<noteq> Hold" "side = side_of_signal (rc_generator cfg h)"
    and "try_entry cfg c h side b s = Inr t"
  shows "trades t = trades s \<and> (t = s \<or> opened_from_flat cfg b h c t)"
proof (cases "t = s")
  case False
  from assms(4) this obtain quantity fill u where e: "gate_approves cfg b c side s quantity"
    "simulate_fill (rc_exchange cfg) side (c_close c) quantity (expected_slippage (rc_exchange cfg) (rc_spread cfg)) = Inr fill"
    "apply_and_record s (position s) fill side (c_close_time c) (rc_exchange cfg = ''oanda'') By_signal = Inr u"
    "position t = position u" "trades t = trades u" "position_opened_at t = position_opened_at u"
    by (rule try_entry_steps)
  obtain out where "apply_fill_to_position None fill side (rc_exchange cfg = ''oanda'') = Inr out"
    and u: "position u = fo_position out" "position_opened_at u = Some (c_close_time c)" "trades u = trades s"
    using apply_and_record_enter [OF _ e(3)] assms(1) by auto
  then have "fo_position out = Some \<lparr>bp_side = opening_side side, bp_quantity = sf_quantity fill, bp_entry = sf_price fill\<rparr>"
    by (auto simp: apply_fill_to_position_def split: if_splits)
  then show ?thesis
    using u e simulate_fill_Inr [OF e(2)] assms(1-3) by (auto simp: opened_from_flat_def Let_def)
qed simp

lemma try_entry_held:
  assumes "position s = Some p" "opening_side side = bp_side p" "try_entry cfg c h side b s = Inr t"
  shows "trades t = trades s \<and> kept_or_added p t"
proof (cases "t = s")
  case False
  from assms(3) this obtain quantity fill u where e: "0 < quantity"
    "simulate_fill (rc_exchange cfg) side (c_close c) quantity (expected_slippage (rc_exchange cfg) (rc_spread cfg)) = Inr fill"
    "apply_and_record s (position s) fill side (c_close_time c) (rc_exchange cfg = ''oanda'') By_signal = Inr u"
    "position t = position u" "trades t = trades u"
    by (rule try_entry_steps)
  obtain out where "apply_fill_to_position (Some p) fill side (rc_exchange cfg = ''oanda'') = Inr out"
    and u: "position u = fo_position out" "trades u = trades s"
    using apply_and_record_enter [OF _ e(3)] assms(1,2) by auto
  then have "\<exists>q. fo_position out = Some q \<and> bp_side q = bp_side p \<and> bp_quantity q = dadd (bp_quantity p) (sf_quantity fill)"
    using assms(2) by (auto simp: apply_fill_to_position_def Let_def)
  then show ?thesis
    using u e simulate_fill_Inr [OF e(2)] by (auto simp: kept_or_added_def)
qed (use assms in \<open>auto simp: kept_or_added_def\<close>)

lemma act_on_signal_flat:
  assumes "position s = None" "act_on_signal cfg b h c s = Inr t"
  shows "trades t = trades s \<and> (t = s \<or> opened_from_flat cfg b h c t)"
  using assms by (auto simp: act_on_signal_def Let_def split: if_splits dest: try_entry_flat [OF assms(1)])

lemma act_on_signal_held:
  assumes "replay_inv cfg s" "position s = Some p" "act_on_signal cfg b h c s = Inr t"
  shows "one_trade_closes s t \<and> position t = None \<or> trades t = trades s \<and> kept_or_added p t"
proof (cases "opposing (rc_generator cfg h) (Some p)")
  case True
  then show ?thesis using assms(2,3)
    by (auto simp: act_on_signal_def Let_def close_opposing_def opposing_closing_side res_bind_Inr_iff
        dest!: simulate_fill_Inr dest: close_trades [OF assms(1,2)])
next
  case False
  show ?thesis
  proof (cases "rc_generator cfg h = Hold")
    case True
    then show ?thesis using assms(2,3) False by (auto simp: act_on_signal_def kept_or_added_def)
  next
    case act: False
    have "try_entry cfg c h (side_of_signal (rc_generator cfg h)) b s = Inr t"
      using assms(2,3) False act by (simp add: act_on_signal_def)
    then show ?thesis
      using try_entry_held [OF assms(2) not_opposing_opening_side [OF False act]] by blast
  qed
qed


end
