(* ===== verification/Metrics.thy ===== *)
theory Metrics
  imports Replay
begin

text \<open>
  Summary metrics of a replay, \<open>app/trading/application/backtest_metrics.py\<close>: profit and loss
  net of fees, maximum drawdown, the comparison with a baseline and the thinning of the equity
  curve that is stored with a run.
\<close>

record replay_metrics =
  m_trade_count :: nat
  m_win_count :: nat
  m_loss_count :: nat
  m_win_rate :: decimal
  m_gross_profit :: decimal
  m_gross_loss :: decimal
  m_net_pnl :: decimal
  m_total_fees :: decimal
  m_profit_factor :: "decimal option"
  m_max_drawdown :: decimal
  m_max_drawdown_pct :: decimal

definition net_pnl_per_trade :: "trade_record list \<Rightarrow> decimal list" where
  "net_pnl_per_trade ts = map (\<lambda>t. dsub (tr_realized_pnl t) (tr_fees t)) ts"

definition drawdown_step :: "decimal \<times> decimal \<times> decimal \<Rightarrow> decimal \<Rightarrow> decimal \<times> decimal \<times> decimal" where
  "drawdown_step = (\<lambda>(peak, max_drawdown, max_drawdown_pct) equity.
     (let peak = max peak equity;
          drawdown = dsub peak equity
      in (peak, max max_drawdown drawdown,
          if 0 < peak then max max_drawdown_pct (ddiv drawdown peak) else max_drawdown_pct)))"

definition drawdowns :: "decimal \<Rightarrow> decimal list \<Rightarrow> decimal \<times> decimal \<times> decimal" where
  "drawdowns initial_equity equities = foldl drawdown_step (initial_equity, 0, 0) equities"

definition compute_metrics :: "replay_result \<Rightarrow> decimal \<Rightarrow> replay_metrics" where
  "compute_metrics r initial_equity =
     (let net = net_pnl_per_trade (rr_trades r);
          wins = filter (\<lambda>pnl. 0 < pnl) net;
          losses = filter (\<lambda>pnl. pnl < 0) net;
          gross_profit = dsum wins;
          gross_loss = dneg (dsum losses);
          trade_count = length (rr_trades r);
          (_, max_dd, max_dd_pct) = drawdowns initial_equity (map snd (rr_equity_curve r))
      in \<lparr>m_trade_count = trade_count, m_win_count = length wins, m_loss_count = length losses,
          m_win_rate = (if 0 < trade_count then ddiv (of_nat (length wins)) (of_nat trade_count) else 0),
          m_gross_profit = gross_profit, m_gross_loss = gross_loss, m_net_pnl = dsum net,
          m_total_fees = dsum (map tr_fees (rr_trades r)),
          m_profit_factor = (if 0 < gross_loss then Some (ddiv gross_profit gross_loss) else None),
          m_max_drawdown = max_dd, m_max_drawdown_pct = max_dd_pct\<rparr>)"

record baseline_comparison =
  bc_candidate :: replay_metrics
  bc_baseline :: replay_metrics
  bc_net_pnl_diff :: decimal
  bc_win_rate_diff :: decimal
  bc_max_drawdown_pct_diff :: decimal
  bc_profit_factor_diff :: "decimal option"

definition compare_to_baseline :: "replay_metrics \<Rightarrow> replay_metrics \<Rightarrow> baseline_comparison" where
  "compare_to_baseline c b =
     \<lparr>bc_candidate = c, bc_baseline = b,
      bc_net_pnl_diff = dsub (m_net_pnl c) (m_net_pnl b),
      bc_win_rate_diff = dsub (m_win_rate c) (m_win_rate b),
      bc_max_drawdown_pct_diff = dsub (m_max_drawdown_pct c) (m_max_drawdown_pct b),
      bc_profit_factor_diff = (case (m_profit_factor c, m_profit_factor b) of
         (Some x, Some y) \<Rightarrow> Some (dsub x y) | _ \<Rightarrow> None)\<rparr>"

subsection \<open>Thinning the equity curve\<close>

definition first_argmin :: "(nat \<Rightarrow> decimal) \<Rightarrow> nat \<Rightarrow> nat \<Rightarrow> nat" where
  \<comment> \<open>\<open>min(range(i, j), key=f)\<close>: the first index of the smallest value\<close>
  "first_argmin f i j = foldl (\<lambda>b k. if f k < f b then k else b) i [Suc i..<j]"

definition first_argmax :: "(nat \<Rightarrow> decimal) \<Rightarrow> nat \<Rightarrow> nat \<Rightarrow> nat" where
  "first_argmax f i j = foldl (\<lambda>b k. if f b < f k then k else b) i [Suc i..<j]"

definition bucket_size_of :: "nat \<Rightarrow> nat \<Rightarrow> nat" where
  "bucket_size_of n max_points =
     (let bucket_count = max 1 ((max_points - 2) div 2) in (n + bucket_count - 1) div bucket_count)"

definition bucket_starts :: "nat \<Rightarrow> nat \<Rightarrow> nat list" where
  \<comment> \<open>\<open>range(0, n, size)\<close>\<close>
  "bucket_starts n width = map (\<lambda>k. k * width) [0..<(n + width - 1) div width]"

definition kept_indexes :: "(datetime \<times> decimal) list \<Rightarrow> nat \<Rightarrow> nat list" where
  "kept_indexes curve max_points =
     (let n = length curve; width = bucket_size_of n max_points; f = (\<lambda>i. snd (curve ! i))
      in [0, n - 1] @ concat (map (\<lambda>start.
           [first_argmin f start (min (start + width) n), first_argmax f start (min (start + width) n)])
           (bucket_starts n width)))"

definition downsample_equity_curve :: "(datetime \<times> decimal) list \<Rightarrow> nat \<Rightarrow> (datetime \<times> decimal) list" where
  "downsample_equity_curve curve max_points =
     (if length curve \<le> max_points then curve
      else map (\<lambda>i. curve ! i) (sort (remdups (kept_indexes curve max_points))))"

definition equity_curve_max_points :: nat where
  "equity_curve_max_points = 400"

subsection \<open>Lemmas\<close>

lemma drawdowns_Nil [simp]: "drawdowns e [] = (e, 0, 0)"
  by (simp add: drawdowns_def)

lemma drawdowns_snoc: "drawdowns e (xs @ [x]) = drawdown_step (drawdowns e xs) x"
  by (simp add: drawdowns_def)

lemma drawdowns_inv:
  "drawdowns e xs = (peak, dd, pct) \<Longrightarrow> peak = Max (set (e # xs)) \<and> 0 \<le> dd \<and> 0 \<le> pct"
proof (induction xs arbitrary: peak dd pct rule: rev_induct)
  case (snoc x xs)
  obtain p d q where d: "drawdowns e xs = (p, d, q)" by (cases "drawdowns e xs")
  have "max p x = Max (set (e # xs @ [x]))"
    using snoc.IH [OF d] Max_insert [of "set (e # xs)" x] by (simp add: insert_commute max.commute)
  moreover have "peak = max p x" "dd = max d (dsub (max p x) x)" "pct = q \<or> pct = max q (ddiv dd' (max p x))"
    if "dd' = dsub (max p x) x" for dd'
    using snoc.prems that by (auto simp: drawdowns_snoc d drawdown_step_def Let_def split: if_splits)
  ultimately show ?case using snoc.IH [OF d] by (auto simp: le_max_iff_disj)
qed simp

lemma drawdowns_pct_le_1:
  assumes "dexact e" "0 \<le> e" "\<forall>x \<in> set xs. 0 \<le> x \<and> dexact x"
  shows "snd (snd (drawdowns e xs)) \<le> 1"
  using assms(3)
proof (induction xs rule: rev_induct)
  case (snoc x xs)
  obtain p d q where d: "drawdowns e xs = (p, d, q)" by (cases "drawdowns e xs")
  have "p \<in> set (e # xs)" using drawdowns_inv [OF d] Max_in [of "set (e # xs)"] by simp
  then have "dexact (max p x)" "0 \<le> max p x" using snoc.prems assms(1,2) by (auto simp: max_def)
  then have "dsub (max p x) x \<le> max p x"
    unfolding dsub_def using snoc.prems by (intro dec.round_le_exact) auto
  then have "ddiv (dsub (max p x) x) (max p x) \<le> 1" if "0 < max p x"
    using that by (intro ddiv_le_1) auto
  then show ?case using snoc.IH snoc.prems by (simp add: drawdowns_snoc d drawdown_step_def Let_def)
qed simp

lemma drawdowns_pairs:
  assumes "drawdowns e xs = (peak, dd, pct)"
  shows "(\<forall>i j. i \<le> j \<and> j < length (e # xs) \<longrightarrow> dsub ((e # xs) ! i) ((e # xs) ! j) \<le> dd)
    \<and> (\<exists>i j. i \<le> j \<and> j < length (e # xs) \<and> dd = dsub ((e # xs) ! i) ((e # xs) ! j))"
  using assms
proof (induction xs arbitrary: peak dd pct rule: rev_induct)
  case Nil
  then show ?case by auto
next
  case (snoc x xs)
  obtain p d q where d: "drawdowns e xs = (p, d, q)" by (cases "drawdowns e xs")
  let ?ps = "e # xs" and ?qs = "e # xs @ [x]"
  have p: "p = Max (set ?ps)" using drawdowns_inv [OF d] by simp
  have dd: "dd = max d (dsub (max p x) x)"
    using snoc.prems by (auto simp: drawdowns_snoc d drawdown_step_def Let_def)
  have old: "?qs ! i = ?ps ! i" if "i < length ?ps" for i
    using that by (simp add: nth_append nth_Cons split: nat.split)
  have new: "?qs ! length ?ps = x" by (simp add: nth_append)
  have le_p: "?ps ! i \<le> p" if "i < length ?ps" for i
    using that unfolding p by (intro Max_ge) (simp_all only: finite_set nth_mem)
  have "p \<in> set ?ps" unfolding p by (rule Max_in) auto
  then obtain k where k: "k < length ?ps" "p = ?ps ! k" by (metis in_set_conv_nth)
  have up: "dsub (?qs ! i) (?qs ! j) \<le> dd" if ij: "i \<le> j" "j < length ?qs" for i j
  proof (cases "j < length ?ps")
    case True
    then show ?thesis using snoc.IH [OF d] ij old by (simp add: dd le_max_iff_disj)
  next
    case False
    then have j: "j = length ?ps" using ij by simp
    have "?qs ! i \<le> max p x"
      using old [of i] le_p [of i] new ij unfolding j by (cases "i = length ?ps") (auto simp: le_max_iff_disj)
    then have "dsub (?qs ! i) x \<le> dsub (max p x) x" by (intro dsub_mono) auto
    then show ?thesis unfolding j new by (simp add: dd)
  qed
  have at: "\<exists>i j. i \<le> j \<and> j < length ?qs \<and> dd = dsub (?qs ! i) (?qs ! j)"
  proof (cases "dd = d")
    case True
    obtain i j where ij: "i \<le> j" "j < length ?ps" "d = dsub (?ps ! i) (?ps ! j)"
      using snoc.IH [OF d] by blast
    have "dd = dsub (?qs ! i) (?qs ! j)" using ij old [of i] old [of j] True by simp
    then show ?thesis using ij(1,2) by (intro exI [of _ i] exI [of _ j]) simp
  next
    case False
    then have "dd = dsub (max p x) x" by (simp add: dd max_def split: if_splits)
    then have "dd = dsub (if x \<le> p then ?qs ! k else ?qs ! length ?ps) (?qs ! length ?ps)"
      using old [OF k(1)] new k(2) by (simp add: max_def)
    then show ?thesis using k(1)
      by (intro exI [of _ "if x \<le> p then k else length ?ps"] exI [of _ "length ?ps"]) simp
  qed
  show ?case using up at by simp
qed

lemma first_argmin_spec:
  assumes "i < j"
  shows "i \<le> first_argmin f i j \<and> first_argmin f i j < j \<and> (\<forall>k. i \<le> k \<and> k < j \<longrightarrow> f (first_argmin f i j) \<le> f k)"
  using assms
proof (induction j)
  case (Suc j)
  show ?case
  proof (cases "i < j")
    case True
    then show ?thesis using Suc.IH by (auto simp: first_argmin_def less_Suc_eq)
  next
    case False
    then have "i = j" using Suc.prems by simp
    then show ?thesis by (auto simp: first_argmin_def less_Suc_eq)
  qed
qed simp

lemma first_argmax_spec:
  assumes "i < j"
  shows "i \<le> first_argmax f i j \<and> first_argmax f i j < j \<and> (\<forall>k. i \<le> k \<and> k < j \<longrightarrow> f k \<le> f (first_argmax f i j))"
proof -
  have "first_argmax f i j = first_argmin (\<lambda>k. - f k) i j"
    by (simp add: first_argmax_def first_argmin_def)
  then show ?thesis using first_argmin_spec [OF assms, of "\<lambda>k. - f k"] by simp
qed


lemma bucket_size_pos: "0 < n \<Longrightarrow> 0 < bucket_size_of n m"
proof -
  assume n: "0 < n"
  define c where "c = max 1 ((m - 2) div 2)"
  have "0 < c" by (simp add: c_def)
  then have "0 < (n + c - 1) div c" using n by (simp add: div_greater_zero_iff)
  then show ?thesis by (simp add: bucket_size_of_def Let_def c_def)
qed

lemma bucket_count_le:
  assumes "0 < n" "4 \<le> m"
  shows "2 * length (bucket_starts n (bucket_size_of n m)) + 2 \<le> m"
proof -
  define c where "c = (m - 2) div 2"
  define w where "w = (n + c - 1) div c"
  have c: "0 < c" "2 * c + 2 \<le> m" using assms(2) by (auto simp: c_def)
  have w: "bucket_size_of n m = w" using c by (simp add: bucket_size_of_def Let_def c_def [symmetric] w_def max_def)
  have w0: "0 < w" using bucket_size_pos [OF assms(1), of m] w by simp
  have "n + c - 1 < c * (w + 1)"
    unfolding w_def using c(1) by (metis add.commute dividend_less_div_times mult.commute mult_Suc_right plus_1_eq_Suc)
  then have "n \<le> c * w" by simp
  then have "n + w - 1 < (c + 1) * w" using w0 assms(1) by simp
  then have "(n + w - 1) div w < c + 1" by (rule less_mult_imp_div_less)
  then show ?thesis using c(2) by (simp add: bucket_starts_def w)
qed

lemma kept_indexes_bounds:
  assumes "curve \<noteq> []"
  shows "\<forall>i \<in> set (kept_indexes curve m). i < length curve"
    and "\<forall>k < length curve. \<exists>i \<in> set (kept_indexes curve m). snd (curve ! i) \<le> snd (curve ! k)"
    and "\<forall>k < length curve. \<exists>i \<in> set (kept_indexes curve m). snd (curve ! k) \<le> snd (curve ! i)"
proof -
  define n where "n = length curve"
  define w where "w = bucket_size_of n m"
  let ?f = "\<lambda>i. snd (curve ! i)"
  have n: "0 < n" using assms by (simp add: n_def)
  have w: "0 < w" using bucket_size_pos [OF n] by (simp add: w_def)
  have set: "set (kept_indexes curve m) = {0, n - 1} \<union> (\<Union>b < (n + w - 1) div w.
      {first_argmin ?f (b * w) (min (b * w + w) n), first_argmax ?f (b * w) (min (b * w + w) n)})"
    by (auto simp: kept_indexes_def Let_def n_def [symmetric] w_def [symmetric] bucket_starts_def)
  have start: "b * w < min (b * w + w) n" if "b < (n + w - 1) div w" for b
  proof -
    have "Suc b * w \<le> n + w - 1" using that w by (metis Suc_leI less_eq_div_iff_mult_less_eq)
    then show ?thesis using w n by simp
  qed
  show "\<forall>i \<in> set (kept_indexes curve m). i < length curve"
    using first_argmin_spec [OF start] first_argmax_spec [OF start] n by (fastforce simp: set n_def [symmetric])
  have bucket: "k div w < (n + w - 1) div w \<and> k div w * w \<le> k \<and> k < min (k div w * w + w) n" if "k < n" for k
  proof -
    have "k div w < (n + w - 1) div w"
    proof -
      have "Suc (k div w) = (k + w) div w" using w by simp
      also have "\<dots> \<le> (n + w - 1) div w" using that by (intro div_le_mono) simp
      finally show ?thesis by simp
    qed
    then show ?thesis using that dividend_less_div_times [OF w, of k] by (simp add: add.commute)
  qed
  show "\<forall>k < length curve. \<exists>i \<in> set (kept_indexes curve m). ?f i \<le> ?f k"
  proof (intro allI impI)
    fix k assume k: "k < length curve"
    let ?b = "k div w" and ?i = "first_argmin ?f (k div w * w) (min (k div w * w + w) n)"
    have b: "?b < (n + w - 1) div w" "?b * w \<le> k" "k < min (?b * w + w) n" using bucket k by (auto simp: n_def)
    have "?i \<in> set (kept_indexes curve m)" unfolding set using b(1) by blast
    moreover have "?f i \<le> ?f k" if "i = ?i" for i using first_argmin_spec [OF start [OF b(1)], of ?f] b(2,3) that by blast
    ultimately show "\<exists>i \<in> set (kept_indexes curve m). ?f i \<le> ?f k" by blast
  qed
  show "\<forall>k < length curve. \<exists>i \<in> set (kept_indexes curve m). ?f k \<le> ?f i"
  proof (intro allI impI)
    fix k assume k: "k < length curve"
    let ?b = "k div w" and ?i = "first_argmax ?f (k div w * w) (min (k div w * w + w) n)"
    have b: "?b < (n + w - 1) div w" "?b * w \<le> k" "k < min (?b * w + w) n" using bucket k by (auto simp: n_def)
    have "?i \<in> set (kept_indexes curve m)" unfolding set using b(1) by blast
    moreover have "?f k \<le> ?f i" if "i = ?i" for i using first_argmax_spec [OF start [OF b(1)], of ?f] b(2,3) that by blast
    ultimately show "\<exists>i \<in> set (kept_indexes curve m). ?f k \<le> ?f i" by blast
  qed
qed

lemma dsum_filter_signs:
  "0 \<le> dsum (filter (\<lambda>x. 0 < x) xs)" "dsum (filter (\<lambda>x. x < 0) xs) \<le> 0"
proof -
  show "0 \<le> dsum (filter (\<lambda>x. 0 < x) xs)" by (rule dsum_nonneg) auto
  have "foldl dadd a ys \<le> 0" if "a \<le> 0" "\<forall>y \<in> set ys. y < 0" for a and ys :: "decimal list"
    using that by (induction ys arbitrary: a) (auto simp: dadd_def)
  then show "dsum (filter (\<lambda>x. x < 0) xs) \<le> 0" by (simp add: dsum_def)
qed

lemma win_loss_count: "length (filter (\<lambda>x. 0 < x) xs) + length (filter (\<lambda>x. x < 0) (xs :: decimal list)) \<le> length xs"
  by (induction xs) auto

text \<open>
  The summary metrics are consistent: wins and losses do not exceed the trades, the
  win rate lies between 0 and 1, gross profit and gross loss are not negative, a profit factor is
  given exactly when something was lost, and the drawdowns are not negative.
\<close>

theorem compute_metrics_consistent:
  "let m = compute_metrics r e0 in m_win_count m + m_loss_count m \<le> m_trade_count m \<and> 0 \<le> m_win_rate m \<and> m_win_rate m \<le> 1
    \<and> 0 \<le> m_gross_profit m \<and> 0 \<le> m_gross_loss m
    \<and> (m_profit_factor m = None \<longleftrightarrow> m_gross_loss m = 0)
    \<and> 0 \<le> m_max_drawdown m \<and> 0 \<le> m_max_drawdown_pct m"
proof -
  let ?net = "net_pnl_per_trade (rr_trades r)"
  obtain p d q where d: "drawdowns e0 (map snd (rr_equity_curve r)) = (p, d, q)"
    by (cases "drawdowns e0 (map snd (rr_equity_curve r))")
  have len: "length ?net = length (rr_trades r)" by (simp add: net_pnl_per_trade_def)
  note c = win_loss_count [of ?net, unfolded len]
  have "ddiv (of_nat (length (filter (\<lambda>x. 0 < x) ?net))) (of_nat (length (rr_trades r))) \<le> 1"
    if "0 < length (rr_trades r)"
    using c that by (intro ddiv_le_1) auto
  then show ?thesis
    using c drawdowns_inv [OF d] dsum_filter_signs [of ?net]
    by (auto simp: compute_metrics_def Let_def d not_less)
qed

text \<open>
  C24 (refinement). The one-pass drawdown is the drawdown of its definition: the largest drop from
  any earlier equity, the starting one included, to any later one.
\<close>

theorem max_drawdown_is_largest_drop:
  "m_max_drawdown (compute_metrics r e0)
     = Max {dsub ((e0 # map snd (rr_equity_curve r)) ! i) ((e0 # map snd (rr_equity_curve r)) ! j) | i j.
         i \<le> j \<and> j \<le> length (rr_equity_curve r)}" (is "?d = Max ?S0")
proof -
  define pts where "pts = e0 # map snd (rr_equity_curve r)"
  let ?S = "{dsub (pts ! i) (pts ! j) | i j. i \<le> j \<and> j < length pts}"
  obtain p d q where d: "drawdowns e0 (map snd (rr_equity_curve r)) = (p, d, q)"
    by (cases "drawdowns e0 (map snd (rr_equity_curve r))")
  have "?S \<subseteq> (\<lambda>(i, j). dsub (pts ! i) (pts ! j)) ` ({..<length pts} \<times> {..<length pts})" by auto
  then have "finite ?S" by (rule finite_subset) auto
  moreover have "?d = d" by (simp add: compute_metrics_def Let_def d)
  ultimately show ?thesis
    using drawdowns_pairs [OF d] unfolding pts_def length_Cons length_map less_Suc_eq_le
    by (intro Max_eqI [symmetric]) blast+
qed

lemma sort_remdups_bounds:
  assumes "0 \<in> set is" "n - 1 \<in> set is" "\<forall>i \<in> set is. i < (n :: nat)"
  shows "hd (sort (remdups is)) = 0" "last (sort (remdups is)) = n - 1"
proof -
  let ?js = "sort (remdups is)"
  have js: "sorted ?js" "set ?js = set is" by simp_all
  have "?js \<noteq> []" using assms(1) by (metis empty_iff list.set(1) set_remdups set_sort)
  then have "hd ?js < n" "last ?js < n" using js(2) assms(3) hd_in_set last_in_set by blast+
  then show "hd ?js = 0" "last ?js = n - 1"
    using sorted_hd_le [OF js(1), of 0] sorted_le_last [OF js(1), of "n - 1"] assms(1,2) by auto
qed

text \<open>
  Thinning an equity curve to at most \<open>max_points\<close> points (4 or more) keeps its
  first and last point, keeps the order, invents nothing, and keeps a point at or below and one at
  or above every point it drops, so the deepest trough and the highest peak survive.
\<close>

theorem downsample_keeps_extremes:
  fixes curve :: "(datetime \<times> decimal) list" and max_points :: nat
  assumes "kept = downsample_equity_curve curve max_points" "curve \<noteq> []" "4 \<le> max_points"
  shows "length kept \<le> max_points \<and> hd kept = hd curve \<and> last kept = last curve
    \<and> (\<exists>is. sorted_wrt (<) is \<and> (\<forall>i \<in> set is. i < length curve) \<and> kept = map (\<lambda>i. curve ! i) is)
    \<and> (\<forall>x \<in> set curve. (\<exists>y \<in> set kept. snd y \<le> snd x) \<and> (\<exists>y \<in> set kept. snd x \<le> snd y))"
proof (cases "length curve \<le> max_points")
  case True
  have "curve = map (\<lambda>i. curve ! i) [0..<length curve]" by (simp add: map_nth)
  then show ?thesis using True assms(2)
    by (auto simp: assms(1) downsample_equity_curve_def intro!: exI [of _ "[0..<length curve]"])
next
  case False
  define n where "n = length curve"
  let ?k = "kept_indexes curve max_points" and ?js = "sort (remdups (kept_indexes curve max_points))"
  have kept: "kept = map (\<lambda>i. curve ! i) ?js" using False by (simp add: assms(1) downsample_equity_curve_def)
  have b: "\<forall>i \<in> set ?k. i < n" using kept_indexes_bounds(1) [OF assms(2)] by (simp add: n_def)
  have ends: "0 \<in> set ?k" "n - 1 \<in> set ?k" by (simp_all add: kept_indexes_def Let_def n_def)
  note hl = sort_remdups_bounds [OF ends b]
  have ne: "?js \<noteq> []" using ends(1) by (metis empty_iff list.set(1) set_remdups set_sort)
  have "length ?js \<le> length ?k" using length_remdups_leq [of ?k] by simp
  also have "length ?k = 2 * length (bucket_starts n (bucket_size_of n max_points)) + 2"
    by (simp add: kept_indexes_def Let_def n_def length_concat o_def sum_list_triv)
  also have "\<dots> \<le> max_points" using assms(2,3) by (intro bucket_count_le) (simp_all add: n_def)
  finally have len: "length kept \<le> max_points" by (simp add: kept)
  have "hd kept = hd curve" "last kept = last curve"
    using hl ne assms(2) by (simp_all add: kept hd_map last_map hd_conv_nth [of curve] last_conv_nth [of curve] n_def)
  moreover have "sorted_wrt (<) ?js" by (simp add: strict_sorted_iff)
  moreover have "(\<exists>y \<in> set kept. snd y \<le> snd x) \<and> (\<exists>y \<in> set kept. snd x \<le> snd y)" if "x \<in> set curve" for x
    using that kept_indexes_bounds(2,3) [OF assms(2), of max_points]
    by (fastforce simp: kept in_set_conv_nth [of x])
  ultimately show ?thesis using len b by (auto simp: kept n_def intro!: exI [of _ ?js])
qed

end
