(* ===== verification/Walk_Forward.thy ===== *)
theory Walk_Forward
  imports Metrics
begin

text \<open>
  Walk-forward validation, \<open>app/trading/application/backtest_walk_forward.py\<close>: the single split,
  the rolling folds, replaying a window with the warm-up its indicators need, and choosing a
  strategy per fold on the training window only.
\<close>

subsection \<open>The single split\<close>

definition split_candles_for_walk_forward ::
  "candle list \<Rightarrow> decimal \<Rightarrow> (string, candle list \<times> candle list) result" where
  "split_candles_for_walk_forward candles train_ratio =
     (if \<not> (0 < train_ratio \<and> train_ratio < 1) then Inl ''invalid_train_ratio''
      else let split_index = \<lfloor>dmul (of_nat (length candles)) train_ratio\<rfloor>
           in if split_index \<le> 0 \<or> int (length candles) \<le> split_index then Inl ''insufficient_candles''
              else Inr (take (nat split_index) candles, drop (nat split_index) candles))"

record walk_forward_result =
  wf_split_index :: nat
  wf_train_result :: replay_result
  wf_train_metrics :: replay_metrics
  wf_test_result :: replay_result
  wf_test_metrics :: replay_metrics

definition replay_with_metrics ::
  "replay_config \<Rightarrow> decimal \<Rightarrow> candle list \<Rightarrow> (string, replay_result \<times> replay_metrics) result" where
  "replay_with_metrics cfg initial_equity window =
     res_bind (run_replay cfg window initial_equity 0) (\<lambda>r. Inr (r, compute_metrics r initial_equity))"

definition run_walk_forward ::
  "replay_config \<Rightarrow> candle list \<Rightarrow> decimal \<Rightarrow> decimal \<Rightarrow> (string, walk_forward_result) result" where
  \<comment> \<open>\<open>stop_slippage\<close> and \<open>stop_monitor\<close> keep their defaults in \<open>cfg\<close>\<close>
  "run_walk_forward cfg candles initial_equity train_ratio =
     res_bind (split_candles_for_walk_forward candles train_ratio) (\<lambda>(train, test).
     res_bind (replay_with_metrics cfg initial_equity train) (\<lambda>(train_result, train_metrics).
     res_bind (replay_with_metrics cfg initial_equity test) (\<lambda>(test_result, test_metrics).
       Inr \<lparr>wf_split_index = length train, wf_train_result = train_result,
            wf_train_metrics = train_metrics, wf_test_result = test_result,
            wf_test_metrics = test_metrics\<rparr>)))"

subsection \<open>Rolling folds\<close>

record rolling_fold =
  rf_index :: nat
  rf_train_start :: nat
  rf_train_end :: nat
  rf_test_end :: nat

function folds_from :: "nat \<Rightarrow> nat \<Rightarrow> nat \<Rightarrow> nat \<Rightarrow> rolling_fold list \<Rightarrow> rolling_fold list" where
  \<comment> \<open>the \<open>while\<close> loop; its caller has checked that \<open>test_bars\<close> is positive\<close>
  "folds_from candle_count train_bars test_bars train_start folds =
     (if 0 < test_bars \<and> train_start + train_bars + test_bars \<le> candle_count
      then folds_from candle_count train_bars test_bars (train_start + test_bars)
             (folds @ [\<lparr>rf_index = length folds, rf_train_start = train_start,
                        rf_train_end = train_start + train_bars,
                        rf_test_end = train_start + train_bars + test_bars\<rparr>])
      else folds)"
  by pat_completeness auto
termination
  by (relation "measure (\<lambda>(n, _, _, start, _). Suc n - start)") auto

declare folds_from.simps [simp del]

definition split_candles_rolling :: "nat \<Rightarrow> int \<Rightarrow> int \<Rightarrow> (string, rolling_fold list) result" where
  "split_candles_rolling candle_count train_bars test_bars =
     (if train_bars \<le> 0 \<or> test_bars \<le> 0 then Inl ''invalid_window_size''
      else if int candle_count < train_bars + test_bars then Inl ''insufficient_candles''
      else Inr (folds_from candle_count (nat train_bars) (nat test_bars) 0 []))"

definition replay_window ::
  "replay_config \<Rightarrow> candle list \<Rightarrow> decimal \<Rightarrow> nat \<Rightarrow> nat \<Rightarrow> (string, replay_result) result" where
  "replay_window cfg candles initial_equity start end =
     (let warmup = min start (history_window - 1)
      in run_replay cfg (slice (start - warmup) end candles) initial_equity (int warmup))"

record rolling_fold_result =
  ro_fold :: rolling_fold
  ro_train_result :: replay_result
  ro_train_metrics :: replay_metrics
  ro_test_result :: replay_result
  ro_test_metrics :: replay_metrics

definition rolling_fold_step ::
  "replay_config \<Rightarrow> candle list \<Rightarrow> decimal \<Rightarrow> rolling_fold_result list \<Rightarrow> rolling_fold \<Rightarrow>
     (string, rolling_fold_result list) result" where
  "rolling_fold_step cfg candles e0 results fd =
     res_bind (replay_window cfg candles e0 (rf_train_start fd) (rf_train_end fd)) (\<lambda>train.
     res_bind (replay_window cfg candles e0 (rf_train_end fd) (rf_test_end fd)) (\<lambda>test.
       Inr (results @ [\<lparr>ro_fold = fd, ro_train_result = train, ro_train_metrics = compute_metrics train e0,
                        ro_test_result = test, ro_test_metrics = compute_metrics test e0\<rparr>])))"

definition run_rolling_walk_forward ::
  "replay_config \<Rightarrow> candle list \<Rightarrow> decimal \<Rightarrow> int \<Rightarrow> int \<Rightarrow> (string, rolling_fold_result list) result" where
  "run_rolling_walk_forward cfg candles e0 train_bars test_bars =
     res_bind (split_candles_rolling (length candles) train_bars test_bars)
       (run_steps (rolling_fold_step cfg candles e0) [])"

subsection \<open>Choosing a strategy per fold\<close>

definition loss_averse_score :: "replay_result \<Rightarrow> decimal \<Rightarrow> rat" where
  \<comment> \<open>a \<open>float\<close>; doubling is exact\<close>
  "loss_averse_score r e0 =
     fround (fround (dsub (ddiv (rr_ending_equity r) e0) 1)
             - 2 * fround (m_max_drawdown_pct (compute_metrics r e0)))"

fun best_key :: "('k \<times> rat) list \<Rightarrow> (string, 'k) result" where
  \<comment> \<open>\<open>max(scores, key=scores.get)\<close>: the first key of the largest score\<close>
  "best_key [] = Inl ''ValueError''"
| "best_key (x # xs) = Inr (fst (foldl (\<lambda>b y. if snd b < snd y then y else b) x xs))"

record selected_fold_result =
  se_fold :: rolling_fold
  se_chosen :: string
  se_train_scores :: "(string \<times> rat) list"
  se_test_result :: replay_result
  se_test_metrics :: replay_metrics

definition train_scores ::
  "(replay_result \<Rightarrow> decimal \<Rightarrow> rat) \<Rightarrow> replay_config \<Rightarrow> candle list \<Rightarrow> decimal \<Rightarrow> rolling_fold \<Rightarrow>
     (string \<times> (candle list \<Rightarrow> signal_action)) list \<Rightarrow> (string, (string \<times> rat) list) result" where
  "train_scores score cfg candles e0 fd candidates =
     run_steps (\<lambda>scores (name, generator).
       res_bind (replay_window (cfg\<lparr>rc_generator := generator\<rparr>) candles e0 (rf_train_start fd) (rf_train_end fd))
         (\<lambda>r. Inr (scores @ [(name, score r e0)]))) [] candidates"

definition selected_fold_step ::
  "(replay_result \<Rightarrow> decimal \<Rightarrow> rat) \<Rightarrow> (string \<times> (candle list \<Rightarrow> signal_action)) list \<Rightarrow> replay_config \<Rightarrow>
     candle list \<Rightarrow> decimal \<Rightarrow> selected_fold_result list \<Rightarrow> rolling_fold \<Rightarrow>
     (string, selected_fold_result list) result" where
  "selected_fold_step score candidates cfg candles e0 results fd =
     res_bind (train_scores score cfg candles e0 fd candidates) (\<lambda>scores.
     res_bind (best_key scores) (\<lambda>chosen.
     case map_of candidates chosen of
       None \<Rightarrow> Inl ''KeyError''
     | Some generator \<Rightarrow>
         res_bind (replay_window (cfg\<lparr>rc_generator := generator\<rparr>) candles e0 (rf_train_end fd) (rf_test_end fd))
           (\<lambda>test. Inr (results @ [\<lparr>se_fold = fd, se_chosen = chosen, se_train_scores = scores,
              se_test_result = test, se_test_metrics = compute_metrics test e0\<rparr>]))))"

definition run_selected_walk_forward ::
  "(replay_result \<Rightarrow> decimal \<Rightarrow> rat) \<Rightarrow> (string \<times> (candle list \<Rightarrow> signal_action)) list \<Rightarrow> replay_config \<Rightarrow>
     candle list \<Rightarrow> decimal \<Rightarrow> int \<Rightarrow> int \<Rightarrow> (string, selected_fold_result list) result" where
  "run_selected_walk_forward score candidates cfg candles e0 train_bars test_bars =
     res_bind (split_candles_rolling (length candles) train_bars test_bars)
       (run_steps (selected_fold_step score candidates cfg candles e0) [])"

subsection \<open>Lemmas\<close>

text \<open>
  A split keeps every candle once and in order, with no window empty; the only
  refusals are a ratio outside (0, 1) and too few candles.
\<close>

theorem walk_forward_split:
  "(case split_candles_for_walk_forward candles ratio of
      Inr (train, test) \<Rightarrow> train @ test = candles \<and> train \<noteq> [] \<and> test \<noteq> [] \<and> 0 < ratio \<and> ratio < 1
    | Inl e \<Rightarrow> e = ''invalid_train_ratio'' \<and> \<not> (0 < ratio \<and> ratio < 1)
             \<or> e = ''insufficient_candles''
               \<and> (\<lfloor>dmul (of_nat (length candles)) ratio\<rfloor> \<le> 0
                  \<or> int (length candles) \<le> \<lfloor>dmul (of_nat (length candles)) ratio\<rfloor>))"
proof -
  let ?k = "\<lfloor>dmul (of_nat (length candles)) ratio\<rfloor>"
  have "take (nat ?k) candles \<noteq> [] \<and> drop (nat ?k) candles \<noteq> []"
    if "0 < ?k" "?k < int (length candles)"
  proof -
    have "0 < nat ?k" "nat ?k < length candles" using that by linarith+
    then show ?thesis by auto
  qed
  then show ?thesis
    unfolding split_candles_for_walk_forward_def Let_def by (simp add: not_le)
qed

definition nth_fold :: "nat \<Rightarrow> nat \<Rightarrow> nat \<Rightarrow> rolling_fold" where
  "nth_fold train_bars test_bars k =
     \<lparr>rf_index = k, rf_train_start = k * test_bars, rf_train_end = k * test_bars + train_bars,
      rf_test_end = k * test_bars + train_bars + test_bars\<rparr>"

lemma folds_from_eq:
  assumes "0 < b" "start = length acc * b" "acc = map (nth_fold a b) [0..<length acc]"
    and "length acc \<le> (if a + b \<le> n then (n - a - b) div b + 1 else 0)"
  shows "folds_from n a b start acc
       = map (nth_fold a b) [0..<(if a + b \<le> n then (n - a - b) div b + 1 else 0)]"
  using assms
proof (induction n a b start acc rule: folds_from.induct)
  case (1 n a b start acc)
  let ?m = "if a + b \<le> n then (n - a - b) div b + 1 else 0"
  show ?case
  proof (cases "start + a + b \<le> n")
    case True
    let ?acc = "acc @ [\<lparr>rf_index = length acc, rf_train_start = start, rf_train_end = start + a,
                        rf_test_end = start + a + b\<rparr>]"
    have "length acc * b \<le> n - a - b" using True "1.prems"(2) by linarith
    then have "length acc \<le> (n - a - b) div b" using "1.prems"(1) by (simp add: less_eq_div_iff_mult_less_eq)
    then have "length ?acc \<le> ?m" using True by simp
    moreover have "?acc = map (nth_fold a b) [0..<length ?acc]"
    proof -
      have "map (nth_fold a b) [0..<length ?acc] = map (nth_fold a b) [0..<length acc] @ [nth_fold a b (length acc)]"
        by simp
      then show ?thesis using "1.prems"(2,3) by (simp only: nth_fold_def)
    qed
    ultimately have "folds_from n a b (start + b) ?acc = map (nth_fold a b) [0..<?m]"
      using "1.prems"(1,2) True by (intro "1.IH") auto
    then show ?thesis using True "1.prems"(1) by (subst folds_from.simps) simp
  next
    case False
    have "?m \<le> length acc"
    proof (cases "a + b \<le> n")
      case True
      have "n - a - b < length acc * b" using False "1.prems"(2) True by simp
      then show ?thesis using True less_mult_imp_div_less by fastforce
    qed simp
    then have "length acc = ?m" using "1.prems"(4) by simp
    then show ?thesis using False "1.prems"(3) by (subst folds_from.simps) metis
  qed
qed

text \<open>
  C25 (termination). The rolling split terminates with exactly the folds that fit: fold \<open>k\<close> trains
  on \<open>train_bars\<close> bars from \<open>k * test_bars\<close> and tests on the next \<open>test_bars\<close>, so test windows
  are adjacent, do not overlap and stay inside the series.
\<close>

theorem rolling_folds:
  assumes "0 < a" "0 < b" "a + b \<le> n"
  shows "split_candles_rolling n (int a) (int b) = Inr (map (nth_fold a b) [0..<(n - a - b) div b + 1])
    \<and> (\<forall>f \<in> set (map (nth_fold a b) [0..<(n - a - b) div b + 1]).
         rf_train_start f < rf_train_end f \<and> rf_train_end f < rf_test_end f \<and> rf_test_end f \<le> n)
    \<and> (\<forall>k. rf_train_end (nth_fold a b (Suc k)) = rf_test_end (nth_fold a b k))"
proof -
  have "rf_test_end (nth_fold a b k) \<le> n" if "k < (n - a - b) div b + 1" for k
  proof -
    have "k \<le> (n - a - b) div b" using that by simp
    then have "k * b \<le> n - a - b" using assms(2) by (simp add: less_eq_div_iff_mult_less_eq)
    then show ?thesis using assms(3) by (simp add: nth_fold_def)
  qed
  moreover have "split_candles_rolling n (int a) (int b) = Inr (map (nth_fold a b) [0..<(n - a - b) div b + 1])"
    using assms folds_from_eq [of b 0 "[]" a n] by (simp add: split_candles_rolling_def)
  ultimately show ?thesis using assms by (auto simp: nth_fold_def)
qed

lemma slice_as_drop: "slice i j xs = drop i (take j xs)"
  by (simp add: slice_def drop_take)

lemma slice_slice: "slice i j (slice d e xs) = slice (d + i) (min (d + j) e) xs"
proof -
  have "min (j - i) (e - d - i) = min (d + j) e - (d + i)" by arith
  then show ?thesis by (simp add: slice_def drop_take add.commute)
qed

lemma history_at_window:
  assumes "d + (history_window - 1) \<le> i \<or> d = 0" "d \<le> i" "i < e" "e \<le> length candles"
  shows "history_at (slice d e candles) (i - d) = history_at candles i"
proof -
  have "d + (Suc i - (d + history_window)) = Suc i - history_window" "min (Suc i) e = Suc i"
    using assms(1-3) by (auto simp: history_window_def atr_history_candles_def)
  then show ?thesis using assms(2) by (simp add: history_at_def slice_slice)
qed

lemma bar_step_window:
  assumes "d + (history_window - 1) \<le> i \<or> d = 0" "d \<le> i" "i < e" "e \<le> length candles"
  shows "bar_step cfg b (slice d e candles) s (i - d) = bar_step cfg b candles s i"
  using assms history_at_window [OF assms] nth_slice [of d "i - d" e candles]
  by (simp add: bar_step_def)

lemma run_steps_map: "run_steps f s (map g xs) = run_steps (\<lambda>s x. f s (g x)) s xs"
proof (induction xs arbitrary: s)
  case (Cons x xs)
  then show ?case by (cases "f s (g x)") auto
qed simp

text \<open>
  C22 (equivalence). Replaying a window with its warm-up bars equals walking the whole series over
  the window's bars: each bar sees exactly the history it has in the full series, and no warm-up bar
  trades.
\<close>

theorem replay_window_is_global_walk:
  assumes "start < stop" "stop \<le> length candles" "timeframe_seconds (rc_timeframe cfg) = Some b"
    and "0 \<le> rc_stop_slippage cfg"
  shows "replay_window cfg candles e0 start stop
    = res_bind (run_steps (bar_step cfg b candles) (initial_state e0) [start..<stop])
        (\<lambda>s. Inr (result_of (take stop candles) s))"
proof -
  let ?w = "min start (history_window - 1)"
  let ?d = "start - ?w"
  have whole: "run_replay cfg W e0 (int w) = res_bind (run_steps (bar_step cfg b candles) (initial_state e0) js)
      (\<lambda>s. Inr (result_of (take stop candles) s))"
    if "length W = n" "w < n" "last W = last (take stop candles)"
      "run_steps (bar_step cfg b W) (initial_state e0) [w..<n]
        = run_steps (bar_step cfg b candles) (initial_state e0) js" for W w n js
    using that(1,2,4) assms(3,4) by (simp add: run_replay_def result_of_def that(3))
  have ids: "[start..<stop] = map (\<lambda>i. i + ?d) [?w..<stop - ?d]"
    using assms(1) by (intro nth_equalityI) auto
  have "run_steps (bar_step cfg b (slice ?d stop candles)) (initial_state e0) [?w..<stop - ?d]
      = run_steps (bar_step cfg b candles) (initial_state e0) [start..<stop]"
    unfolding ids run_steps_map
  proof (rule run_steps_cong)
    fix s i assume i: "i \<in> set [?w..<stop - ?d]"
    have "?d + (history_window - 1) \<le> i + ?d \<or> ?d = 0" "i + ?d < stop" using i by auto
    then show "bar_step cfg b (slice ?d stop candles) s i = bar_step cfg b candles s (i + ?d)"
      using bar_step_window [of ?d "i + ?d" stop candles cfg b s] assms(2) by (simp only: diff_add_inverse2 le_add2)
  qed
  moreover have "length (slice ?d stop candles) = stop - ?d" "?w < stop - ?d"
    using assms(1,2) by auto
  moreover have "last (slice ?d stop candles) = last (take stop candles)"
    using assms(1,2) by (simp only: slice_as_drop) simp
  ultimately show ?thesis
    unfolding replay_window_def Let_def by (intro whole)
qed

definition better :: "'k \<times> rat \<Rightarrow> 'k \<times> rat \<Rightarrow> 'k \<times> rat" where
  "better b y = (if snd b < snd y then y else b)"

lemma better_in: "better b y \<in> {b, y}"
  and better_ge: "snd b \<le> snd (better b y)" "snd y \<le> snd (better b y)"
  by (auto simp: better_def)

lemma foldl_better:
  "foldl better x xs \<in> set (x # xs) \<and> (\<forall>y \<in> set (x # xs). snd y \<le> snd (foldl better x xs))"
proof (induction xs arbitrary: x)
  case (Cons z zs)
  let ?e = "foldl better (better x z) zs"
  have "?e \<in> set (better x z # zs)" "snd (better x z) \<le> snd ?e" "\<forall>y \<in> set zs. snd y \<le> snd ?e"
    using Cons.IH [of "better x z"] by auto
  moreover have "snd x \<le> snd ?e" "snd z \<le> snd ?e"
    using better_ge order_trans calculation(2) by blast+
  ultimately show ?case using better_in [of x z] by auto
qed simp

lemma best_key_better: "best_key (x # xs) = Inr (fst (foldl better x xs))"
  by (simp add: better_def [abs_def])

lemma best_key_max:
  assumes "best_key scores = Inr k"
  shows "\<exists>v. (k, v) \<in> set scores \<and> (\<forall>y \<in> set scores. snd y \<le> v)"
proof -
  obtain x xs where "scores = x # xs" using assms by (cases scores) auto
  moreover from this have "k = fst (foldl better x xs)" using assms unfolding \<open>scores = x # xs\<close> best_key_better by simp
  ultimately show ?thesis using foldl_better [of x xs] by (metis prod.collapse)
qed

lemma run_steps_results:
  assumes "run_steps step acc xs = Inr out"
    and "\<And>acc x out. step acc x = Inr out \<Longrightarrow> \<exists>r. out = acc @ [r] \<and> Q x r"
  shows "\<exists>rs. out = acc @ rs \<and> list_all2 Q xs rs"
  using assms(1)
proof (induction xs arbitrary: acc)
  case (Cons x xs)
  then obtain acc' where "step acc x = Inr acc'" "run_steps step acc' xs = Inr out"
    by (auto simp: result_simps)
  then show ?case using Cons.IH [of acc'] assms(2) [of acc x acc']
    by (metis append_Cons append_assoc append_Nil list_all2_Cons)
qed simp

lemma replay_window_take:
  "replay_window cfg (take n candles) e0 start stop = replay_window cfg candles e0 start stop"
  if "stop \<le> n"
  using that by (simp add: replay_window_def slice_as_drop min_def)

text \<open>
  C23 (safety). A strategy is selected on the training window alone: cutting the series at the end
  of a fold's training window leaves that fold's scores unchanged, and the chosen strategy has the
  largest of them. The test window's result is the chosen strategy's.
\<close>

theorem selection_sees_training_only:
  assumes "run_selected_walk_forward score candidates cfg candles e0 train_bars test_bars = Inr results"
    and "r \<in> set results"
  shows "train_scores score cfg (take (rf_train_end (se_fold r)) candles) e0 (se_fold r) candidates
       = Inr (se_train_scores r)
    \<and> (\<exists>v. (se_chosen r, v) \<in> set (se_train_scores r) \<and> (\<forall>y \<in> set (se_train_scores r). snd y \<le> v))
    \<and> (\<exists>g. map_of candidates (se_chosen r) = Some g
         \<and> replay_window (cfg\<lparr>rc_generator := g\<rparr>) candles e0 (rf_train_end (se_fold r)) (rf_test_end (se_fold r))
           = Inr (se_test_result r))"
proof -
  let ?Q = "\<lambda>fd r. se_fold r = fd \<and> train_scores score cfg candles e0 fd candidates = Inr (se_train_scores r)
    \<and> best_key (se_train_scores r) = Inr (se_chosen r)
    \<and> (\<exists>g. map_of candidates (se_chosen r) = Some g
         \<and> replay_window (cfg\<lparr>rc_generator := g\<rparr>) candles e0 (rf_train_end fd) (rf_test_end fd)
           = Inr (se_test_result r))"
  obtain folds where "run_steps (selected_fold_step score candidates cfg candles e0) [] folds = Inr results"
    using assms(1) by (auto simp: run_selected_walk_forward_def result_simps)
  moreover have "\<exists>r. out = acc @ [r] \<and> ?Q fd r"
    if "selected_fold_step score candidates cfg candles e0 acc fd = Inr out" for acc fd out
    using that by (auto simp: selected_fold_step_def result_simps split: option.splits)
  ultimately have "\<exists>rs. results = [] @ rs \<and> list_all2 ?Q folds rs"
    by (rule run_steps_results)
  then have "\<exists>fd. ?Q fd r" using assms(2) by (auto simp: list_all2_conv_all_nth in_set_conv_nth)
  then have q: "?Q (se_fold r) r" by auto
  have "train_scores score cfg (take (rf_train_end fd) candles) e0 fd candidates
      = train_scores score cfg candles e0 fd candidates" for fd
    unfolding train_scores_def by (simp add: replay_window_take)
  then show ?thesis using q best_key_max by auto
qed

end
