(* ===== verification/Replay_Examples.thy ===== *)
theory Replay_Examples
  imports Walk_Forward
begin

text \<open>
  Concrete runs of the pure half: a Binance instrument, three candles at one price and a generator
  that buys on the first bar and sells on the second. The properties of the pure theories are applied
  here to these values, which shows that their hypotheses can hold.
\<close>

definition demo_instrument :: instrument where
  "demo_instrument = \<lparr>i_id = 1, i_exchange = 1, i_symbol = ''BTCUSDT'', i_quote_asset = ''USDT'',
     i_tick_size = 1, i_step_size = 1, i_min_quantity = None, i_max_quantity = None\<rparr>"

definition demo_candle :: "nat \<Rightarrow> decimal \<Rightarrow> candle" where
  "demo_candle n price = \<lparr>c_id = n, c_instrument = 1, c_timeframe = ''1h'',
     c_open_time = int n * 3600000000, c_close_time = int n * 3600000000 + 3600000000,
     c_open = price, c_high = price, c_low = price, c_close = price, c_volume = None, c_final = True\<rparr>"

definition demo_candles :: "candle list" where
  "demo_candles = [demo_candle 0 1000, demo_candle 1 1000, demo_candle 2 1000]"

definition demo_generator :: "candle list \<Rightarrow> signal_action" where
  "demo_generator history = (if length history = 1 then Buy else if length history = 2 then Sell else Hold)"

definition demo_config :: replay_config where
  "demo_config = \<lparr>rc_instrument = demo_instrument, rc_timeframe = ''1h'', rc_exchange = ''binance'',
     rc_rules = conservative_v1_rules, rc_spread = 1, rc_generator = demo_generator,
     rc_exit_policy = Signal_only, rc_stop_slippage = 0, rc_stop_monitor = None,
     rc_lock_release_days = None\<rparr>"

definition demo_risk_state :: risk_state where
  "demo_risk_state = \<lparr>rs_action = Buy_order, rs_now = 3600000000, rs_rules = conservative_v1_rules,
     rs_exchange = ''binance'', rs_instrument = demo_instrument, rs_market_price = 1000,
     rs_latest_close_time = 3600000000, rs_bar_seconds = 3600, rs_stop_distance = 3, rs_expected_slippage = 1,
     rs_fee_per_unit = 1, rs_equity = 10000, rs_available_cash = 10000, rs_existing_open_risk = 0,
     rs_has_open_position = False, rs_existing_quantity = 0, rs_day_start_equity = Some 10000,
     rs_week_start_equity = Some 10000, rs_peak_equity = Some 10000, rs_consecutive_losses = 0,
     rs_minutes_since_last_order = None\<rparr>"

lemmas arithmetic_defs = dadd_def dsub_def dmul_def ddiv_def dneg_def dsum_def total_seconds_def

lemma demo_quantities:
  "raw_quantity demo_risk_state = 10" "exposure_limit_quantity demo_risk_state = 30"
  "broker_limit_quantity demo_risk_state = Some 1" "stress_adjusted_stop demo_risk_state = 5"
  by (simp_all add: raw_quantity_def exposure_limit_quantity_def broker_limit_quantity_def
      stress_adjusted_stop_def demo_risk_state_def conservative_v1_rules_def demo_instrument_def
      arithmetic_defs decimal_eval)

lemma demo_sized: "sized_quantity demo_risk_state = 1"
  by (simp add: sized_quantity_def demo_quantities round_down_to_step_def)
     (simp add: demo_risk_state_def demo_instrument_def arithmetic_defs decimal_eval)

lemma demo_values:
  "loss_pct demo_risk_state 1 = 1 / 2000" "all_open_pct demo_risk_state 1 = 1 / 2000"
  "decline_pct 10000 10000 = 0" "delay_bars demo_risk_state = 0" "prospective_notional demo_risk_state 1 = 1000"
  by (simp_all add: loss_pct_def loss_at_stop_def all_open_pct_def delay_bars_def prospective_notional_def
      decline_pct_def demo_quantities)
    (simp_all add: demo_risk_state_def arithmetic_defs decimal_eval)

lemma demo_fields:
  "rs_action demo_risk_state = Buy_order" "rs_rules demo_risk_state = conservative_v1_rules"
  "rs_exchange demo_risk_state = ''binance''" "i_min_quantity (rs_instrument demo_risk_state) = None"
  "rs_day_start_equity demo_risk_state = Some 10000" "rs_week_start_equity demo_risk_state = Some 10000"
  "rs_peak_equity demo_risk_state = Some 10000" "rs_equity demo_risk_state = 10000"
  "rs_consecutive_losses demo_risk_state = 0" "rs_minutes_since_last_order demo_risk_state = None"
  "dmul 10000 (1 / 4) = 2500"
  by (simp_all add: demo_risk_state_def demo_instrument_def arithmetic_defs decimal_eval)

lemma demo_checks: "\<not> ca_hard (run_checks demo_risk_state 1)" "\<not> ca_initial (run_checks demo_risk_state 1)"
  by (simp_all add: run_checks_def check_defs quantity_too_small_def demo_values demo_fields Let_def
      conservative_v1_rules_def)

lemma demo_allowed:
  "pr_outcome (evaluate_conservative_v1 demo_risk_state) = Allow_with_adjustment"
  "pr_quantity (evaluate_conservative_v1 demo_risk_state) = Some 1"
  by (simp_all add: evaluate_conservative_v1_def demo_sized demo_quantities demo_checks)

lemmas replay_run_defs = bar_step_def probes_of_def act_on_signal_def opposing_def history_at_def
  slice_def history_window_def atr_history_candles_def

lemmas demo_defs = demo_config_def demo_candles_def demo_candle_def demo_generator_def demo_instrument_def

lemmas marking_defs = mark_bar_def mark_to_market_def market_value_def date_of_def weekday_of_def day_length_def

definition demo_held :: replay_state where
  "demo_held = \<lparr>cash_equity = 8998, position = Some \<lparr>bp_side = Long, bp_quantity = 1, bp_entry = 1001\<rparr>,
     position_opened_at = Some 3600000000, day_start_date = Some 0, day_start_equity = 10000,
     week_start_date = Some (- 3), week_start_equity = 10000, peak_equity = 10000, consecutive_losses = 0,
     last_order_time = Some 3600000000, stop_price = None, take_profit_price = None, trail_distance = None,
     highest_since_entry = None, open_entry_fees = 1, trades = [], equity_curve = [(3600000000, 10000)],
     next_sequence_no = 1, lock_since = None\<rparr>"

definition demo_marked :: replay_state where
  "demo_marked = mark_bar demo_config (demo_candle 0 1000) (initial_state 10000)"

lemma demo_risk_state_is: "risk_state_of demo_config (demo_candle 0 1000) Buy_order 3600 3 1 demo_marked = demo_risk_state"
  by (simp add: risk_state_of_def demo_marked_def demo_risk_state_def demo_defs marking_defs expected_slippage_def
      slippage_coefficient_def unrealized_pnl_def held_quantity_def initial_state_def Let_def arithmetic_defs decimal_eval)

lemma demo_entry: "try_entry demo_config (demo_candle 0 1000) [demo_candle 0 1000] Buy_order 3600 demo_marked = Inr demo_held"
proof -
  have stop: "stop_distance_of ''binance'' demo_instrument (last_n atr_history_candles [demo_candle 0 1000]) 1 conservative_v1_rules = Inr 3"
    by (simp add: stop_distance_of_def average_true_range_def last_n_def atr_history_candles_def
        conservative_v1_rules_def arithmetic_defs decimal_eval Let_def)
  have fee: "fee_buffer_per_unit ''binance'' 1000 conservative_v1_rules = Inr 1"
    by (simp add: fee_buffer_per_unit_def conservative_v1_rules_def arithmetic_defs decimal_eval)
  show ?thesis
    using stop fee demo_risk_state_is demo_allowed
    by (simp add: try_entry_def demo_config_def demo_candle_def)
      (simp add: demo_marked_def demo_held_def demo_defs marking_defs simulate_fill_def fee_buffer_def
        expected_slippage_def slippage_coefficient_def apply_and_record_def apply_fill_to_position_def
        closing_quantity_of_def update_position_def set_protection_def initial_state_def Let_def arithmetic_defs decimal_eval)
qed

lemma demo_first_bar: "bar_step demo_config 3600 demo_candles (initial_state 10000) 0 = Inr demo_held"
proof -
  have "bar_step demo_config 3600 demo_candles (initial_state 10000) 0
    = try_entry demo_config (demo_candle 0 1000) [demo_candle 0 1000] Buy_order 3600 demo_marked"
    by (simp add: demo_marked_def replay_run_defs demo_config_def demo_candles_def demo_generator_def
        mark_bar_def initial_state_def Let_def)
  then show ?thesis by (simp add: demo_entry)
qed

definition demo_closed :: replay_state where
  "demo_closed = \<lparr>cash_equity = 9996, position = None,
     position_opened_at = None, day_start_date = Some 0, day_start_equity = 10000,
     week_start_date = Some (- 3), week_start_equity = 10000, peak_equity = 10000, consecutive_losses = 1,
     last_order_time = Some 3600000000, stop_price = None, take_profit_price = None, trail_distance = None,
     highest_since_entry = None, open_entry_fees = 0,
     trades = [\<lparr>tr_sequence_no = 1, tr_side = Sell_order, tr_entry_time = 3600000000, tr_exit_time = 7200000000,
       tr_entry_price = 1001, tr_exit_price = 999, tr_quantity = 1, tr_fees = 2, tr_realized_pnl = - 2,
       tr_exit_reason = By_signal\<rparr>],
     equity_curve = [(3600000000, 10000), (7200000000, 9998)],
     next_sequence_no = 2, lock_since = None\<rparr>"

lemma demo_second_bar: "bar_step demo_config 3600 demo_candles demo_held 1 = Inr demo_closed"
  by (simp add: replay_run_defs demo_defs demo_held_def marking_defs Let_def arithmetic_defs decimal_eval)
     (simp add: close_opposing_def simulate_fill_def fee_buffer_def expected_slippage_def demo_closed_def
        slippage_coefficient_def apply_and_record_def apply_fill_to_position_def record_trade_def
        closing_quantity_of_def update_position_def Let_def arithmetic_defs decimal_eval)

lemma demo_third_bar:
  "bar_step demo_config 3600 demo_candles demo_closed 2
     = Inr (demo_closed\<lparr>equity_curve := equity_curve demo_closed @ [(10800000000, 9996)]\<rparr>)"
  by (simp add: replay_run_defs demo_defs demo_closed_def marking_defs Let_def arithmetic_defs decimal_eval)

lemma demo_replay:
  "run_replay demo_config demo_candles 10000 0
     = Inr (result_of demo_candles (demo_closed\<lparr>equity_curve := equity_curve demo_closed @ [(10800000000, 9996)]\<rparr>))"
proof -
  have bars: "[0..<3] = [0, 1, 2::nat]" by (simp add: upt_rec)
  have "length demo_candles = 3" "timeframe_seconds (rc_timeframe demo_config) = Some 3600" "rc_stop_slippage demo_config = 0"
    by (simp_all add: demo_defs timeframe_seconds.simps)
  then show ?thesis
    by (simp add: run_replay_def bars demo_first_bar demo_second_bar [simplified] demo_third_bar)
qed

definition demo_result :: replay_result where
  "demo_result = result_of demo_candles (demo_closed\<lparr>equity_curve := equity_curve demo_closed @ [(10800000000, 9996)]\<rparr>)"

lemma demo_replays: "run_replay demo_config demo_candles 10000 0 = Inr demo_result"
  by (simp add: demo_replay demo_result_def)

theorem replay_no_look_ahead_witness:
  "\<exists>r ts. run_replay demo_config (take 2 demo_candles) 10000 0 = Inr r \<and> rr_trades demo_result = rr_trades r @ ts
    \<and> rr_equity_curve r = take 2 (rr_equity_curve demo_result)"
proof -
  have "run_replay demo_config (take 2 demo_candles @ drop 2 demo_candles) 10000 0 = Inr demo_result"
    by (simp only: append_take_drop_id demo_replays)
  from replay_no_look_ahead [OF this] have "\<exists>r ts. run_replay demo_config (take 2 demo_candles) 10000 0 = Inr r
      \<and> rr_trades demo_result = rr_trades r @ ts
      \<and> rr_equity_curve r = take (length (take 2 demo_candles) - nat 0) (rr_equity_curve demo_result)" .
  moreover have "length (take 2 demo_candles) - nat 0 = 2" by (simp add: demo_candles_def)
  ultimately show ?thesis by (simp only: )
qed

theorem run_replay_well_formed_witness:
  "map tr_sequence_no (rr_trades demo_result) = [1] \<and> long_or_flat (rr_ending_position demo_result)"
  using run_replay_well_formed [of demo_config demo_candles 10000 0 demo_result] demo_replays
  by (simp add: demo_config_def demo_result_def demo_closed_def result_of_def)

theorem run_replay_curve_times_witness:
  "map fst (rr_equity_curve demo_result) = map c_close_time demo_candles"
  using run_replay_curve_times [of demo_config demo_candles 10000 0 demo_result] demo_replays by simp

lemma demo_held_ok: "replay_inv demo_config demo_held"
  by (simp add: replay_inv_def demo_held_def position_ok_def long_or_flat_def demo_config_def)


theorem protective_exit_tradable_witness:
  "protective_exit \<lparr>mb_open_time = 0, mb_close_time = 1, mb_open = 100, mb_high = 110, mb_low = 90\<rparr>
     \<lparr>bp_side = Long, bp_quantity = 1, bp_entry = 100\<rparr> 95 None = Some (95, By_stop_loss)
   \<and> (90 :: decimal) \<le> 95 \<and> (95 :: decimal) \<le> 110"
  using protective_exit_tradable [of "\<lparr>mb_open_time = 0, mb_close_time = 1, mb_open = 100, mb_high = 110, mb_low = 90\<rparr>"
      "\<lparr>bp_side = Long, bp_quantity = 1, bp_entry = 100\<rparr>" 95 None]
  by (simp add: protective_exit_def)

definition demo_crash :: "candle list" where
  "demo_crash = [demo_candle 0 1000, demo_candle 1 1]"

lemma demo_crash_fails: "run_replay demo_config demo_crash 10000 0 = Inl ''invalid_fill_price''"
proof -
  have bars: "[0..<2] = [0, 1::nat]" by (simp add: upt_rec)
  have "bar_step demo_config 3600 demo_crash (initial_state 10000) 0 = bar_step demo_config 3600 demo_candles (initial_state 10000) 0"
    by (simp add: bar_step_def history_at_def demo_crash_def demo_candles_def slice_def
        history_window_def atr_history_candles_def)
  moreover have "bar_step demo_config 3600 demo_crash demo_held 1 = Inl ''invalid_fill_price''"
    by (simp add: replay_run_defs demo_crash_def demo_defs demo_held_def marking_defs Let_def arithmetic_defs decimal_eval)
      (simp add: close_opposing_def simulate_fill_def fee_buffer_def expected_slippage_def
        slippage_coefficient_def Let_def arithmetic_defs decimal_eval)
  moreover have "length demo_crash = 2" "timeframe_seconds (rc_timeframe demo_config) = Some 3600" "rc_stop_slippage demo_config = 0"
    by (simp_all add: demo_crash_def demo_config_def timeframe_seconds.simps)
  ultimately show ?thesis
    by (simp add: run_replay_def bars demo_first_bar)
qed

theorem run_replay_errors_witness: "run_replay demo_config demo_crash 10000 0 = Inl ''invalid_fill_price''"
  using run_replay_errors [of demo_config 0 demo_crash 10000 "''invalid_fill_price''"] demo_crash_fails
  by (simp add: demo_config_def)

theorem replay_window_is_global_walk_witness:
  "replay_window demo_config demo_candles 10000 1 3
    = res_bind (run_steps (bar_step demo_config 3600 demo_candles) (initial_state 10000) [1..<3])
        (\<lambda>s. Inr (result_of (take 3 demo_candles) s))"
  using replay_window_is_global_walk [of 1 3 demo_candles demo_config 3600 10000]
  by (simp add: demo_candles_def demo_config_def timeframe_seconds.simps)

definition quiet_candidates :: "(string \<times> (candle list \<Rightarrow> signal_action)) list" where
  "quiet_candidates = [(''quiet'', \<lambda>_. Hold)]"

lemma quiet_run:
  "run_replay (demo_config\<lparr>rc_generator := \<lambda>_. Hold\<rparr>) [demo_candle 0 1000] 10000 0
     = Inr \<lparr>rr_trades = [], rr_ending_equity = 10000, rr_ending_position = None, rr_equity_curve = [(3600000000, 10000)]\<rparr>"
  "run_replay (demo_config\<lparr>rc_generator := \<lambda>_. Hold\<rparr>) [demo_candle 0 1000, demo_candle 1 1000] 10000 1
     = Inr \<lparr>rr_trades = [], rr_ending_equity = 10000, rr_ending_position = None, rr_equity_curve = [(7200000000, 10000)]\<rparr>"
  by (simp_all add: run_replay_def timeframe_seconds.simps demo_config_def)
     (simp_all add: replay_run_defs initial_state_def marking_defs demo_defs result_of_def Let_def arithmetic_defs decimal_eval)

definition quiet_fold :: selected_fold_result where
  "quiet_fold = \<lparr>se_fold = nth_fold 1 1 0, se_chosen = ''quiet'', se_train_scores = [(''quiet'', 0)],
     se_test_result = \<lparr>rr_trades = [], rr_ending_equity = 10000, rr_ending_position = None, rr_equity_curve = [(7200000000, 10000)]\<rparr>,
     se_test_metrics = compute_metrics \<lparr>rr_trades = [], rr_ending_equity = 10000, rr_ending_position = None,
       rr_equity_curve = [(7200000000, 10000)]\<rparr> 10000\<rparr>"

lemma quiet_score:
  "loss_averse_score \<lparr>rr_trades = [], rr_ending_equity = 10000, rr_ending_position = None,
     rr_equity_curve = [(3600000000, 10000)]\<rparr> 10000 = 0"
  by (simp add: loss_averse_score_def compute_metrics_def drawdowns_def drawdown_step_def Let_def arithmetic_defs decimal_eval)

lemma quiet_selection:
  "run_selected_walk_forward loss_averse_score quiet_candidates demo_config [demo_candle 0 1000, demo_candle 1 1000] 10000 1 1
     = Inr [quiet_fold]"
proof -
  have "split_candles_rolling 2 1 1 = Inr [nth_fold 1 1 0]"
    by (simp add: split_candles_rolling_def folds_from.simps nth_fold_def)
  moreover have "slice 0 1 [demo_candle 0 1000, demo_candle 1 1000] = [demo_candle 0 1000]"
    "slice 0 2 [demo_candle 0 1000, demo_candle 1 1000] = [demo_candle 0 1000, demo_candle 1 1000]"
    by (simp_all add: slice_def)
  ultimately show ?thesis using quiet_run quiet_score
    by (simp add: run_selected_walk_forward_def selected_fold_step_def train_scores_def quiet_candidates_def
        replay_window_def nth_fold_def quiet_fold_def history_window_def atr_history_candles_def numeral_2_eq_2)
qed

theorem selection_sees_training_only_witness:
  "train_scores loss_averse_score demo_config (take 1 [demo_candle 0 1000, demo_candle 1 1000]) 10000 (nth_fold 1 1 0)
     quiet_candidates = Inr [(''quiet'', 0)]"
  using selection_sees_training_only [OF quiet_selection, of quiet_fold]
  by (simp add: quiet_fold_def nth_fold_def)


theorem no_equity_denied_witness:
  "pr_outcome (evaluate_conservative_v1 (demo_risk_state\<lparr>rs_equity := 0\<rparr>)) = Deny"
  using no_equity_denied [of "demo_risk_state\<lparr>rs_equity := 0\<rparr>"]
  by (simp add: demo_risk_state_def conservative_v1_rules_def)

theorem sized_quantity_bounds_witness:
  "0 \<le> sized_quantity demo_risk_state \<and> sized_quantity demo_risk_state \<le> max 0 (raw_quantity demo_risk_state)"
  using sized_quantity_bounds [of demo_risk_state 0] by (simp add: demo_risk_state_def demo_instrument_def)

theorem wider_stop_never_larger_witness:
  "sized_quantity (demo_risk_state\<lparr>rs_stop_distance := 8\<rparr>) \<le> sized_quantity demo_risk_state"
  using wider_stop_never_larger [of demo_risk_state 8] demo_quantities
  by (simp add: demo_risk_state_def conservative_v1_rules_def)
theorem apply_fill_signed_quantity_witness:
  "signed_quantity (Some \<lparr>bp_side = Short, bp_quantity = 1, bp_entry = 90\<rparr>)
     = dround (signed_quantity (Some \<lparr>bp_side = Long, bp_quantity = 2, bp_entry = 100\<rparr>) + fill_sign Sell_order * 3)"
  using apply_fill_signed_quantity [of "Some \<lparr>bp_side = Long, bp_quantity = 2, bp_entry = 100\<rparr>"
      "\<lparr>sf_price = 90, sf_quantity = 3, sf_fee = 0\<rparr>" Sell_order True
      "\<lparr>fo_position = Some \<lparr>bp_side = Short, bp_quantity = 1, bp_entry = 90\<rparr>, fo_realized_pnl = - 20\<rparr>"]
  by (simp add: apply_fill_to_position_def arithmetic_defs decimal_eval)

definition rising :: "candle list" where
  "rising = [demo_candle 0 10, demo_candle 1 10, demo_candle 2 10, demo_candle 3 11]"

theorem donchian_window_independent_witness:
  "generate_donchian_breakout_signal 1 1 (last_n 3 rising) = generate_donchian_breakout_signal 1 1 rising"
  using donchian_window_independent [of 1 1 3 rising] by (simp add: rising_def)

lemma rising_buys: "generate_donchian_breakout_signal 1 1 rising = Buy"
  by (simp add: generate_donchian_breakout_signal_def rising_def demo_candle_def breaks_above_def slice_def)

theorem donchian_buy_not_repeated_witness:
  "generate_donchian_breakout_signal 1 1 rising = Buy
   \<and> generate_donchian_breakout_signal 1 1 (rising @ [demo_candle 4 12]) \<noteq> Buy"
  using donchian_buy_not_repeated [OF rising_buys] rising_buys by blast

theorem average_true_range_bounds_witness:
  "average_true_range [demo_candle 0 10, demo_candle 1 12, demo_candle 2 12] 2 = Some 1 \<and> (1 :: decimal) \<le> 2"
proof -
  have "average_true_range [demo_candle 0 10, demo_candle 1 12, demo_candle 2 12] 2 = Some 1"
    by (simp add: average_true_range_def mean_of_def true_ranges_def true_range_def demo_candle_def dabs_def
        arithmetic_defs decimal_eval)
  moreover have "\<forall>k \<le> 2. dexact (2 * of_nat k)"
  proof (intro allI impI)
    fix k :: nat assume "k \<le> 2"
    then have "k = 0 \<or> k = 1 \<or> k = 2" by arith
    then show "dexact (2 * of_nat k)" by (auto simp: decimal_eval)
  qed
  ultimately show ?thesis
    using average_true_range_bounds [of "[demo_candle 0 10, demo_candle 1 12, demo_candle 2 12]" 2 1 2]
    by (simp add: true_ranges_def true_range_def demo_candle_def dabs_def arithmetic_defs decimal_eval)
qed

theorem relative_strength_index_range_witness:
  "relative_strength_index [demo_candle 0 10, demo_candle 1 12, demo_candle 2 12] 2 = Some 100 \<and> (100 :: decimal) \<le> 100"
proof -
  have "relative_strength_index [demo_candle 0 10, demo_candle 1 12, demo_candle 2 12] 2 = Some 100"
    by (simp add: relative_strength_index_def mean_of_def price_changes_def rsi_of_def demo_candle_def
        arithmetic_defs decimal_eval)
  then show ?thesis using relative_strength_index_range by blast
qed

theorem rolling_folds_witness:
  "split_candles_rolling 5 2 1 = Inr (map (nth_fold 2 1) [0, 1, 2])"
proof -
  have "[0..<(5 - 2 - 1) div 1 + 1] = [0, 1, 2 :: nat]" by (simp add: upt_rec)
  then show ?thesis using rolling_folds [of 2 1 5] by (simp del: One_nat_def)
qed

theorem downsample_keeps_extremes_witness:
  "downsample_equity_curve [(0, 5), (1, 9), (2, 7), (3, 1), (4, 6)] 4 = [(0, 5), (1, 9), (3, 1), (4, 6)]
   \<and> length [(0::datetime, 5::decimal), (1, 9), (3, 1), (4, 6)] \<le> 4"
proof -
  have e: "[Suc 0..<5] = [1,2,3,4]" "[0..<Suc 0] = [0]" by (simp_all add: upt_rec)
  have "downsample_equity_curve [(0, 5), (1, 9), (2, 7), (3, 1), (4, 6)] 4 = [(0, 5), (1, 9), (3, 1), (4, 6)]"
    by (simp add: downsample_equity_curve_def kept_indexes_def bucket_size_of_def bucket_starts_def
        first_argmin_def first_argmax_def Let_def e)
  then show ?thesis
    using downsample_keeps_extremes [of "[(0, 5), (1, 9), (3, 1), (4, 6)]" "[(0, 5), (1, 9), (2, 7), (3, 1), (4, 6)]" 4]
    by simp
qed

end
