(* ===== verification/Trading_Db.thy ===== *)
theory Trading_Db
  imports Risk_Gate Signals "HOL-Library.Option_ord"
begin

text \<open>
  The rows the paper-trading code reads and writes: \<open>app/models/strategy.py\<close>,
  \<open>app/models/trading.py\<close> and \<open>app/models/audit.py\<close>, with the table checks of
  \<open>database/postgresql_schema_v0.1.sql\<close> that a write can break. A table is the list of its rows
  in insertion order, a transaction a function on the database that either raises or returns the
  database it leaves, so a rollback is the database before it.

  PostgreSQL is not modelled. What a \<open>numeric(38, 18)\<close> column gives back for a value written to it
  is the field \<open>env_column\<close> of the environment, and what the code relies on is the locale
  \<open>numeric_column\<close>. The clock is read once per command.
\<close>

subsection \<open>The environment\<close>

record tx_env =
  env_now :: datetime
  env_column :: "decimal \<Rightarrow> decimal"

locale numeric_column =
  fixes column :: "decimal \<Rightarrow> decimal"
  assumes column_mono: "x \<le> y \<Longrightarrow> column x \<le> column y"
    and column_minus: "column (- x) = - column x"
    and column_grid: "\<exists>k :: int. column x = of_int k / 10 ^ 18"
    and column_exact: "column (of_int k / 10 ^ 18) = of_int k / 10 ^ 18"
    and column_close: "\<bar>column x - x\<bar> \<le> 1 / 10 ^ 18"
begin

lemma column_idem [simp]: "column (column x) = column x"
  using column_grid [of x] column_exact by metis

lemma column_zero [simp]: "column 0 = 0"
  using column_exact [of 0] by simp

lemma column_nonneg: "0 \<le> x \<Longrightarrow> 0 \<le> column x"
  using column_mono [of 0 x] by simp

lemma column_nonpos: "x \<le> 0 \<Longrightarrow> column x \<le> 0"
  using column_mono [of x 0] by simp

lemma column_pos: "0 < column x \<Longrightarrow> 0 < x"
  using column_mono [of x 0] by (cases "x \<le> 0") auto

lemma column_unit: "1 / 10 ^ 18 \<le> x \<Longrightarrow> 0 < column x"
  using column_mono [of "1 / 10 ^ 18" x] column_exact [of 1] by (simp add: less_le_trans [rotated])

lemma column_smallest:
  assumes "column x = x" "0 < x" shows "1 / 10 ^ 18 \<le> x"
proof -
  obtain k :: int where k: "x = of_int k / 10 ^ 18" using column_grid [of x] assms(1) by metis
  then have "0 < k" using assms(2) by simp
  then have "(1 :: rat) \<le> of_int k" by simp
  then show ?thesis unfolding k by (intro divide_right_mono) auto
qed

lemma column_diff_exact:
  assumes "column x = x" "column y = y" shows "column (x - y) = x - y"
proof -
  obtain j k :: int where "x = of_int j / 10 ^ 18" "y = of_int k / 10 ^ 18"
    using column_grid [of x] column_grid [of y] assms by metis
  then have "x - y = of_int (j - k) / 10 ^ 18" by (simp add: diff_divide_distrib)
  then show ?thesis using column_exact by metis
qed

end

definition pg_numeric18 :: "decimal \<Rightarrow> decimal" where
  \<comment> \<open>18 decimals, ties away from zero: the rounding PostgreSQL documents\<close>
  "pg_numeric18 x = (if x < 0 then - of_int \<lfloor>- x * 10 ^ 18 + 1 / 2\<rfloor> / 10 ^ 18
                     else of_int \<lfloor>x * 10 ^ 18 + 1 / 2\<rfloor> / 10 ^ 18)"

lemma floor_half: "\<lfloor>1 / 2 :: rat\<rfloor> = 0"
  by (rule floor_unique) auto

lemma pg_numeric18_mono: assumes "x \<le> y" shows "pg_numeric18 x \<le> pg_numeric18 y"
proof -
  have f: "\<lfloor>a * 10 ^ 18 + 1 / 2\<rfloor> \<le> \<lfloor>b * 10 ^ 18 + 1 / 2\<rfloor>" if "a \<le> b" for a b :: rat
    using that by (intro floor_mono add_right_mono mult_right_mono) auto
  have g: "0 \<le> \<lfloor>a * 10 ^ 18 + 1 / 2\<rfloor>" if "0 \<le> a" for a :: rat
  proof -
    have "(0 :: rat) \<le> a * 10 ^ 18" using that by simp
    then show ?thesis by linarith
  qed
  consider "0 \<le> x" "0 \<le> y" | "x < 0" "y < 0" | "x < 0" "0 \<le> y" using assms by linarith
  then show ?thesis
  proof cases
    case 1
    then show ?thesis using f [of x y] assms
      by (simp only: pg_numeric18_def not_less [symmetric] if_False) (simp add: divide_right_mono)
  next
    case 2
    then show ?thesis using f [of "- y" "- x"] assms by (simp add: pg_numeric18_def divide_right_mono)
  next
    case 3
    have "- (of_int \<lfloor>- x * 10 ^ 18 + 1 / 2\<rfloor> :: rat) / 10 ^ 18 \<le> 0"
      using g [of "- x"] 3(1) by (intro divide_nonpos_nonneg) (simp_all only: neg_le_0_iff_le of_int_0_le_iff, auto)
    moreover have "(0 :: rat) \<le> of_int \<lfloor>y * 10 ^ 18 + 1 / 2\<rfloor> / 10 ^ 18"
      using g [OF 3(2)] by (intro divide_nonneg_nonneg) (simp_all only: of_int_0_le_iff, auto)
    moreover have "\<not> y < 0" using 3(2) by simp
    ultimately show ?thesis using 3(1) unfolding pg_numeric18_def
      by (simp only: if_True if_False)
  qed
qed

interpretation pg: numeric_column pg_numeric18
proof
  fix x y :: decimal
  show "x \<le> y \<Longrightarrow> pg_numeric18 x \<le> pg_numeric18 y" by (rule pg_numeric18_mono)
  have minus: "pg_numeric18 (- x) = - pg_numeric18 x" for x
    by (cases x "0 :: decimal" rule: linorder_cases) (simp_all add: pg_numeric18_def floor_half)
  then show "pg_numeric18 (- x) = - pg_numeric18 x" .
  have grid: "\<exists>k. pg_numeric18 x = of_int k / 10 ^ 18" for x
    unfolding pg_numeric18_def by (cases "x < 0") (metis minus_divide_left of_int_minus)+
  then show "\<exists>k. pg_numeric18 x = of_int k / 10 ^ 18" .
  have exact: "pg_numeric18 (of_int k / 10 ^ 18) = of_int k / 10 ^ 18" if "0 \<le> k" for k
    using that by (simp add: pg_numeric18_def floor_half)
  show "pg_numeric18 (of_int k / 10 ^ 18) = of_int k / 10 ^ 18" for k
  proof (cases "0 \<le> k")
    case False
    then show ?thesis using exact [of "- k"] minus [of "of_int k / 10 ^ 18"] by simp
  qed (rule exact)
  have close: "\<bar>pg_numeric18 x - x\<bar> \<le> 1 / 10 ^ 18" if "0 \<le> x" for x
  proof -
    define k where "k = \<lfloor>x * 10 ^ 18 + 1 / 2\<rfloor>"
    have k: "of_int k \<le> x * 10 ^ 18 + 1 / 2" "x * 10 ^ 18 + 1 / 2 < of_int k + 1"
      unfolding k_def by linarith+
    have p: "pg_numeric18 x = of_int k / 10 ^ 18" using that by (simp add: pg_numeric18_def k_def)
    show ?thesis unfolding p using k by (simp add: abs_le_iff field_simps)
  qed
  show "\<bar>pg_numeric18 x - x\<bar> \<le> 1 / 10 ^ 18"
    using close [of x] close [of "- x"] minus [of x] by (cases "0 \<le> x") (auto simp: abs_if split: if_splits)
qed

subsection \<open>Values of audit and event payloads\<close>

datatype detail =
    D_null
  | D_bool bool
  | D_int int
  | D_decimal decimal
  | D_text string
  | D_id uuid
  | D_time datetime
  | D_list "detail list"

type_synonym payload = "(string \<times> detail) list"

definition optional :: "('a \<Rightarrow> detail) \<Rightarrow> 'a option \<Rightarrow> detail" where
  "optional f v = (case v of None \<Rightarrow> D_null | Some x \<Rightarrow> f x)"

subsection \<open>Halts, events and audit\<close>

datatype halt_level = Warning | Entry_halted | All_trading_halted | Emergency_stopped
datatype halt_status = Halt_active | Halt_released

record trading_halt =
  h_id :: uuid
  h_workspace :: uuid
  h_scope_type :: string
  h_scope_id :: "uuid option"
  h_level :: halt_level
  h_reason :: string
  h_trigger_event :: "uuid option"
  h_auto_releasable :: bool
  h_status :: halt_status
  h_halted_at :: datetime
  h_released_at :: "datetime option"
  h_released_by :: "uuid option"

record system_event =
  se_id :: uuid
  se_workspace :: uuid
  se_occurred_at :: datetime
  se_severity :: string
  se_category :: string
  se_event_type :: string
  se_reason :: "string option"
  se_source_type :: string
  se_source_id :: "uuid option"
  se_target_type :: "string option"
  se_target_id :: "uuid option"
  se_correlation :: uuid
  se_message :: "string list"
  se_payload :: payload

record outbox_event =
  ob_id :: uuid
  ob_aggregate_type :: string
  ob_aggregate_id :: uuid
  ob_event_type :: string
  ob_payload :: payload
  ob_correlation :: uuid
  ob_status :: string
  ob_attempts :: nat
  ob_available_at :: datetime
  ob_published_at :: "datetime option"

record audit_log =
  al_workspace :: uuid
  al_actor :: "uuid option"
  al_action :: string
  al_resource_type :: string
  al_resource_id :: uuid
  al_after :: payload
  al_correlation :: uuid

subsection \<open>Orders, fills, positions and the ledger\<close>

datatype order_type = Market | Limit
datatype order_status = Pending | Submitted | Partially_filled | Filled | Cancel_pending | Cancelled
  | Rejected | Expired | Unknown

definition status_text :: "order_status \<Rightarrow> string" where
  "status_text s = (case s of Pending \<Rightarrow> ''pending'' | Submitted \<Rightarrow> ''submitted''
     | Partially_filled \<Rightarrow> ''partially_filled'' | Filled \<Rightarrow> ''filled'' | Cancel_pending \<Rightarrow> ''cancel_pending''
     | Cancelled \<Rightarrow> ''cancelled'' | Rejected \<Rightarrow> ''rejected'' | Expired \<Rightarrow> ''expired'' | Unknown \<Rightarrow> ''unknown'')"


record order_intent =
  oi_id :: uuid
  oi_signal :: uuid
  oi_decision :: uuid
  oi_side :: order_side
  oi_type :: order_type
  oi_quantity :: decimal
  oi_limit_price :: "decimal option"
  oi_stop_price :: "decimal option"
  oi_take_profit :: "decimal option"
  oi_max_slippage_bps :: "int option"
  oi_expires_at :: "datetime option"

record trade_order =
  o_id :: uuid
  o_workspace :: uuid
  o_account :: uuid
  o_intent :: "uuid option"
  o_client_id :: string
  o_instrument :: uuid
  o_side :: order_side
  o_type :: order_type
  o_time_in_force :: string
  o_quantity :: decimal
  o_filled :: decimal
  o_limit_price :: "decimal option"
  o_stop_price :: "decimal option"
  o_status :: order_status
  o_submitted_at :: "datetime option"
  o_created_at :: datetime

record status_history =
  sh_order :: uuid
  sh_from :: "order_status option"
  sh_to :: order_status
  sh_reason :: "string option"
  sh_occurred_at :: datetime

record fill_row =
  f_id :: uuid
  f_order :: uuid
  f_price :: decimal
  f_quantity :: decimal
  f_fee :: decimal
  f_fee_asset :: "string option"
  f_executed_at :: datetime

datatype position_status = Open | Closed

record trading_position =
  p_id :: uuid
  p_account :: uuid
  p_instrument :: uuid
  p_side :: position_side
  p_quantity :: decimal
  p_entry :: "decimal option"
  p_realized :: decimal
  p_stop_price :: "decimal option"
  p_status :: position_status
  p_version :: nat
  p_opened_at :: "datetime option"
  p_closed_at :: "datetime option"

record ledger_transaction =
  lt_id :: uuid
  lt_account :: uuid
  lt_reference_type :: string
  lt_reference :: "uuid option"
  lt_occurred_at :: datetime

datatype entry_type = Cash | Fee | Realized_pnl | Deposit | Withdrawal | Other_entry

record ledger_entry =
  le_transaction :: uuid
  le_account :: uuid
  le_fill :: "uuid option"
  le_asset :: string
  le_amount :: decimal
  le_type :: entry_type
  le_occurred_at :: datetime

record account_snapshot =
  sn_account :: uuid
  sn_captured_at :: datetime
  sn_cash :: decimal
  sn_equity :: decimal
  sn_unrealized :: decimal
  sn_source :: string

subsection \<open>Bots, signals and decisions\<close>

datatype bot_state = Stopped | Starting | Running | Pausing | Paused | Stopping | Failed

record trading_bot =
  b_id :: uuid
  b_workspace :: uuid
  b_name :: string
  b_execution_mode :: string
  b_connection :: uuid
  b_account :: uuid
  b_instrument :: uuid
  b_timeframe :: string
  b_strategy_version :: uuid
  b_risk_profile_version :: uuid
  b_desired :: bot_state
  b_actual :: bot_state
  b_version :: nat

record bot_run =
  br_id :: uuid
  br_bot :: uuid
  br_status :: bot_state
  br_started_at :: datetime
  br_stopped_at :: "datetime option"
  br_stop_reason :: "string option"
  br_heartbeat_at :: "datetime option"

record signal_row =
  sg_id :: uuid
  sg_workspace :: uuid
  sg_bot_run :: uuid
  sg_candle :: uuid
  sg_strategy_version :: uuid
  sg_action :: signal_action

record risk_decision =
  rd_id :: uuid
  rd_signal :: uuid
  rd_profile_version :: uuid
  rd_outcome :: risk_outcome
  rd_rule_results :: "rule_entry list"
  rd_adjusted_quantity :: "decimal option"
  rd_reason :: "string option"

subsection \<open>Reference rows the trading code only reads\<close>

record trading_account =
  ac_id :: uuid
  ac_workspace :: uuid
  ac_connection :: "uuid option"
  ac_status :: string

record exchange_connection =
  cn_id :: uuid
  cn_exchange :: uuid
  cn_secret_ref :: "string option"
  cn_status :: string

record strategy_version =
  sv_id :: uuid
  sv_definition :: "(string \<rightharpoonup> json) option"
  sv_lifecycle :: string

record risk_profile_version =
  rp_id :: uuid
  rp_rules :: risk_rules
  rp_status :: string

record catalog =
  cat_accounts :: "trading_account list"
  cat_connections :: "exchange_connection list"
  cat_exchanges :: "(uuid \<times> string) list"
  cat_instruments :: "instrument list"
  cat_candles :: "candle list"
  cat_spreads :: "(uuid \<times> decimal \<times> decimal) list" \<comment> \<open>instrument, bid, ask\<close>
  cat_strategies :: "strategy_version list"
  cat_profiles :: "risk_profile_version list"

record trading_db =
  db_catalog :: catalog
  db_next_id :: uuid
  db_halts :: "trading_halt list"
  db_events :: "system_event list"
  db_outbox :: "outbox_event list"
  db_audit :: "audit_log list"
  db_intents :: "order_intent list"
  db_orders :: "trade_order list"
  db_history :: "status_history list"
  db_fills :: "fill_row list"
  db_positions :: "trading_position list"
  db_transactions :: "ledger_transaction list"
  db_entries :: "ledger_entry list"
  db_snapshots :: "account_snapshot list"
  db_bots :: "trading_bot list"
  db_runs :: "bot_run list"
  db_signals :: "signal_row list"
  db_decisions :: "risk_decision list"

subsection \<open>Queries and writes\<close>

definition update_row :: "('r \<Rightarrow> uuid) \<Rightarrow> 'r \<Rightarrow> 'r list \<Rightarrow> 'r list" where
  \<comment> \<open>flushing a changed row: it replaces the row with its identifier\<close>
  "update_row key r rows = map (\<lambda>x. if key x = key r then r else x) rows"

definition latest_by :: "('r \<Rightarrow> 'k :: linorder) \<Rightarrow> 'r list \<Rightarrow> 'r option" where
  \<comment> \<open>\<open>order_by(key.desc()).limit(1)\<close>; among equal keys the first row\<close>
  "latest_by key rows = (case rows of [] \<Rightarrow> None
     | r # rs \<Rightarrow> Some (foldl (\<lambda>best x. if key best < key x then x else best) r rs))"

definition newest_first :: "('r \<Rightarrow> 'k :: linorder) \<Rightarrow> 'r list \<Rightarrow> 'r list" where
  \<comment> \<open>\<open>order_by(key.desc())\<close>\<close>
  "newest_first key rows = rev (sort_key key rows)"

definition fresh_id :: "trading_db \<Rightarrow> uuid \<times> trading_db" where
  \<comment> \<open>\<open>gen_random_uuid()\<close> and \<open>uuid4()\<close>: an identifier no row has yet\<close>
  "fresh_id db = (db_next_id db, db\<lparr>db_next_id := Suc (db_next_id db)\<rparr>)"

lemma update_row_Nil [simp]: "update_row key r [] = []"
  by (simp add: update_row_def)

lemma map_key_update_row [simp]: "map key (update_row key r rows) = map key rows"
  by (simp add: update_row_def)

lemma length_update_row [simp]: "length (update_row key r rows) = length rows"
  by (simp add: update_row_def)

lemma set_update_row:
  "x \<in> set (update_row key r rows) \<longleftrightarrow>
     (x \<in> set rows \<and> key x \<noteq> key r) \<or> (x = r \<and> key r \<in> key ` set rows)"
  by (auto simp: update_row_def image_iff) metis+

lemma latest_by_Some:
  assumes "latest_by key rows = Some r"
  shows "r \<in> set rows \<and> (\<forall>x \<in> set rows. key x \<le> key r)"
proof -
  obtain a rs where rows: "rows = a # rs" and r: "r = foldl (\<lambda>best x. if key best < key x then x else best) a rs"
    using assms by (auto simp: latest_by_def split: list.splits)
  have "foldl (\<lambda>best x. if key best < key x then x else best) a rs \<in> set (a # rs)
      \<and> (\<forall>x \<in> set (a # rs). key x \<le> key (foldl (\<lambda>best x. if key best < key x then x else best) a rs))" for a
  proof (induction rs arbitrary: a)
    case (Cons b bs)
    show ?case
    proof (cases "key a < key b")
      case True
      then show ?thesis using Cons.IH [of b] by (simp; fastforce)
    next
      case False
      then show ?thesis using Cons.IH [of a] by (simp; fastforce)
    qed
  qed simp
  then show ?thesis unfolding rows r .
qed

lemma latest_by_None [simp]: "latest_by key rows = None \<longleftrightarrow> rows = []"
  by (simp add: latest_by_def split: list.split)

lemma update_row_snoc:
  assumes "key r \<notin> key ` set rows" "key r = key a"
  shows "update_row key r (rows @ [a]) = rows @ [r]"
proof -
  have "map (\<lambda>x. if key x = key r then r else x) rows = rows"
    by (rule map_idI) (use assms(1) in \<open>auto simp: image_iff\<close>)
  then show ?thesis by (simp add: update_row_def assms(2))
qed

text \<open>
  Tables in which at most one row per group is live (an active halt per cause, an open position per
  account and instrument, a running run per bot), with identifiers below the next one.
\<close>

definition exclusive :: "('r \<Rightarrow> uuid) \<Rightarrow> ('r \<Rightarrow> bool) \<Rightarrow> ('r \<Rightarrow> 'g) \<Rightarrow> 'r list \<Rightarrow> uuid \<Rightarrow> bool" where
  "exclusive key live grp rows n \<longleftrightarrow> distinct (map key rows) \<and> (\<forall>r \<in> set rows. key r < n)
     \<and> (\<forall>r \<in> set rows. \<forall>r' \<in> set rows. live r \<longrightarrow> live r' \<longrightarrow> grp r = grp r' \<longrightarrow> r = r')"

lemma exclusive_key: "exclusive key live grp rows n \<Longrightarrow> r \<in> set rows \<Longrightarrow> r' \<in> set rows \<Longrightarrow> key r = key r' \<Longrightarrow> r = r'"
  by (auto simp: exclusive_def distinct_map inj_on_def)

lemma exclusive_live:
  assumes "exclusive key live grp rows n" "r \<in> set rows" "r' \<in> set rows" "live r" "live r'" "grp r = grp r'"
  shows "r = r'"
  using assms(1) assms(2-6) unfolding exclusive_def by blast

lemma exclusive_mono: "exclusive key live grp rows n \<Longrightarrow> n \<le> m \<Longrightarrow> exclusive key live grp rows m"
  by (force simp: exclusive_def)

lemma exclusive_snoc:
  assumes "exclusive key live grp rows n" "n \<le> key a" "key a < m"
    and "\<And>r. r \<in> set rows \<Longrightarrow> live r \<Longrightarrow> live a \<Longrightarrow> grp r \<noteq> grp a"
  shows "exclusive key live grp (rows @ [a]) m"
proof -
  have new: "key r < key a" if "r \<in> set rows" for r using assms(1,2) that by (fastforce simp: exclusive_def)
  have "x = y" if in_rows: "x \<in> set (rows @ [a])" "y \<in> set (rows @ [a])" and live: "live x" "live y" "grp x = grp y" for x y
  proof -
    consider "x \<in> set rows" "y \<in> set rows" | "x = a" "y = a" | "x \<in> set rows" "y = a" | "x = a" "y \<in> set rows"
      using in_rows by auto
    then show ?thesis
    proof cases
      case 1 then show ?thesis using exclusive_live [OF assms(1) 1 live] by simp
    next
      case 3 then show ?thesis using assms(4) [of x] live by simp
    next
      case 4 then show ?thesis using assms(4) [of y] live by simp
    qed simp
  qed
  moreover have "distinct (map key (rows @ [a]))" using assms(1) new by (force simp: exclusive_def)
  moreover have "\<forall>r \<in> set (rows @ [a]). key r < m" using new assms(3) by force
  ultimately show ?thesis unfolding exclusive_def by blast
qed

lemma exclusive_update:
  assumes "exclusive key live grp rows n" "e \<in> set rows" "key r = key e" "live r \<Longrightarrow> live e" "grp r = grp e"
  shows "exclusive key live grp (update_row key r rows) n"
proof -
  have origin: "(x = r \<or> x \<noteq> r \<and> x \<in> set rows \<and> key x \<noteq> key e)" if "x \<in> set (update_row key r rows)" for x
    using that assms(3) by (auto simp: set_update_row)
  have "x = y" if in_rows: "x \<in> set (update_row key r rows)" "y \<in> set (update_row key r rows)"
    and live: "live x" "live y" "grp x = grp y" for x y
  proof -
    consider "x = r" "y = r" | "x = r" "y \<in> set rows" "key y \<noteq> key e" | "x \<in> set rows" "key x \<noteq> key e" "y = r"
      | "x \<in> set rows" "y \<in> set rows"
      using origin [OF in_rows(1)] origin [OF in_rows(2)] by blast
    then show ?thesis
    proof cases
      case 2
      then have "e = y" using exclusive_live [OF assms(1,2)] assms(4,5) live by metis
      then show ?thesis using 2 by simp
    next
      case 3
      then have "x = e" using exclusive_live [OF assms(1) _ assms(2)] assms(4,5) live by metis
      then show ?thesis using 3 by simp
    next
      case 4 then show ?thesis using exclusive_live [OF assms(1) 4 live] by simp
    qed simp
  qed
  moreover have "\<forall>x \<in> set (update_row key r rows). key x < n"
    using origin assms(1-3) unfolding exclusive_def by metis
  ultimately show ?thesis using assms(1) unfolding exclusive_def by simp
qed

lemma exclusive_find:
  assumes "exclusive key live grp rows n" "r \<in> set rows" "live r"
  shows "find (\<lambda>x. grp x = grp r \<and> live x) rows = Some r"
proof -
  have "find (\<lambda>x. grp x = grp r \<and> live x) rows \<noteq> None" using assms(2,3) by (auto simp: find_None_iff)
  then obtain x where x: "find (\<lambda>x. grp x = grp r \<and> live x) rows = Some x" by blast
  then have "x \<in> set rows" "grp x = grp r" "live x" by (auto simp: find_Some_iff)
  then show ?thesis using x exclusive_live [OF assms(1), of x r] assms(2,3) by simp
qed

lemma exclusive_find_None:
  assumes "exclusive key live grp rows n" "r \<in> set rows" "live r" "\<not> live r'" "key r' = key r"
  shows "find (\<lambda>x. grp x = grp r \<and> live x) (update_row key r' rows) = None"
  unfolding find_None_iff
proof
  assume "\<exists>x. x \<in> set (update_row key r' rows) \<and> grp x = grp r \<and> live x"
  then obtain x where x: "x \<in> set (update_row key r' rows)" "grp x = grp r" "live x" by blast
  then have "x \<in> set rows" "key x \<noteq> key r" using assms(4,5) by (auto simp: set_update_row)
  then show False using exclusive_live [OF assms(1) _ assms(2) x(3) assms(3) x(2)] by auto
qed

end
