(* ===== verification/Trading_Halts.thy ===== *)
theory Trading_Halts
  imports Trading_Db
begin

text \<open>
  Trading halts, \<open>app/trading/application/trading_halt.py\<close>, with the event every activation
  publishes (\<open>app/notifications/application/publish_event.py\<close>) and the release commands of
  \<open>app/api/routes/trading_halts.py\<close>. Logging is left out, and a message is the list of the parts
  its text is made of.
\<close>

subsection \<open>Publishing an event\<close>

definition publish_system_event ::
  "tx_env \<Rightarrow> uuid \<Rightarrow> string \<Rightarrow> string \<Rightarrow> string \<Rightarrow> string option \<Rightarrow> string list \<Rightarrow> payload \<Rightarrow> string \<Rightarrow> uuid \<Rightarrow>
     string \<Rightarrow> uuid option \<Rightarrow> string option \<Rightarrow> uuid option \<Rightarrow> uuid option \<Rightarrow> trading_db \<Rightarrow> uuid \<times> trading_db" where
  "publish_system_event env workspace severity category event_type reason message payload
     aggregate_type aggregate_id source_type source_id target_type target_id correlation db =
     (let (cid, db0) = (case correlation of Some c \<Rightarrow> (c, db) | None \<Rightarrow> fresh_id db);
          (eid, db1) = fresh_id db0;
          (oid, db2) = fresh_id db1;
          event = \<lparr>se_id = eid, se_workspace = workspace, se_occurred_at = env_now env,
            se_severity = severity, se_category = category, se_event_type = event_type,
            se_reason = reason, se_source_type = source_type, se_source_id = source_id,
            se_target_type = target_type, se_target_id = target_id, se_correlation = cid,
            se_message = message, se_payload = payload\<rparr>;
          outbox = \<lparr>ob_id = oid, ob_aggregate_type = aggregate_type, ob_aggregate_id = aggregate_id,
            ob_event_type = event_type, ob_payload = payload, ob_correlation = cid,
            ob_status = ''pending'', ob_attempts = 0, ob_available_at = env_now env, ob_published_at = None\<rparr>
      in (eid, db2\<lparr>db_events := db_events db2 @ [event], db_outbox := db_outbox db2 @ [outbox]\<rparr>))"

subsection \<open>Levels and scopes\<close>

fun level_severity :: "halt_level \<Rightarrow> nat" where
  "level_severity Warning = 1"
| "level_severity Entry_halted = 2"
| "level_severity All_trading_halted = 3"
| "level_severity Emergency_stopped = 4"

lemma level_severity_inject: "level_severity a = level_severity b \<Longrightarrow> a = b"
  by (cases a; cases b; simp)

instantiation halt_level :: linorder
begin

definition less_eq_halt_level :: "halt_level \<Rightarrow> halt_level \<Rightarrow> bool" where
  "less_eq_halt_level a b \<longleftrightarrow> level_severity a \<le> level_severity b"

definition less_halt_level :: "halt_level \<Rightarrow> halt_level \<Rightarrow> bool" where
  "less_halt_level a b \<longleftrightarrow> level_severity a < level_severity b"

instance
  by standard (auto simp: less_eq_halt_level_def less_halt_level_def intro: level_severity_inject)

end

fun one_step_down :: "halt_level \<Rightarrow> halt_level option" where
  "one_step_down Emergency_stopped = None"
| "one_step_down All_trading_halted = Some Entry_halted"
| "one_step_down Entry_halted = Some Warning"
| "one_step_down Warning = None"

fun severity_by_level :: "halt_level \<Rightarrow> string" where
  "severity_by_level Warning = ''warning''"
| "severity_by_level Entry_halted = ''warning''"
| "severity_by_level All_trading_halted = ''error''"
| "severity_by_level Emergency_stopped = ''critical''"

fun level_code :: "halt_level \<Rightarrow> string" where
  "level_code Warning = ''warning''"
| "level_code Entry_halted = ''entry_halted''"
| "level_code All_trading_halted = ''all_trading_halted''"
| "level_code Emergency_stopped = ''emergency_stopped''"

record halt_event =
  he_type :: string
  he_message :: "string list"
  he_payload :: payload
  he_source_type :: string
  he_source_id :: "uuid option"
  he_correlation :: "uuid option"

record halt_scope =
  hs_workspace :: uuid
  hs_type :: string
  hs_id :: "uuid option"

definition in_scope :: "halt_scope \<Rightarrow> trading_halt \<Rightarrow> bool" where
  "in_scope scope h \<longleftrightarrow>
     h_workspace h = hs_workspace scope \<and> h_scope_type h = hs_type scope \<and> h_scope_id h = hs_id scope"

definition matches :: "halt_scope \<Rightarrow> string \<Rightarrow> halt_status \<Rightarrow> trading_halt \<Rightarrow> bool" where
  "matches scope reason status h \<longleftrightarrow> in_scope scope h \<and> h_reason h = reason \<and> h_status h = status"

definition scope_of_halt :: "trading_halt \<Rightarrow> halt_scope" where
  "scope_of_halt h = \<lparr>hs_workspace = h_workspace h, hs_type = h_scope_type h, hs_id = h_scope_id h\<rparr>"

subsection \<open>The operations\<close>

definition find_active_halt :: "trading_db \<Rightarrow> halt_scope \<Rightarrow> string \<Rightarrow> trading_halt option" where
  "find_active_halt db scope reason = find (matches scope reason Halt_active) (db_halts db)"

definition announce ::
  "tx_env \<Rightarrow> trading_halt \<Rightarrow> halt_event option \<Rightarrow> halt_level option \<Rightarrow> trading_db \<Rightarrow> uuid \<times> trading_db" where
  "announce env halt event previous_level db =
     publish_system_event env (h_workspace halt) (severity_by_level (h_level halt)) ''risk''
       (case event of Some e \<Rightarrow> he_type e | None \<Rightarrow> ''trading_halt.'' @ h_reason halt)
       (Some (h_reason halt))
       (case event of Some e \<Rightarrow> he_message e
        | None \<Rightarrow> (case previous_level of
              None \<Rightarrow> [h_reason halt, h_scope_type halt, level_code (h_level halt)]
            | Some p \<Rightarrow> [h_reason halt, h_scope_type halt, level_code p, level_code (h_level halt)]))
       ([(''halt_id'', D_id (h_id halt)), (''scope_type'', D_text (h_scope_type halt)),
         (''scope_id'', optional D_id (h_scope_id halt)), (''level'', D_text (level_code (h_level halt))),
         (''previous_level'', optional (D_text \<circ> level_code) previous_level),
         (''reason_code'', D_text (h_reason halt))]
        @ (case event of Some e \<Rightarrow> he_payload e | None \<Rightarrow> []))
       ''trading_halt'' (h_id halt)
       (case event of Some e \<Rightarrow> he_source_type e | None \<Rightarrow> ''risk_gate'')
       (case event of Some e \<Rightarrow> he_source_id e | None \<Rightarrow> None)
       (Some (h_scope_type halt)) (h_scope_id halt)
       (case event of Some e \<Rightarrow> he_correlation e | None \<Rightarrow> None) db"

definition store_halt :: "trading_halt \<Rightarrow> trading_db \<Rightarrow> trading_db" where
  "store_halt h db = db\<lparr>db_halts := update_row h_id h (db_halts db)\<rparr>"

definition new_halt :: "tx_env \<Rightarrow> uuid \<Rightarrow> halt_scope \<Rightarrow> string \<Rightarrow> halt_level \<Rightarrow> bool \<Rightarrow> trading_halt" where
  "new_halt env hid scope reason level auto_releasable =
     \<lparr>h_id = hid, h_workspace = hs_workspace scope, h_scope_type = hs_type scope,
      h_scope_id = hs_id scope, h_level = level, h_reason = reason, h_trigger_event = None,
      h_auto_releasable = auto_releasable, h_status = Halt_active, h_halted_at = env_now env,
      h_released_at = None, h_released_by = None\<rparr>"

definition activate_or_escalate ::
  "tx_env \<Rightarrow> halt_scope \<Rightarrow> string \<Rightarrow> halt_level \<Rightarrow> bool \<Rightarrow> halt_event option \<Rightarrow> trading_db \<Rightarrow>
     trading_halt \<times> trading_db" where
  "activate_or_escalate env scope reason level auto_releasable event db =
     (case find_active_halt db scope reason of
        None \<Rightarrow>
          (let (hid, db1) = fresh_id db;
               halt = new_halt env hid scope reason level auto_releasable;
               db2 = db1\<lparr>db_halts := db_halts db1 @ [halt]\<rparr>;
               (eid, db3) = announce env halt event None db2;
               halt' = halt\<lparr>h_trigger_event := Some eid\<rparr>
           in (halt', store_halt halt' db3))
      | Some existing \<Rightarrow>
          if h_level existing < level then
            (let existing' = existing\<lparr>h_level := level\<rparr>;
                 (_, db1) = announce env existing' event (Some (h_level existing)) db
             in (existing', store_halt existing' db1))
          else (existing, db))"

definition release_halt :: "trading_halt \<Rightarrow> uuid option \<Rightarrow> datetime \<Rightarrow> trading_halt" where
  "release_halt halt released_by now =
     halt\<lparr>h_status := Halt_released, h_released_at := Some now, h_released_by := released_by\<rparr>"

definition deescalate_one_step ::
  "tx_env \<Rightarrow> halt_scope \<Rightarrow> string \<Rightarrow> uuid option \<Rightarrow> trading_db \<Rightarrow> trading_halt option \<times> trading_db" where
  "deescalate_one_step env scope reason released_by db =
     (case find_active_halt db scope reason of
        None \<Rightarrow> (None, db)
      | Some existing \<Rightarrow>
          if h_level existing = Emergency_stopped then (Some existing, db)
          else (let halt = (case one_step_down (h_level existing) of
                      None \<Rightarrow> release_halt existing released_by (env_now env)
                    | Some next_level \<Rightarrow> existing\<lparr>h_level := next_level\<rparr>)
                in (Some halt, store_halt halt db)))"

definition most_recently_released_halt ::
  "trading_db \<Rightarrow> halt_scope \<Rightarrow> string \<Rightarrow> trading_halt option" where
  "most_recently_released_halt db scope reason =
     latest_by h_released_at (filter (matches scope reason Halt_released) (db_halts db))"

definition last_release_time :: "trading_db \<Rightarrow> halt_scope \<Rightarrow> string \<Rightarrow> datetime option" where
  "last_release_time db scope reason =
     (case most_recently_released_halt db scope reason of
        Some newest \<Rightarrow> h_released_at newest | None \<Rightarrow> None)"

definition release_lock ::
  "tx_env \<Rightarrow> trading_halt \<Rightarrow> uuid \<Rightarrow> trading_db \<Rightarrow> trading_halt \<times> trading_db" where
  "release_lock env halt released_by db =
     (let halt' = release_halt halt (Some released_by) (env_now env) in (halt', store_halt halt' db))"

definition release_emergency_stop ::
  "tx_env \<Rightarrow> trading_halt \<Rightarrow> uuid \<Rightarrow> trading_db \<Rightarrow> (string, trading_halt \<times> trading_db) result" where
  "release_emergency_stop env halt released_by db =
     (if h_level halt \<noteq> Emergency_stopped then Inl ''not_emergency_stopped''
      else let halt' = release_halt halt (Some released_by) (env_now env)
           in Inr (halt', store_halt halt' db))"

definition has_active_halt_at_or_above :: "trading_db \<Rightarrow> halt_scope \<Rightarrow> halt_level \<Rightarrow> bool" where
  "has_active_halt_at_or_above db scope min_level \<longleftrightarrow>
     (\<exists>h \<in> set (db_halts db). in_scope scope h \<and> h_status h = Halt_active \<and> min_level \<le> h_level h)"

subsection \<open>Release commands\<close>

definition lock_reasons :: "string set" where
  "lock_reasons = {''consecutive_loss_limit'', ''peak_drawdown_limit''}"

definition get_halt :: "trading_db \<Rightarrow> uuid \<Rightarrow> uuid \<Rightarrow> (string, trading_halt) result" where
  "get_halt db workspace hid =
     (case find (\<lambda>h. h_id h = hid \<and> h_workspace h = workspace \<and> h_status h = Halt_active) (db_halts db) of
        None \<Rightarrow> Inl ''404'' | Some h \<Rightarrow> Inr h)"

definition release_trading_halt ::
  "tx_env \<Rightarrow> uuid \<Rightarrow> uuid \<Rightarrow> uuid \<Rightarrow> trading_db \<Rightarrow> (string, trading_halt \<times> trading_db) result" where
  "release_trading_halt env workspace hid owner db =
     res_bind (get_halt db workspace hid) (\<lambda>halt.
       if h_level halt = Emergency_stopped then Inl ''422''
       else if h_scope_id halt = None then Inl ''500''
       else if h_reason halt \<in> lock_reasons then Inr (release_lock env halt owner db)
       else case deescalate_one_step env (scope_of_halt halt) (h_reason halt) (Some owner) db of
              (Some updated, db') \<Rightarrow> Inr (updated, db')
            | (None, _) \<Rightarrow> Inl ''AssertionError'')"

definition emergency_release_trading_halt ::
  "(trading_db \<Rightarrow> uuid \<Rightarrow> bool) \<Rightarrow> tx_env \<Rightarrow> uuid \<Rightarrow> uuid \<Rightarrow> uuid \<Rightarrow> trading_db \<Rightarrow>
     (string, trading_halt \<times> trading_db) result" where
  \<comment> \<open>the first argument: does the reconciliation of the account find anything?\<close>
  "emergency_release_trading_halt has_findings env workspace hid owner db =
     res_bind (get_halt db workspace hid) (\<lambda>halt.
       if h_reason halt = ''ledger_mismatch''
          \<and> (case h_scope_id halt of Some account \<Rightarrow> has_findings db account | None \<Rightarrow> False)
       then Inl ''409''
       else case release_emergency_stop env halt owner db of
              Inl e \<Rightarrow> Inl ''422'' | Inr r \<Rightarrow> Inr r)"

subsection \<open>Frames\<close>

lemma fresh_id_frame [simp]:
  "fst (fresh_id db) = db_next_id db" "snd (fresh_id db) = db\<lparr>db_next_id := Suc (db_next_id db)\<rparr>"
  by (simp_all add: fresh_id_def)

lemma publish_frame [simp]:
  "db_catalog (snd (publish_system_event env ws sev cat et rs msg pl agt ai st si tt ti co db)) = db_catalog db"
  "db_halts (snd (publish_system_event env ws sev cat et rs msg pl agt ai st si tt ti co db)) = db_halts db"
  "db_audit (snd (publish_system_event env ws sev cat et rs msg pl agt ai st si tt ti co db)) = db_audit db"
  "db_intents (snd (publish_system_event env ws sev cat et rs msg pl agt ai st si tt ti co db)) = db_intents db"
  "db_orders (snd (publish_system_event env ws sev cat et rs msg pl agt ai st si tt ti co db)) = db_orders db"
  "db_history (snd (publish_system_event env ws sev cat et rs msg pl agt ai st si tt ti co db)) = db_history db"
  "db_fills (snd (publish_system_event env ws sev cat et rs msg pl agt ai st si tt ti co db)) = db_fills db"
  "db_positions (snd (publish_system_event env ws sev cat et rs msg pl agt ai st si tt ti co db)) = db_positions db"
  "db_transactions (snd (publish_system_event env ws sev cat et rs msg pl agt ai st si tt ti co db)) = db_transactions db"
  "db_entries (snd (publish_system_event env ws sev cat et rs msg pl agt ai st si tt ti co db)) = db_entries db"
  "db_snapshots (snd (publish_system_event env ws sev cat et rs msg pl agt ai st si tt ti co db)) = db_snapshots db"
  "db_bots (snd (publish_system_event env ws sev cat et rs msg pl agt ai st si tt ti co db)) = db_bots db"
  "db_runs (snd (publish_system_event env ws sev cat et rs msg pl agt ai st si tt ti co db)) = db_runs db"
  "db_signals (snd (publish_system_event env ws sev cat et rs msg pl agt ai st si tt ti co db)) = db_signals db"
  "db_decisions (snd (publish_system_event env ws sev cat et rs msg pl agt ai st si tt ti co db)) = db_decisions db"
  by (simp_all add: publish_system_event_def Let_def split: option.split prod.split)
     (auto simp: fresh_id_def)

lemma publish_next_id: "db_next_id db < db_next_id (snd (publish_system_event env ws sev cat et rs msg pl agt ai st si tt ti co db))"
  by (simp add: publish_system_event_def Let_def fresh_id_def split: option.split)

lemma publish_one_event:
  "\<exists>e. db_events (snd (publish_system_event env ws sev cat et rs msg pl agt ai st si tt ti co db)) = db_events db @ [e]
     \<and> se_severity e = sev \<and> se_event_type e = et"
  "\<exists>e. db_outbox (snd (publish_system_event env ws sev cat et rs msg pl agt ai st si tt ti co db)) = db_outbox db @ [e]
     \<and> ob_aggregate_id e = ai"
  by (auto simp: publish_system_event_def Let_def fresh_id_def split: option.split)

lemma announce_frame [simp]:
  "db_halts (snd (announce env h ev p db)) = db_halts db" "db_catalog (snd (announce env h ev p db)) = db_catalog db"
  "db_next_id db < db_next_id (snd (announce env h ev p db))"
  by (simp_all add: announce_def publish_next_id)

lemma announce_next_id: "db_next_id db < db_next_id (snd (announce env h ev p db))"
  by simp

lemma announce_events:
  "\<exists>e. db_events (snd (announce env h ev p db)) = db_events db @ [e] \<and> se_severity e = severity_by_level (h_level h)"
  "\<exists>e. db_outbox (snd (announce env h ev p db)) = db_outbox db @ [e] \<and> ob_aggregate_id e = h_id h"
  unfolding announce_def
  subgoal using publish_one_event(1) [of env _ "severity_by_level (h_level h)"] by (meson)
  subgoal using publish_one_event(2) by (meson)
  done

lemma store_halt_sel [simp]:
  "db_halts (store_halt h db) = update_row h_id h (db_halts db)" "db_next_id (store_halt h db) = db_next_id db"
  "db_events (store_halt h db) = db_events db" "db_outbox (store_halt h db) = db_outbox db"
  by (simp_all add: store_halt_def)

lemma new_halt_sel [simp]:
  "h_id (new_halt env i sc r l a) = i" "h_level (new_halt env i sc r l a) = l"
  "h_status (new_halt env i sc r l a) = Halt_active" "h_released_at (new_halt env i sc r l a) = None"
  "h_reason (new_halt env i sc r l a) = r" "scope_of_halt (new_halt env i sc r l a) = sc"
  by (simp_all add: new_halt_def scope_of_halt_def)

lemma release_halt_sel [simp]:
  "h_id (release_halt h b n) = h_id h" "h_level (release_halt h b n) = h_level h"
  "h_status (release_halt h b n) = Halt_released" "h_released_at (release_halt h b n) = Some n"
  "h_released_by (release_halt h b n) = b" "h_reason (release_halt h b n) = h_reason h"
  "scope_of_halt (release_halt h b n) = scope_of_halt h"
  by (simp_all add: release_halt_def scope_of_halt_def)

lemma scope_of_halt_update [simp]:
  "scope_of_halt (h\<lparr>h_level := l\<rparr>) = scope_of_halt h" "scope_of_halt (h\<lparr>h_trigger_event := t\<rparr>) = scope_of_halt h"
  by (simp_all add: scope_of_halt_def)

lemma in_scope_iff: "in_scope scope h \<longleftrightarrow> scope_of_halt h = scope"
  by (cases scope) (auto simp: in_scope_def scope_of_halt_def)

lemma matches_iff: "matches scope reason st h \<longleftrightarrow> scope_of_halt h = scope \<and> h_reason h = reason \<and> h_status h = st"
  by (simp add: matches_def in_scope_iff)

lemma find_active_halt_Some:
  "find_active_halt db scope reason = Some h \<Longrightarrow>
     h \<in> set (db_halts db) \<and> scope_of_halt h = scope \<and> h_reason h = reason \<and> h_status h = Halt_active"
  by (auto simp: find_active_halt_def find_Some_iff matches_iff)

lemma find_active_halt_None:
  "find_active_halt db scope reason = None \<longleftrightarrow>
     (\<forall>h \<in> set (db_halts db). h_status h = Halt_active \<longrightarrow> scope_of_halt h = scope \<longrightarrow> h_reason h \<noteq> reason)"
  by (auto simp: find_active_halt_def find_None_iff matches_iff)

lemma activate_or_escalate_cases:
  assumes r: "r = activate_or_escalate env scope reason level auto ev db"
  shows "(find_active_halt db scope reason = None \<and>
        (\<exists>t. fst r = new_halt env (db_next_id db) scope reason level auto\<lparr>h_trigger_event := Some t\<rparr>)
        \<and> db_halts (snd r) = update_row h_id (fst r) (db_halts db @ [new_halt env (db_next_id db) scope reason level auto]))
    \<or> (\<exists>e. find_active_halt db scope reason = Some e \<and> h_level e < level
        \<and> fst r = e\<lparr>h_level := level\<rparr> \<and> db_halts (snd r) = update_row h_id (fst r) (db_halts db))
    \<or> (\<exists>e. find_active_halt db scope reason = Some e \<and> \<not> h_level e < level \<and> fst r = e \<and> snd r = db)"
  unfolding r
  by (cases "find_active_halt db scope reason")
     (auto simp: activate_or_escalate_def Let_def split_def)

lemma activate_next_id: "db_next_id db \<le> db_next_id (snd (activate_or_escalate env scope reason level auto ev db))"
proof -
  have le: "db_next_id db1 \<le> db_next_id (snd (announce env h ev p db1))" for h p db1
    by (rule less_imp_le [OF announce_next_id])
  have lt: "db_next_id db \<le> db_next_id (snd (announce env h ev p (db\<lparr>db_next_id := Suc (db_next_id db), db_halts := x\<rparr>)))" for h p x
    using le [of "db\<lparr>db_next_id := Suc (db_next_id db), db_halts := x\<rparr>" h p] by simp
  show ?thesis
    by (auto simp: activate_or_escalate_def Let_def split_def le lt split: option.split)
qed

subsection \<open>The life of a halt\<close>

definition cause :: "trading_halt \<Rightarrow> halt_scope \<times> string" where
  "cause h = (scope_of_halt h, h_reason h)"

definition release_dated :: "trading_halt \<Rightarrow> bool" where
  "release_dated h \<longleftrightarrow> (h_status h = Halt_released \<longleftrightarrow> h_released_at h \<noteq> None)"

abbreviation active :: "trading_halt \<Rightarrow> bool" where
  "active h \<equiv> h_status h = Halt_active"

definition halts_ok :: "trading_db \<Rightarrow> bool" where
  "halts_ok db \<longleftrightarrow> exclusive h_id active cause (db_halts db) (db_next_id db)
     \<and> (\<forall>h \<in> set (db_halts db). release_dated h)"

inductive halt_move :: "trading_halt \<Rightarrow> trading_halt \<Rightarrow> bool" where
  stay: "halt_move h h"
| escalate: "h_status h = Halt_active \<Longrightarrow> h_level h < l \<Longrightarrow> halt_move h (h\<lparr>h_level := l\<rparr>)"
| relax: "h_status h = Halt_active \<Longrightarrow> one_step_down (h_level h) = Some l \<Longrightarrow> halt_move h (h\<lparr>h_level := l\<rparr>)"
| expire: "h_status h = Halt_active \<Longrightarrow> h_level h = Warning \<Longrightarrow> halt_move h (release_halt h by_user now)"
| unlock: "h_status h = Halt_active \<Longrightarrow> h_level h \<noteq> Emergency_stopped \<Longrightarrow> h_reason h \<in> lock_reasons \<Longrightarrow>
    halt_move h (release_halt h (Some owner) now)"
| emergency: "h_status h = Halt_active \<Longrightarrow> h_level h = Emergency_stopped \<Longrightarrow>
    halt_move h (release_halt h (Some owner) now)"

inductive_cases halt_moveE: "halt_move h h'"

inductive halt_step :: "trading_db \<Rightarrow> trading_db \<Rightarrow> bool" where
  activate_step: "halt_step db (snd (activate_or_escalate env scope reason level auto ev db))"
| relax_step: "halt_step db (snd (deescalate_one_step env scope reason released_by db))"
| release_step: "release_trading_halt env ws hid owner db = Inr (h, db') \<Longrightarrow> halt_step db db'"
| emergency_step: "emergency_release_trading_halt found env ws hid owner db = Inr (h, db') \<Longrightarrow> halt_step db db'"

lemma halt_move_identity:
  "halt_move h h' \<Longrightarrow> h_id h' = h_id h \<and> cause h' = cause h
     \<and> (h_status h' = Halt_active \<longrightarrow> h_status h = Halt_active) \<and> (release_dated h \<longrightarrow> release_dated h')"
  by (induction rule: halt_move.induct) (auto simp: cause_def release_dated_def)

lemma update_row_moves:
  assumes "distinct (map key rows)" "e \<in> set rows" "key r = key e" "move e r" "\<And>x. move x x"
  shows "list_all2 move rows (update_row key r rows)"
proof -
  have "move x (if key x = key r then r else x)" if "x \<in> set rows" for x
  proof (cases "key x = key r")
    case True
    then have "x = e" using assms(1-3) that by (auto simp: distinct_map inj_on_def)
    then show ?thesis using True assms(4) by simp
  qed (simp add: assms(5))
  then show ?thesis by (simp add: update_row_def list_all2_map2 list_all2_same)
qed

lemma deescalate_cases:
  "(snd (deescalate_one_step env scope reason b db) = db)
   \<or> (\<exists>e h. find_active_halt db scope reason = Some e \<and> halt_move e h \<and> h_level e \<noteq> Emergency_stopped
        \<and> fst (deescalate_one_step env scope reason b db) = Some h
        \<and> snd (deescalate_one_step env scope reason b db) = store_halt h db)"
proof (cases "find_active_halt db scope reason")
  case (Some e)
  note active = find_active_halt_Some [OF Some]
  show ?thesis
  proof (cases "one_step_down (h_level e)")
    case None
    then have "h_level e = Emergency_stopped \<or> h_level e = Warning" by (cases "h_level e") auto
    then show ?thesis using Some None active expire [of e b "env_now env"]
      by (auto simp: deescalate_one_step_def Let_def)
  next
    case (Some l)
    then have "h_level e \<noteq> Emergency_stopped" by auto
    then show ?thesis using Some \<open>find_active_halt db scope reason = Some e\<close> active relax [of e l]
      by (auto simp: deescalate_one_step_def Let_def)
  qed
qed (simp add: deescalate_one_step_def)

lemma get_halt_Inr:
  "get_halt db ws hid = Inr h \<Longrightarrow> h \<in> set (db_halts db) \<and> h_id h = hid \<and> h_status h = Halt_active"
  by (auto simp: get_halt_def find_Some_iff split: option.splits)

lemma halt_step_cases:
  assumes "halt_step db db'" "halts_ok db"
  obtains (moved) e h where "e \<in> set (db_halts db)" "halt_move e h"
      "db_halts db' = update_row h_id h (db_halts db)" "db_next_id db \<le> db_next_id db'"
  | (added) h where "find_active_halt db (scope_of_halt h) (h_reason h) = None"
      "h_id h = db_next_id db" "h_status h = Halt_active" "h_released_at h = None"
      "db_halts db' = db_halts db @ [h]" "db_next_id db < db_next_id db'"
  | (unchanged) "db' = db"
  using assms(1)
proof cases
  case (activate_step env scope reason level auto ev)
  let ?r = "activate_or_escalate env scope reason level auto ev db"
  show ?thesis
  proof (cases "find_active_halt db scope reason")
    case None
    let ?h0 = "new_halt env (db_next_id db) scope reason level auto"
    obtain t where h: "fst ?r = ?h0\<lparr>h_trigger_event := Some t\<rparr>"
      and rows: "db_halts (snd ?r) = update_row h_id (fst ?r) (db_halts db @ [?h0])"
      using activate_or_escalate_cases [OF refl, of db scope reason env level auto ev] None by auto
    have "db_next_id db \<notin> h_id ` set (db_halts db)" using assms(2) by (auto simp: halts_ok_def exclusive_def)
    then have "db_halts (snd ?r) = db_halts db @ [fst ?r]" unfolding rows
      by (intro update_row_snoc) (simp_all add: h)
    moreover have "db_next_id db < db_next_id (snd ?r)"
      using None announce_next_id [of "db\<lparr>db_next_id := Suc (db_next_id db), db_halts := db_halts db @ [?h0]\<rparr>" env ?h0 ev None]
      by (simp add: activate_or_escalate_def Let_def split_def)
    ultimately show ?thesis using added [of "fst ?r"] None h activate_step by simp
  next
    case (Some e)
    then show ?thesis
      using activate_or_escalate_cases [OF refl, of db scope reason env level auto ev] activate_step
        moved [of e "fst ?r"] unchanged find_active_halt_Some [OF Some] escalate [of e level] activate_next_id
      by auto
  qed
next
  case (relax_step env scope reason b)
  then show ?thesis using deescalate_cases [of env scope reason b db] moved unchanged find_active_halt_Some
    by (metis store_halt_sel(1,2) order_refl)
next
  case (release_step env ws hid owner h)
  then obtain e where e: "get_halt db ws hid = Inr e" "h_level e \<noteq> Emergency_stopped"
    and rest: "h_reason e \<in> lock_reasons \<and> (h, db') = release_lock env e owner db
      \<or> deescalate_one_step env (scope_of_halt e) (h_reason e) (Some owner) db = (Some h, db')"
    by (auto simp: release_trading_halt_def result_simps split: if_splits prod.splits option.splits)
  note active = get_halt_Inr [OF e(1)]
  from rest show ?thesis
  proof
    assume "h_reason e \<in> lock_reasons \<and> (h, db') = release_lock env e owner db"
    then show ?thesis using moved [of e h] unlock [of e owner "env_now env"] active e(2)
      by (simp add: release_lock_def Let_def)
  next
    assume "deescalate_one_step env (scope_of_halt e) (h_reason e) (Some owner) db = (Some h, db')"
    then show ?thesis using deescalate_cases [of env "scope_of_halt e" "h_reason e" "Some owner" db] moved unchanged
        find_active_halt_Some by (metis order_refl snd_conv store_halt_sel(1,2))
  qed
next
  case (emergency_step found env ws hid owner h)
  then obtain e where "get_halt db ws hid = Inr e" "release_emergency_stop env e owner db = Inr (h, db')"
    by (auto simp: emergency_release_trading_halt_def result_simps split: if_splits sum.splits)
  then show ?thesis using moved [of e h] emergency [of e owner "env_now env"] get_halt_Inr
    by (auto simp: release_emergency_stop_def Let_def split: if_splits)
qed

lemma halts_ok_moved:
  assumes "halts_ok db" "e \<in> set (db_halts db)" "halt_move e h"
    and "db_halts db' = update_row h_id h (db_halts db)" "db_next_id db \<le> db_next_id db'"
  shows "halts_ok db'" and "list_all2 halt_move (db_halts db) (db_halts db')"
proof -
  note id = halt_move_identity [OF assms(3)]
  show "list_all2 halt_move (db_halts db) (db_halts db')"
    unfolding assms(4) using assms(1) id
    by (intro update_row_moves [OF _ assms(2)] assms(3) stay) (auto simp: halts_ok_def exclusive_def)
  have "exclusive h_id active cause (db_halts db') (db_next_id db)"
    unfolding assms(4) using assms(1) id by (intro exclusive_update [OF _ assms(2)]) (auto simp: halts_ok_def)
  moreover have "\<forall>x \<in> set (db_halts db'). release_dated x"
    using assms(1,2) id by (auto simp: assms(4) set_update_row halts_ok_def)
  ultimately show "halts_ok db'" using exclusive_mono assms(5) unfolding halts_ok_def by blast
qed

lemma halts_ok_added:
  assumes "halts_ok db" "find_active_halt db (scope_of_halt h) (h_reason h) = None"
    and "h_id h = db_next_id db" "h_status h = Halt_active" "h_released_at h = None"
    and "db_halts db' = db_halts db @ [h]" "db_next_id db < db_next_id db'"
  shows "halts_ok db'"
proof -
  have "exclusive h_id active cause (db_halts db @ [h]) (db_next_id db')"
    using assms(1-3,7) by (intro exclusive_snoc) (auto simp: halts_ok_def find_active_halt_None cause_def)
  then show ?thesis using assms(1,4,5) by (auto simp: halts_ok_def assms(6) release_dated_def)
qed

interpretation halt_life: state_machine halt_step halts_ok
proof
  fix db db' assume "halts_ok db" "halt_step db db'"
  from \<open>halt_step db db'\<close> \<open>halts_ok db\<close> show "halts_ok db'"
    by (cases rule: halt_step_cases) (auto intro: halts_ok_moved halts_ok_added \<open>halts_ok db\<close>)
qed

text \<open>
  C4 (invariant). However activations, escalations, automatic relaxations, Owner releases and
  emergency releases are interleaved, there is never more than one active halt per cause: halts with
  the same scope and reason that are both active are the same row, and a row is released exactly
  when it has a release time.
\<close>

theorem one_active_halt_per_cause:
  assumes "halt_step\<^sup>*\<^sup>* db db'" "halts_ok db"
  shows "halts_ok db'"
  using halt_life.reachable_keeps assms by blast

text \<open>
  The life of a halt: a step adds at most one row, deletes none, and every existing
  row either stays, escalates, relaxes by one level, expires from \<open>warning\<close>, or is released by a
  named person; a released row never changes again.
\<close>

theorem halts_move_by_the_ladder:
  assumes "halts_ok db" "halt_step db db'"
  shows "\<exists>hs new. db_halts db' = hs @ new \<and> length new \<le> 1 \<and> list_all2 halt_move (db_halts db) hs
    \<and> (\<forall>h h'. halt_move h h' \<longrightarrow> h_status h = Halt_released \<longrightarrow> h' = h)"
proof -
  have frozen: "halt_move h h' \<Longrightarrow> h_status h = Halt_released \<Longrightarrow> h' = h" for h h'
    by (elim halt_moveE) auto
  from assms(2,1) have "\<exists>hs new. db_halts db' = hs @ new \<and> length new \<le> 1 \<and> list_all2 halt_move (db_halts db) hs"
  proof (cases rule: halt_step_cases)
    case (moved e h)
    then show ?thesis using halts_ok_moved(2) [OF assms(1) moved] by (intro exI [of _ "db_halts db'"] exI [of _ "[]"]) simp
  next
    case (added h)
    then show ?thesis using list.rel_refl [of halt_move] stay
      by (intro exI [of _ "db_halts db"] exI [of _ "[h]"]) simp
  next
    case unchanged
    then show ?thesis using list.rel_refl [of halt_move] stay by (intro exI [of _ "db_halts db'"] exI [of _ "[]"]) simp
  qed
  then show ?thesis using frozen by blast
qed

definition emergency_kept :: "uuid \<Rightarrow> trading_db \<Rightarrow> bool" where
  \<comment> \<open>the halt is still an active emergency stop, or a person released it\<close>
  "emergency_kept hid db \<longleftrightarrow> halts_ok db \<and> (\<exists>h \<in> set (db_halts db). h_id h = hid
     \<and> h_level h = Emergency_stopped \<and> (h_status h = Halt_active \<or> h_released_by h \<noteq> None))"

lemma emergency_kept_move:
  assumes "halt_move h h'" "h_level h = Emergency_stopped" "h_status h = Halt_active \<or> h_released_by h \<noteq> None"
  shows "h_level h' = Emergency_stopped \<and> (h_status h' = Halt_active \<or> h_released_by h' \<noteq> None)"
  using assms
proof cases
  case (escalate l)
  then show ?thesis using assms(2) by (cases l) (auto simp: less_halt_level_def)
qed auto

interpretation emergency_life: state_machine halt_step "emergency_kept hid"
proof
  fix db db' assume kept: "emergency_kept hid db" and step: "halt_step db db'"
  then obtain h where h: "h \<in> set (db_halts db)" "h_id h = hid" "h_level h = Emergency_stopped"
      "h_status h = Halt_active \<or> h_released_by h \<noteq> None" and ok: "halts_ok db"
    by (auto simp: emergency_kept_def)
  from step ok have "\<exists>h' \<in> set (db_halts db'). halt_move h h'"
  proof (cases rule: halt_step_cases)
    case (moved e k)
    then have "list_all2 halt_move (db_halts db) (db_halts db')" by (rule halts_ok_moved(2) [OF ok])
    then show ?thesis using h(1) by (auto simp: list_all2_iff set_zip in_set_conv_nth; metis nth_mem)
  qed (use h(1) in \<open>auto intro: stay\<close>)
  then show "emergency_kept hid db'"
    using emergency_kept_move [OF _ h(3,4)] halt_move_identity h(2) halt_life.step_keeps [OF ok step]
    unfolding emergency_kept_def by metis
qed

text \<open>
  C5 (safety). An emergency stop is never lifted by the machine: whatever steps follow, the halt
  stays active at \<open>emergency_stopped\<close> until it is released with the person who released it.
\<close>

theorem emergency_stop_needs_a_person:
  assumes "halts_ok db" "h \<in> set (db_halts db)" "h_level h = Emergency_stopped" "h_status h = Halt_active"
    and "halt_step\<^sup>*\<^sup>* db db'"
  shows "\<exists>h' \<in> set (db_halts db'). h_id h' = h_id h \<and> h_level h' = Emergency_stopped
    \<and> (h_status h' = Halt_active \<or> h_released_by h' \<noteq> None)"
  using emergency_life.reachable_keeps [OF assms(5), of "h_id h"] assms(1-4)
  unfolding emergency_kept_def by blast

lemma find_active_halt_eq:
  "find_active_halt db scope reason = find (\<lambda>x. cause x = (scope, reason) \<and> active x) (db_halts db)"
proof -
  have "matches scope reason Halt_active = (\<lambda>x. cause x = (scope, reason) \<and> active x)"
    by (auto simp: fun_eq_iff matches_iff cause_def)
  then show ?thesis by (simp add: find_active_halt_def)
qed

lemma find_active_halt_unique:
  assumes "halts_ok db" "h \<in> set (db_halts db)" "h_status h = Halt_active"
  shows "find_active_halt db (scope_of_halt h) (h_reason h) = Some h"
  using exclusive_find [of h_id active cause "db_halts db" "db_next_id db" h] assms
  by (auto simp: find_active_halt_eq halts_ok_def cause_def [of h])

lemma activation_effect:
  assumes "halts_ok db" "activate_or_escalate env scope reason level auto ev db = (h, db')"
  shows "find_active_halt db' scope reason = Some h
    \<and> h_level h = (case find_active_halt db scope reason of None \<Rightarrow> level | Some e \<Rightarrow> max (h_level e) level)
    \<and> (if (case find_active_halt db scope reason of None \<Rightarrow> True | Some e \<Rightarrow> h_level e < level)
       then \<exists>e. db_events db' = db_events db @ [e] \<and> se_severity e = severity_by_level level
       else db' = db)"
proof -
  have unique: "find_active_halt db' scope reason = Some h"
    if "h \<in> set (db_halts db')" "scope_of_halt h = scope" "h_reason h = reason" "h_status h = Halt_active"
  proof -
    have "halt_step db db'" using activate_step [of db env scope reason level auto ev] assms(2) by simp
    then have ok: "halts_ok db'" by (rule halt_life.step_keeps [OF assms(1)])
    show ?thesis using find_active_halt_unique [OF ok that(1,4)] that(2,3) by simp
  qed
  show ?thesis
  proof (cases "find_active_halt db scope reason")
    case None
    let ?h0 = "new_halt env (db_next_id db) scope reason level auto"
    have "h = ?h0\<lparr>h_trigger_event := h_trigger_event h\<rparr>" "h \<in> set (db_halts db')"
      using assms(2) None by (auto simp: activate_or_escalate_def Let_def split_def set_update_row)
    moreover from this(1) have "h_level h = level" "scope_of_halt h = scope" "h_reason h = reason" "h_status h = Halt_active"
      by (metis new_halt_sel scope_of_halt_update(2) trading_halt.select_convs trading_halt.surjective
          trading_halt.update_convs(7))+
    moreover have "\<exists>e. db_events db' = db_events db @ [e] \<and> se_severity e = severity_by_level level"
      using assms(2) None announce_events(1) [of env ?h0 ev None "db\<lparr>db_next_id := Suc (db_next_id db), db_halts := db_halts db @ [?h0]\<rparr>"]
      by (auto simp: activate_or_escalate_def Let_def split_def)
    ultimately show ?thesis using unique None by simp
  next
    case (Some e)
    note active = find_active_halt_Some [OF Some]
    show ?thesis
    proof (cases "h_level e < level")
      case True
      then have h: "h = e\<lparr>h_level := level\<rparr>" "h \<in> set (db_halts db')"
        using assms(2) Some active by (auto simp: activate_or_escalate_def Let_def split_def set_update_row)
      moreover have "\<exists>x. db_events db' = db_events db @ [x] \<and> se_severity x = severity_by_level level"
        using assms(2) Some True announce_events(1) [of env "e\<lparr>h_level := level\<rparr>" ev "Some (h_level e)" db]
        by (auto simp: activate_or_escalate_def Let_def split_def)
      ultimately show ?thesis using unique active Some True by (auto simp: max_def)
    next
      case False
      then have "h = e \<and> db' = db" using assms(2) Some by (simp add: activate_or_escalate_def)
      then show ?thesis using Some False by (simp add: max_def)
    qed
  qed
qed

text \<open>
  \<open>activate_or_escalate\<close> leaves the cause halted at the more severe of its old and
  the requested level, and publishes exactly one event, with the level's severity, when it created
  or raised the halt and none otherwise.
\<close>

theorem activation_raises_to_level:
  assumes "halts_ok db" "activate_or_escalate env scope reason level auto ev db = (h, db')"
  shows "find_active_halt db' scope reason = Some h
    \<and> h_level h = (case find_active_halt db scope reason of None \<Rightarrow> level | Some e \<Rightarrow> max (h_level e) level)
    \<and> (if (case find_active_halt db scope reason of None \<Rightarrow> True | Some e \<Rightarrow> h_level e < level)
       then \<exists>e. db_events db' = db_events db @ [e] \<and> se_severity e = severity_by_level level
       else db' = db)"
  by (rule activation_effect [OF assms])

definition relax_times :: "tx_env \<Rightarrow> halt_scope \<Rightarrow> string \<Rightarrow> nat \<Rightarrow> trading_db \<Rightarrow> trading_db" where
  "relax_times env scope reason n db = ((\<lambda>d. snd (deescalate_one_step env scope reason None d)) ^^ n) db"

lemma deescalate_active:
  assumes "halts_ok db" "find_active_halt db scope reason = Some h" "h_level h \<noteq> Emergency_stopped"
  shows "find_active_halt (snd (deescalate_one_step env scope reason b db)) scope reason
       = (case one_step_down (h_level h) of None \<Rightarrow> None | Some l \<Rightarrow> Some (h\<lparr>h_level := l\<rparr>))"
proof -
  note active = find_active_halt_Some [OF assms(2)]
  let ?db = "snd (deescalate_one_step env scope reason b db)"
  have ok: "halts_ok ?db" by (rule halt_life.step_keeps [OF assms(1) relax_step])
  show ?thesis
  proof (cases "one_step_down (h_level h)")
    case (Some l)
    then have "h\<lparr>h_level := l\<rparr> \<in> set (db_halts ?db)"
      using assms(2,3) active by (auto simp: deescalate_one_step_def Let_def set_update_row)
    then show ?thesis using find_active_halt_unique [OF ok, of "h\<lparr>h_level := l\<rparr>"] active Some by simp
  next
    case None
    have "find_active_halt ?db scope reason = None"
      using exclusive_find_None [of h_id active cause "db_halts db" "db_next_id db" h "release_halt h b (env_now env)"] assms active None
      by (simp add: deescalate_one_step_def Let_def find_active_halt_eq halts_ok_def cause_def)
    then show ?thesis using None by simp
  qed
qed

lemma relax_none: "find_active_halt db scope reason = None \<Longrightarrow> relax_times env scope reason n db = db"
  unfolding relax_times_def by (induction n) (auto simp: deescalate_one_step_def)

text \<open>
  The two-step valve: with no new breach, every non-emergency halt is released after
  as many recoveries as its severity (one per level, three at most), and not one earlier.
\<close>

theorem relaxing_releases_one_level_at_a_time:
  assumes "halts_ok db" "find_active_halt db scope reason = Some h" "h_level h \<noteq> Emergency_stopped"
  shows "find_active_halt (relax_times env scope reason n db) scope reason = None
    \<longleftrightarrow> level_severity (h_level h) \<le> n"
  using assms
proof (induction n arbitrary: db h)
  case 0
  then show ?case by (cases "h_level h") (auto simp: relax_times_def)
next
  case (Suc n)
  let ?db = "snd (deescalate_one_step env scope reason None db)"
  have rest: "relax_times env scope reason (Suc n) db = relax_times env scope reason n ?db"
    unfolding relax_times_def by (simp only: funpow_Suc_right o_apply)
  note next_halt = deescalate_active [OF Suc.prems, of env None]
  show ?case
  proof (cases "one_step_down (h_level h)")
    case None
    then have "level_severity (h_level h) = 1" using Suc.prems(3) by (cases "h_level h") auto
    then show ?thesis using next_halt None relax_none [of ?db] by (simp add: rest)
  next
    case (Some l)
    then have "level_severity (h_level h) = Suc (level_severity l)" "l \<noteq> Emergency_stopped"
      by (cases "h_level h"; auto)+
    moreover have "halts_ok ?db" by (rule halt_life.step_keeps [OF Suc.prems(1) relax_step])
    ultimately show ?thesis using Suc.IH [of ?db "h\<lparr>h_level := l\<rparr>"] next_halt Some by (simp add: rest)
  qed
qed

end
