(* ===== verification/Accounts.thy ===== *)
theory Accounts
  imports Trading_Halts
begin

text \<open>
  An account's money: its valuation and snapshots (\<open>app/trading/application/account_valuation.py\<close>)
  and a deposit (\<open>account_funding.py\<close>). The database sums a \<open>numeric\<close> column exactly; what Python
  computes with the result is rounded to the decimal context.
\<close>

subsection \<open>Valuation\<close>

definition open_position :: "trading_db \<Rightarrow> uuid \<Rightarrow> uuid \<Rightarrow> trading_position option" where
  "open_position db account instrument =
     find (\<lambda>p. p_account p = account \<and> p_instrument p = instrument \<and> p_status p = Open) (db_positions db)"

definition latest_final_candle :: "trading_db \<Rightarrow> uuid \<Rightarrow> candle option" where
  "latest_final_candle db instrument =
     latest_by c_open_time (filter (\<lambda>c. c_instrument c = instrument \<and> c_final c) (cat_candles (db_catalog db)))"

definition is_cash_entry :: "entry_type \<Rightarrow> bool" where
  "is_cash_entry t \<longleftrightarrow> t \<in> {Cash, Fee, Deposit, Withdrawal}"

definition cash_balance :: "trading_db \<Rightarrow> uuid \<Rightarrow> string \<Rightarrow> decimal" where
  "cash_balance db account asset =
     sum_list (map le_amount
       (filter (\<lambda>e. le_account e = account \<and> le_asset e = asset \<and> is_cash_entry (le_type e)) (db_entries db)))"

definition open_position_valuation :: "trading_db \<Rightarrow> uuid \<Rightarrow> uuid \<Rightarrow> decimal \<times> decimal" where
  "open_position_valuation db account instrument =
     (case open_position db account instrument of
        None \<Rightarrow> (0, 0)
      | Some pos \<Rightarrow> (case p_entry pos of
          None \<Rightarrow> (0, 0)
        | Some entry \<Rightarrow> (case latest_final_candle db instrument of
            None \<Rightarrow> (0, 0)
          | Some c \<Rightarrow>
              (dmul (dmul (c_close c) (p_quantity pos)) (direction (p_side pos)),
               dmul (dmul (dsub (c_close c) entry) (p_quantity pos)) (direction (p_side pos))))))"

record account_valuation =
  av_cash :: decimal
  av_unrealized :: decimal
  av_equity :: decimal

definition value_account :: "trading_db \<Rightarrow> uuid \<Rightarrow> instrument \<Rightarrow> account_valuation" where
  "value_account db account instrument =
     (let (market_value, unrealized) = open_position_valuation db account (i_id instrument);
          cash = cash_balance db account (i_quote_asset instrument)
      in \<lparr>av_cash = cash, av_unrealized = unrealized, av_equity = dadd cash market_value\<rparr>)"

definition compute_equity :: "trading_db \<Rightarrow> uuid \<Rightarrow> instrument \<Rightarrow> decimal" where
  "compute_equity db account instrument = av_equity (value_account db account instrument)"

definition record_account_snapshot :: "tx_env \<Rightarrow> uuid \<Rightarrow> instrument \<Rightarrow> trading_db \<Rightarrow> trading_db" where
  "record_account_snapshot env account instrument db =
     (let valuation = value_account db account instrument;
          snapshot = \<lparr>sn_account = account, sn_captured_at = env_now env, sn_cash = av_cash valuation,
            sn_equity = env_column env (av_equity valuation),
            sn_unrealized = env_column env (av_unrealized valuation), sn_source = ''paper_ledger''\<rparr>
      in db\<lparr>db_snapshots := db_snapshots db @ [snapshot]\<rparr>)"

subsection \<open>Ledger entries\<close>

definition add_entry :: "tx_env \<Rightarrow> ledger_entry \<Rightarrow> trading_db \<Rightarrow> (string, trading_db) result" where
  \<comment> \<open>\<open>amount\<close> is a \<open>numeric(38, 18)\<close> with \<open>CHECK (amount <> 0)\<close>\<close>
  "add_entry env e db =
     (let stored = env_column env (le_amount e)
      in if stored = 0 then Inl ''IntegrityError''
         else Inr (db\<lparr>db_entries := db_entries db @ [e\<lparr>le_amount := stored\<rparr>]\<rparr>))"

definition seed_paper_deposit ::
  "tx_env \<Rightarrow> uuid \<Rightarrow> decimal \<Rightarrow> string \<Rightarrow> trading_db \<Rightarrow> (string, ledger_transaction \<times> trading_db) result" where
  "seed_paper_deposit env account amount asset db =
     (if amount \<le> 0 then Inl ''ValueError''
      else let (tid, db1) = fresh_id db;
               transaction = \<lparr>lt_id = tid, lt_account = account, lt_reference_type = ''deposit'',
                 lt_reference = None, lt_occurred_at = env_now env\<rparr>;
               db2 = db1\<lparr>db_transactions := db_transactions db1 @ [transaction]\<rparr>
           in res_bind (add_entry env \<lparr>le_transaction = tid, le_account = account, le_fill = None,
                le_asset = asset, le_amount = amount, le_type = Deposit, le_occurred_at = env_now env\<rparr> db2)
                (\<lambda>db3. Inr (transaction, db3)))"

subsection \<open>Lemmas\<close>

lemma open_position_Some:
  "open_position db a i = Some p \<Longrightarrow>
     p \<in> set (db_positions db) \<and> p_account p = a \<and> p_instrument p = i \<and> p_status p = Open"
  by (auto simp: open_position_def find_Some_iff)

lemma open_position_None:
  "open_position db a i = None \<longleftrightarrow>
     (\<forall>p \<in> set (db_positions db). p_account p = a \<longrightarrow> p_instrument p = i \<longrightarrow> p_status p \<noteq> Open)"
  by (auto simp: open_position_def find_None_iff)

lemma open_position_cong: "db_positions db' = db_positions db \<Longrightarrow> open_position db' = open_position db"
  by (simp add: open_position_def fun_eq_iff)

lemma add_entry_Inr:
  "add_entry env e db = Inr db' \<Longrightarrow> env_column env (le_amount e) \<noteq> 0
     \<and> db' = db\<lparr>db_entries := db_entries db @ [e\<lparr>le_amount := env_column env (le_amount e)\<rparr>]\<rparr>"
  by (auto simp: add_entry_def Let_def split: if_splits)

text \<open>
  Equity is cash plus the market value of the open position and not its unrealized
  P&L: with the entry's notional already booked to cash, equity marks what is held at the latest
  close, and profit already realized is counted once, through the cash entries alone.
\<close>

theorem equity_is_cash_plus_market_value:
  "compute_equity db account instrument
     = dadd (sum_list (map le_amount (filter (\<lambda>e. le_account e = account \<and> le_asset e = i_quote_asset instrument
              \<and> le_type e \<noteq> Realized_pnl \<and> le_type e \<noteq> Other_entry) (db_entries db))))
         (case open_position db account (i_id instrument) of None \<Rightarrow> 0
          | Some p \<Rightarrow> (case (p_entry p, latest_final_candle db (i_id instrument)) of
              (Some _, Some c) \<Rightarrow> dmul (dmul (c_close c) (p_quantity p)) (direction (p_side p))
            | _ \<Rightarrow> 0))"
proof -
  have "is_cash_entry t \<longleftrightarrow> t \<noteq> Realized_pnl \<and> t \<noteq> Other_entry" for t
    by (cases t) (auto simp: is_cash_entry_def)
  then show ?thesis
    by (auto simp: compute_equity_def value_account_def cash_balance_def open_position_valuation_def Let_def
        split: option.split)
qed

text \<open>
  A deposit of a positive amount raises the account's cash and equity by what the
  column stores of it, books one transaction, and nothing else is a deposit: other amounts are refused.
\<close>

theorem deposit_raises_cash:
  "(case seed_paper_deposit env account amount asset db of
      Inr (tx, db') \<Rightarrow> 0 < amount \<and> lt_account tx = account \<and> db_transactions db' = db_transactions db @ [tx]
        \<and> (\<forall>a s. cash_balance db' a s
             = cash_balance db a s + (if a = account \<and> s = asset then env_column env amount else 0))
        \<and> db_positions db' = db_positions db
    | Inl e \<Rightarrow> e = ''ValueError'' \<and> amount \<le> 0 \<or> e = ''IntegrityError'' \<and> env_column env amount = 0)"
  by (auto simp: seed_paper_deposit_def Let_def split_def add_entry_def cash_balance_def is_cash_entry_def
      split: if_split)

end
