(* ===== verification/Order_Flow.thy ===== *)
theory Order_Flow
  imports Accounts Replay
begin

text \<open>
  Order commands, \<open>app/trading/application/order_flow.py\<close>: order intents, placing an order with its
  simulated fill, position, ledger and snapshot rows, and cancelling. A command either raises, and
  its transaction is rolled back, or returns the database it leaves; whether the caller commits it
  now or later makes no difference to that database.
\<close>

subsection \<open>Commands\<close>

record order_intent_command =
  ic_signal :: uuid
  ic_decision :: uuid
  ic_side :: order_side
  ic_type :: order_type
  ic_quantity :: decimal
  ic_limit_price :: "decimal option"
  ic_stop_price :: "decimal option"
  ic_take_profit :: "decimal option"
  ic_max_slippage_bps :: "int option"
  ic_expires_at :: "datetime option"

record place_order_command =
  pc_workspace :: uuid
  pc_account :: uuid
  pc_instrument :: uuid
  pc_side :: order_side
  pc_type :: order_type
  pc_quantity :: decimal
  pc_client_id :: string
  pc_intent :: "uuid option"
  pc_limit_price :: "decimal option"
  pc_stop_price :: "decimal option"
  pc_time_in_force :: string
  pc_bot :: "uuid option"
  pc_stop_fill_price :: "decimal option"

definition market_order :: "uuid \<Rightarrow> uuid \<Rightarrow> uuid \<Rightarrow> order_side \<Rightarrow> decimal \<Rightarrow> string \<Rightarrow> place_order_command" where
  \<comment> \<open>the command with the defaults of its optional fields\<close>
  "market_order workspace account instrument side quantity client_id =
     \<lparr>pc_workspace = workspace, pc_account = account, pc_instrument = instrument, pc_side = side,
      pc_type = Market, pc_quantity = quantity, pc_client_id = client_id, pc_intent = None,
      pc_limit_price = None, pc_stop_price = None, pc_time_in_force = ''gtc'', pc_bot = None,
      pc_stop_fill_price = None\<rparr>"

definition validate_order_type_price :: "order_type \<Rightarrow> decimal option \<Rightarrow> (string, unit) result" where
  "validate_order_type_price type limit_price =
     (if type = Market \<and> limit_price \<noteq> None
         \<or> type = Limit \<and> (case limit_price of None \<Rightarrow> True | Some p \<Rightarrow> p \<le> 0)
      then Inl ''invalid_input'' else Inr ())"

definition order_audit :: "uuid \<Rightarrow> string \<Rightarrow> uuid \<Rightarrow> payload \<Rightarrow> trading_db \<Rightarrow> trading_db" where
  "order_audit workspace action resource after db =
     (let (cid, db1) = fresh_id db
      in db1\<lparr>db_audit := db_audit db1 @ [\<lparr>al_workspace = workspace, al_actor = None, al_action = action,
           al_resource_type = ''trade_order'', al_resource_id = resource, al_after = after,
           al_correlation = cid\<rparr>]\<rparr>)"

subsection \<open>Order intents\<close>

definition create_order_intent ::
  "tx_env \<Rightarrow> order_intent_command \<Rightarrow> trading_db \<Rightarrow> (string, order_intent \<times> trading_db) result" where
  "create_order_intent env cmd db =
     (if ic_quantity cmd \<le> 0 then Inl ''invalid_input''
      else res_bind (validate_order_type_price (ic_type cmd) (ic_limit_price cmd)) (\<lambda>_.
      case find (\<lambda>s. sg_id s = ic_signal cmd) (db_signals db) of
        None \<Rightarrow> Inl ''signal_not_found''
      | Some _ \<Rightarrow> (case find (\<lambda>d. rd_id d = ic_decision cmd) (db_decisions db) of
          None \<Rightarrow> Inl ''risk_decision_not_found''
        | Some decision \<Rightarrow>
            if rd_signal decision \<noteq> ic_signal cmd then Inl ''risk_decision_signal_mismatch''
            else if (\<exists>i \<in> set (db_intents db). oi_signal i = ic_signal cmd \<or> oi_decision i = ic_decision cmd)
              \<or> env_column env (ic_quantity cmd) \<le> 0
            then Inl ''IntegrityError''
            else let (iid, db1) = fresh_id db;
                     intent = \<lparr>oi_id = iid, oi_signal = ic_signal cmd, oi_decision = ic_decision cmd,
                       oi_side = ic_side cmd, oi_type = ic_type cmd,
                       oi_quantity = env_column env (ic_quantity cmd),
                       oi_limit_price = map_option (env_column env) (ic_limit_price cmd),
                       oi_stop_price = map_option (env_column env) (ic_stop_price cmd),
                       oi_take_profit = map_option (env_column env) (ic_take_profit cmd),
                       oi_max_slippage_bps = ic_max_slippage_bps cmd,
                       oi_expires_at = ic_expires_at cmd\<rparr>
                 in Inr (intent, db1\<lparr>db_intents := db_intents db1 @ [intent]\<rparr>))))"

subsection \<open>Status changes\<close>

definition record_status ::
  "tx_env \<Rightarrow> uuid \<Rightarrow> order_status option \<Rightarrow> order_status \<Rightarrow> string option \<Rightarrow> trading_db \<Rightarrow> trading_db" where
  "record_status env order from_status to_status reason db =
     db\<lparr>db_history := db_history db @ [\<lparr>sh_order = order, sh_from = from_status, sh_to = to_status,
       sh_reason = reason, sh_occurred_at = env_now env\<rparr>]\<rparr>"

definition stored_order :: "tx_env \<Rightarrow> trade_order \<Rightarrow> trade_order" where
  "stored_order env o' = o'\<lparr>o_quantity := env_column env (o_quantity o'), o_filled := env_column env (o_filled o'),
     o_limit_price := map_option (env_column env) (o_limit_price o'),
     o_stop_price := map_option (env_column env) (o_stop_price o')\<rparr>"

definition flush_order :: "tx_env \<Rightarrow> trade_order \<Rightarrow> trading_db \<Rightarrow> trading_db" where
  "flush_order env o' db = db\<lparr>db_orders := update_row o_id (stored_order env o') (db_orders db)\<rparr>"

definition set_status ::
  "tx_env \<Rightarrow> trade_order \<Rightarrow> order_status \<Rightarrow> string option \<Rightarrow> trading_db \<Rightarrow> trade_order \<times> trading_db" where
  "set_status env o' to_status reason db =
     (let db1 = record_status env (o_id o') (Some (o_status o')) to_status reason db;
          changed = o'\<lparr>o_status := to_status\<rparr>
      in (changed, flush_order env changed db1))"

subsection \<open>The simulated fill\<close>

definition exchange_code_for_account :: "trading_db \<Rightarrow> trading_account \<Rightarrow> (string, string) result" where
  "exchange_code_for_account db account =
     (case ac_connection account of
        None \<Rightarrow> Inl ''connection_missing''
      | Some cid \<Rightarrow> (case find (\<lambda>c. cn_id c = cid) (cat_connections (db_catalog db)) of
          None \<Rightarrow> Inl ''exchange_not_found''
        | Some c \<Rightarrow> (case map_of (cat_exchanges (db_catalog db)) (cn_exchange c) of
            None \<Rightarrow> Inl ''exchange_not_found'' | Some code \<Rightarrow> Inr code)))"

definition slippage_of_spread :: "trading_db \<Rightarrow> string \<Rightarrow> uuid \<Rightarrow> decimal" where
  "slippage_of_spread db exchange_code instrument =
     (case slippage_coefficient exchange_code of
        None \<Rightarrow> 0
      | Some coefficient \<Rightarrow> (case map_of (cat_spreads (db_catalog db)) instrument of
          None \<Rightarrow> 0
        | Some (bid, ask) \<Rightarrow> dmul (dsub ask bid) coefficient))"

definition paper_fee_buffer :: "string \<Rightarrow> decimal \<Rightarrow> decimal \<Rightarrow> (string, decimal) result" where
  "paper_fee_buffer exchange_code price quantity =
     (if exchange_code = ''oanda'' then Inr 0
      else if exchange_code = ''binance'' then Inr (dmul (dmul price quantity) (1 / 1000))
      else Inl ''unsupported_exchange'')"

definition add_fill :: "tx_env \<Rightarrow> fill_row \<Rightarrow> trading_db \<Rightarrow> (string, fill_row \<times> trading_db) result" where
  \<comment> \<open>adding, flushing and refreshing the row, with the table's checks\<close>
  "add_fill env f db =
     (let stored = f\<lparr>f_price := env_column env (f_price f), f_quantity := env_column env (f_quantity f),
                     f_fee := env_column env (f_fee f)\<rparr>
      in if f_price stored \<le> 0 \<or> f_quantity stored \<le> 0 \<or> f_fee stored < 0 then Inl ''IntegrityError''
         else Inr (stored, db\<lparr>db_fills := db_fills db @ [stored]\<rparr>))"

definition simulate_fill_row ::
  "tx_env \<Rightarrow> trade_order \<Rightarrow> instrument \<Rightarrow> string \<Rightarrow> decimal option \<Rightarrow> trading_db \<Rightarrow>
     (string, fill_row \<times> trade_order \<times> trading_db) result" where
  "simulate_fill_row env o' instrument exchange_code base_price db =
     (case latest_final_candle db (o_instrument o') of
        None \<Rightarrow> Inl ''market_price_unavailable''
      | Some candle \<Rightarrow>
          (let price = (case base_price of Some p \<Rightarrow> p | None \<Rightarrow> c_close candle)
           in res_bind (paper_fee_buffer exchange_code price (o_quantity o')) (\<lambda>fee_amount.
              let slippage = slippage_of_spread db exchange_code (o_instrument o');
                  fill_price = (if o_side o' = Buy_order then dadd price slippage else dsub price slippage)
              in if fill_price \<le> 0 then Inl ''invalid_fill_price''
                 else let (fid, db1) = fresh_id db
                      in res_bind (add_fill env \<lparr>f_id = fid, f_order = o_id o', f_price = fill_price,
                             f_quantity = o_quantity o', f_fee = fee_amount,
                             f_fee_asset = Some (i_quote_asset instrument), f_executed_at = env_now env\<rparr> db1)
                           (\<lambda>(f, db2).
                             let (filled, db3) = set_status env (o'\<lparr>o_filled := o_quantity o'\<rparr>) Filled None db2
                             in Inr (f, filled, db3)))))"

subsection \<open>The position\<close>

definition stored_position :: "tx_env \<Rightarrow> trading_position \<Rightarrow> trading_position" where
  "stored_position env p = p\<lparr>p_quantity := env_column env (p_quantity p),
     p_entry := map_option (env_column env) (p_entry p), p_realized := env_column env (p_realized p),
     p_stop_price := map_option (env_column env) (p_stop_price p)\<rparr>"

definition position_checks :: "trading_db \<Rightarrow> trading_position \<Rightarrow> bool" where
  \<comment> \<open>the checks of the table and the index \<open>uq_position_open\<close>\<close>
  "position_checks db p \<longleftrightarrow> 0 \<le> p_quantity p \<and> (case p_entry p of None \<Rightarrow> True | Some e \<Rightarrow> 0 < e)
     \<and> (case p_stop_price p of None \<Rightarrow> True | Some s \<Rightarrow> 0 < s)
     \<and> (p_status p = Open \<longleftrightarrow> p_closed_at p = None)
     \<and> \<not> (p_status p = Open \<and> (\<exists>x \<in> set (db_positions db). p_id x \<noteq> p_id p \<and> p_status x = Open
            \<and> p_account x = p_account p \<and> p_instrument x = p_instrument p \<and> p_side x = p_side p))"

definition add_position ::
  "tx_env \<Rightarrow> trading_position \<Rightarrow> trading_db \<Rightarrow> (string, trading_position \<times> trading_db) result" where
  "add_position env p db =
     (let stored = stored_position env p
      in if position_checks db stored then Inr (stored, db\<lparr>db_positions := db_positions db @ [stored]\<rparr>)
         else Inl ''IntegrityError'')"

definition flush_position ::
  "tx_env \<Rightarrow> trading_position \<Rightarrow> trading_db \<Rightarrow> (string, trading_position \<times> trading_db) result" where
  "flush_position env p db =
     (let stored = stored_position env p
      in if position_checks db stored
         then Inr (stored, db\<lparr>db_positions := update_row p_id stored (db_positions db)\<rparr>)
         else Inl ''IntegrityError'')"

definition reduce_position ::
  "tx_env \<Rightarrow> trading_position \<Rightarrow> decimal \<Rightarrow> fill_row \<Rightarrow> order_side \<Rightarrow> bool \<Rightarrow>
     (string, trading_position \<times> decimal) result" where
  \<comment> \<open>reduce, exactly close, or flip\<close>
  "reduce_position env pos entry fill side allow_short =
     (let closing_quantity = min (f_quantity fill) (p_quantity pos);
          realized_pnl = dmul (dmul (dsub (f_price fill) entry) closing_quantity) (direction (p_side pos));
          booked = pos\<lparr>p_realized := dadd (p_realized pos) realized_pnl, p_version := p_version pos + 1\<rparr>;
          remainder = dsub (f_quantity fill) (p_quantity pos)
      in if 0 < remainder then
           (if \<not> allow_short then Inl ''short_not_supported''
            else Inr (booked\<lparr>p_side := opening_side side, p_quantity := remainder,
                             p_entry := Some (f_price fill), p_opened_at := Some (env_now env)\<rparr>, realized_pnl))
         else if remainder = 0 then
           Inr (booked\<lparr>p_quantity := 0, p_status := Closed, p_closed_at := Some (env_now env)\<rparr>, realized_pnl)
         else Inr (booked\<lparr>p_quantity := dsub (p_quantity pos) (f_quantity fill)\<rparr>, realized_pnl))"

definition apply_fill_row ::
  "tx_env \<Rightarrow> uuid \<Rightarrow> uuid \<Rightarrow> fill_row \<Rightarrow> order_side \<Rightarrow> string \<Rightarrow> trading_db \<Rightarrow>
     (string, trading_position \<times> decimal \<times> trading_db) result" where
  "apply_fill_row env account instrument fill side exchange_code db =
     (let allow_short = (exchange_code = ''oanda'')
      in case open_position db account instrument of
        None \<Rightarrow>
          if opening_side side = Short \<and> \<not> allow_short then Inl ''short_not_supported''
          else let (pid, db1) = fresh_id db
               in res_bind (add_position env \<lparr>p_id = pid, p_account = account, p_instrument = instrument,
                      p_side = opening_side side, p_quantity = f_quantity fill, p_entry = Some (f_price fill),
                      p_realized = 0, p_stop_price = None, p_status = Open, p_version = 1,
                      p_opened_at = Some (env_now env), p_closed_at = None\<rparr> db1)
                    (\<lambda>(pos, db2). Inr (pos, 0, db2))
      | Some pos \<Rightarrow> (case p_entry pos of
          None \<Rightarrow> Inl ''position_missing_entry_price''
        | Some entry \<Rightarrow>
            if opening_side side = p_side pos then
              (let total_cost = dadd (dmul entry (p_quantity pos)) (dmul (f_price fill) (f_quantity fill));
                   new_quantity = dadd (p_quantity pos) (f_quantity fill)
               in res_bind (flush_position env (pos\<lparr>p_quantity := new_quantity,
                      p_entry := Some (ddiv total_cost new_quantity), p_version := p_version pos + 1\<rparr>) db)
                    (\<lambda>(pos', db1). Inr (pos', 0, db1)))
            else res_bind (reduce_position env pos entry fill side allow_short) (\<lambda>(changed, realized_pnl).
                 res_bind (flush_position env changed db) (\<lambda>(pos', db1). Inr (pos', realized_pnl, db1)))))"

subsection \<open>The ledger\<close>

definition record_ledger ::
  "tx_env \<Rightarrow> uuid \<Rightarrow> instrument \<Rightarrow> fill_row \<Rightarrow> order_side \<Rightarrow> decimal \<Rightarrow> trading_db \<Rightarrow> (string, trading_db) result" where
  "record_ledger env account instrument fill side realized_pnl db =
     (let (tid, db1) = fresh_id db;
          db2 = db1\<lparr>db_transactions := db_transactions db1 @ [\<lparr>lt_id = tid, lt_account = account,
                  lt_reference_type = ''fill'', lt_reference = Some (f_id fill),
                  lt_occurred_at = f_executed_at fill\<rparr>]\<rparr>;
          entry = (\<lambda>asset amount type. \<lparr>le_transaction = tid, le_account = account,
                  le_fill = Some (f_id fill), le_asset = asset, le_amount = amount, le_type = type,
                  le_occurred_at = f_executed_at fill\<rparr>);
          notional = dmul (f_price fill) (f_quantity fill);
          cash_amount = (if side = Buy_order then dneg notional else notional);
          quote = i_quote_asset instrument
      in res_bind (add_entry env (entry quote cash_amount Cash) db2) (\<lambda>db3.
         res_bind (if 0 < f_fee fill
                   then add_entry env (entry (case f_fee_asset fill of Some a \<Rightarrow> a | None \<Rightarrow> quote)
                          (dneg (f_fee fill)) Fee) db3
                   else Inr db3) (\<lambda>db4.
         if realized_pnl \<noteq> 0 then add_entry env (entry quote realized_pnl Realized_pnl) db4 else Inr db4)))"

subsection \<open>Halts\<close>

definition entry_blocked_by_halt :: "trading_db \<Rightarrow> uuid \<Rightarrow> uuid \<Rightarrow> uuid option \<Rightarrow> bool" where
  "entry_blocked_by_halt db workspace account bot_id \<longleftrightarrow>
     (\<exists>scope \<in> set ([\<lparr>hs_workspace = workspace, hs_type = ''account'', hs_id = Some account\<rparr>,
                   \<lparr>hs_workspace = workspace, hs_type = ''workspace'', hs_id = None\<rparr>]
                  @ (case bot_id of None \<Rightarrow> [] | Some b \<Rightarrow> [\<lparr>hs_workspace = workspace, hs_type = ''bot'', hs_id = Some b\<rparr>])).
        has_active_halt_at_or_above db scope Entry_halted)"

subsection \<open>Placing and cancelling\<close>

definition closes_or_reduces :: "order_side \<Rightarrow> trading_position option \<Rightarrow> bool" where
  "closes_or_reduces side existing = (case existing of None \<Rightarrow> False
     | Some p \<Rightarrow> side = Sell_order \<and> p_side p = Long \<or> side = Buy_order \<and> p_side p = Short)"

definition place_order_checks ::
  "place_order_command \<Rightarrow> trading_db \<Rightarrow> (string, trading_account \<times> instrument \<times> string) result" where
  "place_order_checks cmd db =
     (if pc_quantity cmd \<le> 0 then Inl ''invalid_input''
      else res_bind (validate_order_type_price (pc_type cmd) (pc_limit_price cmd)) (\<lambda>_.
      case find (\<lambda>a. ac_id a = pc_account cmd \<and> ac_workspace a = pc_workspace cmd) (cat_accounts (db_catalog db)) of
        None \<Rightarrow> Inl ''account_not_found''
      | Some account \<Rightarrow> (case find (\<lambda>i. i_id i = pc_instrument cmd) (cat_instruments (db_catalog db)) of
          None \<Rightarrow> Inl ''instrument_not_found''
        | Some instrument \<Rightarrow>
            res_bind (exchange_code_for_account db account) (\<lambda>exchange_code.
            res_bind (case pc_intent cmd of None \<Rightarrow> Inr ()
              | Some iid \<Rightarrow> (case find (\<lambda>i. oi_id i = iid) (db_intents db) of
                    None \<Rightarrow> Inl ''order_intent_not_found''
                  | Some intent \<Rightarrow> raise_if (oi_side intent \<noteq> pc_side cmd) ''order_intent_mismatch'')) (\<lambda>_.
            (let existing = open_position db (pc_account cmd) (pc_instrument cmd);
                 is_closing = closes_or_reduces (pc_side cmd) existing
             in res_bind (case pc_stop_fill_price cmd of None \<Rightarrow> Inr ()
                  | Some price \<Rightarrow> raise_if (pc_type cmd \<noteq> Market \<or> price \<le> 0
                       \<or> \<not> (is_closing \<and> (case existing of Some p \<Rightarrow> pc_quantity cmd = p_quantity p | None \<Rightarrow> False)))
                       ''invalid_input'') (\<lambda>_.
                if \<not> is_closing \<and> entry_blocked_by_halt db (pc_workspace cmd) (pc_account cmd) (pc_bot cmd)
                then Inl ''trading_halted''
                else Inr (account, instrument, exchange_code))))))))"

definition times_in_force :: "string list" where
  "times_in_force = [''gtc'', ''gtd'', ''gfd'', ''fok'', ''ioc'']"

definition new_order :: "tx_env \<Rightarrow> place_order_command \<Rightarrow> uuid \<Rightarrow> trade_order" where
  "new_order env cmd oid = \<lparr>o_id = oid, o_workspace = pc_workspace cmd, o_account = pc_account cmd,
     o_intent = pc_intent cmd, o_client_id = pc_client_id cmd, o_instrument = pc_instrument cmd,
     o_side = pc_side cmd, o_type = pc_type cmd, o_time_in_force = pc_time_in_force cmd,
     o_quantity = pc_quantity cmd, o_filled = 0, o_limit_price = pc_limit_price cmd,
     o_stop_price = pc_stop_price cmd, o_status = Submitted,
     o_submitted_at = Some (env_now env), o_created_at = env_now env\<rparr>"

definition submit_order ::
  "tx_env \<Rightarrow> place_order_command \<Rightarrow> trading_db \<Rightarrow> (string, trade_order \<times> trading_db) result" where
  \<comment> \<open>the new row with the table's checks, its first history row and its audit row\<close>
  "submit_order env cmd db =
     (if (\<exists>x \<in> set (db_orders db). o_account x = pc_account cmd \<and> o_client_id x = pc_client_id cmd)
         \<or> env_column env (pc_quantity cmd) \<le> 0 \<or> pc_time_in_force cmd \<notin> set times_in_force
         \<or> pc_type cmd = Limit \<and> (case pc_limit_price cmd of None \<Rightarrow> True | Some p \<Rightarrow> env_column env p \<le> 0)
      then Inl ''IntegrityError''
      else let (oid, db1) = fresh_id db;
               submitted = new_order env cmd oid;
               db2 = db1\<lparr>db_orders := db_orders db1 @ [stored_order env submitted]\<rparr>;
               db3 = record_status env oid None Submitted None db2
           in Inr (submitted, order_audit (pc_workspace cmd) ''trade_order.submitted'' oid
                [(''account_id'', D_id (pc_account cmd)), (''instrument_id'', D_id (pc_instrument cmd)),
                 (''side'', D_text (if pc_side cmd = Buy_order then ''buy'' else ''sell'')),
                 (''order_type'', D_text (if pc_type cmd = Market then ''market'' else ''limit'')),
                 (''quantity'', D_decimal (pc_quantity cmd)),
                 (''order_intent_id'', optional D_id (pc_intent cmd))] db3))"

definition place_order ::
  "tx_env \<Rightarrow> place_order_command \<Rightarrow> trading_db \<Rightarrow> (string, trade_order \<times> trading_db) result" where
  "place_order env cmd db =
     res_bind (place_order_checks cmd db) (\<lambda>(account, instrument, exchange_code).
     res_bind (submit_order env cmd db) (\<lambda>(submitted, db1).
     res_bind (simulate_fill_row env submitted instrument exchange_code (pc_stop_fill_price cmd) db1)
       (\<lambda>(fill, filled, db2).
     res_bind (apply_fill_row env (ac_id account) (i_id instrument) fill (pc_side cmd) exchange_code db2)
       (\<lambda>(_, realized_pnl, db3).
     res_bind (record_ledger env (ac_id account) instrument fill (pc_side cmd) realized_pnl db3) (\<lambda>db4.
       let db5 = record_account_snapshot env (ac_id account) instrument db4
       in Inr (stored_order env filled,
            order_audit (pc_workspace cmd) ''trade_order.filled'' (o_id submitted)
              [(''fill_id'', D_id (f_id fill)), (''price'', D_decimal (f_price fill)),
               (''fee_amount'', D_decimal (f_fee fill)), (''realized_pnl'', D_decimal realized_pnl)] db5))))))"

definition cancellable :: "order_status \<Rightarrow> bool" where
  "cancellable s \<longleftrightarrow> s \<in> {Pending, Submitted, Partially_filled}"

definition cancel_order ::
  "tx_env \<Rightarrow> trade_order \<Rightarrow> string \<Rightarrow> trading_db \<Rightarrow> (string, trade_order \<times> trading_db) result" where
  "cancel_order env o' reason db =
     (if \<not> cancellable (o_status o') then Inl ''invalid_status_transition''
      else let (cancelled, db1) = set_status env o' Cancelled (Some reason) db
           in Inr (stored_order env cancelled,
                order_audit (o_workspace o') ''trade_order.cancelled'' (o_id o')
                  [(''reason_code'', D_text reason), (''previous_status'', D_text (status_text (o_status o')))] db1))"

subsection \<open>What each step changes\<close>

lemma order_audit_eq:
  "order_audit w act r pl db = db\<lparr>db_next_id := Suc (db_next_id db), db_audit := db_audit db @
     [\<lparr>al_workspace = w, al_actor = None, al_action = act, al_resource_type = ''trade_order'',
       al_resource_id = r, al_after = pl, al_correlation = db_next_id db\<rparr>]\<rparr>"
  by (simp add: order_audit_def Let_def split_def)

lemma stored_order_sel [simp]:
  "o_id (stored_order env x) = o_id x" "o_account (stored_order env x) = o_account x"
  "o_status (stored_order env x) = o_status x" "o_side (stored_order env x) = o_side x"
  "o_instrument (stored_order env x) = o_instrument x" "o_client_id (stored_order env x) = o_client_id x"
  "o_quantity (stored_order env x) = env_column env (o_quantity x)"
  "o_filled (stored_order env x) = env_column env (o_filled x)" "o_intent (stored_order env x) = o_intent x"
  by (simp_all add: stored_order_def)

lemma new_order_sel [simp]:
  "o_id (new_order env cmd i) = i" "o_account (new_order env cmd i) = pc_account cmd"
  "o_status (new_order env cmd i) = Submitted" "o_side (new_order env cmd i) = pc_side cmd"
  "o_instrument (new_order env cmd i) = pc_instrument cmd" "o_client_id (new_order env cmd i) = pc_client_id cmd"
  "o_quantity (new_order env cmd i) = pc_quantity cmd" "o_filled (new_order env cmd i) = 0"
  by (simp_all add: new_order_def)

lemma submit_order_Inr:
  assumes "submit_order env cmd db = Inr (o', db')"
  shows "o' = new_order env cmd (db_next_id db)
    \<and> (\<exists>a. db' = db\<lparr>db_next_id := db_next_id db + 2, db_audit := db_audit db @ [a],
         db_orders := db_orders db @ [stored_order env o'],
         db_history := db_history db @ [\<lparr>sh_order = db_next_id db, sh_from = None, sh_to = Submitted,
           sh_reason = None, sh_occurred_at = env_now env\<rparr>]\<rparr>)
    \<and> (\<forall>x \<in> set (db_orders db). o_account x = pc_account cmd \<longrightarrow> o_client_id x \<noteq> pc_client_id cmd)
    \<and> 0 < env_column env (pc_quantity cmd)"
  using assms
  by (auto simp: submit_order_def Let_def split_def order_audit_eq record_status_def not_le new_order_sel
      split: if_splits intro!: exI trading_db.equality)

lemma simulate_fill_row_Inr:
  assumes "simulate_fill_row env o' instrument ex base db = Inr (f, filled, db')"
  shows "filled = o'\<lparr>o_filled := o_quantity o', o_status := Filled\<rparr>
    \<and> f_id f = db_next_id db \<and> f_order f = o_id o' \<and> f_quantity f = env_column env (o_quantity o')
    \<and> 0 < f_price f \<and> 0 < f_quantity f \<and> 0 \<le> f_fee f \<and> f_executed_at f = env_now env
    \<and> f_fee_asset f = Some (i_quote_asset instrument)
    \<and> (\<exists>c price fee. latest_final_candle db (o_instrument o') = Some c
        \<and> price = (case base of Some p \<Rightarrow> p | None \<Rightarrow> c_close c)
        \<and> paper_fee_buffer ex price (o_quantity o') = Inr fee \<and> f_fee f = env_column env fee
        \<and> f_price f = env_column env (if o_side o' = Buy_order then dadd price (slippage_of_spread db ex (o_instrument o'))
             else dsub price (slippage_of_spread db ex (o_instrument o'))))
    \<and> db' = db\<lparr>db_next_id := Suc (db_next_id db), db_fills := db_fills db @ [f],
         db_history := db_history db @ [\<lparr>sh_order = o_id o', sh_from = Some (o_status o'), sh_to = Filled,
           sh_reason = None, sh_occurred_at = env_now env\<rparr>],
         db_orders := update_row o_id (stored_order env filled) (db_orders db)\<rparr>"
  using assms
  by (auto simp: simulate_fill_row_def Let_def split_def result_simps add_fill_def set_status_def
      record_status_def flush_order_def split: if_splits option.splits)

lemma add_position_Inr:
  assumes "add_position env p db = Inr (p', db')"
  shows "p' = stored_position env p \<and> position_checks db p'
    \<and> db' = db\<lparr>db_positions := db_positions db @ [p']\<rparr>"
  using assms by (auto simp: add_position_def Let_def split: if_splits)

lemma flush_position_Inr:
  assumes "flush_position env p db = Inr (p', db')"
  shows "p' = stored_position env p \<and> position_checks db p'
    \<and> db' = db\<lparr>db_positions := update_row p_id p' (db_positions db)\<rparr>"
  using assms by (auto simp: flush_position_def Let_def split: if_splits)

lemma record_ledger_Inr:
  assumes "record_ledger env a instrument f side pnl db = Inr db'"
  shows "\<exists>tx es. db' = db\<lparr>db_next_id := Suc (db_next_id db), db_transactions := db_transactions db @ [tx],
         db_entries := db_entries db @ es\<rparr>
    \<and> lt_account tx = a \<and> lt_reference_type tx = ''fill'' \<and> lt_reference tx = Some (f_id f)
    \<and> (\<forall>e \<in> set es. le_account e = a \<and> le_fill e = Some (f_id f) \<and> le_amount e \<noteq> 0
         \<and> le_type e \<in> {Cash, Fee, Realized_pnl})
    \<and> map le_amount (filter (\<lambda>e. le_type e = Cash) es)
        = [env_column env (if side = Buy_order then dneg (dmul (f_price f) (f_quantity f)) else dmul (f_price f) (f_quantity f))]
    \<and> map le_amount (filter (\<lambda>e. le_type e = Fee) es) = (if 0 < f_fee f then [env_column env (dneg (f_fee f))] else [])
    \<and> map le_amount (filter (\<lambda>e. le_type e = Realized_pnl) es) = (if pnl \<noteq> 0 then [env_column env pnl] else [])"
proof -
  define tx where "tx = \<lparr>lt_id = db_next_id db, lt_account = a, lt_reference_type = ''fill'', lt_reference = Some (f_id f),
     lt_occurred_at = f_executed_at f\<rparr>"
  define entry where "entry asset amount type = \<lparr>le_transaction = db_next_id db, le_account = a,
     le_fill = Some (f_id f), le_asset = asset, le_amount = amount, le_type = type,
     le_occurred_at = f_executed_at f\<rparr>" for asset amount type
  let ?q = "i_quote_asset instrument" and ?n = "dmul (f_price f) (f_quantity f)"
  let ?cash = "entry ?q (if side = Buy_order then dneg ?n else ?n) Cash"
  let ?fee = "entry (case f_fee_asset f of Some a \<Rightarrow> a | None \<Rightarrow> ?q) (dneg (f_fee f)) Fee"
  let ?pnl = "entry ?q pnl Realized_pnl"
  let ?db2 = "db\<lparr>db_next_id := Suc (db_next_id db), db_transactions := db_transactions db @ [tx]\<rparr>"
  obtain db3 db4 where 3: "add_entry env ?cash ?db2 = Inr db3"
    and 4: "(if 0 < f_fee f then add_entry env ?fee db3 else Inr db3) = Inr db4"
    and 5: "(if pnl \<noteq> 0 then add_entry env ?pnl db4 else Inr db4) = Inr db'"
    using assms unfolding record_ledger_def Let_def split_def fresh_id_frame tx_def entry_def
    by (auto simp: result_simps)
  let ?st = "\<lambda>e. e\<lparr>le_amount := env_column env (le_amount e)\<rparr>"
  let ?es = "[?st ?cash] @ (if 0 < f_fee f then [?st ?fee] else []) @ (if pnl \<noteq> 0 then [?st ?pnl] else [])"
  have "db' = ?db2\<lparr>db_entries := db_entries db @ ?es\<rparr>"
    using add_entry_Inr [OF 3] 4 5 by (auto dest!: add_entry_Inr split: if_splits)
  moreover have "env_column env (if side = Buy_order then dneg ?n else ?n) \<noteq> 0"
    "0 < f_fee f \<Longrightarrow> env_column env (dneg (f_fee f)) \<noteq> 0" "pnl \<noteq> 0 \<Longrightarrow> env_column env pnl \<noteq> 0"
    using add_entry_Inr [OF 3] 4 5 by (auto dest!: add_entry_Inr split: if_splits simp: entry_def)
  ultimately show ?thesis
    by (intro exI [of _ tx] exI [of _ ?es]) (simp add: tx_def entry_def)
qed

subsection \<open>Positions refine the backtest's accounting\<close>

definition is_open :: "trading_position \<Rightarrow> bool" where
  "is_open p \<longleftrightarrow> p_status p = Open"

definition place_of :: "trading_position \<Rightarrow> uuid \<times> uuid" where
  "place_of p = (p_account p, p_instrument p)"

definition position_row_ok :: "(decimal \<Rightarrow> decimal) \<Rightarrow> trading_position \<Rightarrow> bool" where
  "position_row_ok column p \<longleftrightarrow> column (p_quantity p) = p_quantity p
     \<and> (p_status p = Open \<longrightarrow> 0 < p_quantity p \<and> (\<exists>e. p_entry p = Some e \<and> 0 < e))
     \<and> (p_status p = Closed \<longrightarrow> p_quantity p = 0)"

definition positions_ok :: "(decimal \<Rightarrow> decimal) \<Rightarrow> trading_db \<Rightarrow> bool" where
  "positions_ok column db \<longleftrightarrow> exclusive p_id is_open place_of (db_positions db) (db_next_id db)
     \<and> (\<forall>p \<in> set (db_positions db). position_row_ok column p)"

definition abs_position :: "trading_position \<Rightarrow> backtest_position" where
  "abs_position p = \<lparr>bp_side = p_side p, bp_quantity = p_quantity p,
     bp_entry = (case p_entry p of Some e \<Rightarrow> e | None \<Rightarrow> 0)\<rparr>"

definition abs_fill :: "fill_row \<Rightarrow> simulated_fill" where
  "abs_fill f = \<lparr>sf_price = f_price f, sf_quantity = f_quantity f, sf_fee = f_fee f\<rparr>"

definition stored_backtest_position :: "(decimal \<Rightarrow> decimal) \<Rightarrow> backtest_position \<Rightarrow> backtest_position" where
  "stored_backtest_position column p = p\<lparr>bp_quantity := column (bp_quantity p), bp_entry := column (bp_entry p)\<rparr>"

lemma open_position_eq: "open_position db a i = find (\<lambda>p. place_of p = (a, i) \<and> is_open p) (db_positions db)"
proof -
  have "(\<lambda>p. p_account p = a \<and> p_instrument p = i \<and> p_status p = Open) = (\<lambda>p. place_of p = (a, i) \<and> is_open p)"
    by (auto simp: fun_eq_iff place_of_def is_open_def)
  then show ?thesis by (simp add: open_position_def)
qed

lemma open_position_unique:
  assumes "positions_ok column db" "p \<in> set (db_positions db)" "p_status p = Open"
  shows "open_position db (p_account p) (p_instrument p) = Some p"
  using exclusive_find [of p_id is_open place_of "db_positions db" "db_next_id db" p] assms
  by (simp add: open_position_eq positions_ok_def place_of_def [of p] is_open_def)

lemma stored_position_sel [simp]:
  "p_id (stored_position env p) = p_id p" "p_account (stored_position env p) = p_account p"
  "p_instrument (stored_position env p) = p_instrument p" "p_side (stored_position env p) = p_side p"
  "p_status (stored_position env p) = p_status p" "p_quantity (stored_position env p) = env_column env (p_quantity p)"
  "p_entry (stored_position env p) = map_option (env_column env) (p_entry p)"
  "p_realized (stored_position env p) = env_column env (p_realized p)"
  by (simp_all add: stored_position_def)

definition opened_row :: "tx_env \<Rightarrow> uuid \<Rightarrow> uuid \<Rightarrow> uuid \<Rightarrow> fill_row \<Rightarrow> order_side \<Rightarrow> trading_position" where
  "opened_row env pid account instrument fill side = \<lparr>p_id = pid, p_account = account, p_instrument = instrument,
     p_side = opening_side side, p_quantity = f_quantity fill, p_entry = Some (f_price fill),
     p_realized = 0, p_stop_price = None, p_status = Open, p_version = 1,
     p_opened_at = Some (env_now env), p_closed_at = None\<rparr>"

definition increased_row :: "trading_position \<Rightarrow> decimal \<Rightarrow> fill_row \<Rightarrow> trading_position" where
  "increased_row pos entry fill =
     (let new_quantity = dadd (p_quantity pos) (f_quantity fill)
      in pos\<lparr>p_quantity := new_quantity,
             p_entry := Some (ddiv (dadd (dmul entry (p_quantity pos)) (dmul (f_price fill) (f_quantity fill))) new_quantity),
             p_version := p_version pos + 1\<rparr>)"

lemma reduce_position_sel:
  "reduce_position env pos entry f side allow = Inr (p, pnl) \<Longrightarrow>
     p_id p = p_id pos \<and> p_account p = p_account pos \<and> p_instrument p = p_instrument pos
     \<and> p_realized p = dadd (p_realized pos) pnl"
  by (auto simp: reduce_position_def Let_def split: if_splits)

lemma apply_fill_row_cases:
  assumes "apply_fill_row env a i f side ex db = Inr (pos, pnl, db')"
  obtains (opened) "open_position db a i = None" "opening_side side = Long \<or> ex = ''oanda''" "pnl = 0"
      "pos = stored_position env (opened_row env (db_next_id db) a i f side)"
      "db' = db\<lparr>db_next_id := Suc (db_next_id db), db_positions := db_positions db @ [pos]\<rparr>"
  | (changed) p entry r where "open_position db a i = Some p" "p_entry p = Some entry"
      "opening_side side = p_side p \<and> pnl = 0 \<and> r = increased_row p entry f
       \<or> opening_side side \<noteq> p_side p \<and> reduce_position env p entry f side (ex = ''oanda'') = Inr (r, pnl)"
      "pos = stored_position env r" "position_checks db pos"
      "db' = db\<lparr>db_positions := update_row p_id pos (db_positions db)\<rparr>"
proof (cases "open_position db a i")
  case None
  then show ?thesis
    using assms opened
    by (auto simp: apply_fill_row_def Let_def split_def result_simps opened_row_def position_side_neq split: if_splits
        dest!: add_position_Inr)
next
  case (Some p)
  then show ?thesis
    using assms changed
    by (auto simp: apply_fill_row_def Let_def split_def result_simps increased_row_def split: if_splits option.splits
        dest!: flush_position_Inr)
qed

lemma dround_tick: "dround (1 / 10 ^ 18) = 1 / 10 ^ 18"
  using dexact_unit_frac [of "10 ^ 18"] by (simp add: dec.round_exact)

context numeric_column
begin

lemma column_dsub_pos:
  assumes "column x = x" "column y = y" "y < x"
  shows "0 < column (dsub x y)"
proof -
  have "1 / 10 ^ 18 \<le> x - y"
    using column_smallest [OF column_diff_exact [OF assms(1,2)]] assms(3) by simp
  then have "1 / 10 ^ 18 \<le> dsub x y" unfolding dsub_def using dround_mono dround_tick by metis
  then show ?thesis by (rule column_unit)
qed

lemma column_dadd_pos:
  assumes "column x = x" "0 < x" "0 \<le> y"
  shows "0 < column (dadd x y)"
proof -
  have "1 / 10 ^ 18 \<le> x + y" using column_smallest [OF assms(1,2)] assms(3) by simp
  then have "1 / 10 ^ 18 \<le> dadd x y" unfolding dadd_def using dround_mono dround_tick by metis
  then show ?thesis by (rule column_unit)
qed

end

definition fill_row_ok :: "(decimal \<Rightarrow> decimal) \<Rightarrow> fill_row \<Rightarrow> bool" where
  "fill_row_ok column f \<longleftrightarrow> 0 < f_price f \<and> 0 < f_quantity f \<and> 0 \<le> f_fee f
     \<and> column (f_price f) = f_price f \<and> column (f_quantity f) = f_quantity f \<and> column (f_fee f) = f_fee f"

lemma reduced_row_ok:
  assumes "numeric_column (env_column env)" "position_row_ok (env_column env) p" "p_status p = Open"
    and "fill_row_ok (env_column env) f" "reduce_position env p entry f side allow = Inr (r, pnl)"
    and "position_checks db (stored_position env r)"
  shows "position_row_ok (env_column env) (stored_position env r)"
proof -
  note dsub_pos = numeric_column.column_dsub_pos [OF assms(1)] and idem = numeric_column.column_idem [OF assms(1)]
    and zero = numeric_column.column_zero [OF assms(1)]
  have p: "env_column env (p_quantity p) = p_quantity p" "0 < p_quantity p" "p_entry p \<noteq> None"
    using assms(2,3) by (auto simp: position_row_ok_def)
  have f: "env_column env (f_quantity f) = f_quantity f" using assms(4) by (simp add: fill_row_ok_def)
  show ?thesis
    using assms(3,5,6) dsub_pos [OF p(1) f] dsub_pos [OF f p(1)] p(3)
    by (auto simp: idem zero reduce_position_def Let_def position_row_ok_def position_checks_def split: if_splits)
qed

lemma increased_row_ok:
  assumes "numeric_column (env_column env)" "position_row_ok (env_column env) p" "p_status p = Open"
    and "fill_row_ok (env_column env) f" "position_checks db (stored_position env (increased_row p entry f))"
  shows "position_row_ok (env_column env) (stored_position env (increased_row p entry f))"
proof -
  have "env_column env (p_quantity p) = p_quantity p" "0 < p_quantity p" "0 \<le> f_quantity f"
    using assms(2,3,4) by (auto simp: position_row_ok_def fill_row_ok_def)
  then show ?thesis
    using assms(3,5) numeric_column.column_dadd_pos [OF assms(1)] numeric_column.column_idem [OF assms(1)]
    by (auto simp: increased_row_def Let_def position_row_ok_def position_checks_def)
qed

lemma opened_row_ok:
  assumes "fill_row_ok (env_column env) f"
  shows "position_row_ok (env_column env) (stored_position env (opened_row env pid a i f side))"
  using assms by (simp add: opened_row_def position_row_ok_def fill_row_ok_def)

lemma apply_fill_row_positions:
  assumes col: "numeric_column (env_column env)" and ok: "positions_ok (env_column env) db"
    and f: "fill_row_ok (env_column env) f" and step: "apply_fill_row env a i f side ex db = Inr (pos, pnl, db')"
  shows "positions_ok (env_column env) db' \<and> pos \<in> set (db_positions db') \<and> place_of pos = (a, i)"
  using step
proof (cases rule: apply_fill_row_cases)
  case opened
  have "exclusive p_id is_open place_of (db_positions db') (db_next_id db')"
    using ok opened(1) unfolding opened(5)
    by (auto simp: positions_ok_def open_position_None opened(4) opened_row_def place_of_def is_open_def
        intro!: exclusive_snoc)
  moreover have "position_row_ok (env_column env) pos" using opened_row_ok [OF f] opened(4) by simp
  ultimately show ?thesis using ok opened(4,5) by (auto simp: positions_ok_def place_of_def opened_row_def)
next
  case (changed p entry r)
  note p = open_position_Some [OF changed(1)]
  have "position_row_ok (env_column env) p" using ok p by (simp add: positions_ok_def)
  then have row: "position_row_ok (env_column env) pos"
    using changed(3,4,5) reduced_row_ok [OF col _ _ f, of p entry side "ex = ''oanda''" r pnl db]
      increased_row_ok [OF col _ _ f, of p db entry] p by auto
  have r: "p_id pos = p_id p" "place_of pos = place_of p"
    using changed(3,4) reduce_position_sel by (auto simp: increased_row_def Let_def place_of_def; metis)+
  have "exclusive p_id is_open place_of (db_positions db') (db_next_id db')"
    using ok p r changed(6) by (auto simp: positions_ok_def is_open_def intro!: exclusive_update [of _ _ _ _ _ p])
  moreover have "pos \<in> set (db_positions db')" using p r changed(6) by (auto simp: set_update_row)
  moreover have "\<forall>x \<in> set (db_positions db'). position_row_ok (env_column env) x"
    using ok row changed(6) by (auto simp: positions_ok_def set_update_row)
  ultimately show ?thesis using r p by (auto simp: positions_ok_def place_of_def)
qed

text \<open>
  C3 (refinement). The paper account and the backtest agree: filling an order changes the stored
  position, and books the realized P&L, exactly as the backtest's in-memory accounting does on the
  values the rows stand for, up to what the columns store.
\<close>

theorem paper_fill_refines_backtest:
  assumes "numeric_column (env_column env)" "positions_ok (env_column env) db"
    and "fill_row_ok (env_column env) f" "apply_fill_row env a i f side ex db = Inr (pos, pnl, db')"
  shows "\<exists>out. apply_fill_to_position (map_option abs_position (open_position db a i)) (abs_fill f) side (ex = ''oanda'')
         = Inr out
    \<and> fo_realized_pnl out = pnl
    \<and> map_option abs_position (open_position db' a i)
      = map_option (stored_backtest_position (env_column env)) (fo_position out)"
proof -
  note after = apply_fill_row_positions [OF assms]
  from assms(4) show ?thesis
  proof (cases rule: apply_fill_row_cases)
    case opened
    then have "open_position db' a i = Some pos"
      using open_position_unique [of "env_column env" db' pos] after by (auto simp: place_of_def opened_row_def)
    then show ?thesis using opened assms(3)
      by (auto simp: apply_fill_to_position_def opened_row_def abs_position_def abs_fill_def
          stored_backtest_position_def fill_row_ok_def)
  next
    case (changed p entry r)
    note p = open_position_Some [OF changed(1)]
    have id: "p_id pos = p_id p" using changed(3,4) reduce_position_sel by (auto simp: increased_row_def Let_def; metis)
    have closed: "open_position db' a i = None" if "p_status pos = Closed"
      using exclusive_find_None [of p_id is_open place_of "db_positions db" "db_next_id db" p pos] assms(2) p that id changed(6)
      by (simp add: open_position_eq positions_ok_def is_open_def place_of_def [of p])
    have open_now: "open_position db' a i = Some pos" if "p_status pos = Open"
      using open_position_unique [of "env_column env" db' pos] after that by (auto simp: place_of_def)
    from changed(3) show ?thesis
    proof (elim disjE conjE)
      assume "opening_side side = p_side p" "pnl = 0" "r = increased_row p entry f"
      then show ?thesis using changed(1,2,4) open_now p
        by (auto simp: apply_fill_to_position_def increased_row_def Let_def abs_position_def abs_fill_def
            stored_backtest_position_def)
    next
      assume side: "opening_side side \<noteq> p_side p" and red: "reduce_position env p entry f side (ex = ''oanda'') = Inr (r, pnl)"
      show ?thesis using changed(1,2,4) open_now closed p side red
        by (auto simp: apply_fill_to_position_def reduce_position_def Let_def abs_position_def abs_fill_def
            stored_backtest_position_def split: if_splits)
    qed
  qed
qed

subsection \<open>Placing an order as a whole\<close>

lemma place_order_checks_Inr:
  assumes "place_order_checks cmd db = Inr (account, instrument, ex)"
  shows "ac_id account = pc_account cmd \<and> ac_workspace account = pc_workspace cmd \<and> i_id instrument = pc_instrument cmd
    \<and> account \<in> set (cat_accounts (db_catalog db)) \<and> instrument \<in> set (cat_instruments (db_catalog db))
    \<and> 0 < pc_quantity cmd \<and> exchange_code_for_account db account = Inr ex
    \<and> (closes_or_reduces (pc_side cmd) (open_position db (pc_account cmd) (pc_instrument cmd))
       \<or> \<not> entry_blocked_by_halt db (pc_workspace cmd) (pc_account cmd) (pc_bot cmd))
    \<and> (\<forall>price. pc_stop_fill_price cmd = Some price \<longrightarrow> 0 < price \<and> pc_type cmd = Market
         \<and> (\<exists>p. open_position db (pc_account cmd) (pc_instrument cmd) = Some p \<and> pc_quantity cmd = p_quantity p
              \<and> closes_or_reduces (pc_side cmd) (Some p)))"
  using assms
  by (auto simp: place_order_checks_def Let_def result_simps find_Some_iff not_le split: if_splits option.splits)

lemma place_order_steps:
  assumes "place_order env cmd db = Inr (o', db')"
  obtains account instrument ex db1 f filled db2 pos pnl db3 db4 where
    "place_order_checks cmd db = Inr (account, instrument, ex)"
    "submit_order env cmd db = Inr (new_order env cmd (db_next_id db), db1)"
    "simulate_fill_row env (new_order env cmd (db_next_id db)) instrument ex (pc_stop_fill_price cmd) db1 = Inr (f, filled, db2)"
    "apply_fill_row env (pc_account cmd) (pc_instrument cmd) f (pc_side cmd) ex db2 = Inr (pos, pnl, db3)"
    "record_ledger env (pc_account cmd) instrument f (pc_side cmd) pnl db3 = Inr db4"
    "o' = stored_order env filled"
    "\<exists>a. db' = (record_account_snapshot env (pc_account cmd) instrument db4)
       \<lparr>db_next_id := Suc (db_next_id db4), db_audit := db_audit db4 @ [a]\<rparr>"
proof -
  obtain account instrument ex where checks: "place_order_checks cmd db = Inr (account, instrument, ex)"
    using assms by (auto simp: place_order_def result_simps)
  note ids = place_order_checks_Inr [OF checks]
  obtain s db1 where submit: "submit_order env cmd db = Inr (s, db1)"
    using assms checks by (auto simp: place_order_def result_simps)
  have s: "s = new_order env cmd (db_next_id db)" using submit_order_Inr [OF submit] by simp
  show ?thesis
    using assms that [OF checks submit [unfolded s]] checks submit s ids
    by (fastforce simp: place_order_def result_simps Let_def order_audit_eq record_account_snapshot_def)
qed

lemma snapshot_eq:
  "\<exists>sn. record_account_snapshot env a i db = db\<lparr>db_snapshots := db_snapshots db @ [sn]\<rparr>"
  by (auto simp: record_account_snapshot_def Let_def)

lemma apply_fill_row_frame:
  assumes "apply_fill_row env a i f side ex db = Inr (pos, pnl, db')"
  shows "db' = db\<lparr>db_next_id := db_next_id db', db_positions := db_positions db'\<rparr> \<and> db_next_id db \<le> db_next_id db'"
  using assms by (cases rule: apply_fill_row_cases) (auto intro: trading_db.equality)

definition filled_history :: "tx_env \<Rightarrow> uuid \<Rightarrow> status_history list" where
  "filled_history env oid =
     [\<lparr>sh_order = oid, sh_from = None, sh_to = Submitted, sh_reason = None, sh_occurred_at = env_now env\<rparr>,
      \<lparr>sh_order = oid, sh_from = Some Submitted, sh_to = Filled, sh_reason = None, sh_occurred_at = env_now env\<rparr>]"

lemma place_order_effect:
  assumes "place_order env cmd db = Inr (o', db')"
  obtains account instrument ex f db2 pos pnl db3 es tx where
    "place_order_checks cmd db = Inr (account, instrument, ex)"
    "o' = stored_order env (new_order env cmd (db_next_id db)\<lparr>o_filled := pc_quantity cmd, o_status := Filled\<rparr>)"
    "f_order f = db_next_id db" "f_id f = db_next_id db + 2" "f_quantity f = env_column env (pc_quantity cmd)"
    "0 < f_price f" "0 < f_quantity f" "0 \<le> f_fee f"
    "numeric_column (env_column env) \<longrightarrow> fill_row_ok (env_column env) f"
    "apply_fill_row env (pc_account cmd) (pc_instrument cmd) f (pc_side cmd) ex db2 = Inr (pos, pnl, db3)"
    "db_positions db2 = db_positions db" "db_next_id db2 = db_next_id db + 3"
    "db_positions db' = db_positions db3" "db_next_id db3 < db_next_id db'"
    "record_ledger env (pc_account cmd) instrument f (pc_side cmd) pnl db3
       = Inr (db3\<lparr>db_next_id := Suc (db_next_id db3), db_transactions := db_transactions db @ [tx],
                   db_entries := db_entries db @ es\<rparr>)"
    "\<exists>n as ps sn. db' = db\<lparr>db_next_id := n, db_audit := db_audit db @ as,
       db_orders := update_row o_id o' (db_orders db @ [stored_order env (new_order env cmd (db_next_id db))]),
       db_history := db_history db @ filled_history env (db_next_id db),
       db_fills := db_fills db @ [f], db_positions := ps, db_transactions := db_transactions db @ [tx],
       db_entries := db_entries db @ es, db_snapshots := db_snapshots db @ [sn]\<rparr>"
    "db_entries db3 = db_entries db"
  using assms
proof (cases rule: place_order_steps)
  case (1 account instrument ex db1 f filled db2 pos pnl db3 db4)
  obtain a1 where db1: "db1 = db\<lparr>db_next_id := db_next_id db + 2, db_audit := db_audit db @ [a1],
       db_orders := db_orders db @ [stored_order env (new_order env cmd (db_next_id db))],
       db_history := db_history db @ [\<lparr>sh_order = db_next_id db, sh_from = None, sh_to = Submitted,
         sh_reason = None, sh_occurred_at = env_now env\<rparr>]\<rparr>"
    using submit_order_Inr [OF 1(2)] by blast
  note fill = simulate_fill_row_Inr [OF 1(3)]
  have filled: "filled = new_order env cmd (db_next_id db)\<lparr>o_filled := pc_quantity cmd, o_status := Filled\<rparr>"
    using fill by simp
  obtain tx es where db4: "db4 = db3\<lparr>db_next_id := Suc (db_next_id db3), db_transactions := db_transactions db3 @ [tx],
      db_entries := db_entries db3 @ es\<rparr>"
    using record_ledger_Inr [OF 1(5)] by blast
  note frame = apply_fill_row_frame [OF 1(4)]
  obtain a2 where db': "db' = (record_account_snapshot env (pc_account cmd) instrument db4)
      \<lparr>db_next_id := Suc (db_next_id db4), db_audit := db_audit db4 @ [a2]\<rparr>" using 1(7) by blast
  obtain sn where sn: "record_account_snapshot env (pc_account cmd) instrument db4 = db4\<lparr>db_snapshots := db_snapshots db4 @ [sn]\<rparr>"
    using snapshot_eq by blast
  have end_state: "db' = db4\<lparr>db_snapshots := db_snapshots db4 @ [sn], db_next_id := Suc (db_next_id db4),
      db_audit := db_audit db4 @ [a2]\<rparr>"
    unfolding db' sn by simp
  have db2: "db_positions db2 = db_positions db" "db_next_id db2 = db_next_id db + 3" "db_transactions db2 = db_transactions db"
      "db_entries db2 = db_entries db" using fill db1 by auto
  obtain n ps where d3: "db3 = db2\<lparr>db_next_id := n, db_positions := ps\<rparr>" using frame by blast
  then have same3: "db_transactions db3 = db_transactions db" "db_entries db3 = db_entries db"
    using db2 by simp_all
  have col: "fill_row_ok (env_column env) f" if "numeric_column (env_column env)"
    using fill numeric_column.column_idem [OF that] by (auto simp: fill_row_ok_def)
  show ?thesis
  proof (rule that [OF 1(1), of f db2 pos pnl db3 es tx])
    show "o' = stored_order env (new_order env cmd (db_next_id db)\<lparr>o_filled := pc_quantity cmd, o_status := Filled\<rparr>)"
      using 1(6) filled by simp
    show "\<exists>n as ps sn. db' = db\<lparr>db_next_id := n, db_audit := db_audit db @ as,
       db_orders := update_row o_id o' (db_orders db @ [stored_order env (new_order env cmd (db_next_id db))]),
       db_history := db_history db @ filled_history env (db_next_id db),
       db_fills := db_fills db @ [f], db_positions := ps, db_transactions := db_transactions db @ [tx],
       db_entries := db_entries db @ es, db_snapshots := db_snapshots db @ [sn]\<rparr>"
    proof -
      have d2: "db2 = db\<lparr>db_next_id := db_next_id db + 3, db_audit := db_audit db @ [a1],
         db_orders := update_row o_id o' (db_orders db @ [stored_order env (new_order env cmd (db_next_id db))]),
         db_history := db_history db @ filled_history env (db_next_id db),
         db_fills := db_fills db @ [f]\<rparr>"
        using fill db1 1(6) filled by (auto simp: filled_history_def intro!: trading_db.equality)
      show ?thesis using end_state
        by (intro exI [of _ "Suc (Suc n)"] exI [of _ "[a1, a2]"] exI [of _ ps] exI [of _ sn] trading_db.equality)
          (simp_all add: db4 d3 d2)
    qed
    show "db_next_id db3 < db_next_id db'" "db_positions db' = db_positions db3"
      unfolding end_state db4 by simp_all
    show "record_ledger env (pc_account cmd) instrument f (pc_side cmd) pnl db3
       = Inr (db3\<lparr>db_next_id := Suc (db_next_id db3), db_transactions := db_transactions db @ [tx],
                   db_entries := db_entries db @ es\<rparr>)"
      using 1(5) unfolding db4 same3 .
    show "numeric_column (env_column env) \<longrightarrow> fill_row_ok (env_column env) f" using col by blast
  qed (use fill db2 1(4) db1 same3 in simp_all)
qed

subsection \<open>Orders and their history\<close>

fun trail :: "order_status option \<Rightarrow> status_history list \<Rightarrow> order_status option option" where
  \<comment> \<open>the status the history ends in, if every row starts from the status before it\<close>
  "trail s [] = Some s"
| "trail s (h # hs) = (if sh_from h = s then trail (Some (sh_to h)) hs else None)"

definition history_of :: "trading_db \<Rightarrow> uuid \<Rightarrow> status_history list" where
  "history_of db oid = filter (\<lambda>h. sh_order h = oid) (db_history db)"

definition orders_ok :: "trading_db \<Rightarrow> bool" where
  "orders_ok db \<longleftrightarrow> distinct (map o_id (db_orders db))
     \<and> (\<forall>x \<in> set (db_orders db). o_id x < db_next_id db \<and> trail None (history_of db (o_id x)) = Some (Some (o_status x)))
     \<and> (\<forall>h \<in> set (db_history db). sh_order h < db_next_id db)
     \<and> (\<forall>x \<in> set (db_orders db). \<forall>y \<in> set (db_orders db).
          o_account x = o_account y \<longrightarrow> o_client_id x = o_client_id y \<longrightarrow> x = y)"

definition books_ok :: "(decimal \<Rightarrow> decimal) \<Rightarrow> trading_db \<Rightarrow> bool" where
  "books_ok column db \<longleftrightarrow> positions_ok column db \<and> orders_ok db"

inductive order_step :: "(decimal \<Rightarrow> decimal) \<Rightarrow> trading_db \<Rightarrow> trading_db \<Rightarrow> bool" for column where
  intent_step: "env_column env = column \<Longrightarrow> create_order_intent env ic db = Inr (intent, db') \<Longrightarrow> order_step column db db'"
| place_step: "env_column env = column \<Longrightarrow> place_order env cmd db = Inr (o', db') \<Longrightarrow> order_step column db db'"
| cancel_step: "env_column env = column \<Longrightarrow> x \<in> set (db_orders db) \<Longrightarrow> cancel_order env x reason db = Inr (o', db') \<Longrightarrow>
    order_step column db db'"
| deposit_step: "env_column env = column \<Longrightarrow> seed_paper_deposit env account amount asset db = Inr (tx, db') \<Longrightarrow>
    order_step column db db'"

lemma trail_snoc: "trail s (hs @ [h]) = (case trail s hs of Some t \<Rightarrow> if sh_from h = t then Some (Some (sh_to h)) else None
    | None \<Rightarrow> None)"
  by (induction hs arbitrary: s) auto

lemma cancel_order_Inr:
  assumes "cancel_order env x reason db = Inr (o', db')"
  shows "cancellable (o_status x) \<and> o' = stored_order env (x\<lparr>o_status := Cancelled\<rparr>)
    \<and> (\<exists>a. db' = db\<lparr>db_next_id := Suc (db_next_id db), db_audit := db_audit db @ [a],
         db_orders := update_row o_id o' (db_orders db),
         db_history := db_history db @ [\<lparr>sh_order = o_id x, sh_from = Some (o_status x), sh_to = Cancelled,
           sh_reason = Some reason, sh_occurred_at = env_now env\<rparr>]\<rparr>)"
  using assms
  by (auto simp: cancel_order_def set_status_def record_status_def flush_order_def order_audit_eq Let_def
      split: if_splits intro!: exI trading_db.equality)

lemma orders_ok_placed:
  assumes ok: "orders_ok db"
    and new: "o_id n = db_next_id db" "o_id o' = db_next_id db" "o_status o' = Filled"
    and client: "\<forall>x \<in> set (db_orders db). o_account x = o_account o' \<longrightarrow> o_client_id x \<noteq> o_client_id o'"
    and rows: "db_orders db' = update_row o_id o' (db_orders db @ [n])"
      "db_history db' = db_history db @ [h1, h2]" "db_next_id db < db_next_id db'"
    and h: "sh_order h1 = db_next_id db" "sh_from h1 = None" "sh_to h1 = s" "sh_order h2 = db_next_id db"
      "sh_from h2 = Some s" "sh_to h2 = Filled"
  shows "orders_ok db'"
proof -
  have fresh: "db_next_id db \<notin> o_id ` set (db_orders db)" "history_of db (db_next_id db) = []"
    using ok by (auto simp: orders_ok_def history_of_def filter_empty_conv)
  then have orders: "db_orders db' = db_orders db @ [o']"
    unfolding rows(1) using new by (intro update_row_snoc) auto
  have "trail None (history_of db' (o_id x)) = Some (Some (o_status x))" if "x \<in> set (db_orders db')" for x
  proof (cases "x \<in> set (db_orders db)")
    case True
    then have "o_id x \<noteq> db_next_id db" using ok by (auto simp: orders_ok_def)
    then show ?thesis using True ok h by (simp add: orders_ok_def history_of_def rows(2))
  next
    case False
    then have "x = o'" using that orders by simp
    then show ?thesis using fresh(2) new h by (simp add: history_of_def rows(2))
  qed
  moreover have "distinct (map o_id (db_orders db'))" using ok fresh new by (auto simp: orders orders_ok_def)
  moreover have "\<forall>x \<in> set (db_orders db'). o_id x < db_next_id db'" using ok new rows(3) by (auto simp: orders orders_ok_def)
  moreover have "\<forall>x \<in> set (db_history db'). sh_order x < db_next_id db'"
    using ok rows(3) h by (auto simp: rows(2) orders_ok_def)
  moreover have "\<forall>x \<in> set (db_orders db'). \<forall>y \<in> set (db_orders db').
      o_account x = o_account y \<longrightarrow> o_client_id x = o_client_id y \<longrightarrow> x = y"
    using ok client by (auto simp: orders orders_ok_def)
  ultimately show ?thesis unfolding orders_ok_def by blast
qed

lemma orders_ok_moved:
  assumes ok: "orders_ok db" and x: "x \<in> set (db_orders db)"
    and o': "o_id o' = o_id x" "o_account o' = o_account x" "o_client_id o' = o_client_id x"
    and rows: "db_orders db' = update_row o_id o' (db_orders db)" "db_history db' = db_history db @ [h]"
      "db_next_id db \<le> db_next_id db'"
    and h: "sh_order h = o_id x" "sh_from h = Some (o_status x)" "sh_to h = o_status o'"
  shows "orders_ok db'"
proof -
  have origin: "y = o' \<or> y \<in> set (db_orders db) \<and> o_id y \<noteq> o_id x" if "y \<in> set (db_orders db')" for y
    using that o' by (auto simp: rows(1) set_update_row)
  have "trail None (history_of db' (o_id y)) = Some (Some (o_status y))" if y: "y \<in> set (db_orders db')" for y
  proof (cases "y = o'")
    case True
    have "trail None (history_of db (o_id x)) = Some (Some (o_status x))" using ok x by (simp add: orders_ok_def)
    then show ?thesis using o'(1) h by (simp add: True history_of_def rows(2) trail_snoc)
  next
    case False
    then have "y \<in> set (db_orders db)" "o_id y \<noteq> o_id x" using origin [OF y] by auto
    then show ?thesis using ok h(1) by (simp add: history_of_def rows(2) orders_ok_def)
  qed
  moreover have "distinct (map o_id (db_orders db'))" using ok by (simp add: rows(1) orders_ok_def)
  moreover have below: "o_id y < db_next_id db'" if "y \<in> set (db_orders db)" for y
    using ok that rows(3) by (simp add: orders_ok_def) (meson less_le_trans)
  moreover have "\<forall>y \<in> set (db_orders db'). o_id y < db_next_id db'"
    using origin below below [OF x] o'(1) by metis
  moreover have "sh_order y < db_next_id db'" if "y \<in> set (db_history db)" for y
    using ok that rows(3) by (simp add: orders_ok_def) (meson less_le_trans)
  then have "\<forall>y \<in> set (db_history db'). sh_order y < db_next_id db'"
    using below [OF x] h(1) by (simp add: rows(2))
  moreover have "y = z" if yz: "y \<in> set (db_orders db')" "z \<in> set (db_orders db')"
    "o_account y = o_account z" "o_client_id y = o_client_id z" for y z
  proof -
    have unique: "u = v" if "u \<in> set (db_orders db)" "v \<in> set (db_orders db)" "o_account u = o_account v"
      "o_client_id u = o_client_id v" for u v using ok that by (simp add: orders_ok_def)
    from origin [OF yz(1)] origin [OF yz(2)] show ?thesis
    proof (elim disjE conjE)
      assume "y = o'" "z \<in> set (db_orders db)" "o_id z \<noteq> o_id x"
      then show ?thesis using unique [OF x, of z] yz(3,4) o' by simp
    next
      assume "z = o'" "y \<in> set (db_orders db)" "o_id y \<noteq> o_id x"
      then show ?thesis using unique [OF _ x, of y] yz(3,4) o' by simp
    qed (use unique yz(3,4) in simp_all)
  qed
  ultimately show ?thesis unfolding orders_ok_def by blast
qed

lemma positions_ok_cong:
  "db_positions db' = db_positions db \<Longrightarrow> db_next_id db \<le> db_next_id db' \<Longrightarrow> positions_ok column db \<Longrightarrow> positions_ok column db'"
  by (auto simp: positions_ok_def intro: exclusive_mono)

lemma orders_ok_cong:
  "db_orders db' = db_orders db \<Longrightarrow> db_history db' = db_history db \<Longrightarrow> db_next_id db \<le> db_next_id db' \<Longrightarrow>
     orders_ok db \<Longrightarrow> orders_ok db'"
  by (force simp: orders_ok_def history_of_def)

lemma place_order_books:
  assumes col: "numeric_column (env_column env)" and ok: "books_ok (env_column env) db"
    and step: "place_order env cmd db = Inr (o', db')"
  shows "books_ok (env_column env) db'"
  using step
proof (cases rule: place_order_effect)
  case (1 account instrument ex f db2 pos pnl db3 es tx)
  obtain db1 where "submit_order env cmd db = Inr (new_order env cmd (db_next_id db), db1)"
    using step by (cases rule: place_order_steps) blast
  then have client: "\<forall>x \<in> set (db_orders db). o_account x = pc_account cmd \<longrightarrow> o_client_id x \<noteq> pc_client_id cmd"
    using submit_order_Inr by blast
  have "positions_ok (env_column env) db2"
    using ok 1(11,12) by (auto simp: books_ok_def intro: positions_ok_cong)
  then have "positions_ok (env_column env) db3"
    using apply_fill_row_positions [OF col _ _ 1(10)] 1(9) col by blast
  then have "positions_ok (env_column env) db'"
    using 1(13,14) by (auto intro: positions_ok_cong)
  moreover have "orders_ok db'"
  proof -
    obtain n as ps sn where eq: "db' = db\<lparr>db_next_id := n, db_audit := db_audit db @ as,
       db_orders := update_row o_id o' (db_orders db @ [stored_order env (new_order env cmd (db_next_id db))]),
       db_history := db_history db @ filled_history env (db_next_id db),
       db_fills := db_fills db @ [f], db_positions := ps, db_transactions := db_transactions db @ [tx],
       db_entries := db_entries db @ es, db_snapshots := db_snapshots db @ [sn]\<rparr>" using 1(16) by blast
    have db': "db_orders db' = update_row o_id o' (db_orders db @ [stored_order env (new_order env cmd (db_next_id db))])"
      "db_history db' = db_history db @ filled_history env (db_next_id db)"
      unfolding eq by simp_all
    have "db_next_id db < db_next_id db'"
      using 1(12,14) apply_fill_row_frame [OF 1(10)] by linarith
    then show ?thesis
      using ok client 1(2) by (intro orders_ok_placed [OF _ _ _ _ _ db' [unfolded filled_history_def]]) (simp_all add: books_ok_def)
  qed
  ultimately show ?thesis by (simp add: books_ok_def)
qed

lemma cancel_order_books:
  assumes "books_ok column db" "x \<in> set (db_orders db)" "cancel_order env x reason db = Inr (o', db')"
  shows "books_ok column db'"
proof -
  obtain a where o': "o' = stored_order env (x\<lparr>o_status := Cancelled\<rparr>)"
    and eq: "db' = db\<lparr>db_next_id := Suc (db_next_id db), db_audit := db_audit db @ [a],
         db_orders := update_row o_id o' (db_orders db),
         db_history := db_history db @ [\<lparr>sh_order = o_id x, sh_from = Some (o_status x), sh_to = Cancelled,
           sh_reason = Some reason, sh_occurred_at = env_now env\<rparr>]\<rparr>"
    using cancel_order_Inr [OF assms(3)] by blast
  have "orders_ok db'"
    using assms(1,2)
    by (intro orders_ok_moved [of db x o' db' "\<lparr>sh_order = o_id x, sh_from = Some (o_status x), sh_to = Cancelled,
           sh_reason = Some reason, sh_occurred_at = env_now env\<rparr>"]) (simp_all add: books_ok_def o' eq)
  then show ?thesis using assms(1) positions_ok_cong [of db' db column] by (simp add: books_ok_def eq)
qed

lemma create_order_intent_Inr:
  assumes "create_order_intent env ic db = Inr (i, db')"
  shows "db' = db\<lparr>db_next_id := Suc (db_next_id db), db_intents := db_intents db @ [i]\<rparr> \<and> 0 < ic_quantity ic
    \<and> oi_id i = db_next_id db \<and> oi_side i = ic_side ic \<and> oi_signal i = ic_signal ic
    \<and> (\<forall>x \<in> set (db_intents db). oi_signal x \<noteq> ic_signal ic \<and> oi_decision x \<noteq> ic_decision ic)"
  using assms by (auto simp: create_order_intent_def result_simps Let_def split_def split: if_splits option.splits)

lemma seed_paper_deposit_Inr:
  assumes "seed_paper_deposit env a amount asset db = Inr (tx, db')"
  shows "\<exists>e. db' = db\<lparr>db_next_id := Suc (db_next_id db), db_transactions := db_transactions db @ [tx],
     db_entries := db_entries db @ [e]\<rparr>"
  using assms
  by (auto simp: seed_paper_deposit_def Let_def split_def result_simps dest!: add_entry_Inr split: if_splits
      intro!: exI trading_db.equality)

lemma books_ok_frame:
  assumes "books_ok column db" "db_positions db' = db_positions db" "db_orders db' = db_orders db"
    and "db_history db' = db_history db" "db_next_id db \<le> db_next_id db'"
  shows "books_ok column db'"
  using assms positions_ok_cong orders_ok_cong unfolding books_ok_def by blast

sublocale numeric_column \<subseteq> order_life: state_machine "order_step column" "books_ok column"
proof
  fix db db' assume ok: "books_ok column db" and "order_step column db db'"
  from this(2) show "books_ok column db'"
  proof cases
    case (intent_step env ic i)
    show ?thesis using ok create_order_intent_Inr [OF intent_step(2)] by (auto intro: books_ok_frame)
  next
    case (place_step env cmd o')
    show ?thesis using place_order_books [OF _ _ place_step(2)] ok place_step(1) numeric_column_axioms by simp
  next
    case (cancel_step env x reason o')
    show ?thesis by (rule cancel_order_books [OF ok cancel_step(2,3)])
  next
    case (deposit_step env account amount asset tx)
    show ?thesis using ok seed_paper_deposit_Inr [OF deposit_step(2)] by (auto intro: books_ok_frame)
  qed
qed

context numeric_column
begin

lemma books_reachable: "(order_step column)\<^sup>*\<^sup>* db db' \<Longrightarrow> books_ok column db \<Longrightarrow> books_ok column db'"
  by (rule order_life.reachable_keeps)

end

text \<open>
  C2 (invariant). However intents, orders, cancellations and deposits are interleaved, the books
  stay consistent: at most one open position per account and instrument, open positions have a
  positive quantity and entry price and closed ones none, every order's status history is an unbroken
  chain that ends in the order's status, and no account has two orders with one client id.
\<close>

theorem books_stay_consistent:
  assumes "numeric_column column" "(order_step column)\<^sup>*\<^sup>* db db'" "books_ok column db"
  shows "books_ok column db'"
  by (rule numeric_column.books_reachable [OF assms])


text \<open>
  A client order id is used once: placing a second order of the same account with the
  id of an order that exists is refused, whatever else the command says, and leaves the database as
  it was.
\<close>

theorem client_order_id_used_once:
  assumes "x \<in> set (db_orders db)" "o_account x = pc_account cmd" "o_client_id x = pc_client_id cmd"
  shows "\<exists>e. place_order env cmd db = Inl e"
proof (cases "place_order env cmd db")
  case (Inr r)
  then obtain o' db' db1 where "submit_order env cmd db = Inr (new_order env cmd (db_next_id db), db1)"
    by (cases r) (auto elim: place_order_steps)
  then show ?thesis using submit_order_Inr assms by blast
qed simp

end
