(* ===== verification/Database_Examples.thy ===== *)
theory Database_Examples
  imports Order_Flow Replay_Examples
begin

text \<open>
  Concrete databases: an empty workspace with one Binance paper account, one instrument and one final
  candle. The properties of the database theories are applied here to it, which shows that their
  hypotheses can hold, among them the laws of the \<open>numeric(38, 18)\<close> column.
\<close>

lemma pg_int: "pg_numeric18 (of_int k) = of_int k"
  using pg.column_exact [of "k * 10 ^ 18"] by simp

lemma pg_values [simp]:
  "pg_numeric18 (numeral n) = numeral n" "pg_numeric18 1 = 1" "pg_numeric18 (- numeral n) = - numeral n"
  "pg_numeric18 (- 1) = - 1"
  using pg_int [of "numeral n"] pg_int [of 1] pg_int [of "- numeral n"] pg_int [of "- 1"] by simp_all

definition demo_env :: tx_env where
  "demo_env = \<lparr>env_now = 7200000000, env_column = pg_numeric18\<rparr>"

definition demo_catalog :: catalog where
  "demo_catalog = \<lparr>cat_accounts = [\<lparr>ac_id = 1, ac_workspace = 1, ac_connection = Some 1, ac_status = ''active''\<rparr>],
     cat_connections = [\<lparr>cn_id = 1, cn_exchange = 1, cn_secret_ref = None, cn_status = ''active''\<rparr>],
     cat_exchanges = [(1, ''binance'')], cat_instruments = [demo_instrument],
     cat_candles = [demo_candle 0 1000], cat_spreads = [(1, 999, 1000)], cat_strategies = [], cat_profiles = []\<rparr>"

definition demo_db :: trading_db where
  "demo_db = \<lparr>db_catalog = demo_catalog, db_next_id = 10, db_halts = [], db_events = [], db_outbox = [],
     db_audit = [], db_intents = [], db_orders = [], db_history = [], db_fills = [], db_positions = [],
     db_transactions = [], db_entries = [], db_snapshots = [], db_bots = [], db_runs = [], db_signals = [],
     db_decisions = []\<rparr>"

subsection \<open>Halts\<close>

definition demo_scope :: halt_scope where
  "demo_scope = \<lparr>hs_workspace = 1, hs_type = ''account'', hs_id = Some 1\<rparr>"

abbreviation demo_reason :: string where
  "demo_reason \<equiv> ''user_emergency_stop''"

definition stopped_db :: trading_db where
  "stopped_db = snd (activate_or_escalate demo_env demo_scope demo_reason Emergency_stopped False None demo_db)"

lemma demo_halts_ok: "halts_ok demo_db"
  by (simp add: halts_ok_def demo_db_def exclusive_def)

lemma stopped_step: "halt_step demo_db stopped_db"
  unfolding stopped_db_def by (rule activate_step)

theorem one_active_halt_per_cause_witness: "halts_ok demo_db \<and> halts_ok stopped_db"
  using one_active_halt_per_cause [of demo_db stopped_db] stopped_step demo_halts_ok by blast

lemma stopped_halt:
  "db_halts stopped_db = [\<lparr>h_id = 10, h_workspace = 1, h_scope_type = ''account'', h_scope_id = Some 1,
     h_level = Emergency_stopped, h_reason = demo_reason, h_trigger_event = Some 12,
     h_auto_releasable = False, h_status = Halt_active, h_halted_at = 7200000000, h_released_at = None,
     h_released_by = None\<rparr>]"
  by code_simp

theorem emergency_stop_needs_a_person_witness:
  "\<exists>h' \<in> set (db_halts (snd (deescalate_one_step demo_env demo_scope demo_reason None stopped_db))).
     h_id h' = 10 \<and> h_level h' = Emergency_stopped \<and> (h_status h' = Halt_active \<or> h_released_by h' \<noteq> None)"
proof -
  have "halts_ok stopped_db"
    using emergency_life.reachable_keeps halt_life.reachable_keeps stopped_step demo_halts_ok by blast
  moreover have "halt_step\<^sup>*\<^sup>* stopped_db (snd (deescalate_one_step demo_env demo_scope demo_reason None stopped_db))"
    by (intro r_into_rtranclp relax_step)
  ultimately show ?thesis
    using emergency_stop_needs_a_person [of stopped_db "hd (db_halts stopped_db)"
        "snd (deescalate_one_step demo_env demo_scope demo_reason None stopped_db)"]
    by (simp add: stopped_halt)
qed

theorem halts_move_by_the_ladder_witness:
  "\<exists>hs new. db_halts stopped_db = hs @ new \<and> length new \<le> 1 \<and> list_all2 halt_move (db_halts demo_db) hs"
  using halts_move_by_the_ladder [OF demo_halts_ok stopped_step] by blast

theorem activation_raises_to_level_witness:
  "find_active_halt stopped_db demo_scope demo_reason = Some (hd (db_halts stopped_db))
   \<and> h_level (hd (db_halts stopped_db)) = Emergency_stopped"
proof -
  have "activate_or_escalate demo_env demo_scope demo_reason Emergency_stopped False None demo_db
      = (hd (db_halts stopped_db), stopped_db)"
  proof (rule prod_eqI)
    show "fst (activate_or_escalate demo_env demo_scope demo_reason Emergency_stopped False None demo_db)
      = fst (hd (db_halts stopped_db), stopped_db)" by code_simp
  qed (simp add: stopped_db_def)
  from activation_raises_to_level [OF demo_halts_ok this] show ?thesis
    by (simp add: stopped_halt)
qed

definition entry_db :: trading_db where
  "entry_db = snd (activate_or_escalate demo_env demo_scope ''peak_drawdown_limit'' Entry_halted True None demo_db)"

lemma entry_ok: "halts_ok entry_db"
  using halt_life.reachable_keeps [of demo_db entry_db] demo_halts_ok
    r_into_rtranclp [of halt_step, OF activate_step] unfolding entry_db_def by blast

theorem relaxing_releases_one_level_at_a_time_witness:
  "find_active_halt (relax_times demo_env demo_scope ''peak_drawdown_limit'' 2 entry_db) demo_scope ''peak_drawdown_limit'' = None
   \<and> find_active_halt (relax_times demo_env demo_scope ''peak_drawdown_limit'' 1 entry_db) demo_scope ''peak_drawdown_limit'' \<noteq> None"
proof -
  have "find_active_halt entry_db demo_scope ''peak_drawdown_limit'' = Some (hd (db_halts entry_db))"
    "h_level (hd (db_halts entry_db)) = Entry_halted"
    by code_simp+
  then show ?thesis
    using relaxing_releases_one_level_at_a_time [OF entry_ok, of demo_scope "''peak_drawdown_limit''" "hd (db_halts entry_db)" demo_env]
    by simp
qed

subsection \<open>Orders\<close>

definition demo_order :: place_order_command where
  "demo_order = market_order 1 1 1 Buy_order 1 ''first''"

definition demo_fill :: fill_row where
  "demo_fill = \<lparr>f_id = 12, f_order = 10, f_price = 1001, f_quantity = 1, f_fee = 1, f_fee_asset = Some ''USDT'',
     f_executed_at = 7200000000\<rparr>"

lemma demo_books_ok: "books_ok pg_numeric18 demo_db"
  by (simp add: books_ok_def positions_ok_def orders_ok_def exclusive_def demo_db_def)

lemma demo_applied:
  "\<exists>pos db'. apply_fill_row demo_env 1 1 demo_fill Buy_order ''binance'' demo_db = Inr (pos, 0, db')"
  by (simp add: apply_fill_row_def open_position_def demo_db_def demo_fill_def demo_env_def add_position_def
      position_checks_def stored_position_def fresh_id_def Let_def)

theorem paper_fill_refines_backtest_witness:
  "\<exists>out. apply_fill_to_position None (abs_fill demo_fill) Buy_order False = Inr out \<and> fo_realized_pnl out = 0"
proof -
  obtain pos db' where "apply_fill_row demo_env 1 1 demo_fill Buy_order ''binance'' demo_db = Inr (pos, 0, db')"
    using demo_applied by blast
  moreover have "numeric_column (env_column demo_env)" using pg.numeric_column_axioms by (simp add: demo_env_def)
  moreover have "positions_ok (env_column demo_env) demo_db" "fill_row_ok (env_column demo_env) demo_fill"
    using demo_books_ok by (simp_all add: demo_env_def books_ok_def fill_row_ok_def demo_fill_def)
  moreover have "open_position demo_db 1 1 = None" by (simp add: open_position_def demo_db_def)
  ultimately show ?thesis
    using paper_fill_refines_backtest [of demo_env demo_db demo_fill 1 1 Buy_order "''binance''" pos 0 db'] by auto
qed

lemma demo_placed_fill:
  "\<exists>o' db' f. place_order demo_env demo_order demo_db = Inr (o', db') \<and> db_fills db' = [f]
     \<and> f_price f = 1001 \<and> f_quantity f = 1 \<and> f_fee f = 1"
proof -
  have column: "env_column demo_env = pg_numeric18" by (simp add: demo_env_def)
  have checks: "place_order_checks demo_order demo_db = Inr (hd (cat_accounts demo_catalog), demo_instrument, ''binance'')"
    by (simp add: place_order_checks_def demo_order_def market_order_def demo_db_def demo_catalog_def
        validate_order_type_price_def exchange_code_for_account_def open_position_def closes_or_reduces_def
        entry_blocked_by_halt_def has_active_halt_at_or_above_def demo_instrument_def Let_def)
  obtain db1 where submit: "submit_order demo_env demo_order demo_db = Inr (new_order demo_env demo_order 10, db1)"
    and db1: "db_catalog db1 = demo_catalog" "db_positions db1 = []" "db_entries db1 = []" "db_fills db1 = []"
    by (simp add: submit_order_def demo_order_def market_order_def demo_db_def fresh_id_def record_status_def
        order_audit_def column times_in_force_def Let_def)
  have candle: "latest_final_candle db 1 = Some (demo_candle 0 1000)" if "db_catalog db = demo_catalog" for db
    using that by (simp add: latest_final_candle_def demo_catalog_def demo_candle_def latest_by_def)
  obtain f filled db2 where fill: "simulate_fill_row demo_env (new_order demo_env demo_order 10) demo_instrument ''binance'' None db1
      = Inr (f, filled, db2)"
    and f: "f_price f = 1001" "f_quantity f = 1" "f_fee f = 1"
    and db2: "db_catalog db2 = demo_catalog" "db_positions db2 = []" "db_entries db2 = []" "db_fills db2 = [f]"
    using candle [OF db1(1)] db1
    by (simp add: simulate_fill_row_def demo_order_def market_order_def new_order_def paper_fee_buffer_def
        slippage_of_spread_def slippage_coefficient_def demo_catalog_def fresh_id_def add_fill_def column
        set_status_def record_status_def flush_order_def demo_candle_def arithmetic_defs decimal_eval Let_def)
  obtain pos db3 where pos: "apply_fill_row demo_env 1 1 f Buy_order ''binance'' db2 = Inr (pos, 0, db3)"
    and db3: "db_entries db3 = []" "db_fills db3 = [f]"
    using db2 f by (simp add: apply_fill_row_def open_position_def add_position_def position_checks_def
        stored_position_def fresh_id_def column Let_def)
  obtain db4 where ledger: "record_ledger demo_env 1 demo_instrument f Buy_order 0 db3 = Inr db4"
    and db4: "db_fills db4 = [f]"
    using db3 f by (simp add: record_ledger_def add_entry_def fresh_id_def column arithmetic_defs decimal_eval Let_def)
  obtain sn where sn: "record_account_snapshot demo_env 1 demo_instrument db4 = db4\<lparr>db_snapshots := db_snapshots db4 @ [sn]\<rparr>"
    using snapshot_eq by blast
  have instrument: "i_id demo_instrument = 1" by (simp add: demo_instrument_def)
  show ?thesis
    using checks submit fill pos ledger sn f db4 instrument
    by (simp add: place_order_def demo_order_def market_order_def demo_catalog_def order_audit_eq Let_def)
qed

lemma demo_placed: "\<exists>o' db'. place_order demo_env demo_order demo_db = Inr (o', db')"
  using demo_placed_fill by blast

theorem books_stay_consistent_witness:
  "\<exists>o' db'. place_order demo_env demo_order demo_db = Inr (o', db') \<and> books_ok pg_numeric18 db'"
proof -
  obtain o' db' where placed: "place_order demo_env demo_order demo_db = Inr (o', db')"
    using demo_placed by blast
  have "order_step pg_numeric18 demo_db db'" by (rule place_step [OF _ placed]) (simp add: demo_env_def)
  then show ?thesis
    using books_stay_consistent [OF pg.numeric_column_axioms r_into_rtranclp demo_books_ok] placed by blast
qed


lemma halted_order_refused: "place_order_checks demo_order stopped_db = Inl ''trading_halted''"
  by code_simp

theorem client_order_id_used_once_witness:
  "\<exists>o' db' e. place_order demo_env demo_order demo_db = Inr (o', db') \<and> place_order demo_env demo_order db' = Inl e"
proof -
  obtain o' db' where placed: "place_order demo_env demo_order demo_db = Inr (o', db')"
    using demo_placed by blast
  have "o_account o' = 1" "o_client_id o' = ''first''" "db_orders db' = [o']"
    by (rule place_order_effect [OF placed];
        clarsimp simp: demo_db_def demo_order_def market_order_def update_row_def new_order_def)+
  then show ?thesis
    using client_order_id_used_once [of o' db' demo_order demo_env] placed by (simp add: demo_order_def market_order_def)
qed

theorem deposit_raises_cash_witness:
  "\<exists>tx db'. seed_paper_deposit demo_env 1 500 ''USDT'' demo_db = Inr (tx, db') \<and> cash_balance db' 1 ''USDT'' = 500"
  using deposit_raises_cash [where env = demo_env and account = 1 and amount = 500 and asset = "''USDT''" and db = demo_db]
  by (auto simp: demo_env_def cash_balance_def demo_db_def split: sum.splits)

end
