(* ===== verification/Risk_Evaluation.thy ===== *)
theory Risk_Evaluation
  imports Order_Flow
begin

text \<open>
  The half of the Risk Gate that reads the database (\<open>evaluate_signal\<close> and its queries in
  \<open>app/trading/application/risk_gate.py\<close>) and the locks that only an Owner releases
  (\<open>risk_locks.py\<close>).
\<close>

subsection \<open>Queries\<close>

definition recent_final_candles :: "trading_db \<Rightarrow> uuid \<Rightarrow> string \<Rightarrow> nat \<Rightarrow> candle list" where
  "recent_final_candles db instrument timeframe limit =
     rev (take limit (newest_first c_open_time
       (filter (\<lambda>c. c_instrument c = instrument \<and> c_timeframe c = timeframe \<and> c_final c)
         (cat_candles (db_catalog db)))))"

definition spread_of :: "trading_db \<Rightarrow> string \<Rightarrow> uuid \<Rightarrow> decimal" where
  "spread_of db exchange_code instrument =
     (if exchange_code \<notin> {''oanda'', ''binance''} then 0
      else case map_of (cat_spreads (db_catalog db)) instrument of
        None \<Rightarrow> 0 | Some (bid, ask) \<Rightarrow> dsub ask bid)"

definition existing_open_risk :: "trading_db \<Rightarrow> uuid \<Rightarrow> uuid \<Rightarrow> decimal" where
  "existing_open_risk db account instrument =
     (case open_position db account instrument of
        None \<Rightarrow> 0
      | Some pos \<Rightarrow> (case p_entry pos of
          None \<Rightarrow> 0
        | Some entry \<Rightarrow> (case latest_final_candle db instrument of
            None \<Rightarrow> 0
          | Some c \<Rightarrow>
              (let unrealized = dmul (dmul (dsub (c_close c) entry) (p_quantity pos)) (direction (p_side pos))
               in if unrealized < 0 then dneg unrealized else 0))))"

definition equity_at :: "trading_db \<Rightarrow> uuid \<Rightarrow> datetime \<Rightarrow> decimal option" where
  "equity_at db account since =
     (case sort_key sn_captured_at
        (filter (\<lambda>s. sn_account s = account \<and> since \<le> sn_captured_at s) (db_snapshots db)) of
        [] \<Rightarrow> None | row # _ \<Rightarrow> Some (sn_equity row))"

definition peak_equity_since :: "trading_db \<Rightarrow> uuid \<Rightarrow> datetime option \<Rightarrow> decimal option" where
  "peak_equity_since db account since =
     (case map sn_equity (filter (\<lambda>s. sn_account s = account
              \<and> (case since of None \<Rightarrow> True | Some t \<Rightarrow> t \<le> sn_captured_at s)) (db_snapshots db)) of
        [] \<Rightarrow> None | e # es \<Rightarrow> Some (seq_max (e # es)))"

definition realized_results :: "trading_db \<Rightarrow> uuid \<Rightarrow> datetime option \<Rightarrow> decimal list" where
  \<comment> \<open>realized P&L entries, newest first\<close>
  "realized_results db account since =
     map le_amount (newest_first le_occurred_at
       (filter (\<lambda>e. le_account e = account \<and> le_type e = Realized_pnl
                \<and> (case since of None \<Rightarrow> True | Some t \<Rightarrow> t < le_occurred_at e)) (db_entries db)))"

definition losing_streak :: "trading_db \<Rightarrow> uuid \<Rightarrow> datetime option \<Rightarrow> nat" where
  "losing_streak db account since =
     length (takeWhile (\<lambda>amount. amount < 0) (take 50 (realized_results db account since)))"

definition bot_orders :: "trading_db \<Rightarrow> uuid \<Rightarrow> trade_order list" where
  \<comment> \<open>the orders joined through intent, signal and run to the bot\<close>
  "bot_orders db bot_id = filter (\<lambda>x. case o_intent x of
       None \<Rightarrow> False
     | Some iid \<Rightarrow> (\<exists>i \<in> set (db_intents db). oi_id i = iid
         \<and> (\<exists>s \<in> set (db_signals db). sg_id s = oi_signal i
             \<and> (\<exists>r \<in> set (db_runs db). br_id r = sg_bot_run s \<and> br_bot r = bot_id)))) (db_orders db)"

definition minutes_since_last_order :: "trading_db \<Rightarrow> uuid \<Rightarrow> datetime \<Rightarrow> decimal option" where
  "minutes_since_last_order db bot_id now =
     map_option (\<lambda>x. ddiv (total_seconds (now - o_created_at x)) 60) (latest_by o_created_at (bot_orders db bot_id))"

subsection \<open>Halts that follow a decision\<close>

definition rule_passed :: "rule_entry list \<Rightarrow> string \<Rightarrow> (string, bool) result" where
  "rule_passed results key = (case find (\<lambda>e. re_name e = key) results of
     None \<Rightarrow> Inl ''KeyError'' | Some e \<Rightarrow> Inr (re_passed e))"

definition bot_scope :: "trading_bot \<Rightarrow> halt_scope" where
  "bot_scope tb = \<lparr>hs_workspace = b_workspace tb, hs_type = ''bot'', hs_id = Some (b_id tb)\<rparr>"

definition account_scope :: "uuid \<Rightarrow> uuid \<Rightarrow> halt_scope" where
  "account_scope workspace account = \<lparr>hs_workspace = workspace, hs_type = ''account'', hs_id = Some account\<rparr>"

definition sync_halt :: "tx_env \<Rightarrow> halt_scope \<Rightarrow> string \<Rightarrow> bool \<Rightarrow> trading_db \<Rightarrow> trading_db" where
  "sync_halt env scope reason ok db =
     (if ok then snd (deescalate_one_step env scope reason None db)
      else snd (activate_or_escalate env scope reason Entry_halted True None db))"

definition sync_trading_halts ::
  "tx_env \<Rightarrow> trading_bot \<Rightarrow> uuid \<Rightarrow> pure_risk_result \<Rightarrow> trading_db \<Rightarrow> (string, trading_db) result" where
  "sync_trading_halts env tb account result db =
     (let results = pr_rule_results result
      in res_bind (rule_passed results ''data_delay'') (\<lambda>fresh.
         res_bind (rule_passed results ''daily_loss'') (\<lambda>daily.
         res_bind (rule_passed results ''weekly_loss'') (\<lambda>weekly.
         res_bind (rule_passed results ''peak_drawdown'') (\<lambda>peak.
           Inr (sync_halt env (account_scope (b_workspace tb) account) ''daily_loss_dd_limit''
                  (daily \<and> weekly \<and> peak)
                  (sync_halt env (bot_scope tb) ''data_delay'' fresh db)))))))"

subsection \<open>Evaluating a signal\<close>

definition add_decision ::
  "tx_env \<Rightarrow> uuid \<Rightarrow> uuid \<Rightarrow> risk_outcome \<Rightarrow> rule_entry list \<Rightarrow> decimal option \<Rightarrow> string option \<Rightarrow>
     trading_db \<Rightarrow> (string, risk_decision \<times> trading_db) result" where
  "add_decision env signal profile outcome results adjusted reason db =
     (if \<exists>d \<in> set (db_decisions db). rd_signal d = signal \<and> rd_profile_version d = profile
      then Inl ''IntegrityError''
      else let (did, db1) = fresh_id db;
               decision = \<lparr>rd_id = did, rd_signal = signal, rd_profile_version = profile,
                 rd_outcome = outcome, rd_rule_results = results,
                 rd_adjusted_quantity = map_option (env_column env) adjusted, rd_reason = reason\<rparr>
           in Inr (decision, db1\<lparr>db_decisions := db_decisions db1 @ [decision]\<rparr>))"

definition db_risk_state ::
  "tx_env \<Rightarrow> order_side \<Rightarrow> uuid \<Rightarrow> instrument \<Rightarrow> trading_bot \<Rightarrow> risk_rules \<Rightarrow> string \<Rightarrow> candle \<Rightarrow>
     nat \<Rightarrow> decimal \<Rightarrow> decimal \<Rightarrow> trading_db \<Rightarrow> risk_state" where
  "db_risk_state env side account instrument tb rules exchange_code latest bar_seconds stop_distance fee_per_unit db =
     (let now = env_now env;
          valuation = value_account db account instrument;
          day_start = date_of now * day_length;
          week_start = day_start - weekday_of (date_of now) * day_length;
          scope = account_scope (b_workspace tb) account;
          binance_position = (if exchange_code = ''binance''
                              then open_position db account (i_id instrument) else None)
      in \<lparr>rs_action = side, rs_now = now, rs_rules = rules, rs_exchange = exchange_code,
          rs_instrument = instrument, rs_market_price = c_close latest,
          rs_latest_close_time = c_close_time latest, rs_bar_seconds = bar_seconds,
          rs_stop_distance = stop_distance,
          rs_expected_slippage = dmul (spread_of db exchange_code (i_id instrument))
            (case slippage_coefficient exchange_code of Some c \<Rightarrow> c | None \<Rightarrow> 0),
          rs_fee_per_unit = fee_per_unit, rs_equity = av_equity valuation,
          rs_available_cash = av_cash valuation,
          rs_existing_open_risk = existing_open_risk db account (i_id instrument),
          rs_has_open_position = (binance_position \<noteq> None),
          rs_existing_quantity = (case binance_position of None \<Rightarrow> 0 | Some p \<Rightarrow> p_quantity p),
          rs_day_start_equity = equity_at db account day_start,
          rs_week_start_equity = equity_at db account week_start,
          rs_peak_equity = peak_equity_since db account (last_release_time db scope ''peak_drawdown_limit''),
          rs_consecutive_losses =
            losing_streak db account (last_release_time db scope ''consecutive_loss_limit''),
          rs_minutes_since_last_order = minutes_since_last_order db (b_id tb) now\<rparr>)"

definition evaluate_signal ::
  "tx_env \<Rightarrow> signal_row \<Rightarrow> uuid \<Rightarrow> instrument \<Rightarrow> trading_bot \<Rightarrow> risk_profile_version \<Rightarrow> string \<Rightarrow>
     trading_db \<Rightarrow> (string, (risk_decision \<times> decimal option) \<times> trading_db) result" where
  "evaluate_signal env signal account instrument tb profile exchange_code db =
     (if sg_action signal = Hold then Inl ''invalid_signal_action''
      else let rules = rp_rules profile;
               candles = recent_final_candles db (i_id instrument) (b_timeframe tb) atr_history_candles;
               spread = spread_of db exchange_code (i_id instrument)
      in if candles = [] then Inl ''market_price_unavailable''
      else res_bind (stop_distance_of exchange_code instrument candles spread rules) (\<lambda>stop_distance.
           res_bind (fee_buffer_per_unit exchange_code (c_close (last candles)) rules) (\<lambda>fee_per_unit.
           let equity = av_equity (value_account db account instrument)
           in if equity \<le> 0 then
                res_bind (add_decision env (sg_id signal) (rp_id profile) Deny
                    [\<lparr>re_name = ''equity'', re_passed = False, re_values = [(''value'', equity)]\<rparr>]
                    None (Some ''hard_limit_breach'') db)
                  (\<lambda>(decision, db1). Inr ((decision, None), db1))
              else case timeframe_seconds (b_timeframe tb) of
                None \<Rightarrow> Inl ''KeyError''
              | Some bar_seconds \<Rightarrow>
                  (let result = evaluate_conservative_v1 (db_risk_state env (side_of_signal (sg_action signal))
                         account instrument tb rules exchange_code (last candles) bar_seconds
                         stop_distance fee_per_unit db)
                   in res_bind (add_decision env (sg_id signal) (rp_id profile) (pr_outcome result)
                          (pr_rule_results result)
                          (if pr_outcome result = Allow_with_adjustment then pr_quantity result else None)
                          (pr_reason result) db)
                        (\<lambda>(decision, db1).
                      res_bind (sync_trading_halts env tb account result db1) (\<lambda>db2.
                        Inr ((decision, pr_quantity result), db2)))))))"

subsection \<open>Locks\<close>

record lock_reading =
  lr_consecutive_losses :: nat
  lr_peak_drawdown_pct :: "decimal option"

definition read_locks ::
  "trading_db \<Rightarrow> uuid \<Rightarrow> datetime option \<Rightarrow> datetime option \<Rightarrow> decimal \<Rightarrow> lock_reading" where
  "read_locks db account consecutive_loss_since peak_since equity =
     \<lparr>lr_consecutive_losses = losing_streak db account consecutive_loss_since,
      lr_peak_drawdown_pct = (case peak_equity_since db account peak_since of
         None \<Rightarrow> None
       | Some peak \<Rightarrow> if 0 < peak then Some (max 0 (ddiv (dsub peak equity) peak)) else None)\<rparr>"

definition activate_lock ::
  "tx_env \<Rightarrow> halt_scope \<Rightarrow> string \<Rightarrow> string list \<Rightarrow> payload \<Rightarrow> trading_db \<Rightarrow> bool \<times> trading_db" where
  "activate_lock env scope reason message payload db =
     (if find_active_halt db scope reason \<noteq> None then (False, db)
      else (True, snd (activate_or_escalate env scope reason Entry_halted False
             (Some \<lparr>he_type = ''trading_halt.'' @ reason, he_message = message, he_payload = payload,
                    he_source_type = ''risk_gate'', he_source_id = None, he_correlation = None\<rparr>) db)))"

definition streak_payload :: "nat \<Rightarrow> nat \<Rightarrow> trading_bot \<Rightarrow> payload" where
  "streak_payload losses limit tb = [(''consecutive_losses'', D_int (int losses)), (''limit'', D_int (int limit)),
     (''bot_id'', D_id (b_id tb)), (''bot_name'', D_text (b_name tb))]"

definition drawdown_payload :: "decimal \<Rightarrow> decimal \<Rightarrow> trading_bot \<Rightarrow> payload" where
  "drawdown_payload pct limit tb = [(''peak_drawdown_pct'', D_decimal pct), (''limit'', D_decimal limit),
     (''bot_id'', D_id (b_id tb)), (''bot_name'', D_text (b_name tb))]"

definition lock_over_limit :: "lock_reading \<Rightarrow> risk_rules \<Rightarrow> string \<Rightarrow> bool" where
  \<comment> \<open>the condition under which \<open>sync_lock_halts\<close> asks for the lock of a reason\<close>
  "lock_over_limit reading rules reason \<longleftrightarrow>
     (if reason = ''consecutive_loss_limit'' then consecutive_loss_limit rules < lr_consecutive_losses reading
      else reason = ''peak_drawdown_limit''
        \<and> (case lr_peak_drawdown_pct reading of None \<Rightarrow> False | Some pct \<Rightarrow> peak_drawdown_limit rules < pct))"

definition account_lock_reading :: "trading_bot \<Rightarrow> uuid \<Rightarrow> instrument \<Rightarrow> trading_db \<Rightarrow> lock_reading" where
  "account_lock_reading tb account instrument db =
     (let scope = account_scope (b_workspace tb) account
      in read_locks db account (last_release_time db scope ''consecutive_loss_limit'')
           (last_release_time db scope ''peak_drawdown_limit'') (av_equity (value_account db account instrument)))"

definition sync_lock_halts ::
  "tx_env \<Rightarrow> trading_bot \<Rightarrow> uuid \<Rightarrow> instrument \<Rightarrow> risk_profile_version \<Rightarrow> trading_db \<Rightarrow> string list \<times> trading_db" where
  "sync_lock_halts env tb account instrument profile db =
     (let rules = rp_rules profile;
          scope = account_scope (b_workspace tb) account;
          reading = account_lock_reading tb account instrument db;
          losses = lr_consecutive_losses reading;
          (streak, db1) = (if lock_over_limit reading rules ''consecutive_loss_limit''
             then activate_lock env scope ''consecutive_loss_limit'' [''consecutive_losses'']
                    (streak_payload losses (consecutive_loss_limit rules) tb) db
             else (False, db));
          (drawdown, db2) = (if lock_over_limit reading rules ''peak_drawdown_limit''
             then activate_lock env scope ''peak_drawdown_limit'' [''peak_drawdown'']
                    (drawdown_payload (the (lr_peak_drawdown_pct reading)) (peak_drawdown_limit rules) tb) db1
             else (False, db1))
      in ((if streak then [''consecutive_loss_limit''] else []) @ (if drawdown then [''peak_drawdown_limit''] else []),
          db2))"

subsection \<open>Lemmas: what moves a halt moves nothing else\<close>

definition halt_frame :: "trading_db \<Rightarrow> trading_db \<Rightarrow> bool" where
  \<comment> \<open>only halts, events and the outbox may differ\<close>
  "halt_frame db db' \<longleftrightarrow> db_next_id db \<le> db_next_id db'
     \<and> db' = db\<lparr>db_next_id := db_next_id db', db_halts := db_halts db', db_events := db_events db', db_outbox := db_outbox db'\<rparr>"

lemma halt_frame_refl [simp, intro]: "halt_frame db db"
  by (simp add: halt_frame_def)

lemma halt_frame_sel:
  assumes "halt_frame db db'"
  shows "db_catalog db' = db_catalog db" "db_audit db' = db_audit db" "db_intents db' = db_intents db"
    "db_orders db' = db_orders db" "db_history db' = db_history db" "db_fills db' = db_fills db"
    "db_positions db' = db_positions db" "db_transactions db' = db_transactions db" "db_entries db' = db_entries db"
    "db_snapshots db' = db_snapshots db" "db_bots db' = db_bots db" "db_runs db' = db_runs db"
    "db_signals db' = db_signals db" "db_decisions db' = db_decisions db" "db_next_id db \<le> db_next_id db'"
proof -
  obtain n hs es os where "db' = db\<lparr>db_next_id := n, db_halts := hs, db_events := es, db_outbox := os\<rparr>"
    using assms unfolding halt_frame_def by blast
  moreover have "db_next_id db \<le> db_next_id db'" using assms by (simp add: halt_frame_def)
  ultimately show "db_catalog db' = db_catalog db" "db_audit db' = db_audit db" "db_intents db' = db_intents db"
    "db_orders db' = db_orders db" "db_history db' = db_history db" "db_fills db' = db_fills db"
    "db_positions db' = db_positions db" "db_transactions db' = db_transactions db" "db_entries db' = db_entries db"
    "db_snapshots db' = db_snapshots db" "db_bots db' = db_bots db" "db_runs db' = db_runs db"
    "db_signals db' = db_signals db" "db_decisions db' = db_decisions db" "db_next_id db \<le> db_next_id db'"
    by simp_all
qed

lemma halt_frame_trans [trans]:
  assumes "halt_frame a b" "halt_frame b c" shows "halt_frame a c"
  using halt_frame_sel [OF assms(1)] halt_frame_sel [OF assms(2)]
  unfolding halt_frame_def by (auto intro: trading_db.equality)

lemma publish_halt_frame: "halt_frame db (snd (publish_system_event env ws sev cat et rs msg pl agt ai st si tt ti co db))"
  using publish_next_id [of db env ws sev cat et rs msg pl agt ai st si tt ti co]
  unfolding halt_frame_def by (intro conjI less_imp_le trading_db.equality) simp_all

lemma announce_halt_frame: "halt_frame db (snd (announce env h ev p db))"
  unfolding announce_def by (rule publish_halt_frame)

lemma store_halt_frame: "halt_frame db (store_halt h db)"
  by (simp add: halt_frame_def store_halt_def)

lemma activate_halt_frame: "halt_frame db (snd (activate_or_escalate env scope reason level auto ev db))"
proof (cases "find_active_halt db scope reason")
  case None
  let ?h = "new_halt env (db_next_id db) scope reason level auto"
  let ?db2 = "db\<lparr>db_next_id := Suc (db_next_id db), db_halts := db_halts db @ [?h]\<rparr>"
  have "halt_frame db ?db2" by (simp add: halt_frame_def)
  moreover note announce_halt_frame [of ?db2 env ?h ev None]
  ultimately show ?thesis using None halt_frame_trans store_halt_frame
    by (auto simp: activate_or_escalate_def Let_def split_def)
next
  case (Some e)
  then show ?thesis
    by (auto simp: activate_or_escalate_def Let_def split_def
        intro: halt_frame_trans announce_halt_frame store_halt_frame)
qed

lemma deescalate_halt_frame: "halt_frame db (snd (deescalate_one_step env scope reason b db))"
  by (auto simp: deescalate_one_step_def Let_def store_halt_frame split: option.split)

lemma sync_halt_frame: "halt_frame db (sync_halt env scope reason ok db)"
  by (simp add: sync_halt_def activate_halt_frame deescalate_halt_frame)

lemma sync_halt_step: "halt_step db (sync_halt env scope reason ok db)"
  by (simp add: sync_halt_def activate_step relax_step)

lemma activate_lock_frame: "halt_frame db (snd (activate_lock env scope reason msg pl db))"
  by (simp add: activate_lock_def activate_halt_frame)

lemma activate_lock_steps: "halt_step\<^sup>*\<^sup>* db (snd (activate_lock env scope reason msg pl db))"
  by (auto simp: activate_lock_def intro: r_into_rtranclp activate_step)

lemma sync_lock_halts_eq:
  "snd (sync_lock_halts env tb account instrument profile db)
     = (let reading = account_lock_reading tb account instrument db;
            scope = account_scope (b_workspace tb) account;
            db1 = (if lock_over_limit reading (rp_rules profile) ''consecutive_loss_limit''
               then snd (activate_lock env scope ''consecutive_loss_limit'' [''consecutive_losses'']
                 (streak_payload (lr_consecutive_losses reading) (consecutive_loss_limit (rp_rules profile)) tb) db) else db)
        in if lock_over_limit reading (rp_rules profile) ''peak_drawdown_limit''
           then snd (activate_lock env scope ''peak_drawdown_limit'' [''peak_drawdown'']
             (drawdown_payload (the (lr_peak_drawdown_pct reading)) (peak_drawdown_limit (rp_rules profile)) tb) db1)
           else db1)"
  by (simp add: sync_lock_halts_def Let_def split_def)

lemma sync_lock_halts_frame: "halt_frame db (snd (sync_lock_halts env tb account instrument profile db))"
  by (auto simp: sync_lock_halts_eq Let_def intro: halt_frame_trans activate_lock_frame)

lemma sync_lock_halts_steps: "halt_step\<^sup>*\<^sup>* db (snd (sync_lock_halts env tb account instrument profile db))"
  by (auto simp: sync_lock_halts_eq Let_def intro: rtranclp_trans activate_lock_steps)

subsection \<open>Lemmas: which halts the machine may lower\<close>

definition machine_relaxes :: "string set" where
  "machine_relaxes = {''data_delay'', ''daily_loss_dd_limit''}"

definition halts_kept :: "trading_db \<Rightarrow> trading_db \<Rightarrow> bool" where
  \<comment> \<open>every active halt the machine may not relax is still active, at its level or above\<close>
  "halts_kept db db' \<longleftrightarrow> (\<forall>h \<in> set (db_halts db). active h \<longrightarrow> h_reason h \<notin> machine_relaxes \<longrightarrow>
     (\<exists>h' \<in> set (db_halts db'). h_id h' = h_id h \<and> active h' \<and> cause h' = cause h \<and> h_level h \<le> h_level h'))"

lemma halts_kept_same: "db_halts db' = db_halts db \<Longrightarrow> halts_kept db db'"
  by (auto simp: halts_kept_def)

lemma halts_kept_trans [trans]:
  assumes "halts_kept a b" "halts_kept b c" shows "halts_kept a c"
  unfolding halts_kept_def
proof (intro ballI impI)
  fix h assume "h \<in> set (db_halts a)" "active h" "h_reason h \<notin> machine_relaxes"
  then obtain h' where h': "h' \<in> set (db_halts b)" "h_id h' = h_id h" "active h'" "cause h' = cause h" "h_level h \<le> h_level h'"
    using assms(1) by (auto simp: halts_kept_def)
  then have "h_reason h' \<notin> machine_relaxes" using \<open>h_reason h \<notin> machine_relaxes\<close> by (simp add: cause_def)
  then obtain h'' where "h'' \<in> set (db_halts c)" "h_id h'' = h_id h'" "active h''" "cause h'' = cause h'" "h_level h' \<le> h_level h''"
    using assms(2) h' by (auto simp: halts_kept_def)
  then show "\<exists>x \<in> set (db_halts c). h_id x = h_id h \<and> active x \<and> cause x = cause h \<and> h_level h \<le> h_level x"
    using h' by (intro bexI [of _ h'']) auto
qed

lemma halts_kept_update:
  assumes "halts_ok db" "e \<in> set (db_halts db)" "h_id r = h_id e" "set (update_row h_id r (db_halts db)) \<subseteq> set (db_halts db')"
    and "h_reason e \<in> machine_relaxes \<or> (active r \<and> cause r = cause e \<and> h_level e \<le> h_level r)"
  shows "halts_kept db db'"
  unfolding halts_kept_def
proof (intro ballI impI)
  fix h assume h: "h \<in> set (db_halts db)" "active h" "h_reason h \<notin> machine_relaxes"
  have same: "h = e" if "h_id h = h_id e"
    using assms(1,2) h(1) that exclusive_key unfolding halts_ok_def by metis
  show "\<exists>h' \<in> set (db_halts db'). h_id h' = h_id h \<and> active h' \<and> cause h' = cause h \<and> h_level h \<le> h_level h'"
  proof (cases "h_id h = h_id e")
    case True
    then have "r \<in> set (db_halts db')" using assms(2-4) by (auto simp: set_update_row)
    then show ?thesis using same [OF True] h(3) assms(3,5) by (intro bexI [of _ r]) auto
  next
    case False
    then have "h \<in> set (db_halts db')" using h(1) assms(3,4) by (auto simp: set_update_row)
    then show ?thesis by (intro bexI [of _ h]) (use h(2) in simp_all)
  qed
qed

lemma activate_keeps: 
  assumes "halts_ok db" shows "halts_kept db (snd (activate_or_escalate env scope reason level auto ev db))"
proof (cases "find_active_halt db scope reason")
  case None
  let ?r = "activate_or_escalate env scope reason level auto ev db"
  have rows: "db_halts (snd ?r) = update_row h_id (fst ?r) (db_halts db @ [new_halt env (db_next_id db) scope reason level auto])"
    and id: "h_id (fst ?r) = db_next_id db"
    using activate_or_escalate_cases [OF refl, of db scope reason env level auto ev] None by auto
  have "set (db_halts db) \<subseteq> set (db_halts (snd ?r))"
    using assms unfolding rows by (auto simp: set_update_row id halts_ok_def exclusive_def)
  then show ?thesis by (force simp: halts_kept_def)
next
  case (Some e)
  let ?r = "activate_or_escalate env scope reason level auto ev db"
  note active = find_active_halt_Some [OF Some]
  show ?thesis
  proof (cases "h_level e < level")
    case True
    then have "db_halts (snd ?r) = update_row h_id (e\<lparr>h_level := level\<rparr>) (db_halts db)"
      using activate_or_escalate_cases [OF refl, of db scope reason env level auto ev] Some by auto
    then show ?thesis using active True
      by (intro halts_kept_update [OF assms, of e "e\<lparr>h_level := level\<rparr>"]) (simp_all add: cause_def less_imp_le)
  next
    case False
    then show ?thesis using activate_or_escalate_cases [OF refl, of db scope reason env level auto ev] Some
      by (auto simp: halts_kept_same)
  qed
qed

lemma deescalate_keeps:
  assumes "halts_ok db" "reason \<in> machine_relaxes"
  shows "halts_kept db (snd (deescalate_one_step env scope reason b db))"
  using deescalate_cases [of env scope reason b db]
proof (elim disjE exE conjE)
  fix e h assume *: "find_active_halt db scope reason = Some e" "halt_move e h"
    "snd (deescalate_one_step env scope reason b db) = store_halt h db"
  then show ?thesis
    using find_active_halt_Some [OF *(1)] halt_move_identity [OF *(2)] assms(2)
    by (intro halts_kept_update [OF assms(1), of e h]) auto
qed (simp add: halts_kept_same)

lemma sync_halt_keeps:
  "halts_ok db \<Longrightarrow> reason \<in> machine_relaxes \<Longrightarrow> halts_kept db (sync_halt env scope reason ok db)"
  by (simp add: sync_halt_def activate_keeps deescalate_keeps)

lemma activate_lock_keeps: "halts_ok db \<Longrightarrow> halts_kept db (snd (activate_lock env scope reason msg pl db))"
  by (simp add: activate_lock_def activate_keeps halts_kept_same)

lemma activate_lock_ok: "halts_ok db \<Longrightarrow> halts_ok (snd (activate_lock env scope reason msg pl db))"
  using halt_life.reachable_keeps activate_lock_steps by blast

lemma sync_halt_ok: "halts_ok db \<Longrightarrow> halts_ok (sync_halt env scope reason ok db)"
  using halt_life.reachable_keeps sync_halt_step by blast

lemma sync_lock_halts_keeps:
  assumes "halts_ok db" shows "halts_kept db (snd (sync_lock_halts env tb account instrument profile db))"
proof -
  define db1 where "db1 = (if lock_over_limit (account_lock_reading tb account instrument db) (rp_rules profile) ''consecutive_loss_limit''
     then snd (activate_lock env (account_scope (b_workspace tb) account) ''consecutive_loss_limit'' [''consecutive_losses'']
       (streak_payload (lr_consecutive_losses (account_lock_reading tb account instrument db))
         (consecutive_loss_limit (rp_rules profile)) tb) db) else db)"
  have "halts_kept db db1" "halts_ok db1"
    using assms by (simp_all add: db1_def activate_lock_keeps activate_lock_ok halts_kept_same)
  then show ?thesis
    unfolding sync_lock_halts_eq Let_def db1_def [symmetric]
    by (cases "lock_over_limit (account_lock_reading tb account instrument db) (rp_rules profile) ''peak_drawdown_limit''")
      (simp_all, blast intro: halts_kept_trans activate_lock_keeps)
qed

subsection \<open>Lemmas: the decision\<close>

lemma rule_passed_find: "(\<exists>e \<in> set results. re_name e = key) \<Longrightarrow> \<exists>b. rule_passed results key = Inr b"
  by (auto simp: rule_passed_def find_None_iff split: option.split)

definition rule_names :: "check_acc \<Rightarrow> string set" where
  "rule_names acc = re_name ` set (ca_results acc)"

lemma rule_names_checks:
  "rule_names (record_check n v h i acc) = insert n (rule_names acc)"
  "rule_names (check_decline n r e a b acc) = insert n (rule_names acc)"
  "rule_names (check_interval s acc) = insert ''order_interval'' (rule_names acc)"
  "rule_names acc \<subseteq> rule_names (check_binance s q acc)"
  by (auto simp: rule_names_def check_decline_def check_upper_def check_interval_def check_binance_def Let_def
      split: option.split)

lemma rules_recorded:
  "{''data_delay'', ''daily_loss'', ''weekly_loss'', ''peak_drawdown'', ''quantity_calculation''}
     \<subseteq> re_name ` set (pr_rule_results (evaluate_conservative_v1 s))"
proof -
  have "pr_rule_results (evaluate_conservative_v1 s) = ca_results (run_checks s (sized_quantity s))"
    by (simp add: evaluate_conservative_v1_def Let_def)
  moreover have "{''data_delay'', ''daily_loss'', ''weekly_loss'', ''peak_drawdown'', ''quantity_calculation''}
      \<subseteq> rule_names (run_checks s q)" for q
    unfolding run_checks_def o_apply
    by (rule order_trans [OF _ rule_names_checks(4)])
      (simp add: rule_names_checks check_sizing_def check_loss_def check_all_open_def check_windows_def
        check_drawdown_def check_consecutive_def check_reward_risk_def check_delay_def check_upper_def)
  ultimately show ?thesis by (simp add: rule_names_def)
qed

lemma add_decision_Inr:
  assumes "add_decision env sid pid outcome results adjusted reason db = Inr (d, db')"
  shows "db' = db\<lparr>db_next_id := Suc (db_next_id db), db_decisions := db_decisions db @ [d]\<rparr>
    \<and> rd_id d = db_next_id db \<and> rd_signal d = sid \<and> rd_profile_version d = pid \<and> rd_outcome d = outcome
    \<and> rd_rule_results d = results \<and> rd_reason d = reason
    \<and> (\<forall>x \<in> set (db_decisions db). rd_signal x = sid \<longrightarrow> rd_profile_version x \<noteq> pid)"
  using assms by (auto simp: add_decision_def Let_def split_def split: if_splits)

definition rule_holds :: "pure_risk_result \<Rightarrow> string \<Rightarrow> bool" where
  "rule_holds result key = (rule_passed (pr_rule_results result) key = Inr True)"

lemma sync_trading_halts_evaluated:
  "sync_trading_halts env tb account (evaluate_conservative_v1 s) db
     = Inr (sync_halt env (account_scope (b_workspace tb) account) ''daily_loss_dd_limit''
              (rule_holds (evaluate_conservative_v1 s) ''daily_loss'' \<and> rule_holds (evaluate_conservative_v1 s) ''weekly_loss''
                \<and> rule_holds (evaluate_conservative_v1 s) ''peak_drawdown'')
              (sync_halt env (bot_scope tb) ''data_delay'' (rule_holds (evaluate_conservative_v1 s) ''data_delay'') db))"
proof -
  let ?p = "rule_passed (pr_rule_results (evaluate_conservative_v1 s))"
  have "\<exists>b. ?p key = Inr b" if "key \<in> {''data_delay'', ''daily_loss'', ''weekly_loss'', ''peak_drawdown''}" for key
    using rules_recorded [of s] that by (intro rule_passed_find) auto
  then obtain a b c d where "?p ''data_delay'' = Inr a" "?p ''daily_loss'' = Inr b" "?p ''weekly_loss'' = Inr c"
    "?p ''peak_drawdown'' = Inr d" by (metis insertI1 insertI2)
  then show ?thesis by (simp add: sync_trading_halts_def rule_holds_def Let_def)
qed

lemma evaluate_signal_cases:
  assumes "evaluate_signal env signal account instrument tb profile ex db = Inr ((d, q), db')"
  obtains (no_equity) "av_equity (value_account db account instrument) \<le> 0" "q = None"
      "add_decision env (sg_id signal) (rp_id profile) Deny
         [\<lparr>re_name = ''equity'', re_passed = False, re_values = [(''value'', av_equity (value_account db account instrument))]\<rparr>]
         None (Some ''hard_limit_breach'') db = Inr (d, db')"
  | (gate) st db1 where "0 < av_equity (value_account db account instrument)" "sg_action signal \<noteq> Hold"
      "q = pr_quantity (evaluate_conservative_v1 st)" "rs_rules st = rp_rules profile"
      "\<exists>latest bars stop fee. stop_distance_of ex instrument
           (recent_final_candles db (i_id instrument) (b_timeframe tb) atr_history_candles)
           (spread_of db ex (i_id instrument)) (rp_rules profile) = Inr stop
         \<and> st = db_risk_state env (side_of_signal (sg_action signal)) account instrument tb
             (rp_rules profile) ex latest bars stop fee db"
      "add_decision env (sg_id signal) (rp_id profile) (pr_outcome (evaluate_conservative_v1 st))
         (pr_rule_results (evaluate_conservative_v1 st))
         (if pr_outcome (evaluate_conservative_v1 st) = Allow_with_adjustment
          then pr_quantity (evaluate_conservative_v1 st) else None)
         (pr_reason (evaluate_conservative_v1 st)) db = Inr (d, db1)"
      "sync_trading_halts env tb account (evaluate_conservative_v1 st) db1 = Inr db'"
proof (cases "av_equity (value_account db account instrument) \<le> 0")
  case True
  then show ?thesis
    using assms no_equity by (auto simp: evaluate_signal_def Let_def result_simps split: if_splits)
next
  case False
  obtain stop fee bars where parts: "stop_distance_of ex instrument
           (recent_final_candles db (i_id instrument) (b_timeframe tb) atr_history_candles)
           (spread_of db ex (i_id instrument)) (rp_rules profile) = Inr stop"
      "fee_buffer_per_unit ex (c_close (last (recent_final_candles db (i_id instrument) (b_timeframe tb) atr_history_candles)))
         (rp_rules profile) = Inr fee" "timeframe_seconds (b_timeframe tb) = Some bars"
    using assms False by (auto simp: evaluate_signal_def Let_def result_simps split: if_splits option.splits)
  let ?st = "db_risk_state env (side_of_signal (sg_action signal)) account instrument tb (rp_rules profile) ex
     (last (recent_final_candles db (i_id instrument) (b_timeframe tb) atr_history_candles)) bars stop fee db"
  have "rs_rules ?st = rp_rules profile" by (simp add: db_risk_state_def Let_def)
  then show ?thesis
    using assms False parts gate [of ?st]
    by (auto simp: evaluate_signal_def Let_def result_simps split: if_splits)
qed

text \<open>
  Evaluating a signal records exactly one decision, and it is the gate's: a
  quantity is approved exactly when the recorded outcome is not a denial, and an approved quantity
  is positive, keeps the loss at the stop inside the risk per trade of the profile, and was approved
  with positive equity.
\<close>

theorem evaluation_records_the_decision:
  assumes "evaluate_signal env signal account instrument tb profile ex db = Inr ((d, q), db')"
  shows "db_decisions db' = db_decisions db @ [d] \<and> rd_signal d = sg_id signal \<and> rd_profile_version d = rp_id profile
    \<and> (rd_outcome d = Deny \<longleftrightarrow> q = None)
    \<and> (\<forall>x. q = Some x \<longrightarrow> 0 < x \<and> 0 < av_equity (value_account db account instrument)
         \<and> (\<exists>stop. stop_distance_of ex instrument
                (recent_final_candles db (i_id instrument) (b_timeframe tb) atr_history_candles)
                (spread_of db ex (i_id instrument)) (rp_rules profile) = Inr stop
              \<and> (\<exists>fee latest bars. loss_pct (db_risk_state env (side_of_signal (sg_action signal)) account instrument tb
                   (rp_rules profile) ex latest bars stop fee db) x \<le> risk_per_trade (rp_rules profile))))"
  using assms
proof (cases rule: evaluate_signal_cases)
  case no_equity
  then show ?thesis using add_decision_Inr [OF no_equity(3)] by simp
next
  case (gate st db1)
  have "halt_frame db1 db'"
    using gate(7) halt_frame_trans [OF sync_halt_frame sync_halt_frame] by (force simp: sync_trading_halts_evaluated)
  then have "db_decisions db' = db_decisions db @ [d]"
    using add_decision_Inr [OF gate(6)] halt_frame_sel by auto
  moreover have "0 < x \<and> loss_pct st x \<le> risk_per_trade (rp_rules profile)" if "q = Some x" for x
    using approval_limits [of st x] that gate(3,4) by simp
  moreover have "rd_outcome d = Deny \<longleftrightarrow> q = None"
    using add_decision_Inr [OF gate(6)] rule_results_agree [of st] gate(3) by simp
  ultimately show ?thesis using add_decision_Inr [OF gate(6)] gate(1,5) by blast
qed

lemma evaluate_signal_effect:
  assumes "evaluate_signal env signal account instrument tb profile ex db = Inr ((d, q), db')" "halts_ok db"
  shows "halts_ok db'" and "halts_kept db db'"
    and "halt_frame (db\<lparr>db_next_id := Suc (db_next_id db), db_decisions := db_decisions db @ [d]\<rparr>) db'"
proof -
  have "halts_ok db' \<and> halts_kept db db'
    \<and> halt_frame (db\<lparr>db_next_id := Suc (db_next_id db), db_decisions := db_decisions db @ [d]\<rparr>) db'"
    using assms(1)
  proof (cases rule: evaluate_signal_cases)
    case no_equity
    then show ?thesis using add_decision_Inr [OF no_equity(3)] assms(2)
      by (auto simp: halts_ok_def halts_kept_same intro: exclusive_mono)
  next
    case (gate st db1)
    note db1 = add_decision_Inr [OF gate(6)]
    let ?r = "evaluate_conservative_v1 st"
    let ?db2 = "sync_halt env (bot_scope tb) ''data_delay'' (rule_holds ?r ''data_delay'') db1"
    have ok1: "halts_ok db1" using assms(2) db1 by (auto simp: halts_ok_def intro: exclusive_mono)
    have db': "db' = sync_halt env (account_scope (b_workspace tb) account) ''daily_loss_dd_limit''
        (rule_holds ?r ''daily_loss'' \<and> rule_holds ?r ''weekly_loss'' \<and> rule_holds ?r ''peak_drawdown'') ?db2"
      using gate(7) by (simp add: sync_trading_halts_evaluated)
    have "halts_kept db1 ?db2" "halts_kept ?db2 db'" "halts_ok ?db2"
      using ok1 unfolding db' by (simp_all add: sync_halt_keeps sync_halt_ok machine_relaxes_def)
    moreover have "halts_kept db db1" using db1 by (intro halts_kept_same) simp
    moreover have "halts_ok db'" unfolding db' using ok1 by (intro sync_halt_ok)
    moreover have "halt_frame db1 db'" unfolding db' by (rule halt_frame_trans [OF sync_halt_frame sync_halt_frame])
    ultimately show ?thesis using db1 halts_kept_trans by blast
  qed
  then show "halts_ok db'" "halts_kept db db'"
    "halt_frame (db\<lparr>db_next_id := Suc (db_next_id db), db_decisions := db_decisions db @ [d]\<rparr>) db'" by blast+
qed

subsection \<open>Locks block entries\<close>

definition locks_ok :: "trading_db \<Rightarrow> bool" where
  "locks_ok db \<longleftrightarrow> (\<forall>h \<in> set (db_halts db). active h \<longrightarrow> h_reason h \<in> lock_reasons \<longrightarrow> Entry_halted \<le> h_level h)"

lemma activate_lock_active:
  assumes "halts_ok db" "locks_ok db" "reason \<in> lock_reasons"
  shows "\<exists>h. find_active_halt (snd (activate_lock env scope reason msg pl db)) scope reason = Some h \<and> Entry_halted \<le> h_level h"
proof (cases "find_active_halt db scope reason")
  case None
  let ?r = "activate_or_escalate env scope reason Entry_halted False
     (Some \<lparr>he_type = ''trading_halt.'' @ reason, he_message = msg, he_payload = pl,
            he_source_type = ''risk_gate'', he_source_id = None, he_correlation = None\<rparr>) db"
  have "find_active_halt (snd ?r) scope reason = Some (fst ?r) \<and> h_level (fst ?r) = Entry_halted"
    using activation_effect [OF assms(1), of env scope reason Entry_halted False _ "fst ?r" "snd ?r"] None by simp
  then show ?thesis using None by (simp add: activate_lock_def)
next
  case (Some h)
  then show ?thesis using find_active_halt_Some [OF Some] assms(2,3) by (auto simp: activate_lock_def locks_ok_def)
qed

lemma activate_lock_locks_ok:
  assumes "locks_ok db" shows "locks_ok (snd (activate_lock env scope reason msg pl db))"
proof (cases "find_active_halt db scope reason")
  case None
  let ?e = "Some \<lparr>he_type = ''trading_halt.'' @ reason, he_message = msg, he_payload = pl,
            he_source_type = ''risk_gate'', he_source_id = None, he_correlation = None\<rparr>"
  let ?r = "activate_or_escalate env scope reason Entry_halted False ?e db"
  have "h_level (fst ?r) = Entry_halted"
    "db_halts (snd ?r) = update_row h_id (fst ?r) (db_halts db @ [new_halt env (db_next_id db) scope reason Entry_halted False])"
    using activate_or_escalate_cases [OF refl, of db scope reason env Entry_halted False ?e] None by auto
  then have "locks_ok (snd ?r)" using assms by (auto simp: locks_ok_def set_update_row)
  then show ?thesis using None by (simp add: activate_lock_def)
qed (use assms in \<open>simp add: activate_lock_def\<close>)

lemma active_halt_blocks:
  assumes "find_active_halt db (account_scope ws account) reason = Some h" "Entry_halted \<le> h_level h"
  shows "entry_blocked_by_halt db ws account bot_id"
  using find_active_halt_Some [OF assms(1)] assms(2)
  by (auto simp: entry_blocked_by_halt_def has_active_halt_at_or_above_def in_scope_iff account_scope_def)

lemma lock_reasons_kept: "reason \<in> lock_reasons \<Longrightarrow> reason \<notin> machine_relaxes"
  by (auto simp: lock_reasons_def machine_relaxes_def)

lemma kept_halt:
  assumes "halts_kept db db'" "halts_ok db'" "find_active_halt db scope reason = Some h"
    and "Entry_halted \<le> h_level h" "reason \<notin> machine_relaxes"
  shows "\<exists>h'. find_active_halt db' scope reason = Some h' \<and> Entry_halted \<le> h_level h'"
proof -
  note h = find_active_halt_Some [OF assms(3)]
  then obtain h' where h': "h' \<in> set (db_halts db')" "active h'" "cause h' = cause h" "h_level h \<le> h_level h'"
    using assms(1,5) unfolding halts_kept_def by blast
  then have "find_active_halt db' scope reason = Some h'"
    using find_active_halt_unique [OF assms(2) h'(1,2)] h by (simp add: cause_def)
  then show ?thesis using h'(4) assms(4) by auto
qed

lemma exceeded_limit_halt:
  assumes "halts_ok db" "locks_ok db" "reason \<in> lock_reasons"
    and "lock_over_limit (account_lock_reading tb account instrument db) (rp_rules profile) reason"
    and "sync_lock_halts env tb account instrument profile db = (activated, db')"
  shows "\<exists>h. find_active_halt db' (account_scope (b_workspace tb) account) reason = Some h \<and> Entry_halted \<le> h_level h"
proof -
  let ?reading = "account_lock_reading tb account instrument db" and ?scope = "account_scope (b_workspace tb) account"
  let ?over = "lock_over_limit ?reading (rp_rules profile)"
  define db1 where "db1 = (if ?over ''consecutive_loss_limit''
     then snd (activate_lock env ?scope ''consecutive_loss_limit'' [''consecutive_losses'']
       (streak_payload (lr_consecutive_losses ?reading) (consecutive_loss_limit (rp_rules profile)) tb) db) else db)"
  have db': "db' = (if ?over ''peak_drawdown_limit'' then snd (activate_lock env ?scope ''peak_drawdown_limit'' [''peak_drawdown'']
       (drawdown_payload (the (lr_peak_drawdown_pct ?reading)) (peak_drawdown_limit (rp_rules profile)) tb) db1) else db1)"
    using assms(5) sync_lock_halts_eq [of env tb account instrument profile db] by (simp add: Let_def db1_def)
  have ok1: "halts_ok db1" "locks_ok db1"
    using assms(1,2) by (simp_all add: db1_def activate_lock_ok activate_lock_locks_ok)
  have kept: "halts_kept db1 db'" using ok1 by (simp add: db' activate_lock_keeps halts_kept_same)
  have ok': "halts_ok db'" using ok1 by (simp add: db' activate_lock_ok)
  from assms(3) consider "reason = ''consecutive_loss_limit''" | "reason = ''peak_drawdown_limit''"
    by (auto simp: lock_reasons_def)
  then show ?thesis
  proof cases
    case 1
    then have "\<exists>msg pl. db1 = snd (activate_lock env ?scope reason msg pl db)" using assms(4) by (auto simp: db1_def)
    then obtain h where "find_active_halt db1 ?scope reason = Some h" "Entry_halted \<le> h_level h"
      using activate_lock_active [OF assms(1,2,3)] by blast
    then show ?thesis using kept_halt [OF kept ok'] lock_reasons_kept [OF assms(3)] by blast
  next
    case 2
    then have "\<exists>msg pl. db' = snd (activate_lock env ?scope reason msg pl db1)" using assms(4) by (auto simp: db')
    then obtain h where "find_active_halt db' ?scope reason = Some h" "Entry_halted \<le> h_level h"
      using activate_lock_active [OF ok1 assms(3)] by blast
    then show ?thesis by blast
  qed
qed

text \<open>
  A losing streak or a drawdown over its limit stops entries: after the locks are
  synchronised, no bot of the account may open or increase a position, whatever halts existed before.
\<close>

theorem exceeded_limit_blocks_entries:
  assumes "halts_ok db" "locks_ok db" "reason \<in> lock_reasons"
    and "lock_over_limit (account_lock_reading tb account instrument db) (rp_rules profile) reason"
    and "sync_lock_halts env tb account instrument profile db = (activated, db')"
  shows "entry_blocked_by_halt db' (b_workspace tb) account bot_id"
  using exceeded_limit_halt [OF assms] active_halt_blocks by blast

end
