(* ===== verification/Bot_Evaluation.thy ===== *)
theory Bot_Evaluation
  imports Risk_Evaluation
begin

text \<open>
  One evaluation cycle of a bot on its latest bar, \<open>app/trading/application/bot_evaluation.py\<close>. A cycle
  is one transaction: it returns what happened and the database it leaves, or raises and leaves the
  database as it was. The checksum of a signal is a function of its run, its candle and its action,
  so it is not stored; the rationale is not modelled.
\<close>

subsection \<open>Identifiers in order ids\<close>

definition hex_digit :: "nat \<Rightarrow> char" where
  "hex_digit d = ''0123456789abcdef'' ! d"

definition hex12 :: "uuid \<Rightarrow> string" where
  \<comment> \<open>twelve hexadecimal digits of an identifier\<close>
  "hex12 n = map (\<lambda>k. hex_digit (n div 16 ^ k mod 16)) (rev [0..<12])"

definition bot_audit :: "uuid \<Rightarrow> uuid option \<Rightarrow> string \<Rightarrow> string \<Rightarrow> uuid \<Rightarrow> payload \<Rightarrow> trading_db \<Rightarrow> trading_db" where
  "bot_audit workspace actor action resource_type resource after db =
     (let (cid, db1) = fresh_id db
      in db1\<lparr>db_audit := db_audit db1 @ [\<lparr>al_workspace = workspace, al_actor = actor, al_action = action,
           al_resource_type = resource_type, al_resource_id = resource, al_after = after,
           al_correlation = cid\<rparr>]\<rparr>)"

subsection \<open>The stop of an open position\<close>

definition stop_exit_price :: "candle list \<Rightarrow> trading_position \<Rightarrow> decimal option" where
  "stop_exit_price candles pos =
     (case (p_stop_price pos, p_opened_at pos, p_entry pos) of
        (Some stop, Some opened, Some entry) \<Rightarrow>
          (let held = \<lparr>bp_side = p_side pos, bp_quantity = p_quantity pos, bp_entry = entry\<rparr>;
               hit = (\<lambda>c. protective_exit (bar_of_candle c) held stop None)
           in case find (\<lambda>c. opened < c_close_time c \<and> hit c \<noteq> None) candles of
                None \<Rightarrow> None | Some c \<Rightarrow> map_option fst (hit c))
      | _ \<Rightarrow> None)"

definition entry_stop_price :: "order_side \<Rightarrow> decimal \<Rightarrow> decimal \<Rightarrow> decimal option" where
  "entry_stop_price side fill_price stop_distance =
     (let stop = (if side = Buy_order then dsub fill_price stop_distance else dadd fill_price stop_distance)
      in if 0 < stop then Some stop else None)"

definition close_at_stop ::
  "tx_env \<Rightarrow> trading_bot \<Rightarrow> uuid \<Rightarrow> uuid \<Rightarrow> candle list \<Rightarrow> trading_db \<Rightarrow> (string, trading_db) result" where
  "close_at_stop env tb account instrument candles db =
     (case open_position db account instrument of
        None \<Rightarrow> Inr db
      | Some pos \<Rightarrow> (case stop_exit_price candles pos of
          None \<Rightarrow> Inr db
        | Some exit_price \<Rightarrow>
            (let (uid, db1) = fresh_id db;
                 cmd = (market_order (b_workspace tb) account instrument (closing_side (p_side pos)) (p_quantity pos)
                          (''stop-'' @ hex12 uid))
                       \<lparr>pc_stop_price := p_stop_price pos, pc_stop_fill_price := Some exit_price,
                        pc_bot := Some (b_id tb)\<rparr>
             in res_bind (place_order env cmd db1) (\<lambda>(_, db2).
                  Inr (bot_audit (b_workspace tb) None ''protective_exit.stop_loss'' ''trading_position'' (p_id pos)
                    [(''stop_price'', optional D_decimal (p_stop_price pos)), (''fill_price'', D_decimal exit_price)]
                    db2)))))"

definition set_entry_stop ::
  "tx_env \<Rightarrow> uuid \<Rightarrow> uuid \<Rightarrow> trade_order \<Rightarrow> order_side \<Rightarrow> decimal \<Rightarrow> trading_db \<Rightarrow> (string, trading_db) result" where
  \<comment> \<open>the changed column is written when the cycle commits, under the table's checks\<close>
  "set_entry_stop env account instrument x side stop_distance db =
     (case (find (\<lambda>f. f_order f = o_id x) (db_fills db), open_position db account instrument) of
        (Some fill, Some pos) \<Rightarrow>
          (let stored = pos\<lparr>p_stop_price := map_option (env_column env)
                 (entry_stop_price side (f_price fill) stop_distance)\<rparr>
           in if position_checks db stored
              then Inr (db\<lparr>db_positions := update_row p_id stored (db_positions db)\<rparr>)
              else Inl ''IntegrityError'')
      | _ \<Rightarrow> Inr db)"

subsection \<open>The cycle\<close>

datatype evaluation =
    Not_active bot_state
  | No_candles
  | Already_processed uuid
  | Held uuid
  | Close_only uuid uuid
  | Paused_no_entry uuid
  | Denied uuid uuid "string option"
  | Halted uuid uuid
  | Opened uuid uuid uuid uuid

definition exchange_code_for_connection :: "trading_db \<Rightarrow> uuid \<Rightarrow> (string, string) result" where
  "exchange_code_for_connection db connection =
     (case find (\<lambda>c. cn_id c = connection) (cat_connections (db_catalog db)) of
        None \<Rightarrow> Inl ''ValueError''
      | Some c \<Rightarrow> (case map_of (cat_exchanges (db_catalog db)) (cn_exchange c) of
          None \<Rightarrow> Inl ''ValueError'' | Some code \<Rightarrow> Inr code))"

definition add_signal ::
  "trading_bot \<Rightarrow> bot_run \<Rightarrow> uuid \<Rightarrow> signal_action \<Rightarrow> trading_db \<Rightarrow> signal_row \<times> trading_db" where
  "add_signal tb run candle action db =
     (let (sid, db1) = fresh_id db;
          signal = \<lparr>sg_id = sid, sg_workspace = b_workspace tb, sg_bot_run = br_id run, sg_candle = candle,
            sg_strategy_version = b_strategy_version tb, sg_action = action\<rparr>
      in (signal, db1\<lparr>db_signals := db_signals db1 @ [signal]\<rparr>))"

definition recorded_stop_distance :: "risk_decision \<Rightarrow> (string, decimal) result" where
  \<comment> \<open>\<open>rule_results["quantity_calculation"]["stop_distance"]\<close>\<close>
  "recorded_stop_distance d =
     (case find (\<lambda>e. re_name e = ''quantity_calculation'') (rd_rule_results d) of
        None \<Rightarrow> Inl ''KeyError''
      | Some e \<Rightarrow> (case map_of (re_values e) ''stop_distance'' of None \<Rightarrow> Inl ''KeyError'' | Some x \<Rightarrow> Inr x))"

definition close_on_signal ::
  "tx_env \<Rightarrow> trading_bot \<Rightarrow> uuid \<Rightarrow> uuid \<Rightarrow> trading_position \<Rightarrow> signal_row \<Rightarrow> trading_db \<Rightarrow>
     (string, evaluation \<times> trading_db) result" where
  "close_on_signal env tb account instrument pos signal db =
     (let (uid, db1) = fresh_id db;
          side = side_of_signal (sg_action signal);
          cmd = (market_order (b_workspace tb) account instrument side (p_quantity pos)
                   (''dote-close-'' @ hex12 uid))\<lparr>pc_bot := Some (b_id tb)\<rparr>
      in res_bind (place_order env cmd db1) (\<lambda>(x, db2).
           Inr (Close_only (sg_id signal) (o_id x),
                bot_audit (b_workspace tb) None ''dote_gate.close_only'' ''trading_position'' (p_id pos)
                  [(''signal_id'', D_id (sg_id signal)),
                   (''opposing_action'', D_text (if side = Buy_order then ''buy'' else ''sell''))] db2)))"

definition enter_on_signal ::
  "tx_env \<Rightarrow> trading_bot \<Rightarrow> uuid \<Rightarrow> instrument \<Rightarrow> bool \<Rightarrow> live_strategy \<Rightarrow> signal_row \<Rightarrow> risk_decision \<Rightarrow>
     decimal \<Rightarrow> trading_db \<Rightarrow> (string, evaluation \<times> trading_db) result" where
  "enter_on_signal env tb account instrument flat strategy signal decision quantity db =
     (let side = side_of_signal (sg_action signal)
      in res_bind (recorded_stop_distance decision) (\<lambda>stop_distance.
         res_bind (create_order_intent env \<lparr>ic_signal = sg_id signal, ic_decision = rd_id decision, ic_side = side,
             ic_type = Market, ic_quantity = quantity, ic_limit_price = None, ic_stop_price = None,
             ic_take_profit = None, ic_max_slippage_bps = None, ic_expires_at = None\<rparr> db) (\<lambda>(intent, db1).
         let (uid, db2) = fresh_id db1;
             cmd = (market_order (b_workspace tb) account (i_id instrument) side quantity (''dummy-'' @ hex12 uid))
                   \<lparr>pc_intent := Some (oi_id intent), pc_bot := Some (b_id tb)\<rparr>
         in res_bind (place_order env cmd db2) (\<lambda>(x, db3).
            res_bind (if ls_exit_policy strategy = Exit_stop_loss \<and> flat
                      then set_entry_stop env account (i_id instrument) x side stop_distance db3
                      else Inr db3) (\<lambda>db4.
              Inr (Opened (sg_id signal) (rd_id decision) (oi_id intent) (o_id x), db4))))))"

definition judge_and_enter ::
  "tx_env \<Rightarrow> trading_bot \<Rightarrow> uuid \<Rightarrow> instrument \<Rightarrow> string \<Rightarrow> risk_profile_version \<Rightarrow> live_strategy \<Rightarrow>
     signal_row \<Rightarrow> bool \<Rightarrow> trading_db \<Rightarrow> (string, evaluation \<times> trading_db) result" where
  \<comment> \<open>a paused bot stops here; otherwise the Risk Gate and the halts decide\<close>
  "judge_and_enter env tb account instrument exchange_code profile strategy signal flat db =
     (if b_actual tb = Paused then Inr (Paused_no_entry (sg_id signal), db)
      else res_bind (evaluate_signal env signal account instrument tb profile exchange_code db)
        (\<lambda>((decision, approved), db1).
           if rd_outcome decision = Deny
           then Inr (Denied (sg_id signal) (rd_id decision) (rd_reason decision), db1)
           else if entry_blocked_by_halt db1 (b_workspace tb) account (Some (b_id tb))
           then Inr (Halted (sg_id signal) (rd_id decision), db1)
           else case approved of
             None \<Rightarrow> Inl ''AssertionError''
           | Some quantity \<Rightarrow> enter_on_signal env tb account instrument flat strategy signal decision quantity db1))"

definition act_on_bot_signal ::
  "tx_env \<Rightarrow> trading_bot \<Rightarrow> uuid \<Rightarrow> instrument \<Rightarrow> string \<Rightarrow> risk_profile_version \<Rightarrow> live_strategy \<Rightarrow>
     signal_row \<Rightarrow> trading_db \<Rightarrow> (string, evaluation \<times> trading_db) result" where
  "act_on_bot_signal env tb account instrument exchange_code profile strategy signal db =
     (if sg_action signal = Hold then Inr (Held (sg_id signal), db)
      else let existing = open_position db account (i_id instrument)
      in case existing of
        Some pos \<Rightarrow>
          if sg_action signal = Buy \<and> p_side pos = Short \<or> sg_action signal = Sell \<and> p_side pos = Long
          then close_on_signal env tb account (i_id instrument) pos signal db
          else judge_and_enter env tb account instrument exchange_code profile strategy signal False db
      | None \<Rightarrow> judge_and_enter env tb account instrument exchange_code profile strategy signal True db)"

definition evaluate_new_bar ::
  "tx_env \<Rightarrow> trading_bot \<Rightarrow> bot_run \<Rightarrow> uuid \<Rightarrow> instrument \<Rightarrow> string \<Rightarrow> candle list \<Rightarrow> trading_db \<Rightarrow>
     (string, evaluation \<times> trading_db) result" where
  "evaluate_new_bar env tb run account instrument exchange_code candles db =
     (case find (\<lambda>p. rp_id p = b_risk_profile_version tb) (cat_profiles (db_catalog db)) of
        None \<Rightarrow> Inl ''ValueError''
      | Some profile \<Rightarrow>
          (let db1 = snd (sync_lock_halts env tb account instrument profile db)
           in case find (\<lambda>v. sv_id v = b_strategy_version tb) (cat_strategies (db_catalog db1)) of
                None \<Rightarrow> Inl ''ValueError''
              | Some version \<Rightarrow>
                  res_bind (resolve_live_strategy (sv_definition version)) (\<lambda>strategy.
                  res_bind (close_at_stop env tb account (i_id instrument) candles db1) (\<lambda>db2.
                  let (signal, db3) = add_signal tb run (c_id (last candles)) (ls_generate strategy candles) db2
                  in act_on_bot_signal env tb account instrument exchange_code profile strategy signal db3))))"

definition evaluate_bot_on_latest_bar ::
  "tx_env \<Rightarrow> trading_bot \<Rightarrow> bot_run \<Rightarrow> trading_db \<Rightarrow> (string, evaluation \<times> trading_db) result" where
  "evaluate_bot_on_latest_bar env tb run db =
     (if b_actual tb \<notin> {Running, Paused} then Inr (Not_active (b_actual tb), db)
      else case (find (\<lambda>a. ac_id a = b_account tb) (cat_accounts (db_catalog db)),
                 find (\<lambda>i. i_id i = b_instrument tb) (cat_instruments (db_catalog db))) of
        (Some account, Some instrument) \<Rightarrow>
          res_bind (exchange_code_for_connection db (b_connection tb)) (\<lambda>exchange_code.
          let candles = recent_final_candles db (i_id instrument) (b_timeframe tb) history_window
          in if candles = [] then Inr (No_candles, db)
             else case find (\<lambda>s. sg_bot_run s = br_id run \<and> sg_candle s = c_id (last candles)) (db_signals db) of
               Some s \<Rightarrow> Inr (Already_processed (sg_id s), db)
             | None \<Rightarrow> evaluate_new_bar env tb run (ac_id account) instrument exchange_code candles db)
      | _ \<Rightarrow> Inl ''ValueError'')"

subsection \<open>Lemmas: what a cycle may change\<close>

definition system_ok :: "(decimal \<Rightarrow> decimal) \<Rightarrow> trading_db \<Rightarrow> bool" where
  "system_ok column db \<longleftrightarrow> halts_ok db \<and> books_ok column db"

definition safe_step :: "(decimal \<Rightarrow> decimal) \<Rightarrow> trading_db \<Rightarrow> trading_db \<Rightarrow> bool" where
  "safe_step column db db' \<longleftrightarrow> (system_ok column db \<longrightarrow> system_ok column db' \<and> halts_kept db db')
     \<and> db_catalog db' = db_catalog db \<and> db_bots db' = db_bots db \<and> db_runs db' = db_runs db
     \<and> db_next_id db \<le> db_next_id db' \<and> (\<exists>xs. db_signals db' = db_signals db @ xs)"

lemma safe_step_refl [simp, intro]: "safe_step column db db"
  by (simp add: safe_step_def halts_kept_same)

lemma safe_step_trans [trans]: "safe_step column a b \<Longrightarrow> safe_step column b c \<Longrightarrow> safe_step column a c"
  using halts_kept_trans by (fastforce simp: safe_step_def)

lemma halts_ok_frame: "halts_ok db \<Longrightarrow> db_halts db' = db_halts db \<Longrightarrow> db_next_id db \<le> db_next_id db' \<Longrightarrow> halts_ok db'"
  by (auto simp: halts_ok_def intro: exclusive_mono)

lemma safe_frame:
  assumes "db_halts db' = db_halts db" "db_positions db' = db_positions db" "db_orders db' = db_orders db"
    "db_history db' = db_history db" "db_next_id db \<le> db_next_id db'" "db_catalog db' = db_catalog db"
    "db_bots db' = db_bots db" "db_runs db' = db_runs db" "\<exists>xs. db_signals db' = db_signals db @ xs"
  shows "safe_step column db db'"
  using assms books_ok_frame [of column db db'] halts_ok_frame [of db db']
  by (auto simp: safe_step_def system_ok_def halts_kept_same)

lemma safe_halts:
  assumes "halts_ok db \<Longrightarrow> halts_ok db' \<and> halts_kept db db'" "halt_frame db db'"
  shows "safe_step column db db'"
  using assms halt_frame_sel [OF assms(2)] books_ok_frame [of column db db']
  by (auto simp: safe_step_def system_ok_def)

lemma bot_audit_eq:
  "\<exists>a. bot_audit w act a' rt r pl db = db\<lparr>db_next_id := Suc (db_next_id db), db_audit := db_audit db @ [a]\<rparr>"
  by (intro exI) (simp add: bot_audit_def Let_def split_def)

lemma bot_audit_sel [simp]:
  "db_positions (bot_audit w act a' rt r pl db) = db_positions db" "db_intents (bot_audit w act a' rt r pl db) = db_intents db"
  "db_orders (bot_audit w act a' rt r pl db) = db_orders db" "db_halts (bot_audit w act a' rt r pl db) = db_halts db"
  "db_bots (bot_audit w act a' rt r pl db) = db_bots db" "db_runs (bot_audit w act a' rt r pl db) = db_runs db"
  "db_catalog (bot_audit w act a' rt r pl db) = db_catalog db" "db_history (bot_audit w act a' rt r pl db) = db_history db"
  "db_next_id (bot_audit w act a' rt r pl db) = Suc (db_next_id db)" "db_signals (bot_audit w act a' rt r pl db) = db_signals db"
  by (simp_all add: bot_audit_def Let_def split_def)

lemma safe_audit: "safe_step column db (bot_audit w act a' rt r pl db)"
  using bot_audit_eq [of w act a' rt r pl db] by (auto intro!: safe_frame)

lemma safe_fresh: "safe_step column db (db\<lparr>db_next_id := Suc (db_next_id db)\<rparr>)"
  by (rule safe_frame) simp_all

lemma place_order_frame:
  assumes "place_order env cmd db = Inr (o', db')"
  shows "db_halts db' = db_halts db" "db_catalog db' = db_catalog db" "db_bots db' = db_bots db" "db_runs db' = db_runs db"
    "db_signals db' = db_signals db" "db_intents db' = db_intents db" "db_decisions db' = db_decisions db"
    "db_next_id db < db_next_id db'"
proof -
  have "db_halts db' = db_halts db \<and> db_catalog db' = db_catalog db \<and> db_bots db' = db_bots db \<and> db_runs db' = db_runs db
    \<and> db_signals db' = db_signals db \<and> db_intents db' = db_intents db \<and> db_decisions db' = db_decisions db
    \<and> db_next_id db < db_next_id db'"
    using assms
  proof (cases rule: place_order_effect)
    case (1 account instrument ex f db2 pos pnl db3 es tx)
    have "db_next_id db < db_next_id db'"
      using 1(12,14) apply_fill_row_frame [OF 1(10)] by linarith
    then show ?thesis using 1(16) by auto
  qed
  then show "db_halts db' = db_halts db" "db_catalog db' = db_catalog db" "db_bots db' = db_bots db" "db_runs db' = db_runs db"
    "db_signals db' = db_signals db" "db_intents db' = db_intents db" "db_decisions db' = db_decisions db"
    "db_next_id db < db_next_id db'" by blast+
qed

lemma safe_place:
  assumes "numeric_column column" "env_column env = column" "place_order env cmd db = Inr (o', db')"
  shows "safe_step column db db'"
proof -
  note frame = place_order_frame [OF assms(3)]
  have "books_ok column db'" if "books_ok column db"
    using place_order_books [OF _ _ assms(3)] assms(1,2) that by simp
  then show ?thesis using frame halts_ok_frame [of db db']
    by (simp add: safe_step_def system_ok_def halts_kept_same)
qed

lemma safe_intent:
  assumes "create_order_intent env ic db = Inr (i, db')" shows "safe_step column db db'"
  using create_order_intent_Inr [OF assms] by (auto intro!: safe_frame)

lemma safe_evaluate_signal:
  assumes "evaluate_signal env signal account instrument tb profile ex db = Inr ((d, q), db')"
  shows "safe_step column db db'"
proof (cases "halts_ok db")
  case True
  note effect = evaluate_signal_effect [OF assms True]
  note frame = halt_frame_sel [OF effect(3)]
  have "books_ok column db'" if "books_ok column db"
    using that frame by (intro books_ok_frame [OF that]) simp_all
  then show ?thesis using effect(1,2) frame by (simp add: safe_step_def system_ok_def)
next
  case False
  show ?thesis
    using assms
  proof (cases rule: evaluate_signal_cases)
    case no_equity
    then show ?thesis using add_decision_Inr [OF no_equity(3)] by (auto intro!: safe_frame)
  next
    case (gate st db1)
    have "halt_frame db1 db'"
      using gate(7) halt_frame_trans [OF sync_halt_frame sync_halt_frame] by (force simp: sync_trading_halts_evaluated)
    then show ?thesis
      using False add_decision_Inr [OF gate(6)] halt_frame_sel [of db1 db'] by (auto simp: safe_step_def system_ok_def)
  qed
qed

lemma positions_ok_stop:
  assumes "positions_ok column db" "pos \<in> set (db_positions db)"
  shows "positions_ok column (db\<lparr>db_positions := update_row p_id (pos\<lparr>p_stop_price := st\<rparr>) (db_positions db)\<rparr>)"
proof -
  have "exclusive p_id is_open place_of (update_row p_id (pos\<lparr>p_stop_price := st\<rparr>) (db_positions db)) (db_next_id db)"
    using assms by (intro exclusive_update [OF _ assms(2)]) (auto simp: positions_ok_def is_open_def place_of_def)
  then show ?thesis using assms by (auto simp: positions_ok_def set_update_row position_row_ok_def)
qed

lemma set_entry_stop_Inr:
  assumes "set_entry_stop env a i x side d db = Inr db'"
  shows "db' = db \<or> (\<exists>pos st. open_position db a i = Some pos
    \<and> db' = db\<lparr>db_positions := update_row p_id (pos\<lparr>p_stop_price := st\<rparr>) (db_positions db)\<rparr>)"
  using assms by (auto simp: set_entry_stop_def Let_def split: option.splits if_splits)

lemma safe_set_stop:
  assumes "set_entry_stop env a i x side d db = Inr db'" shows "safe_step column db db'"
  using set_entry_stop_Inr [OF assms]
proof (elim disjE exE conjE)
  fix pos st assume pos: "open_position db a i = Some pos"
    and db': "db' = db\<lparr>db_positions := update_row p_id (pos\<lparr>p_stop_price := st\<rparr>) (db_positions db)\<rparr>"
  have "positions_ok column db'" if "positions_ok column db"
    unfolding db' using positions_ok_stop [OF that] open_position_Some [OF pos] by blast
  moreover have "orders_ok db'" if "orders_ok db" by (rule orders_ok_cong [OF _ _ _ that]) (simp_all add: db')
  moreover have "halts_ok db'" if "halts_ok db" by (rule halts_ok_frame [OF that]) (simp_all add: db')
  ultimately show ?thesis by (simp add: safe_step_def system_ok_def books_ok_def db' halts_kept_same)
qed simp

lemma safe_locks: "safe_step column db (snd (sync_lock_halts env tb account instrument profile db))"
  by (rule safe_halts [OF _ sync_lock_halts_frame])
    (blast intro: sync_lock_halts_keeps halt_life.reachable_keeps sync_lock_halts_steps)

lemma safe_close_at_stop:
  assumes "numeric_column column" "env_column env = column" "close_at_stop env tb a i candles db = Inr db'"
  shows "safe_step column db db'"
proof (cases "open_position db a i")
  case (Some pos)
  show ?thesis
  proof (cases "stop_exit_price candles pos")
    case (Some price)
    then obtain cmd x db2 where placed: "place_order env cmd (db\<lparr>db_next_id := Suc (db_next_id db)\<rparr>) = Inr (x, db2)"
      and db': "db' = bot_audit (b_workspace tb) None ''protective_exit.stop_loss'' ''trading_position'' (p_id pos)
                    [(''stop_price'', optional D_decimal (p_stop_price pos)), (''fill_price'', D_decimal price)] db2"
      using assms(3) \<open>open_position db a i = Some pos\<close>
      by (auto simp: close_at_stop_def Let_def split_def result_simps)
    show ?thesis unfolding db'
      by (rule safe_step_trans [OF safe_step_trans [OF safe_fresh safe_place [OF assms(1,2) placed]] safe_audit])
  qed (use assms(3) Some in \<open>simp add: close_at_stop_def\<close>)
qed (use assms(3) in \<open>simp add: close_at_stop_def\<close>)

subsection \<open>Lemmas: the shape of a cycle\<close>

lemma evaluation_cases:
  assumes "evaluate_bot_on_latest_bar env tb run db = Inr (r, db')"
  obtains (idle) "db' = db" "r \<in> {Not_active (b_actual tb), No_candles} \<union> range Already_processed"
      "b_actual tb \<in> {Running, Paused} \<longrightarrow> (\<forall>st. r \<noteq> Not_active st)"
      "\<And>env'. evaluate_bot_on_latest_bar env' tb run db = Inr (r, db)"
  | (cycle) account instrument ex candles profile strategy db2 signal db3 where
      "b_actual tb \<in> {Running, Paused}"
      "find (\<lambda>a. ac_id a = b_account tb) (cat_accounts (db_catalog db)) = Some account"
      "find (\<lambda>i. i_id i = b_instrument tb) (cat_instruments (db_catalog db)) = Some instrument"
      "exchange_code_for_connection db (b_connection tb) = Inr ex"
      "candles = recent_final_candles db (i_id instrument) (b_timeframe tb) history_window" "candles \<noteq> []"
      "find (\<lambda>p. rp_id p = b_risk_profile_version tb) (cat_profiles (db_catalog db)) = Some profile"
      "close_at_stop env tb (b_account tb) (b_instrument tb) candles
         (snd (sync_lock_halts env tb (b_account tb) instrument profile db)) = Inr db2"
      "add_signal tb run (c_id (last candles)) (ls_generate strategy candles) db2 = (signal, db3)"
      "act_on_bot_signal env tb (b_account tb) instrument ex profile strategy signal db3 = Inr (r, db')"
proof (cases "b_actual tb \<in> {Running, Paused}")
  case False
  then show ?thesis using assms idle by (simp add: evaluate_bot_on_latest_bar_def)
next
  case active: True
  then obtain account instrument ex where
      found: "find (\<lambda>a. ac_id a = b_account tb) (cat_accounts (db_catalog db)) = Some account"
        "find (\<lambda>i. i_id i = b_instrument tb) (cat_instruments (db_catalog db)) = Some instrument"
        "exchange_code_for_connection db (b_connection tb) = Inr ex"
    using assms by (auto simp: evaluate_bot_on_latest_bar_def result_simps split: option.splits)
  let ?candles = "recent_final_candles db (i_id instrument) (b_timeframe tb) history_window"
  have ids: "ac_id account = b_account tb" "i_id instrument = b_instrument tb"
    using found(1,2) by (auto simp: find_Some_iff)
  show ?thesis
  proof (cases "?candles = [] \<or> find (\<lambda>s. sg_bot_run s = br_id run \<and> sg_candle s = c_id (last ?candles)) (db_signals db) \<noteq> None")
    case True
    then show ?thesis using assms active found idle
      by (auto simp: evaluate_bot_on_latest_bar_def Let_def split: if_splits)
  next
    case False
    then have "evaluate_new_bar env tb run (b_account tb) instrument ex ?candles db = Inr (r, db')"
      using assms active found ids by (auto simp: evaluate_bot_on_latest_bar_def Let_def)
    then obtain profile version strategy db2 where
      "find (\<lambda>p. rp_id p = b_risk_profile_version tb) (cat_profiles (db_catalog db)) = Some profile"
      "close_at_stop env tb (b_account tb) (b_instrument tb) ?candles
         (snd (sync_lock_halts env tb (b_account tb) instrument profile db)) = Inr db2"
      "act_on_bot_signal env tb (b_account tb) instrument ex profile strategy
         (fst (add_signal tb run (c_id (last ?candles)) (ls_generate strategy ?candles) db2))
         (snd (add_signal tb run (c_id (last ?candles)) (ls_generate strategy ?candles) db2)) = Inr (r, db')"
      using ids by (auto simp: evaluate_new_bar_def result_simps Let_def split_def split: option.splits)
    then show ?thesis using cycle [OF active found refl _ _ _ prod.collapse [symmetric]] False by blast
  qed
qed

lemma add_signal_eq:
  assumes "add_signal tb run c action db = (signal, db')"
  shows "db' = db\<lparr>db_next_id := Suc (db_next_id db), db_signals := db_signals db @ [signal]\<rparr>
    \<and> sg_id signal = db_next_id db \<and> sg_bot_run signal = br_id run \<and> sg_candle signal = c \<and> sg_action signal = action"
  using assms by (auto simp: add_signal_def Let_def split_def)

lemma act_cases:
  assumes "act_on_bot_signal env tb a instrument ex profile strategy signal db = Inr (r, db')"
  obtains (held) "r = Held (sg_id signal)" "db' = db"
  | (close) pos cmd x db2 where "open_position db a (i_id instrument) = Some pos"
      "cmd = (market_order (b_workspace tb) a (i_id instrument) (closing_side (p_side pos)) (p_quantity pos)
                (''dote-close-'' @ hex12 (db_next_id db)))\<lparr>pc_bot := Some (b_id tb)\<rparr>"
      "place_order env cmd (db\<lparr>db_next_id := Suc (db_next_id db)\<rparr>) = Inr (x, db2)"
      "r = Close_only (sg_id signal) (o_id x)"
      "\<exists>pl. db' = bot_audit (b_workspace tb) None ''dote_gate.close_only'' ''trading_position'' (p_id pos) pl db2"
  | (paused) "b_actual tb = Paused" "r = Paused_no_entry (sg_id signal)" "db' = db"
  | (denied) d q where "b_actual tb \<noteq> Paused"
      "evaluate_signal env signal a instrument tb profile ex db = Inr ((d, q), db')"
      "r = Denied (sg_id signal) (rd_id d) (rd_reason d) \<or> r = Halted (sg_id signal) (rd_id d)"
  | (entered) d q db1 where "b_actual tb \<noteq> Paused"
      "evaluate_signal env signal a instrument tb profile ex db = Inr ((d, Some q), db1)" "rd_outcome d \<noteq> Deny"
      "\<not> entry_blocked_by_halt db1 (b_workspace tb) a (Some (b_id tb))"
      "enter_on_signal env tb a instrument (open_position db a (i_id instrument) = None) strategy signal d q db1 = Inr (r, db')"
proof -
  have judged: "thesis" if "judge_and_enter env tb a instrument ex profile strategy signal
      (open_position db a (i_id instrument) = None) db = Inr (r, db')"
    using that paused denied entered
    by (auto simp: judge_and_enter_def result_simps split: if_splits option.splits)
  show thesis
  proof (cases "sg_action signal = Hold")
    case True
    then show ?thesis using assms held by (simp add: act_on_bot_signal_def)
  next
    case active: False
    show ?thesis
    proof (cases "open_position db a (i_id instrument)")
      case None
      then show ?thesis using assms active by (intro judged) (simp add: act_on_bot_signal_def)
    next
      case (Some pos)
      show ?thesis
      proof (cases "sg_action signal = Buy \<and> p_side pos = Short \<or> sg_action signal = Sell \<and> p_side pos = Long")
        case True
        then have side: "side_of_signal (sg_action signal) = closing_side (p_side pos)" by auto
        have "close_on_signal env tb a (i_id instrument) pos signal db = Inr (r, db')"
          using assms active Some True by (simp add: act_on_bot_signal_def)
        then obtain x db2 pl where "place_order env ((market_order (b_workspace tb) a (i_id instrument)
              (closing_side (p_side pos)) (p_quantity pos) (''dote-close-'' @ hex12 (db_next_id db)))
              \<lparr>pc_bot := Some (b_id tb)\<rparr>) (db\<lparr>db_next_id := Suc (db_next_id db)\<rparr>) = Inr (x, db2)"
            "r = Close_only (sg_id signal) (o_id x)"
            "db' = bot_audit (b_workspace tb) None ''dote_gate.close_only'' ''trading_position'' (p_id pos) pl db2"
          unfolding close_on_signal_def Let_def split_def side by (auto simp: result_simps)
        then show ?thesis using close [OF Some refl] by blast
      next
        case False
        then have "judge_and_enter env tb a instrument ex profile strategy signal
            (open_position db a (i_id instrument) = None) db = Inr (r, db')"
          using assms active Some by (simp add: act_on_bot_signal_def if_not_P [OF False])
        then show ?thesis by (rule judged)
      qed
    qed
  qed
qed

lemma enter_Inr:
  assumes "enter_on_signal env tb a instrument flat strategy signal d q db = Inr (r, db')"
  obtains intent db1 cmd x db3 where
    "create_order_intent env \<lparr>ic_signal = sg_id signal, ic_decision = rd_id d, ic_side = side_of_signal (sg_action signal),
       ic_type = Market, ic_quantity = q, ic_limit_price = None, ic_stop_price = None,
       ic_take_profit = None, ic_max_slippage_bps = None, ic_expires_at = None\<rparr> db = Inr (intent, db1)"
    "cmd = (market_order (b_workspace tb) a (i_id instrument) (side_of_signal (sg_action signal)) q
             (''dummy-'' @ hex12 (db_next_id db1)))\<lparr>pc_intent := Some (oi_id intent), pc_bot := Some (b_id tb)\<rparr>"
    "place_order env cmd (db1\<lparr>db_next_id := Suc (db_next_id db1)\<rparr>) = Inr (x, db3)"
    "r = Opened (sg_id signal) (rd_id d) (oi_id intent) (o_id x)"
    "db' = db3 \<or> (\<exists>st. set_entry_stop env a (i_id instrument) x (side_of_signal (sg_action signal)) st db3 = Inr db')"
  using assms that
  by (fastforce simp: enter_on_signal_def Let_def split_def result_simps split: if_splits)

lemma safe_act:
  assumes "numeric_column column" "env_column env = column"
    and "act_on_bot_signal env tb a instrument ex profile strategy signal db = Inr (r, db')"
  shows "safe_step column db db'"
  using assms(3)
proof (cases rule: act_cases)
  case (close pos cmd x db2)
  then show ?thesis
    using safe_step_trans [OF safe_step_trans [OF safe_fresh safe_place [OF assms(1,2) close(3)]] safe_audit] by blast
next
  case (denied d q)
  show ?thesis by (rule safe_evaluate_signal [OF denied(2)])
next
  case (entered d q db1)
  from entered(5) show ?thesis
  proof (cases rule: enter_Inr)
    case (1 intent db2 cmd x db3)
    have "safe_step column db db3"
      by (rule safe_step_trans [OF safe_evaluate_signal [OF entered(2)] safe_step_trans [OF safe_intent [OF 1(1)]
            safe_step_trans [OF safe_fresh safe_place [OF assms(1,2) 1(3)]]]])
    moreover have "safe_step column db3 db'" using 1(5) safe_set_stop by auto
    ultimately show ?thesis by (rule safe_step_trans)
  qed
qed simp_all

lemma safe_signal: "add_signal tb run c action db = (signal, db') \<Longrightarrow> safe_step column db db'"
  using add_signal_eq by (intro safe_frame) force+

lemma safe_cycle:
  assumes "numeric_column column" "env_column env = column"
    and "close_at_stop env tb a i candles (snd (sync_lock_halts env tb a instrument profile db)) = Inr db2"
    and "add_signal tb run c action db2 = (signal, db3)"
  shows "safe_step column db db3" "signal \<in> set (db_signals db3)"
proof -
  show "safe_step column db db3"
    using safe_signal [OF assms(4)] safe_step_trans [OF safe_locks safe_step_trans [OF safe_close_at_stop [OF assms(1,2,3)]]] by blast
  show "signal \<in> set (db_signals db3)" using add_signal_eq [OF assms(4)] by simp
qed

lemma safe_evaluation:
  assumes "numeric_column column" "env_column env = column"
    and "evaluate_bot_on_latest_bar env tb run db = Inr (r, db')"
  shows "safe_step column db db'"
  using assms(3)
proof (cases rule: evaluation_cases)
  case (cycle account instrument ex candles profile strategy db2 signal db3)
  show ?thesis
    by (rule safe_step_trans [OF safe_cycle(1) [OF assms(1,2) cycle(8,9)] safe_act [OF assms(1,2) cycle(10)]])
qed simp

text \<open>
  A bot's cycle, whatever it does, keeps one active halt per cause and the books
  consistent, and it never lowers or lifts a halt other than the two it may relax itself: a lock, an
  emergency stop or a ledger halt is still active afterwards, at its level or above.
\<close>

theorem cycle_keeps_the_system:
  assumes "numeric_column (env_column env)" "evaluate_bot_on_latest_bar env tb run db = Inr (r, db')"
    and "halts_ok db" "books_ok (env_column env) db"
  shows "halts_ok db' \<and> books_ok (env_column env) db' \<and> halts_kept db db'"
  using safe_evaluation [OF assms(1) refl assms(2)] assms(3,4) by (simp add: safe_step_def system_ok_def)

text \<open>
  C12 (safety). A bar is acted on once: after a cycle, evaluating the same bot and run again before a
  new candle arrives changes nothing, at any later time.
\<close>

theorem bar_evaluated_once:
  assumes "numeric_column (env_column env)" "evaluate_bot_on_latest_bar env tb run db = Inr (r, db')"
  shows "\<exists>r'. evaluate_bot_on_latest_bar later tb run db' = Inr (r', db')"
  using assms(2)
proof (cases rule: evaluation_cases)
  case idle
  then show ?thesis by blast
next
  case (cycle account instrument ex candles profile strategy db2 signal db3)
  note safe3 = safe_cycle [OF assms(1) refl cycle(8,9)]
  have safe: "safe_step (env_column env) db db'" "safe_step (env_column env) db3 db'"
    using safe_evaluation [OF assms(1) refl assms(2)] safe_act [OF assms(1) refl cycle(10)] by blast+
  obtain xs where "db_signals db' = db_signals db3 @ xs" using safe(2) by (auto simp: safe_step_def)
  then have "signal \<in> set (db_signals db')" using safe3(2) by simp
  moreover have catalog: "db_catalog db' = db_catalog db" using safe(1) by (simp add: safe_step_def)
  ultimately have "find (\<lambda>s. sg_bot_run s = br_id run \<and> sg_candle s = c_id (last candles)) (db_signals db') \<noteq> None"
    using add_signal_eq [OF cycle(9)] by (auto simp: find_None_iff)
  moreover have "recent_final_candles db' = recent_final_candles db" "exchange_code_for_connection db' = exchange_code_for_connection db"
    by (intro ext, simp only: recent_final_candles_def exchange_code_for_connection_def catalog)+
  ultimately show ?thesis
    using cycle(1-6) by (auto simp: evaluate_bot_on_latest_bar_def catalog Let_def split: option.split)
qed

lemma exclusive_close:
  assumes "positions_ok column db" "open_position db a i = Some pos" "p_id gone = p_id pos" "p_status gone = Closed"
    and "db_positions db' = update_row p_id gone (db_positions db)"
  shows "open_position db' a i = None"
proof -
  note pos = open_position_Some [OF assms(2)]
  have "p_status x \<noteq> Open" if "x \<in> set (db_positions db')" "p_account x = a" "p_instrument x = i" for x
  proof (cases "x = gone")
    case False
    then have x: "x \<in> set (db_positions db)" "p_id x \<noteq> p_id pos"
      using that(1) assms(3) by (auto simp: assms(5) set_update_row)
    show ?thesis
    proof
      assume "p_status x = Open"
      then have "x = pos"
        using exclusive_live [of p_id is_open place_of "db_positions db" "db_next_id db" x pos] assms(1) pos x(1) that(2,3)
        by (auto simp: positions_ok_def is_open_def place_of_def)
      then show False using x(2) by simp
    qed
  qed (simp add: assms(4))
  then show ?thesis unfolding open_position_None by blast
qed

lemma place_order_closing_row:
  assumes col: "numeric_column (env_column env)" and ok: "books_ok (env_column env) db"
    and pos: "open_position db (pc_account cmd) (pc_instrument cmd) = Some pos"
    and cmd: "pc_side cmd = closing_side (p_side pos)" "pc_quantity cmd = p_quantity pos"
    and placed: "place_order env cmd db = Inr (x, db')"
  shows "\<exists>gone. p_id gone = p_id pos \<and> p_status gone = Closed \<and> db_positions db' = update_row p_id gone (db_positions db)"
  using placed
proof (cases rule: place_order_effect)
  case (1 account instrument ex f db2 pos' pnl db3 es tx)
  let ?a = "pc_account cmd" and ?i = "pc_instrument cmd"
  have open2: "open_position db2 ?a ?i = Some pos" using open_position_cong [OF 1(11)] pos by simp
  have row: "position_row_ok (env_column env) pos" using ok open_position_Some [OF pos] by (auto simp: books_ok_def positions_ok_def)
  then obtain e where e: "p_entry pos = Some e" using open_position_Some [OF pos] by (auto simp: position_row_ok_def)
  have q: "f_quantity f = p_quantity pos" using 1(5) cmd(2) row by (simp add: position_row_ok_def)
  have "opening_side (pc_side cmd) \<noteq> p_side pos" unfolding cmd(1) by (cases "p_side pos") simp_all
  then obtain changed where "flush_position env changed db2 = Inr (pos', db3)" "p_status changed = Closed" "p_id changed = p_id pos"
    using 1(10) open2 e q by (auto simp: apply_fill_row_def reduce_position_def Let_def result_simps)
  then show ?thesis
    using flush_position_Inr [of env changed db2 pos' db3] 1(11,13)
    by (intro exI [of _ "stored_position env changed"]) (auto simp: stored_position_def)
qed

lemma place_order_closes_whole:
  assumes "numeric_column (env_column env)" "books_ok (env_column env) db"
    and "open_position db (pc_account cmd) (pc_instrument cmd) = Some pos"
    and "pc_side cmd = closing_side (p_side pos)" "pc_quantity cmd = p_quantity pos"
    and "place_order env cmd db = Inr (x, db')"
  shows "open_position db' (pc_account cmd) (pc_instrument cmd) = None"
  using place_order_closing_row [OF assms] exclusive_close [of "env_column env" db, OF _ assms(3)] assms(2)
  by (auto simp: books_ok_def)

lemma close_at_stop_position:
  assumes "numeric_column (env_column env)" "books_ok (env_column env) db" "close_at_stop env tb a i candles db = Inr db'"
  shows "(open_position db' a i = open_position db a i \<or> open_position db' a i = None) \<and> db_intents db' = db_intents db"
proof (cases "open_position db a i")
  case (Some pos)
  let ?db1 = "db\<lparr>db_next_id := Suc (db_next_id db)\<rparr>"
  show ?thesis
  proof (cases "stop_exit_price candles pos")
    case (Some price)
    define cmd where "cmd = (market_order (b_workspace tb) a i (closing_side (p_side pos)) (p_quantity pos) (''stop-'' @ hex12 (db_next_id db)))
       \<lparr>pc_stop_price := p_stop_price pos, pc_stop_fill_price := Some price, pc_bot := Some (b_id tb)\<rparr>"
    obtain x db2 n as where placed: "place_order env cmd ?db1 = Inr (x, db2)"
      and db': "db' = db2\<lparr>db_next_id := n, db_audit := as\<rparr>"
      using assms(3) Some \<open>open_position db a i = Some pos\<close> bot_audit_eq
      by (fastforce simp: close_at_stop_def Let_def split_def result_simps cmd_def)
    have cmd: "pc_account cmd = a" "pc_instrument cmd = i" "pc_side cmd = closing_side (p_side pos)" "pc_quantity cmd = p_quantity pos"
      by (simp_all add: cmd_def market_order_def)
    have "open_position db2 a i = None"
      using place_order_closes_whole [OF assms(1) _ _ _ _ placed, of pos] \<open>open_position db a i = Some pos\<close> assms(2) cmd
      by (simp add: books_ok_frame [of _ db ?db1] open_position_cong [of ?db1 db])
    moreover have "open_position db' a i = open_position db2 a i" by (simp add: open_position_def db')
    moreover have "db_intents db' = db_intents db2" by (simp add: db')
    ultimately show ?thesis using place_order_frame(6) [OF placed] by simp
  qed (use assms(3) Some in \<open>simp add: close_at_stop_def\<close>)
qed (use assms(3) in \<open>simp add: close_at_stop_def\<close>)

lemma open_position_frame: "db_positions db' = db_positions db \<Longrightarrow> open_position db' a i = open_position db a i"
  by (simp add: open_position_def)

lemma locks_frame:
  "open_position (snd (sync_lock_halts env tb account instrument profile db)) a i = open_position db a i"
  "db_intents (snd (sync_lock_halts env tb account instrument profile db)) = db_intents db"
  by (rule open_position_frame [OF halt_frame_sel(7)], rule sync_lock_halts_frame)
    (rule halt_frame_sel(3), rule sync_lock_halts_frame)

text \<open>
  A paused bot takes no risk: its cycle leaves its position as it was or closes it, and it
  plans no order.
\<close>

theorem paused_bots_never_enter:
  assumes "numeric_column (env_column env)" "evaluate_bot_on_latest_bar env tb run db = Inr (r, db')"
    and "halts_ok db" "books_ok (env_column env) db" "b_actual tb = Paused"
  shows "(open_position db' (b_account tb) (b_instrument tb) = open_position db (b_account tb) (b_instrument tb)
      \<or> open_position db' (b_account tb) (b_instrument tb) = None) \<and> db_intents db' = db_intents db"
  using assms(2)
proof (cases rule: evaluation_cases)
  case (cycle account instrument ex candles profile strategy db2 signal db3)
  let ?a = "b_account tb" and ?i = "b_instrument tb"
  let ?db1 = "snd (sync_lock_halts env tb ?a instrument profile db)"
  have instrument: "i_id instrument = ?i" using cycle(3) by (auto simp: find_Some_iff)
  have ok: "books_ok (env_column env) ?db1" "books_ok (env_column env) db3"
    using safe_locks [of "env_column env" db env tb ?a instrument profile] safe_cycle(1) [OF assms(1) refl cycle(8,9)] assms(3,4)
    by (auto simp: safe_step_def system_ok_def)
  have stop: "open_position db2 ?a ?i = open_position db ?a ?i \<or> open_position db2 ?a ?i = None" "db_intents db2 = db_intents db"
    using close_at_stop_position [OF assms(1) ok(1) cycle(8)] locks_frame by auto
  have signal: "open_position db3 ?a ?i = open_position db2 ?a ?i" "db_intents db3 = db_intents db2"
    using add_signal_eq [OF cycle(9)] by (simp_all add: open_position_def)
  have "(open_position db' ?a ?i = open_position db3 ?a ?i \<or> open_position db' ?a ?i = None) \<and> db_intents db' = db_intents db3"
    using cycle(10)
  proof (cases rule: act_cases)
    case (close pos cmd x db4)
    have "open_position db4 ?a ?i = None"
      using place_order_closes_whole [OF assms(1) _ _ _ _ close(3), of pos] close(1) ok(2)
      by (simp add: close(2) market_order_def books_ok_frame [of _ db3] open_position_def instrument)
    moreover have "open_position db' ?a ?i = open_position db4 ?a ?i" "db_intents db' = db_intents db4"
      using close(5) by (auto simp: open_position_def)
    ultimately show ?thesis using place_order_frame(6) [OF close(3)] by simp
  qed (use assms(5) in simp_all)
  then show ?thesis using stop signal by auto
qed simp

lemma entry_blocked_frame:
  "db_halts db' = db_halts db \<Longrightarrow> entry_blocked_by_halt db' ws a b = entry_blocked_by_halt db ws a b"
  by (simp add: entry_blocked_by_halt_def has_active_halt_at_or_above_def)

lemma decision_added:
  assumes "evaluate_signal env signal account instrument tb profile ex db = Inr ((d, q), db')"
  shows "d \<in> set (db_decisions db') \<and> rd_signal d = sg_id signal"
  using assms
proof (cases rule: evaluate_signal_cases)
  case no_equity
  then show ?thesis using add_decision_Inr [OF no_equity(3)] by simp
next
  case (gate st db1)
  have "halt_frame db1 db'"
    using gate(7) halt_frame_trans [OF sync_halt_frame sync_halt_frame] by (force simp: sync_trading_halts_evaluated)
  then show ?thesis using add_decision_Inr [OF gate(6)] halt_frame_sel by auto
qed

lemma intent_decision: "create_order_intent env ic db = Inr (n, db') \<Longrightarrow> oi_decision n = ic_decision ic"
  by (auto simp: create_order_intent_def result_simps Let_def split_def split: if_splits option.splits)

lemma placed_order_row:
  assumes "place_order env cmd db = Inr (x, db')"
  shows "x \<in> set (db_orders db') \<and> o_intent x = pc_intent cmd \<and> o_status x = Filled
    \<and> o_account x = pc_account cmd \<and> o_instrument x = pc_instrument cmd"
  using assms
proof (cases rule: place_order_effect)
  case (1 account instrument ex f db2 pos pnl db3 es tx)
  have "db_orders db' = update_row o_id x (db_orders db @ [stored_order env (new_order env cmd (db_next_id db))])"
    using 1(16) by force
  then show ?thesis by (auto simp: 1(2) set_update_row stored_order_def new_order_def)
qed

text \<open>
  C11 (safety). Nothing is opened without an approval: when a cycle opens, the bot is running, the
  decision recorded for the signal is not a denial, no halt of the bot, its account or its workspace
  forbids entries, and the order is filled, for the bot's account and instrument, and traces back
  through the intent recorded to that decision and that signal.
\<close>

theorem opened_needs_approval:
  assumes "evaluate_bot_on_latest_bar env tb run db = Inr (Opened sid did iid oid, db')"
  shows "b_actual tb = Running \<and> \<not> entry_blocked_by_halt db' (b_workspace tb) (b_account tb) (Some (b_id tb))
    \<and> (\<exists>d \<in> set (db_decisions db'). rd_id d = did \<and> rd_signal d = sid \<and> rd_outcome d \<noteq> Deny)
    \<and> (\<exists>n \<in> set (db_intents db'). oi_id n = iid \<and> oi_decision n = did \<and> oi_signal n = sid)
    \<and> (\<exists>x \<in> set (db_orders db'). o_id x = oid \<and> o_intent x = Some iid \<and> o_status x = Filled
         \<and> o_account x = b_account tb \<and> o_instrument x = b_instrument tb)"
  using assms
proof (cases rule: evaluation_cases)
  case (cycle account instrument ex candles profile strategy db2 signal db3)
  have instrument: "i_id instrument = b_instrument tb" using cycle(3) by (auto simp: find_Some_iff)
  from cycle(10) show ?thesis
  proof (cases rule: act_cases)
    case (entered d q db4)
    have decided: "d \<in> set (db_decisions db4)" "rd_signal d = sg_id signal"
      using decision_added [OF entered(2)] by auto
    from entered(5) show ?thesis
    proof (cases rule: enter_Inr)
      case (1 intent db5 cmd x db6)
      then have ids: "sid = sg_id signal" "did = rd_id d" "iid = oi_id intent" "oid = o_id x" by simp_all
      note planned = create_order_intent_Inr [OF 1(1)] and frame = place_order_frame [OF 1(3)]
      have end_state: "db_halts db' = db_halts db6 \<and> db_decisions db' = db_decisions db6 \<and> db_intents db' = db_intents db6
          \<and> db_orders db' = db_orders db6"
        using 1(5) set_entry_stop_Inr by fastforce
      have filled: "x \<in> set (db_orders db6) \<and> o_intent x = Some iid \<and> o_status x = Filled
          \<and> o_account x = b_account tb \<and> o_instrument x = b_instrument tb"
        using placed_order_row [OF 1(3)] by (simp add: 1(2) ids market_order_def instrument)
      have "b_actual tb = Running" using cycle(1) entered(1) by simp
      moreover have "\<not> entry_blocked_by_halt db' (b_workspace tb) (b_account tb) (Some (b_id tb))"
        using entered(4) entry_blocked_frame [of db' db4] end_state frame(1) planned by simp
      moreover have "d \<in> set (db_decisions db')" using decided end_state frame(7) planned by simp
      moreover have "intent \<in> set (db_intents db')" using end_state frame(6) planned by simp
      moreover have "oi_signal intent = sid" "oi_decision intent = did" "oi_id intent = iid"
        using planned intent_decision [OF 1(1)] ids by simp_all
      ultimately show ?thesis
        using decided(2) entered(3) filled end_state ids
        by (intro conjI bexI [of _ d] bexI [of _ intent] bexI [of _ x]) simp_all
    qed
  qed auto
qed auto

text \<open>
  C13 (safety). A limit that is exceeded when a bar arrives stops that very cycle: with the losing
  streak or the drawdown of its account over the profile's limit, a bot opens nothing, whatever its
  strategy says and whatever the Risk Gate would have approved.
\<close>

theorem exceeded_limit_opens_nothing:
  assumes "numeric_column (env_column env)" "evaluate_bot_on_latest_bar env tb run db = Inr (r, db')"
    and "halts_ok db" "books_ok (env_column env) db" "locks_ok db" "reason \<in> lock_reasons"
    and "find (\<lambda>i. i_id i = b_instrument tb) (cat_instruments (db_catalog db)) = Some instrument"
    and "find (\<lambda>p. rp_id p = b_risk_profile_version tb) (cat_profiles (db_catalog db)) = Some profile"
    and "lock_over_limit (account_lock_reading tb (b_account tb) instrument db) (rp_rules profile) reason"
  shows "r \<noteq> Opened sid did iid oid"
  using assms(2)
proof (cases rule: evaluation_cases)
  case idle
  then show ?thesis by auto
next
  case (cycle account instrument' ex candles profile' strategy db2 signal db3)
  let ?db1 = "snd (sync_lock_halts env tb (b_account tb) instrument profile db)"
  let ?scope = "account_scope (b_workspace tb) (b_account tb)"
  have same: "instrument' = instrument" "profile' = profile" using cycle(3,7) assms(7,8) by simp_all
  obtain h where h: "find_active_halt ?db1 ?scope reason = Some h" "Entry_halted \<le> h_level h"
    using exceeded_limit_halt [OF assms(3,5,6,9) prod.collapse [symmetric]] by blast
  note close = cycle(8) [unfolded same]
  have "safe_step (env_column env) db ?db1" by (rule safe_locks)
  moreover have "safe_step (env_column env) ?db1 db3"
    using safe_step_trans [OF safe_close_at_stop [OF assms(1) refl close] safe_signal [OF cycle(9)]] by blast
  ultimately have kept: "halts_kept ?db1 db3" "halts_ok db3"
    using assms(3,4) by (simp_all add: safe_step_def system_ok_def)
  then obtain h3 where h3: "find_active_halt db3 ?scope reason = Some h3" "Entry_halted \<le> h_level h3"
    using kept_halt [OF kept h lock_reasons_kept [OF assms(6)]] by blast
  from cycle(10) show ?thesis
  proof (cases rule: act_cases)
    case (entered d q db4)
    note gate = evaluate_signal_effect [OF entered(2) kept(2)]
    obtain h4 where "find_active_halt db4 ?scope reason = Some h4" "Entry_halted \<le> h_level h4"
      using kept_halt [OF gate(2,1) h3 lock_reasons_kept [OF assms(6)]] by blast
    then show ?thesis using active_halt_blocks entered(4) by blast
  qed auto
qed

end
