(* ===== verification/Bot_Lifecycle.thy ===== *)
theory Bot_Lifecycle
  imports Bot_Evaluation
begin

text \<open>
  The lifecycle commands of a bot, \<open>app/trading/application/bot_lifecycle.py\<close>: the checks before it
  may run, start, pause, resume, stop and fail. A command is one transaction; the bot it is given is
  the row of the database, and a changed row is flushed under the checks of its table. In the code the
  cancellations of pausing and stopping a bot are committed one by one before the rest of the command; here the
  command commits once, so a crash between two cancellations is not a behaviour of the model. The code
  version of a run and the \<open>updated_at\<close> of a bot are not modelled.
\<close>

subsection \<open>Checks before a bot runs\<close>

definition max_startup_delay_bars :: nat where
  "max_startup_delay_bars = 5"

definition workspace_scope :: "uuid \<Rightarrow> halt_scope" where
  "workspace_scope workspace = \<lparr>hs_workspace = workspace, hs_type = ''workspace'', hs_id = None\<rparr>"

definition check_connection :: "trading_db \<Rightarrow> trading_bot \<Rightarrow> (string, exchange_connection) result" where
  "check_connection db tb =
     (case find (\<lambda>c. cn_id c = b_connection tb) (cat_connections (db_catalog db)) of
        None \<Rightarrow> Inl ''startup_validation_failed_secrets''
      | Some connection \<Rightarrow>
          if cn_secret_ref connection = None \<or> cn_status connection \<noteq> ''verified''
          then Inl ''startup_validation_failed_secrets'' else Inr connection)"

definition check_strategy :: "trading_db \<Rightarrow> trading_bot \<Rightarrow> (string, unit) result" where
  "check_strategy db tb =
     (case find (\<lambda>v. sv_id v = b_strategy_version tb) (cat_strategies (db_catalog db)) of
        None \<Rightarrow> Inl ''startup_validation_failed_strategy''
      | Some version \<Rightarrow>
          if sv_lifecycle version \<notin> {''paper_approved'', ''live_approved''}
          then Inl ''startup_validation_failed_strategy''
          else (case resolve_live_strategy (sv_definition version) of
                  Inl _ \<Rightarrow> Inl ''startup_validation_failed_strategy'' | Inr _ \<Rightarrow> Inr ()))"

definition check_research_instrument :: "trading_db \<Rightarrow> trading_bot \<Rightarrow> exchange_connection \<Rightarrow> (string, unit) result" where
  "check_research_instrument db tb connection =
     (let code = (case find (\<lambda>i. i_id i = b_instrument tb) (cat_instruments (db_catalog db)) of
                    None \<Rightarrow> None | Some i \<Rightarrow> map_of (cat_exchanges (db_catalog db)) (i_exchange i))
      in raise_if (code = Some ''binance_public''
                   \<and> map_of (cat_exchanges (db_catalog db)) (cn_exchange connection) \<noteq> Some ''binance'')
           ''startup_validation_failed_instrument'')"

definition check_freshness :: "tx_env \<Rightarrow> trading_db \<Rightarrow> trading_bot \<Rightarrow> (string, unit) result" where
  \<comment> \<open>the quotient of two floats is rounded to binary64\<close>
  "check_freshness env db tb =
     (case latest_by c_open_time (filter (\<lambda>c. c_instrument c = b_instrument tb
             \<and> c_timeframe c = b_timeframe tb \<and> c_final c) (cat_candles (db_catalog db))) of
        None \<Rightarrow> Inl ''startup_validation_failed_data_freshness''
      | Some latest \<Rightarrow> (case timeframe_seconds (b_timeframe tb) of
          None \<Rightarrow> Inl ''KeyError''
        | Some bar_seconds \<Rightarrow>
            raise_if (of_nat max_startup_delay_bars
                < fround (total_seconds (env_now env - c_close_time latest) / of_nat bar_seconds))
              ''startup_validation_failed_data_freshness''))"

definition validate_bot_startup :: "tx_env \<Rightarrow> trading_db \<Rightarrow> trading_bot \<Rightarrow> (string, unit) result" where
  "validate_bot_startup env db tb =
     res_bind (check_connection db tb) (\<lambda>connection.
     res_bind (raise_if (b_execution_mode tb \<noteq> ''paper'') ''startup_validation_failed_trading_permission'') (\<lambda>_.
     res_bind (raise_if (case find (\<lambda>a. ac_id a = b_account tb) (cat_accounts (db_catalog db)) of
                           None \<Rightarrow> True | Some a \<Rightarrow> ac_status a \<noteq> ''active'')
                 ''startup_validation_failed_account'') (\<lambda>_.
     res_bind (raise_if (has_active_halt_at_or_above db (bot_scope tb) Emergency_stopped
                  \<or> has_active_halt_at_or_above db (workspace_scope (b_workspace tb)) Emergency_stopped)
                 ''startup_validation_failed_emergency_stop'') (\<lambda>_.
     res_bind (check_strategy db tb) (\<lambda>_.
     res_bind (raise_if (case find (\<lambda>p. rp_id p = b_risk_profile_version tb) (cat_profiles (db_catalog db)) of
                           None \<Rightarrow> True | Some p \<Rightarrow> rp_status p \<noteq> ''approved'')
                 ''startup_validation_failed_risk_profile'') (\<lambda>_.
     res_bind (check_research_instrument db tb connection) (\<lambda>_.
     check_freshness env db tb)))))))"

subsection \<open>Rows\<close>

definition active_run :: "bot_run \<Rightarrow> bool" where
  "active_run r \<longleftrightarrow> br_status r \<in> {Running, Paused}"

definition find_run :: "trading_db \<Rightarrow> uuid \<Rightarrow> bot_state set \<Rightarrow> bot_run option" where
  "find_run db bot_id statuses = find (\<lambda>r. br_bot r = bot_id \<and> br_status r \<in> statuses) (db_runs db)"

definition flush_bot :: "trading_bot \<Rightarrow> trading_db \<Rightarrow> trading_db" where
  "flush_bot tb db = db\<lparr>db_bots := update_row b_id tb (db_bots db)\<rparr>"

definition flush_run :: "bot_run \<Rightarrow> trading_db \<Rightarrow> (string, trading_db) result" where
  \<comment> \<open>under the table's check \<open>stopped_at IS NULL OR stopped_at >= started_at\<close>\<close>
  "flush_run r db =
     (case br_stopped_at r of
        Some t \<Rightarrow> if t < br_started_at r then Inl ''IntegrityError''
                  else Inr (db\<lparr>db_runs := update_row br_id r (db_runs db)\<rparr>)
      | None \<Rightarrow> Inr (db\<lparr>db_runs := update_row br_id r (db_runs db)\<rparr>))"

definition moved_bot :: "trading_bot \<Rightarrow> bot_state \<Rightarrow> bot_state \<Rightarrow> trading_bot" where
  "moved_bot tb desired actual = tb\<lparr>b_desired := desired, b_actual := actual, b_version := Suc (b_version tb)\<rparr>"

definition cancel_open_orders ::
  "tx_env \<Rightarrow> trading_bot \<Rightarrow> string \<Rightarrow> trading_db \<Rightarrow> (string, uuid list \<times> trading_db) result" where
  \<comment> \<open>every working order of the bot's account, in the order the query returned them\<close>
  "cancel_open_orders env tb reason db =
     (let orders = filter (\<lambda>x. o_account x = b_account tb \<and> cancellable (o_status x)) (db_orders db)
      in res_bind (run_steps (\<lambda>db x. res_bind (cancel_order env x reason db) (\<lambda>(_, db'). Inr db')) db orders)
           (\<lambda>db'. Inr (map o_id orders, db')))"

definition lifecycle_audit :: "trading_bot \<Rightarrow> string \<Rightarrow> payload \<Rightarrow> trading_db \<Rightarrow> trading_db" where
  "lifecycle_audit tb action after db = bot_audit (b_workspace tb) None action ''trading_bot'' (b_id tb) after db"

subsection \<open>Commands\<close>

definition start_bot :: "tx_env \<Rightarrow> trading_bot \<Rightarrow> trading_db \<Rightarrow> (string, bot_run \<times> trading_db) result" where
  "start_bot env tb db =
     (if b_desired tb = Running then Inl ''already_in_target_state''
      else if b_desired tb \<noteq> Stopped then Inl ''invalid_state''
      else res_bind (validate_bot_startup env db tb) (\<lambda>_.
        let (rid, db1) = fresh_id db;
            run = \<lparr>br_id = rid, br_bot = b_id tb, br_status = Running, br_started_at = env_now env,
              br_stopped_at = None, br_stop_reason = None, br_heartbeat_at = None\<rparr>;
            db2 = flush_bot (moved_bot tb Running Running) (db1\<lparr>db_runs := db_runs db1 @ [run]\<rparr>)
        in Inr (run, lifecycle_audit tb ''trading_bot.started'' [(''bot_run_id'', D_id rid)] db2)))"

definition pause_bot :: "tx_env \<Rightarrow> trading_bot \<Rightarrow> trading_db \<Rightarrow> (string, bot_run \<times> trading_db) result" where
  "pause_bot env tb db =
     (if b_desired tb = Paused then Inl ''already_in_target_state''
      else if b_desired tb \<noteq> Running then Inl ''invalid_state''
      else case find_run db (b_id tb) {Running} of
        None \<Rightarrow> Inl ''no_active_bot_run''
      | Some run \<Rightarrow>
          res_bind (cancel_open_orders env tb ''bot_paused'' db) (\<lambda>(cancelled, db1).
          let run' = run\<lparr>br_status := Paused, br_heartbeat_at := Some (env_now env)\<rparr>
          in res_bind (flush_run run' (flush_bot (moved_bot tb Paused Paused) db1)) (\<lambda>db2.
             Inr (run', lifecycle_audit tb ''trading_bot.paused''
               [(''cancelled_order_ids'', D_list (map D_id cancelled))] db2))))"

definition resume_bot :: "tx_env \<Rightarrow> trading_bot \<Rightarrow> trading_db \<Rightarrow> (string, bot_run \<times> trading_db) result" where
  "resume_bot env tb db =
     (if b_desired tb = Running then Inl ''already_in_target_state''
      else if b_desired tb \<noteq> Paused then Inl ''invalid_state''
      else case find_run db (b_id tb) {Paused} of
        None \<Rightarrow> Inl ''no_paused_bot_run''
      | Some run \<Rightarrow>
          res_bind (validate_bot_startup env db tb) (\<lambda>_.
          let run' = run\<lparr>br_status := Running, br_heartbeat_at := Some (env_now env)\<rparr>
          in res_bind (flush_run run' (flush_bot (moved_bot tb Running Running) db)) (\<lambda>db1.
             Inr (run', lifecycle_audit tb ''trading_bot.resumed'' [(''bot_run_id'', D_id (br_id run))] db1))))"

definition stop_bot ::
  "tx_env \<Rightarrow> trading_bot \<Rightarrow> string option \<Rightarrow> trading_db \<Rightarrow> (string, bot_run \<times> trading_db) result" where
  \<comment> \<open>an empty reason counts as none\<close>
  "stop_bot env tb reason db =
     (if b_desired tb = Stopped then Inl ''already_in_target_state''
      else if b_desired tb \<notin> {Running, Paused} then Inl ''invalid_state''
      else case find_run db (b_id tb) {Running, Paused} of
        None \<Rightarrow> Inl ''no_active_bot_run''
      | Some run \<Rightarrow>
          res_bind (cancel_open_orders env tb ''bot_stopped'' db) (\<lambda>(cancelled, db1).
          let why = (case reason of None \<Rightarrow> ''stop command'' | Some r \<Rightarrow> if r = [] then ''stop command'' else r);
              run' = run\<lparr>br_status := Stopped, br_stopped_at := Some (env_now env), br_stop_reason := Some why\<rparr>
          in res_bind (flush_run run' (flush_bot (moved_bot tb Stopped Stopped) db1)) (\<lambda>db2.
             Inr (run', lifecycle_audit tb ''trading_bot.stopped''
               [(''cancelled_order_ids'', D_list (map D_id cancelled)), (''reason'', D_text why)] db2))))"

definition fail_bot ::
  "tx_env \<Rightarrow> trading_bot \<Rightarrow> string \<Rightarrow> nat \<Rightarrow> trading_db \<Rightarrow> (string, bot_run option \<times> trading_db) result" where
  "fail_bot env tb error_type failures db =
     (let found = find_run db (b_id tb) {Running, Paused}
      in res_bind (cancel_open_orders env tb ''bot_failed'' db) (\<lambda>(cancelled, db1).
         let holds = (open_position db1 (b_account tb) (b_instrument tb) \<noteq> None);
             run' = map_option (\<lambda>r. r\<lparr>br_status := Failed, br_stopped_at := Some (env_now env),
               br_stop_reason := Some (''evaluation failed: '' @ error_type)\<rparr>) found;
             db2 = flush_bot (moved_bot tb Stopped Failed) db1
         in res_bind (case run' of None \<Rightarrow> Inr db2 | Some r \<Rightarrow> flush_run r db2) (\<lambda>db3.
            let db4 = lifecycle_audit tb ''trading_bot.failed''
                  [(''error_type'', D_text error_type), (''consecutive_failures'', D_int (int failures)),
                   (''cancelled_order_ids'', D_list (map D_id cancelled)), (''holds_position'', D_bool holds)] db3;
                message = [''bot_failed'', b_name tb, error_type] @ (if holds then [''position_left_open''] else []);
                payload = [(''bot_id'', D_id (b_id tb)), (''bot_name'', D_text (b_name tb)),
                  (''error_type'', D_text error_type), (''consecutive_failures'', D_int (int failures)),
                  (''holds_position'', D_bool holds)]
            in Inr (run', snd (publish_system_event env (b_workspace tb) ''error'' ''system'' ''bot_failed''
                 (Some ''evaluation_failed'') message payload ''trading_bot'' (b_id tb) ''trading_worker'' None
                 (Some ''bot'') (Some (b_id tb)) None db4)))))"

subsection \<open>Lemmas: cancelling the working orders\<close>

definition orders_frame :: "trading_db \<Rightarrow> trading_db \<Rightarrow> bool" where
  "orders_frame db db' \<longleftrightarrow> db_halts db' = db_halts db \<and> db_positions db' = db_positions db \<and> db_bots db' = db_bots db
     \<and> db_runs db' = db_runs db \<and> db_catalog db' = db_catalog db \<and> db_signals db' = db_signals db
     \<and> db_events db' = db_events db \<and> db_next_id db \<le> db_next_id db'"

lemma orders_frame_refl [simp]: "orders_frame db db"
  by (simp add: orders_frame_def)

lemma orders_frame_trans: "orders_frame a b \<Longrightarrow> orders_frame b c \<Longrightarrow> orders_frame a c"
  by (simp add: orders_frame_def)

lemma cancel_order_total:
  assumes "cancellable (o_status x)"
  obtains x' db' where "cancel_order env x reason db = Inr (x', db')" "orders_frame db db'"
    "db_orders db' = update_row o_id x' (db_orders db)" "o_id x' = o_id x" "o_status x' = Cancelled"
proof -
  obtain x' db' where eq: "cancel_order env x reason db = Inr (x', db')"
    using assms by (simp add: cancel_order_def Let_def split_def)
  obtain a where "x' = stored_order env (x\<lparr>o_status := Cancelled\<rparr>)" and db': "db' = db\<lparr>db_next_id := Suc (db_next_id db),
         db_audit := db_audit db @ [a], db_orders := update_row o_id x' (db_orders db),
         db_history := db_history db @ [\<lparr>sh_order = o_id x, sh_from = Some (o_status x), sh_to = Cancelled,
           sh_reason = Some reason, sh_occurred_at = env_now env\<rparr>]\<rparr>"
    using cancel_order_Inr [OF eq] by blast
  then show ?thesis using that [OF eq] unfolding orders_frame_def by simp
qed

lemma cancel_all:
  assumes "distinct (map o_id xs)" "set xs \<subseteq> set (db_orders db)" "\<forall>x \<in> set xs. cancellable (o_status x)"
  shows "\<exists>db'. run_steps (\<lambda>db x. res_bind (cancel_order env x reason db) (\<lambda>(_, db'). Inr db')) db xs = Inr db'
    \<and> orders_frame db db' \<and> (\<forall>column. books_ok column db \<longrightarrow> books_ok column db')
    \<and> (\<forall>y \<in> set (db_orders db'). o_status y = Cancelled \<or> y \<in> set (db_orders db) \<and> o_id y \<notin> o_id ` set xs)"
  using assms
proof (induction xs arbitrary: db)
  case Nil
  show ?case by simp
next
  case (Cons x xs)
  obtain x' db1 where step: "cancel_order env x reason db = Inr (x', db1)" "orders_frame db db1"
      "db_orders db1 = update_row o_id x' (db_orders db)" "o_id x' = o_id x" "o_status x' = Cancelled"
    using cancel_order_total Cons.prems(3) by (metis list.set_intros(1))
  have "set xs \<subseteq> set (db_orders db1)"
  proof
    fix y assume "y \<in> set xs"
    then have "o_id y \<noteq> o_id x" "y \<in> set (db_orders db)" using Cons.prems(1,2) by (auto simp: image_iff)
    then show "y \<in> set (db_orders db1)" by (simp add: step(3,4) set_update_row)
  qed
  then obtain db' where rest: "run_steps (\<lambda>db x. res_bind (cancel_order env x reason db) (\<lambda>(_, db'). Inr db')) db1 xs = Inr db'"
      "orders_frame db1 db'" "\<And>column. books_ok column db1 \<Longrightarrow> books_ok column db'"
      "\<And>y. y \<in> set (db_orders db') \<Longrightarrow> o_status y = Cancelled \<or> y \<in> set (db_orders db1) \<and> o_id y \<notin> o_id ` set xs"
    using Cons.IH [of db1] Cons.prems(1,3) by auto
  have "books_ok column db'" if "books_ok column db" for column
    using rest(3) cancel_order_books [OF that _ step(1)] Cons.prems(2) by simp
  moreover have "o_status y = Cancelled \<or> y \<in> set (db_orders db) \<and> o_id y \<notin> o_id ` set (x # xs)"
    if "y \<in> set (db_orders db')" for y
    using rest(4) [OF that] step(4,5) by (auto simp: step(3) set_update_row)
  ultimately show ?case using rest(1) step(1) orders_frame_trans [OF step(2) rest(2)] by auto
qed

definition no_working_orders :: "uuid \<Rightarrow> trading_db \<Rightarrow> bool" where
  "no_working_orders account db \<longleftrightarrow> (\<forall>x \<in> set (db_orders db). o_account x = account \<longrightarrow> \<not> cancellable (o_status x))"

lemma cancel_open_orders_total:
  assumes "orders_ok db"
  obtains ids db' where "cancel_open_orders env tb reason db = Inr (ids, db')" "orders_frame db db'"
    "\<And>column. books_ok column db \<Longrightarrow> books_ok column db'"
    "no_working_orders (b_account tb) db'" "\<And>a. no_working_orders a db \<Longrightarrow> no_working_orders a db'"
proof -
  let ?orders = "filter (\<lambda>x. o_account x = b_account tb \<and> cancellable (o_status x)) (db_orders db)"
  have "distinct (map o_id ?orders)" using assms by (simp add: orders_ok_def distinct_map_filter)
  then obtain db' where db': "run_steps (\<lambda>db x. res_bind (cancel_order env x reason db) (\<lambda>(_, db'). Inr db')) db ?orders = Inr db'"
      "orders_frame db db'" "\<forall>column. books_ok column db \<longrightarrow> books_ok column db'"
      "\<forall>y \<in> set (db_orders db'). o_status y = Cancelled \<or> y \<in> set (db_orders db) \<and> o_id y \<notin> o_id ` set ?orders"
    using cancel_all [of ?orders db env reason] by (elim meta_impE) auto
  show ?thesis
  proof (rule that [OF _ db'(2)])
    show "cancel_open_orders env tb reason db = Inr (map o_id ?orders, db')"
      by (simp only: cancel_open_orders_def Let_def db'(1) res_bind.simps)
    show "books_ok column db'" if "books_ok column db" for column using db'(3) that by blast
    have "\<not> cancellable (o_status x)" if "x \<in> set (db_orders db')" "o_account x = b_account tb" for x
    proof
      assume working: "cancellable (o_status x)"
      then have "x \<in> set (db_orders db) \<and> o_id x \<notin> o_id ` set ?orders"
        using db'(4) that(1) by (auto simp: cancellable_def)
      moreover from this have "x \<in> set ?orders" using working that(2) by simp
      ultimately show False by blast
    qed
    then show "no_working_orders (b_account tb) db'" by (simp add: no_working_orders_def)
    show "no_working_orders a db'" if "no_working_orders a db" for a
      unfolding no_working_orders_def
    proof (intro ballI impI)
      fix x assume "x \<in> set (db_orders db')" "o_account x = a"
      then have "o_status x = Cancelled \<or> x \<in> set (db_orders db)" using db'(4) by blast
      then show "\<not> cancellable (o_status x)"
        using that \<open>o_account x = a\<close> by (auto simp: no_working_orders_def cancellable_def)
    qed
  qed
qed

subsection \<open>Lemmas: bots and their runs\<close>

definition in_state :: "bot_run list \<Rightarrow> trading_bot \<Rightarrow> bool" where
  \<comment> \<open>what a bot should do, what it does, and its run agree\<close>
  "in_state runs tb \<longleftrightarrow>
     (if b_desired tb = Stopped
      then b_actual tb \<in> {Stopped, Failed} \<and> (\<forall>r \<in> set runs. br_bot r = b_id tb \<longrightarrow> \<not> active_run r)
      else b_desired tb \<in> {Running, Paused} \<and> b_actual tb = b_desired tb
        \<and> (\<exists>r \<in> set runs. br_bot r = b_id tb \<and> br_status r = b_desired tb))"

definition run_dated :: "bot_run \<Rightarrow> bool" where
  "run_dated r \<longleftrightarrow> (case br_stopped_at r of None \<Rightarrow> True | Some t \<Rightarrow> br_started_at r \<le> t)"

definition bots_ok :: "trading_db \<Rightarrow> bool" where
  \<comment> \<open>at most one active run per bot\<close>
  "bots_ok db \<longleftrightarrow> distinct (map b_id (db_bots db)) \<and> exclusive br_id active_run br_bot (db_runs db) (db_next_id db)
     \<and> (\<forall>r \<in> set (db_runs db). run_dated r) \<and> (\<forall>tb \<in> set (db_bots db). in_state (db_runs db) tb)"

definition trading_ok :: "(decimal \<Rightarrow> decimal) \<Rightarrow> trading_db \<Rightarrow> bool" where
  "trading_ok column db \<longleftrightarrow> system_ok column db \<and> bots_ok db"

lemma moved_bot_sel [simp]:
  "b_id (moved_bot tb d a) = b_id tb" "b_desired (moved_bot tb d a) = d" "b_actual (moved_bot tb d a) = a"
  "b_account (moved_bot tb d a) = b_account tb" "b_workspace (moved_bot tb d a) = b_workspace tb"
  by (simp_all add: moved_bot_def)

lemma bots_ok_frame:
  "bots_ok db \<Longrightarrow> db_bots db' = db_bots db \<Longrightarrow> db_runs db' = db_runs db \<Longrightarrow> db_next_id db \<le> db_next_id db' \<Longrightarrow> bots_ok db'"
  by (auto simp: bots_ok_def intro: exclusive_mono)

lemma find_run_Some:
  assumes "find_run db b statuses = Some r"
  shows "r \<in> set (db_runs db) \<and> br_bot r = b \<and> br_status r \<in> statuses"
  using assms by (auto simp: find_run_def find_Some_iff)

lemma active_bot_run:
  assumes "bots_ok db" "tb \<in> set (db_bots db)" "b_desired tb \<noteq> Stopped"
  obtains r where "b_desired tb \<in> {Running, Paused}" "b_actual tb = b_desired tb"
    "r \<in> set (db_runs db)" "br_bot r = b_id tb" "br_status r = b_desired tb"
    "\<And>statuses. b_desired tb \<in> statuses \<Longrightarrow> statuses \<subseteq> {Running, Paused} \<Longrightarrow> find_run db (b_id tb) statuses = Some r"
proof -
  have "in_state (db_runs db) tb" using assms(1,2) by (simp add: bots_ok_def)
  then obtain r where r: "b_desired tb \<in> {Running, Paused}" "b_actual tb = b_desired tb"
      "r \<in> set (db_runs db)" "br_bot r = b_id tb" "br_status r = b_desired tb"
    using assms(3) by (auto simp: in_state_def)
  have "find_run db (b_id tb) statuses = Some r" if st: "b_desired tb \<in> statuses" "statuses \<subseteq> {Running, Paused}" for statuses
  proof -
    have "find_run db (b_id tb) statuses \<noteq> None" using r st by (auto simp: find_run_def find_None_iff)
    then obtain x where x: "find_run db (b_id tb) statuses = Some x" by blast
    then have "x = r"
      using find_run_Some [OF x] exclusive_live [of br_id active_run br_bot "db_runs db" "db_next_id db" x r] assms(1) r st(2)
      by (auto simp: bots_ok_def active_run_def)
    then show ?thesis using x by simp
  qed
  then show ?thesis using that r by blast
qed

lemma bots_ok_moved:
  assumes ok: "bots_ok db" and tb: "tb \<in> set (db_bots db)" and run: "run \<in> set (db_runs db)" "br_bot run = b_id tb" "active_run run"
    and run': "br_id run' = br_id run" "br_bot run' = b_id tb" "run_dated run'"
    and moved: "if d = Stopped then a \<in> {Stopped, Failed} \<and> \<not> active_run run'
                else d \<in> {Running, Paused} \<and> a = d \<and> br_status run' = d"
    and db': "db_bots db' = update_row b_id (moved_bot tb d a) (db_bots db)" "db_runs db' = update_row br_id run' (db_runs db)"
      "db_next_id db \<le> db_next_id db'"
  shows "bots_ok db'"
proof -
  have keys: "exclusive br_id active_run br_bot (db_runs db) (db_next_id db)" "distinct (map b_id (db_bots db))"
    using ok by (simp_all add: bots_ok_def)
  have "exclusive br_id active_run br_bot (db_runs db') (db_next_id db')"
    unfolding db'(2) using exclusive_mono [OF exclusive_update [OF keys(1) run(1), of run'] db'(3)] run run' by simp
  moreover have "in_state (db_runs db') x" if x: "x \<in> set (db_bots db')" for x
  proof (cases "b_id x = b_id tb")
    case True
    have "x = moved_bot tb d a"
      using x True tb exclusive_key [of b_id] keys(2) by (auto simp: db'(1) set_update_row)
    moreover have "run' \<in> set (db_runs db')" using run(1) run'(1) by (force simp: db'(2) set_update_row)
    moreover have "\<not> active_run r" if "d = Stopped" "r \<in> set (db_runs db')" "br_bot r = b_id tb" for r
    proof
      assume active: "active_run r"
      then have "r \<noteq> run'" using moved that(1) by auto
      then have "r \<in> set (db_runs db)" "br_id r \<noteq> br_id run" using that(2) run'(1) by (auto simp: db'(2) set_update_row)
      then show False using exclusive_live [OF keys(1) _ run(1) active run(3)] that(3) run(2) by auto
    qed
    ultimately show ?thesis using moved run'(2) by (auto simp: in_state_def split: if_splits)
  next
    case False
    then have old: "x \<in> set (db_bots db)" using x by (auto simp: db'(1) set_update_row)
    have same: "r \<in> set (db_runs db') \<longleftrightarrow> r \<in> set (db_runs db)" if "br_bot r = b_id x" for r
      using that False run run' exclusive_key [OF keys(1) _ run(1), of r] by (auto simp: db'(2) set_update_row)
    have "in_state (db_runs db) x" using ok old by (simp add: bots_ok_def)
    then show ?thesis using same by (auto simp: in_state_def split: if_splits)
  qed
  moreover have "run_dated r" if "r \<in> set (db_runs db')" for r
    using that ok run'(3) by (auto simp: db'(2) set_update_row bots_ok_def)
  ultimately show ?thesis using keys(2) by (simp add: bots_ok_def db'(1))
qed

lemma bots_ok_started:
  assumes ok: "bots_ok db" and tb: "tb \<in> set (db_bots db)" "b_desired tb = Stopped"
    and run: "br_id run = db_next_id db" "br_bot run = b_id tb" "br_status run = Running" "run_dated run"
    and db': "db_bots db' = update_row b_id (moved_bot tb Running Running) (db_bots db)" "db_runs db' = db_runs db @ [run]"
      "db_next_id db < db_next_id db'"
  shows "bots_ok db'"
proof -
  have keys: "exclusive br_id active_run br_bot (db_runs db) (db_next_id db)" "distinct (map b_id (db_bots db))"
    using ok by (simp_all add: bots_ok_def)
  have "in_state (db_runs db) tb" using ok tb(1) by (simp add: bots_ok_def)
  then have idle: "\<not> active_run r" if "r \<in> set (db_runs db)" "br_bot r = b_id tb" for r
    using that tb(2) by (simp add: in_state_def)
  have "exclusive br_id active_run br_bot (db_runs db') (db_next_id db')"
    unfolding db'(2) using keys(1) run idle db'(3) by (intro exclusive_snoc) auto
  moreover have "in_state (db_runs db') x" if x: "x \<in> set (db_bots db')" for x
  proof (cases "b_id x = b_id tb")
    case True
    then have "x = moved_bot tb Running Running" using x tb by (auto simp: db'(1) set_update_row)
    then show ?thesis using run by (auto simp: in_state_def db'(2))
  next
    case False
    then have "in_state (db_runs db) x" using ok x by (auto simp: bots_ok_def db'(1) set_update_row)
    then show ?thesis using False run(2) by (auto simp: in_state_def db'(2) split: if_splits)
  qed
  moreover have "run_dated r" if "r \<in> set (db_runs db')" for r
    using that ok run(4) by (auto simp: db'(2) bots_ok_def)
  ultimately show ?thesis using keys(2) by (simp add: bots_ok_def db'(1))
qed

lemma bots_ok_idle_failed:
  assumes ok: "bots_ok db" and tb: "tb \<in> set (db_bots db)" "b_desired tb = Stopped"
    and db': "db_bots db' = update_row b_id (moved_bot tb Stopped Failed) (db_bots db)" "db_runs db' = db_runs db"
      "db_next_id db \<le> db_next_id db'"
  shows "bots_ok db'"
proof -
  have "in_state (db_runs db') x" if x: "x \<in> set (db_bots db')" for x
  proof (cases "b_id x = b_id tb")
    case True
    then have "x = moved_bot tb Stopped Failed" using x tb by (auto simp: db'(1) set_update_row)
    then show ?thesis using ok tb by (auto simp: in_state_def bots_ok_def db'(2))
  next
    case False
    then show ?thesis using ok x by (auto simp: bots_ok_def db'(1,2) set_update_row)
  qed
  then show ?thesis using ok db' exclusive_mono by (auto simp: bots_ok_def)
qed

subsection \<open>Lemmas: what a command does\<close>

definition runs_before :: "datetime \<Rightarrow> trading_db \<Rightarrow> bool" where
  "runs_before t db \<longleftrightarrow> (\<forall>r \<in> set (db_runs db). br_started_at r \<le> t)"

definition moves :: "trading_db \<Rightarrow> trading_bot \<Rightarrow> bot_state \<Rightarrow> bot_state \<Rightarrow> trading_db \<Rightarrow> bool" where
  "moves db tb d a db' \<longleftrightarrow> bots_ok db' \<and> db_bots db' = update_row b_id (moved_bot tb d a) (db_bots db)
     \<and> db_halts db' = db_halts db \<and> db_positions db' = db_positions db \<and> db_catalog db' = db_catalog db
     \<and> db_signals db' = db_signals db \<and> db_next_id db < db_next_id db'
     \<and> (\<forall>a. no_working_orders a db \<longrightarrow> no_working_orders a db')
     \<and> (\<forall>t. d = Running \<or> (runs_before t db \<longrightarrow> runs_before t db'))
     \<and> (\<forall>column. books_ok column db \<longrightarrow> books_ok column db')"

lemma flush_run_dated: "run_dated r \<Longrightarrow> flush_run r db = Inr (db\<lparr>db_runs := update_row br_id r (db_runs db)\<rparr>)"
  by (auto simp: flush_run_def run_dated_def split: option.splits)

lemma flush_run_undated: "\<not> run_dated r \<Longrightarrow> flush_run r db = Inl ''IntegrityError''"
  by (auto simp: flush_run_def run_dated_def split: option.splits)

lemma bots_ok_dated: "bots_ok db \<Longrightarrow> r \<in> set (db_runs db) \<Longrightarrow> run_dated r"
  by (simp add: bots_ok_def)

lemma publish_sel [simp]:
  fixes env ws sev cat et rs msg pl agt ai st si tt ti co db
  defines "db' \<equiv> snd (publish_system_event env ws sev cat et rs msg pl agt ai st si tt ti co db)"
  shows "db_halts db' = db_halts db" "db_positions db' = db_positions db" "db_orders db' = db_orders db"
    "db_history db' = db_history db" "db_bots db' = db_bots db" "db_runs db' = db_runs db" "db_catalog db' = db_catalog db"
    "db_signals db' = db_signals db" "db_next_id db < db_next_id db'"
  by (cases co; simp add: db'_def publish_system_event_def fresh_id_def)+

text \<open>A move of the bot and its run, on top of a database whose working orders were cancelled.\<close>

lemma moves_run:
  assumes "bots_ok db" "tb \<in> set (db_bots db)" "orders_frame db db1" "\<And>column. books_ok column db \<Longrightarrow> books_ok column db1"
    and "run \<in> set (db_runs db)" "br_bot run = b_id tb" "active_run run"
    and "br_id run' = br_id run" "br_bot run' = b_id tb" "run_dated run'"
    and "\<And>a. no_working_orders a db \<Longrightarrow> no_working_orders a db1" "br_started_at run' = br_started_at run"
    and "if d = Stopped then a \<in> {Stopped, Failed} \<and> \<not> active_run run'
         else d \<in> {Running, Paused} \<and> a = d \<and> br_status run' = d"
    and "db_bots db' = update_row b_id (moved_bot tb d a) (db_bots db1)" "db_runs db' = update_row br_id run' (db_runs db1)"
      "db_halts db' = db_halts db1" "db_positions db' = db_positions db1" "db_catalog db' = db_catalog db1"
      "db_signals db' = db_signals db1" "db_next_id db1 < db_next_id db'" "db_orders db' = db_orders db1"
      "db_history db' = db_history db1"
  shows "moves db tb d a db'"
proof -
  have same: "db_bots db1 = db_bots db" "db_runs db1 = db_runs db" "db_next_id db \<le> db_next_id db1"
    using assms(3) by (simp_all add: orders_frame_def)
  have "bots_ok db'"
    using assms(14,15,20) same by (intro bots_ok_moved [OF assms(1,2,5-10,13)]) simp_all
  moreover have "books_ok column db'" if "books_ok column db" for column
    using books_ok_frame [OF assms(4) [OF that], of db'] assms(17,20-22) by simp
  moreover have "runs_before t db'" if "runs_before t db" for t
    using that assms(5,12,15) same(2) by (auto simp: runs_before_def set_update_row)
  moreover have "no_working_orders a db'" if "no_working_orders a db" for a
    using assms(11) [OF that] assms(21) by (simp add: no_working_orders_def)
  ultimately show ?thesis using assms(3,14-20) by (simp add: moves_def orders_frame_def)
qed

lemma no_working_orders_frame: "db_orders db' = db_orders db \<Longrightarrow> no_working_orders a db' \<longleftrightarrow> no_working_orders a db"
  by (simp add: no_working_orders_def)

lemma lifecycle_audit_sel [simp]:
  "db_bots (lifecycle_audit tb act pl db) = db_bots db" "db_runs (lifecycle_audit tb act pl db) = db_runs db"
  "db_halts (lifecycle_audit tb act pl db) = db_halts db" "db_positions (lifecycle_audit tb act pl db) = db_positions db"
  "db_orders (lifecycle_audit tb act pl db) = db_orders db" "db_history (lifecycle_audit tb act pl db) = db_history db"
  "db_catalog (lifecycle_audit tb act pl db) = db_catalog db" "db_signals (lifecycle_audit tb act pl db) = db_signals db"
  "db_next_id (lifecycle_audit tb act pl db) = Suc (db_next_id db)"
  by (simp_all add: lifecycle_audit_def)

lemma flush_bot_sel [simp]:
  "db_bots (flush_bot tb db) = update_row b_id tb (db_bots db)" "db_runs (flush_bot tb db) = db_runs db"
  "db_halts (flush_bot tb db) = db_halts db" "db_positions (flush_bot tb db) = db_positions db"
  "db_orders (flush_bot tb db) = db_orders db" "db_history (flush_bot tb db) = db_history db"
  "db_catalog (flush_bot tb db) = db_catalog db" "db_signals (flush_bot tb db) = db_signals db"
  "db_next_id (flush_bot tb db) = db_next_id db"
  by (simp_all add: flush_bot_def)

lemma start_bot_total:
  assumes "bots_ok db" "tb \<in> set (db_bots db)" "b_desired tb = Stopped" "validate_bot_startup env db tb = Inr ()"
  shows "\<exists>run db'. start_bot env tb db = Inr (run, db') \<and> br_status run = Running \<and> moves db tb Running Running db'"
proof -
  obtain run db' where eq: "start_bot env tb db = Inr (run, db')"
    and run: "br_id run = db_next_id db" "br_bot run = b_id tb" "br_status run = Running" "run_dated run"
    and db': "db_bots db' = update_row b_id (moved_bot tb Running Running) (db_bots db)" "db_runs db' = db_runs db @ [run]"
      "db_halts db' = db_halts db" "db_positions db' = db_positions db" "db_catalog db' = db_catalog db"
      "db_signals db' = db_signals db" "db_orders db' = db_orders db" "db_history db' = db_history db"
      "db_next_id db < db_next_id db'"
    using assms(3,4) by (simp add: start_bot_def fresh_id_def Let_def run_dated_def)
  have "bots_ok db'" by (rule bots_ok_started [OF assms(1-3) run db'(1,2,9)])
  moreover have "books_ok column db'" if "books_ok column db" for column
    using books_ok_frame [OF that, of db'] db'(4,7,8,9) by simp
  ultimately show ?thesis using eq run(3) db' by (simp add: moves_def no_working_orders_def)
qed

lemma resume_bot_total:
  assumes ok: "bots_ok db" and tb: "tb \<in> set (db_bots db)" "b_desired tb = Paused" and valid: "validate_bot_startup env db tb = Inr ()"
  shows "\<exists>run db'. resume_bot env tb db = Inr (run, db') \<and> br_status run = Running \<and> moves db tb Running Running db'"
proof -
  obtain r where r: "r \<in> set (db_runs db)" "br_bot r = b_id tb" "br_status r = Paused" "find_run db (b_id tb) {Paused} = Some r"
    using active_bot_run [OF ok tb(1)] tb(2) by (metis bot_state.distinct(7) insert_subset order_refl singletonI insert_commute empty_subsetI)
  let ?run = "r\<lparr>br_status := Running, br_heartbeat_at := Some (env_now env)\<rparr>"
  have dated: "run_dated ?run" using bots_ok_dated [OF ok r(1)] by (simp add: run_dated_def split: option.splits)
  obtain db' where eq: "resume_bot env tb db = Inr (?run, db')"
    and db': "db' = lifecycle_audit tb ''trading_bot.resumed'' [(''bot_run_id'', D_id (br_id r))]
        ((flush_bot (moved_bot tb Running Running) db)\<lparr>db_runs := update_row br_id ?run (db_runs db)\<rparr>)"
    using tb(2) valid r(4) flush_run_dated [OF dated] by (simp add: resume_bot_def Let_def)
  have "moves db tb Running Running db'"
    by (rule moves_run [OF ok tb(1) orders_frame_refl _ r(1,2), of ?run])
      (use r dated in \<open>simp_all add: db' active_run_def\<close>)
  then show ?thesis using eq by auto
qed

lemma pause_bot_total:
  assumes ok: "bots_ok db" "orders_ok db" and tb: "tb \<in> set (db_bots db)" "b_desired tb = Running"
  shows "\<exists>run db'. pause_bot env tb db = Inr (run, db') \<and> br_status run = Paused \<and> moves db tb Paused Paused db'
    \<and> no_working_orders (b_account tb) db'"
proof -
  obtain r where r: "r \<in> set (db_runs db)" "br_bot r = b_id tb" "br_status r = Running" "find_run db (b_id tb) {Running} = Some r"
    using active_bot_run [OF ok(1) tb(1)] tb(2) by (metis bot_state.distinct(3) insert_subset order_refl singletonI insert_commute empty_subsetI)
  obtain ids db1 where quiet: "cancel_open_orders env tb ''bot_paused'' db = Inr (ids, db1)" "orders_frame db db1"
      "\<And>column. books_ok column db \<Longrightarrow> books_ok column db1" "no_working_orders (b_account tb) db1"
      "\<And>a. no_working_orders a db \<Longrightarrow> no_working_orders a db1"
    by (rule cancel_open_orders_total [OF ok(2), of env tb "''bot_paused''"]) (rule that, assumption+)
  let ?run = "r\<lparr>br_status := Paused, br_heartbeat_at := Some (env_now env)\<rparr>"
  have dated: "run_dated ?run" using bots_ok_dated [OF ok(1) r(1)] by (simp add: run_dated_def split: option.splits)
  obtain db' where eq: "pause_bot env tb db = Inr (?run, db')"
    and db': "db' = lifecycle_audit tb ''trading_bot.paused'' [(''cancelled_order_ids'', D_list (map D_id ids))]
        ((flush_bot (moved_bot tb Paused Paused) db1)\<lparr>db_runs := update_row br_id ?run (db_runs db1)\<rparr>)"
    using tb(2) quiet(1) r(4) flush_run_dated [OF dated] by (simp add: pause_bot_def Let_def)
  have "moves db tb Paused Paused db'"
    by (rule moves_run [OF ok(1) tb(1) quiet(2,3) r(1,2) _ _ _ _ quiet(5), of ?run])
      (use r dated in \<open>simp_all add: db' active_run_def\<close>)
  then show ?thesis using eq no_working_orders_frame [of db' db1] quiet(4) by (auto simp: db')
qed

lemma stop_bot_total:
  assumes ok: "bots_ok db" "orders_ok db" and tb: "tb \<in> set (db_bots db)" "b_desired tb \<noteq> Stopped"
  shows "(\<exists>run db'. stop_bot env tb reason db = Inr (run, db') \<and> br_status run = Stopped \<and> moves db tb Stopped Stopped db'
      \<and> no_working_orders (b_account tb) db')
    \<or> stop_bot env tb reason db = Inl ''IntegrityError'' \<and> (\<exists>r \<in> set (db_runs db). env_now env < br_started_at r)"
proof -
  obtain r where r: "b_desired tb \<in> {Running, Paused}" "r \<in> set (db_runs db)" "br_bot r = b_id tb" "br_status r = b_desired tb"
      "find_run db (b_id tb) {Running, Paused} = Some r"
    using active_bot_run [OF ok(1) tb] by (metis subset_refl)
  obtain ids db1 where quiet: "cancel_open_orders env tb ''bot_stopped'' db = Inr (ids, db1)" "orders_frame db db1"
      "\<And>column. books_ok column db \<Longrightarrow> books_ok column db1" "no_working_orders (b_account tb) db1"
      "\<And>a. no_working_orders a db \<Longrightarrow> no_working_orders a db1"
    by (rule cancel_open_orders_total [OF ok(2), of env tb "''bot_stopped''"]) (rule that, assumption+)
  define why where "why = (case reason of None \<Rightarrow> ''stop command'' | Some r \<Rightarrow> if r = [] then ''stop command'' else r)"
  define run where "run = r\<lparr>br_status := Stopped, br_stopped_at := Some (env_now env), br_stop_reason := Some why\<rparr>"
  have stop: "stop_bot env tb reason db = res_bind (flush_run run (flush_bot (moved_bot tb Stopped Stopped) db1)) (\<lambda>db2.
      Inr (run, lifecycle_audit tb ''trading_bot.stopped''
        [(''cancelled_order_ids'', D_list (map D_id ids)), (''reason'', D_text why)] db2))"
    using tb(2) r(1,5) quiet(1) unfolding stop_bot_def run_def why_def Let_def by auto
  show ?thesis
  proof (cases "run_dated run")
    case True
    define db' where "db' = lifecycle_audit tb ''trading_bot.stopped''
        [(''cancelled_order_ids'', D_list (map D_id ids)), (''reason'', D_text why)]
        ((flush_bot (moved_bot tb Stopped Stopped) db1)\<lparr>db_runs := update_row br_id run (db_runs db1)\<rparr>)"
    have "moves db tb Stopped Stopped db'"
      by (rule moves_run [OF ok(1) tb(1) quiet(2,3) r(2,3) _ _ _ _ quiet(5), of run])
        (use r True in \<open>simp_all add: db'_def active_run_def run_def\<close>)
    moreover have "stop_bot env tb reason db = Inr (run, db')"
      by (simp add: stop flush_run_dated [OF True] db'_def)
    moreover have "no_working_orders (b_account tb) db'"
      using quiet(4) no_working_orders_frame [of db' db1] by (simp add: db'_def)
    ultimately show ?thesis by (auto simp: run_def)
  next
    case False
    then have "env_now env < br_started_at r" by (simp add: run_dated_def run_def)
    then show ?thesis using stop flush_run_undated [OF False] r(2) by auto
  qed
qed

lemma fail_bot_total:
  assumes ok: "bots_ok db" "orders_ok db" and tb: "tb \<in> set (db_bots db)"
  shows "(\<exists>run db'. fail_bot env tb e n db = Inr (run, db') \<and> moves db tb Stopped Failed db' \<and> no_working_orders (b_account tb) db')
    \<or> fail_bot env tb e n db = Inl ''IntegrityError'' \<and> (\<exists>r \<in> set (db_runs db). env_now env < br_started_at r)"
proof -
  let ?found = "find_run db (b_id tb) {Running, Paused}"
  let ?failed = "\<lambda>r. r\<lparr>br_status := Failed, br_stopped_at := Some (env_now env), br_stop_reason := Some (''evaluation failed: '' @ e)\<rparr>"
  obtain ids db1 where quiet: "cancel_open_orders env tb ''bot_failed'' db = Inr (ids, db1)" "orders_frame db db1"
      "\<And>column. books_ok column db \<Longrightarrow> books_ok column db1" "no_working_orders (b_account tb) db1"
      "\<And>a. no_working_orders a db \<Longrightarrow> no_working_orders a db1"
    by (rule cancel_open_orders_total [OF ok(2), of env tb "''bot_failed''"]) (rule that, assumption+)
  let ?db2 = "flush_bot (moved_bot tb Stopped Failed) db1"
  obtain pl after msg where fail: "fail_bot env tb e n db =
      res_bind (case map_option ?failed ?found of None \<Rightarrow> Inr ?db2 | Some r \<Rightarrow> flush_run r ?db2) (\<lambda>db3.
        Inr (map_option ?failed ?found, snd (publish_system_event env (b_workspace tb) ''error'' ''system'' ''bot_failed''
             (Some ''evaluation_failed'') msg pl ''trading_bot'' (b_id tb) ''trading_worker'' None
             (Some ''bot'') (Some (b_id tb)) None (lifecycle_audit tb ''trading_bot.failed'' after db3))))"
    using quiet(1) by (simp add: fail_bot_def Let_def)
  show ?thesis
  proof (cases ?found)
    case None
    define db' where "db' = snd (publish_system_event env (b_workspace tb) ''error'' ''system'' ''bot_failed''
             (Some ''evaluation_failed'') msg pl ''trading_bot'' (b_id tb) ''trading_worker'' None
             (Some ''bot'') (Some (b_id tb)) None (lifecycle_audit tb ''trading_bot.failed'' after ?db2))"
    have stopped: "b_desired tb = Stopped"
      using None active_bot_run [OF ok(1) tb] by (metis insertCI insertE option.distinct(1) singletonD subset_refl)
    have eq: "fail_bot env tb e n db = Inr (None, db')" using fail None by (simp add: db'_def)
    have "db_next_id (lifecycle_audit tb ''trading_bot.failed'' after ?db2) < db_next_id db'"
      unfolding db'_def by (rule publish_sel(9))
    then have next_id: "db_next_id db1 < db_next_id db'" by simp
    have same: "db_bots db1 = db_bots db" "db_runs db1 = db_runs db" "db_next_id db \<le> db_next_id db1"
      using quiet(2) by (simp_all add: orders_frame_def)
    have "bots_ok db'" using same next_id by (intro bots_ok_idle_failed [OF ok(1) tb stopped]) (simp_all add: db'_def)
    moreover have "books_ok column db'" if "books_ok column db" for column
      using books_ok_frame [OF quiet(3) [OF that], of db'] next_id by (simp add: db'_def)
    moreover have "runs_before t db'" if "runs_before t db" for t
      using that same(2) by (simp add: runs_before_def db'_def)
    moreover have "no_working_orders a db'" if "no_working_orders a db" for a
      using quiet(5) [OF that] by (simp add: no_working_orders_def db'_def)
    ultimately have "moves db tb Stopped Failed db'"
      using quiet(2) next_id by (simp add: moves_def orders_frame_def db'_def)
    then show ?thesis using eq quiet(4) no_working_orders_frame [of db' db1] by (simp add: db'_def)
  next
    case (Some r)
    note r = find_run_Some [OF Some]
    show ?thesis
    proof (cases "run_dated (?failed r)")
      case True
      define db' where "db' = snd (publish_system_event env (b_workspace tb) ''error'' ''system'' ''bot_failed''
             (Some ''evaluation_failed'') msg pl ''trading_bot'' (b_id tb) ''trading_worker'' None
             (Some ''bot'') (Some (b_id tb)) None (lifecycle_audit tb ''trading_bot.failed'' after
               (?db2\<lparr>db_runs := update_row br_id (?failed r) (db_runs ?db2)\<rparr>)))"
      have eq: "fail_bot env tb e n db = Inr (Some (?failed r), db')"
        using fail unfolding Some option.map option.case flush_run_dated [OF True] db'_def by simp
      have "db_next_id (lifecycle_audit tb ''trading_bot.failed'' after
          (?db2\<lparr>db_runs := update_row br_id (?failed r) (db_runs ?db2)\<rparr>)) < db_next_id db'"
        unfolding db'_def by (rule publish_sel(9))
      then have "db_next_id db1 < db_next_id db'" by simp
      then have "moves db tb Stopped Failed db'"
        by (intro moves_run [OF ok(1) tb quiet(2,3) _ _ _ _ _ _ quiet(5), of r "?failed r"])
          (use r True in \<open>simp_all add: db'_def active_run_def\<close>)
      then show ?thesis using eq quiet(4) no_working_orders_frame [of db' db1] by (simp add: db'_def)
    next
      case False
      then have "env_now env < br_started_at r" by (simp add: run_dated_def)
      moreover have "fail_bot env tb e n db = Inl ''IntegrityError''"
        using fail unfolding Some option.map option.case flush_run_undated [OF False] by simp
      ultimately show ?thesis using r by blast
    qed
  qed
qed

subsection \<open>The life of a bot\<close>

inductive bot_step :: "(decimal \<Rightarrow> decimal) \<Rightarrow> trading_db \<Rightarrow> trading_db \<Rightarrow> bool" for column where
  start_step: "tb \<in> set (db_bots db) \<Longrightarrow> start_bot env tb db = Inr (run, db') \<Longrightarrow> bot_step column db db'"
| pause_step: "tb \<in> set (db_bots db) \<Longrightarrow> pause_bot env tb db = Inr (run, db') \<Longrightarrow> bot_step column db db'"
| resume_step: "tb \<in> set (db_bots db) \<Longrightarrow> resume_bot env tb db = Inr (run, db') \<Longrightarrow> bot_step column db db'"
| stop_step: "tb \<in> set (db_bots db) \<Longrightarrow> stop_bot env tb reason db = Inr (run, db') \<Longrightarrow> bot_step column db db'"
| fail_step: "tb \<in> set (db_bots db) \<Longrightarrow> fail_bot env tb e n db = Inr (failed, db') \<Longrightarrow> bot_step column db db'"
| cycle_step: "env_column env = column \<Longrightarrow> tb \<in> set (db_bots db) \<Longrightarrow>
    evaluate_bot_on_latest_bar env tb run db = Inr (r, db') \<Longrightarrow> bot_step column db db'"

inductive_cases bot_stepE: "bot_step column db db'"

lemma start_bot_Inr: "start_bot env tb db = Inr x \<Longrightarrow> b_desired tb = Stopped \<and> validate_bot_startup env db tb = Inr ()"
  by (cases "validate_bot_startup env db tb") (auto simp: start_bot_def split: if_splits)

lemma pause_bot_Inr: "pause_bot env tb db = Inr x \<Longrightarrow> b_desired tb = Running"
  by (simp add: pause_bot_def split: if_splits)

lemma resume_bot_Inr: "resume_bot env tb db = Inr x \<Longrightarrow> b_desired tb = Paused \<and> validate_bot_startup env db tb = Inr ()"
  by (cases "validate_bot_startup env db tb") (auto simp: resume_bot_def split: if_splits option.splits)

lemma stop_bot_Inr: "stop_bot env tb reason db = Inr x \<Longrightarrow> b_desired tb \<in> {Running, Paused}"
  by (simp add: stop_bot_def split: if_splits)

lemma bot_step_moves:
  assumes "bot_step column db db'" "bots_ok db" "orders_ok db" "numeric_column column"
  shows "(\<exists>tb d a. moves db tb d a db') \<or> safe_step column db db'"
  using assms(1)
proof (cases rule: bot_step.cases)
  case (start_step tb env run)
  then show ?thesis using start_bot_total [OF assms(2) start_step(1), of env] start_bot_Inr [OF start_step(2)] by auto
next
  case (pause_step tb env run)
  then show ?thesis using pause_bot_total [OF assms(2,3) pause_step(1), of env] pause_bot_Inr [OF pause_step(2)] by auto
next
  case (resume_step tb env run)
  then show ?thesis using resume_bot_total [OF assms(2) resume_step(1), of env] resume_bot_Inr [OF resume_step(2)] by auto
next
  case (stop_step tb env reason run)
  then have "moves db tb Stopped Stopped db'"
    using stop_bot_total [OF assms(2,3) stop_step(1), of env reason] stop_bot_Inr [OF stop_step(2)] by auto
  then show ?thesis by blast
next
  case (fail_step tb env e n run)
  then have "moves db tb Stopped Failed db'" using fail_bot_total [OF assms(2,3) fail_step(1), of env e n] by auto
  then show ?thesis by blast
next
  case (cycle_step env tb run r)
  then show ?thesis using safe_evaluation [OF assms(4)] by blast
qed

lemma trading_ok_step:
  assumes "numeric_column column" "trading_ok column db" "bot_step column db db'"
  shows "trading_ok column db' \<and> halts_kept db db'"
proof -
  have ok: "bots_ok db" "halts_ok db" "books_ok column db" "orders_ok db"
    using assms(2) by (simp_all add: trading_ok_def system_ok_def books_ok_def)
  from bot_step_moves [OF assms(3) ok(1,4) assms(1)] show ?thesis
  proof (elim disjE exE)
    fix tb d a assume m: "moves db tb d a db'"
    then show ?thesis
      using ok(2,3) halts_ok_frame [of db db'] halts_kept_same [of db' db] by (auto simp: moves_def trading_ok_def system_ok_def)
  next
    assume s: "safe_step column db db'"
    then show ?thesis
      using ok assms(2) bots_ok_frame [of db db'] by (simp add: safe_step_def trading_ok_def)
  qed
qed

sublocale numeric_column \<subseteq> bot_life: state_machine "bot_step column" "\<lambda>db. trading_ok column db \<and> halts_kept first db" for first
  by unfold_locales (use numeric_column_axioms trading_ok_step halts_kept_trans in blast)

context numeric_column begin

lemma bot_life_reachable:
  "(bot_step column)\<^sup>*\<^sup>* db db' \<Longrightarrow> trading_ok column db \<and> halts_kept db db \<Longrightarrow> trading_ok column db' \<and> halts_kept db db'"
  by (rule bot_life.reachable_keeps)

end

text \<open>
  C14 (invariant). Whatever sequence of commands and cycles the bots go through, at most one run of a
  bot is active, each bot's desired state, actual state and run agree, the books and the halts stay
  consistent, and no halt other than those a bot may relax itself is lowered or lifted.
\<close>

theorem bots_stay_consistent:
  assumes "numeric_column column" "(bot_step column)\<^sup>*\<^sup>* db db'" "trading_ok column db"
  shows "trading_ok column db' \<and> halts_kept db db'"
  using numeric_column.bot_life_reachable [OF assms(1,2)] assms(3) halts_kept_same [of db db] by simp

text \<open>
  C15 (liveness). From a consistent database each command succeeds exactly in the state it is for: start
  when stopped and pause when running, resume when paused, stop whenever not stopped; start and
  resume also need the startup checks. No command is ever stuck for a missing run.
\<close>

theorem commands_available:
  assumes "bots_ok db" "orders_ok db" "tb \<in> set (db_bots db)" "\<forall>r \<in> set (db_runs db). br_started_at r \<le> env_now env"
  shows "((\<exists>x. start_bot env tb db = Inr x) \<longleftrightarrow> b_desired tb = Stopped \<and> validate_bot_startup env db tb = Inr ())
    \<and> ((\<exists>x. pause_bot env tb db = Inr x) \<longleftrightarrow> b_desired tb = Running)
    \<and> ((\<exists>x. resume_bot env tb db = Inr x) \<longleftrightarrow> b_desired tb = Paused \<and> validate_bot_startup env db tb = Inr ())
    \<and> ((\<exists>x. stop_bot env tb reason db = Inr x) \<longleftrightarrow> b_desired tb \<noteq> Stopped)"
proof -
  have "\<not> (\<exists>r \<in> set (db_runs db). env_now env < br_started_at r)" using assms(4) by (meson leD)
  then have "\<exists>x. stop_bot env tb reason db = Inr x" if "b_desired tb \<noteq> Stopped"
    using stop_bot_total [OF assms(1-3) that, of env reason] by blast
  then have "(\<exists>x. stop_bot env tb reason db = Inr x) \<longleftrightarrow> b_desired tb \<noteq> Stopped"
    using stop_bot_Inr [of env tb reason db] by auto
  moreover have "(\<exists>x. start_bot env tb db = Inr x) \<longleftrightarrow> b_desired tb = Stopped \<and> validate_bot_startup env db tb = Inr ()"
    using start_bot_total [OF assms(1,3), of env] start_bot_Inr [of env tb db] by blast
  moreover have "(\<exists>x. pause_bot env tb db = Inr x) \<longleftrightarrow> b_desired tb = Running"
    using pause_bot_total [OF assms(1-3), of env] pause_bot_Inr [of env tb db] by blast
  moreover have "(\<exists>x. resume_bot env tb db = Inr x) \<longleftrightarrow> b_desired tb = Paused \<and> validate_bot_startup env db tb = Inr ()"
    using resume_bot_total [OF assms(1,3), of env] resume_bot_Inr [of env tb db] by blast
  ultimately show ?thesis by blast
qed

text \<open>
  C16 (safety). A bot that was paused, stopped or failed leaves no working order on its account, and
  its open positions are untouched: closing them is another decision.
\<close>

theorem halted_bots_leave_no_orders:
  assumes "bots_ok db" "orders_ok db" "tb \<in> set (db_bots db)"
    and "pause_bot env tb db = Inr (run, db') \<or> stop_bot env tb reason db = Inr (run, db') \<or> fail_bot env tb e n db = Inr (failed, db')"
  shows "no_working_orders (b_account tb) db' \<and> db_positions db' = db_positions db \<and> db_halts db' = db_halts db"
  using assms(4)
proof (elim disjE)
  assume eq: "pause_bot env tb db = Inr (run, db')"
  then show ?thesis using pause_bot_total [OF assms(1-3), of env] pause_bot_Inr [OF eq] by (auto simp: moves_def)
next
  assume eq: "stop_bot env tb reason db = Inr (run, db')"
  then show ?thesis using stop_bot_total [OF assms(1-3), of env reason] stop_bot_Inr [OF eq] by (auto simp: moves_def)
next
  assume "fail_bot env tb e n db = Inr (failed, db')"
  then show ?thesis using fail_bot_total [OF assms(1-3), of env e n] by (auto simp: moves_def)
qed

lemma emergency_refuses:
  assumes "has_active_halt_at_or_above db (bot_scope tb) Emergency_stopped
    \<or> has_active_halt_at_or_above db (workspace_scope (b_workspace tb)) Emergency_stopped"
  shows "validate_bot_startup env db tb \<noteq> Inr ()"
  using assms by (auto simp: validate_bot_startup_def result_simps)

text \<open>
  An emergency stop of a bot or of its workspace keeps the bot from running: from then
  on, after any sequence of commands and cycles, both start and resume are refused; only a release
  by a user, which is no step of a bot, ends it.
\<close>

theorem emergency_stop_keeps_bots_down:
  assumes "numeric_column column" "trading_ok column db" "(bot_step column)\<^sup>*\<^sup>* db db'"
    and "h \<in> set (db_halts db)" "active h" "h_level h = Emergency_stopped" "h_reason h \<notin> machine_relaxes"
    and "in_scope (bot_scope tb) h \<or> in_scope (workspace_scope (b_workspace tb)) h"
  shows "(\<exists>e. start_bot env tb db' = Inl e) \<and> (\<exists>e. resume_bot env tb db' = Inl e)"
proof -
  have "halts_kept db db'"
    using numeric_column.bot_life_reachable [OF assms(1,3)] assms(2) halts_kept_same [of db db] by simp
  then obtain h' where h': "h' \<in> set (db_halts db')" "active h'" "cause h' = cause h" "h_level h \<le> h_level h'"
    using assms(4,5,7) unfolding halts_kept_def by blast
  moreover have "in_scope s h' \<longleftrightarrow> in_scope s h" for s using h'(3) by (simp add: in_scope_iff cause_def)
  ultimately have "validate_bot_startup env db' tb \<noteq> Inr ()"
    using assms(6,8) by (intro emergency_refuses) (auto simp: has_active_halt_at_or_above_def)
  then show ?thesis
    using start_bot_Inr resume_bot_Inr by (metis sum.exhaust)
qed

end
