(* ===== verification/Emergency_Stop.thy ===== *)
theory Emergency_Stop
  imports Bot_Lifecycle
begin

text \<open>
  The emergency stop of a bot or of a workspace, \<open>app/trading/application/emergency_stop.py\<close>. The halt,
  the stops and the audit row are one transaction, each bot's stop a savepoint of its own; the open
  positions are closed afterwards, each order in its own transaction, and only if asked for.
\<close>

definition emergency_reason :: string where
  "emergency_reason = ''user_emergency_stop''"

record emergency_result =
  es_halt :: trading_halt
  es_already_active :: bool
  es_stopped_bots :: "uuid list"
  es_bot_failures :: "(uuid \<times> string) list"
  es_closing_orders :: "uuid list"
  es_close_failures :: "(uuid \<times> string) list"

definition lifecycle_codes :: "string set" where
  \<comment> \<open>the codes of the \<open>BotLifecycleError\<close> a stop can raise\<close>
  "lifecycle_codes = {''already_in_target_state'', ''invalid_state'', ''no_active_bot_run''}"

type_synonym stop_progress = "uuid list \<times> (uuid \<times> string) list \<times> trading_db"

definition stop_in_savepoint :: "tx_env \<Rightarrow> stop_progress \<Rightarrow> trading_bot \<Rightarrow> (string, stop_progress) result" where
  \<comment> \<open>a lifecycle error is recorded and the savepoint undone; any other error ends the stop\<close>
  "stop_in_savepoint env = (\<lambda>(stopped, failures, db) tb.
     if b_desired tb = Stopped then Inr (stopped, failures, db)
     else case stop_bot env tb (Some ''emergency stop'') db of
       Inr (_, db') \<Rightarrow> Inr (stopped @ [b_id tb], failures, db')
     | Inl e \<Rightarrow> if e \<in> lifecycle_codes then Inr (stopped, failures @ [(b_id tb, e)], db) else Inl e)"

definition stop_audit ::
  "halt_scope \<Rightarrow> trading_halt \<Rightarrow> bool \<Rightarrow> bool \<Rightarrow> uuid option \<Rightarrow> string option \<Rightarrow> uuid \<Rightarrow> stop_progress \<Rightarrow> trading_db" where
  "stop_audit scope halt already_active close_positions requested_by reason correlation = (\<lambda>(stopped, failures, db).
     db\<lparr>db_audit := db_audit db @ [\<lparr>al_workspace = hs_workspace scope, al_actor = requested_by,
       al_action = ''trading_halt.user_emergency_stop'', al_resource_type = ''trading_halt'',
       al_resource_id = h_id halt,
       al_after = [(''scope_type'', D_text (hs_type scope)), (''scope_id'', optional D_id (hs_id scope)),
         (''already_active'', D_bool already_active), (''close_positions'', D_bool close_positions),
         (''reason'', optional D_text reason), (''stopped_bot_ids'', D_list (map D_id stopped)),
         (''bot_stop_failures'', D_list (map (\<lambda>(b, code). D_list [D_id b, D_text code]) failures))],
       al_correlation = correlation\<rparr>]\<rparr>)"

definition activate_and_stop ::
  "tx_env \<Rightarrow> halt_scope \<Rightarrow> trading_bot list \<Rightarrow> uuid option \<Rightarrow> bool \<Rightarrow> string option \<Rightarrow> trading_db \<Rightarrow>
     (string, emergency_result \<times> trading_db) result" where
  "activate_and_stop env scope bots requested_by close_positions reason db =
     (let (correlation, db1) = fresh_id db;
          existing = find_active_halt db1 scope emergency_reason;
          (halt, db2) = activate_or_escalate env scope emergency_reason Emergency_stopped False
            (Some \<lparr>he_type = ''user_emergency_stop'', he_message = [''user_emergency_stop'', hs_type scope],
               he_payload = [(''close_positions'', D_bool close_positions), (''reason'', optional D_text reason)],
               he_source_type = (if requested_by \<noteq> None then ''user'' else ''operator_script''),
               he_source_id = requested_by, he_correlation = Some correlation\<rparr>) db1
      in res_bind (run_steps (stop_in_savepoint env) ([], [], db2) bots) (\<lambda>(stopped, failures, db3).
         Inr (\<lparr>es_halt = halt, es_already_active = (existing \<noteq> None), es_stopped_bots = stopped,
                es_bot_failures = failures, es_closing_orders = [], es_close_failures = []\<rparr>,
              stop_audit scope halt (existing \<noteq> None) close_positions requested_by reason correlation
                (stopped, failures, db3))))"

definition to_close :: "halt_scope \<Rightarrow> trading_bot list \<Rightarrow> trading_db \<Rightarrow> trading_position list" where
  \<comment> \<open>the open positions of the workspace; for one bot, those on its account and instrument\<close>
  "to_close scope bots db =
     filter (\<lambda>p. p_status p = Open
         \<and> (\<exists>a \<in> set (cat_accounts (db_catalog db)). ac_id a = p_account p \<and> ac_workspace a = hs_workspace scope)
         \<and> (hs_type scope = ''bot'' \<longrightarrow> (p_account p, p_instrument p) \<in> (\<lambda>b. (b_account b, b_instrument b)) ` set bots))
       (db_positions db)"

definition close_one :: "tx_env \<Rightarrow> uuid \<Rightarrow> emergency_result \<times> trading_db \<Rightarrow> trading_position \<Rightarrow> emergency_result \<times> trading_db" where
  "close_one env workspace = (\<lambda>(result, db) pos.
     let (uid, db1) = fresh_id db
     in case place_order env (market_order workspace (p_account pos) (p_instrument pos) (closing_side (p_side pos))
               (p_quantity pos) (''emergency-close-'' @ hex12 uid)) db1 of
          Inl code \<Rightarrow> (result\<lparr>es_close_failures := es_close_failures result @ [(p_id pos, code)]\<rparr>, db1)
        | Inr (x, db2) \<Rightarrow> (result\<lparr>es_closing_orders := es_closing_orders result @ [o_id x]\<rparr>, db2))"

definition close_open_positions ::
  "tx_env \<Rightarrow> halt_scope \<Rightarrow> trading_bot list \<Rightarrow> emergency_result \<times> trading_db \<Rightarrow> emergency_result \<times> trading_db" where
  "close_open_positions env scope bots = (\<lambda>(result, db).
     foldl (close_one env (hs_workspace scope)) (result, db) (to_close scope bots db))"

definition emergency_stop ::
  "tx_env \<Rightarrow> halt_scope \<Rightarrow> trading_bot list \<Rightarrow> uuid option \<Rightarrow> bool \<Rightarrow> string option \<Rightarrow> trading_db \<Rightarrow>
     (string, emergency_result \<times> trading_db) result" where
  "emergency_stop env scope bots requested_by close_positions reason db =
     res_bind (activate_and_stop env scope bots requested_by close_positions reason db) (\<lambda>stopped.
       Inr (if close_positions then close_open_positions env scope bots stopped else stopped))"

definition emergency_stop_bot ::
  "tx_env \<Rightarrow> trading_bot \<Rightarrow> uuid option \<Rightarrow> bool \<Rightarrow> string option \<Rightarrow> trading_db \<Rightarrow>
     (string, emergency_result \<times> trading_db) result" where
  "emergency_stop_bot env tb requested_by close_positions reason db =
     emergency_stop env (bot_scope tb) [tb] requested_by close_positions reason db"

definition emergency_stop_workspace ::
  "tx_env \<Rightarrow> uuid \<Rightarrow> uuid option \<Rightarrow> bool \<Rightarrow> string option \<Rightarrow> trading_db \<Rightarrow>
     (string, emergency_result \<times> trading_db) result" where
  "emergency_stop_workspace env workspace requested_by close_positions reason db =
     emergency_stop env (workspace_scope workspace) (filter (\<lambda>b. b_workspace b = workspace) (db_bots db))
       requested_by close_positions reason db"

subsection \<open>Lemmas: stopping the bots\<close>

definition is_down :: "trading_db \<Rightarrow> uuid \<Rightarrow> bool" where
  "is_down db bot_id \<longleftrightarrow> (\<forall>x \<in> set (db_bots db). b_id x = bot_id \<longrightarrow> b_desired x = Stopped \<and> b_actual x \<in> {Stopped, Failed})"

lemma is_down_moved:
  assumes "db_bots db' = update_row b_id (moved_bot tb Stopped Stopped) (db_bots db)" "is_down db b \<or> b = b_id tb"
  shows "is_down db' b"
  using assms(2) by (auto simp: is_down_def assms(1) set_update_row)

lemma stopped_is_down:
  assumes "bots_ok db" "tb \<in> set (db_bots db)" "b_desired tb = Stopped" shows "is_down db (b_id tb)"
proof -
  have "x = tb" if "x \<in> set (db_bots db)" "b_id x = b_id tb" for x
    using assms(1,2) that by (auto simp: bots_ok_def distinct_map inj_on_def)
  moreover have "in_state (db_runs db) tb" using assms(1,2) by (simp add: bots_ok_def)
  ultimately show ?thesis using assms(3) by (auto simp: is_down_def in_state_def)
qed

definition stops_frame :: "(decimal \<Rightarrow> decimal) \<Rightarrow> trading_db \<Rightarrow> trading_db \<Rightarrow> bool" where
  "stops_frame column db db' \<longleftrightarrow> bots_ok db' \<and> books_ok column db' \<and> db_halts db' = db_halts db
     \<and> db_positions db' = db_positions db \<and> db_catalog db' = db_catalog db \<and> db_next_id db \<le> db_next_id db'
     \<and> (\<forall>a. no_working_orders a db \<longrightarrow> no_working_orders a db') \<and> (\<forall>b. is_down db b \<longrightarrow> is_down db' b)"

lemma stop_one_savepoint:
  assumes "bots_ok db" "books_ok column db" "runs_before (env_now env) db" "tb \<in> set (db_bots db)"
  shows "\<exists>db'. stop_in_savepoint env (stopped, failures, db) tb
        = Inr (stopped @ (if b_desired tb = Stopped then [] else [b_id tb]), failures, db')
      \<and> stops_frame column db db' \<and> runs_before (env_now env) db' \<and> is_down db' (b_id tb)
      \<and> (b_desired tb \<noteq> Stopped \<longrightarrow> no_working_orders (b_account tb) db')
      \<and> (\<forall>x \<in> set (db_bots db). b_id x \<noteq> b_id tb \<longrightarrow> x \<in> set (db_bots db'))"
proof (cases "b_desired tb = Stopped")
  case True
  then show ?thesis using assms stopped_is_down by (auto simp: stop_in_savepoint_def stops_frame_def)
next
  case False
  have "orders_ok db" using assms(2) by (simp add: books_ok_def)
  moreover have "\<not> (\<exists>r \<in> set (db_runs db). env_now env < br_started_at r)"
    using assms(3) by (auto simp: runs_before_def not_less)
  ultimately obtain run db' where stop: "stop_bot env tb (Some ''emergency stop'') db = Inr (run, db')"
      and m: "moves db tb Stopped Stopped db'" and quiet: "no_working_orders (b_account tb) db'"
    using stop_bot_total [OF assms(1) _ assms(4) False, of env "Some ''emergency stop''"] by blast
  have "stops_frame column db db'" "runs_before (env_now env) db'"
    using m assms(2,3) is_down_moved [of db' tb db] by (auto simp: moves_def stops_frame_def)
  moreover have "\<forall>x \<in> set (db_bots db). b_id x \<noteq> b_id tb \<longrightarrow> x \<in> set (db_bots db')"
    using m by (simp add: moves_def set_update_row)
  moreover have "is_down db' (b_id tb)" using m is_down_moved [of db' tb db] by (simp add: moves_def)
  ultimately show ?thesis using False stop quiet by (auto simp: stop_in_savepoint_def)
qed

lemma stop_all:
  assumes "bots_ok db" "books_ok column db" "runs_before (env_now env) db" "set bots \<subseteq> set (db_bots db)" "distinct (map b_id bots)"
  shows "\<exists>db'. run_steps (stop_in_savepoint env) (stopped, failures, db) bots
        = Inr (stopped @ map b_id (filter (\<lambda>b. b_desired b \<noteq> Stopped) bots), failures, db')
      \<and> stops_frame column db db' \<and> (\<forall>tb \<in> set bots. is_down db' (b_id tb)
           \<and> (b_desired tb \<noteq> Stopped \<longrightarrow> no_working_orders (b_account tb) db'))"
  using assms
proof (induction bots arbitrary: stopped db)
  case Nil
  then show ?case by (simp add: stops_frame_def)
next
  case (Cons tb bots)
  let ?stopped = "stopped @ (if b_desired tb = Stopped then [] else [b_id tb])"
  obtain db1 where one: "stop_in_savepoint env (stopped, failures, db) tb = Inr (?stopped, failures, db1)"
      "stops_frame column db db1" "runs_before (env_now env) db1" "is_down db1 (b_id tb)"
      "b_desired tb \<noteq> Stopped \<longrightarrow> no_working_orders (b_account tb) db1"
      "\<forall>x \<in> set (db_bots db). b_id x \<noteq> b_id tb \<longrightarrow> x \<in> set (db_bots db1)"
    using stop_one_savepoint [OF Cons.prems(1-3), of tb stopped failures] Cons.prems(4) by auto
  have "x \<in> set (db_bots db1)" if "x \<in> set bots" for x
  proof -
    have "b_id x \<noteq> b_id tb" using Cons.prems(5) that by (metis distinct.simps(2) imageI list.map(2) set_map)
    then show ?thesis using one(6) that Cons.prems(4) by auto
  qed
  then obtain db' where rest: "run_steps (stop_in_savepoint env) (?stopped, failures, db1) bots
        = Inr (?stopped @ map b_id (filter (\<lambda>b. b_desired b \<noteq> Stopped) bots), failures, db')"
      "stops_frame column db1 db'" "\<forall>tb \<in> set bots. is_down db' (b_id tb)
           \<and> (b_desired tb \<noteq> Stopped \<longrightarrow> no_working_orders (b_account tb) db')"
    using Cons.IH [of db1 ?stopped] one(2,3) Cons.prems(5) by (auto simp: stops_frame_def)
  have "stops_frame column db db'" using one(2) rest(2) by (auto simp: stops_frame_def)
  moreover have "is_down db' (b_id tb) \<and> (b_desired tb \<noteq> Stopped \<longrightarrow> no_working_orders (b_account tb) db')"
    using one(4,5) rest(2) by (auto simp: stops_frame_def)
  ultimately show ?case using one(1) rest(1,3) by auto
qed

subsection \<open>Lemmas: closing the positions\<close>

lemma find_update_row:
  "\<not> P r \<Longrightarrow> (\<And>x. x \<in> set rows \<Longrightarrow> key x = key r \<Longrightarrow> \<not> P x) \<Longrightarrow> find P (update_row key r rows) = find P rows"
  by (induction rows) (auto simp: update_row_def)

lemma other_positions_kept:
  assumes "positions_ok column db" "open_position db a i = Some pos" "p_id gone = p_id pos" "p_status gone = Closed"
    and "db_positions db' = update_row p_id gone (db_positions db)" "(a', i') \<noteq> (a, i)"
  shows "open_position db' a' i' = open_position db a' i'"
proof -
  note pos = open_position_Some [OF assms(2)]
  have "x = pos" if "x \<in> set (db_positions db)" "p_id x = p_id gone" for x
    using exclusive_key [of p_id is_open place_of "db_positions db" "db_next_id db" x pos] assms(1,3) pos that
    by (simp add: positions_ok_def)
  then show ?thesis
    unfolding open_position_def assms(5) using assms(4,6) pos by (intro find_update_row) auto
qed

lemma placed_no_working:
  assumes "place_order env cmd db = Inr (x, db')" "no_working_orders a db" shows "no_working_orders a db'"
  using assms(1)
proof (cases rule: place_order_effect)
  case (1 account instrument ex f db2 pos' pnl db3 es tx)
  have "db_orders db' = update_row o_id x (db_orders db @ [stored_order env (new_order env cmd (db_next_id db))])"
    using 1(16) by force
  then show ?thesis
    using assms(2) by (auto simp: no_working_orders_def set_update_row 1(2) cancellable_def)
qed

lemma close_one_step:
  assumes col: "numeric_column (env_column env)" and ok: "books_ok (env_column env) db"
    and pos: "open_position db (p_account pos) (p_instrument pos) = Some pos"
    and step: "close_one env ws (res, db) pos = (res', db')"
  shows "safe_step (env_column env) db db' \<and> books_ok (env_column env) db'
    \<and> (\<forall>a i. (a, i) \<noteq> (p_account pos, p_instrument pos) \<longrightarrow> open_position db' a i = open_position db a i)
    \<and> (open_position db' (p_account pos) (p_instrument pos) = None \<or> p_id pos \<in> fst ` set (es_close_failures res'))
    \<and> set (es_close_failures res) \<subseteq> set (es_close_failures res') \<and> (\<forall>a. no_working_orders a db \<longrightarrow> no_working_orders a db')
    \<and> es_halt res' = es_halt res \<and> es_stopped_bots res' = es_stopped_bots res \<and> es_bot_failures res' = es_bot_failures res"
proof -
  let ?db1 = "db\<lparr>db_next_id := Suc (db_next_id db)\<rparr>"
  let ?cmd = "market_order ws (p_account pos) (p_instrument pos) (closing_side (p_side pos)) (p_quantity pos)
    (''emergency-close-'' @ hex12 (db_next_id db))"
  have ok1: "books_ok (env_column env) ?db1" by (rule books_ok_frame [OF ok]) simp_all
  have same: "open_position ?db1 a i = open_position db a i" for a i by (simp add: open_position_def)
  show ?thesis
  proof (cases "place_order env ?cmd ?db1")
    case (Inl code)
    then have "db' = ?db1" "res' = res\<lparr>es_close_failures := es_close_failures res @ [(p_id pos, code)]\<rparr>"
      using step by (auto simp: close_one_def fresh_id_def Let_def)
    then show ?thesis using ok1 same by (auto simp: no_working_orders_def intro!: safe_fresh)
  next
    case (Inr placed)
    obtain x db2 where x: "placed = (x, db2)" by fastforce
    then have eq: "db' = db2" "res' = res\<lparr>es_closing_orders := es_closing_orders res @ [o_id x]\<rparr>"
      using step Inr by (auto simp: close_one_def fresh_id_def Let_def)
    note place = Inr [unfolded x]
    have cmd: "open_position ?db1 (pc_account ?cmd) (pc_instrument ?cmd) = Some pos"
        "pc_side ?cmd = closing_side (p_side pos)" "pc_quantity ?cmd = p_quantity pos"
      using pos same by (simp_all add: market_order_def)
    obtain gone where gone: "p_id gone = p_id pos" "p_status gone = Closed"
        "db_positions db2 = update_row p_id gone (db_positions ?db1)"
      using place_order_closing_row [OF col ok1 cmd place] by blast
    have pos1: "positions_ok (env_column env) ?db1" using ok1 by (simp add: books_ok_def)
    have others: "open_position db2 a i = open_position db a i" if "(a, i) \<noteq> (p_account pos, p_instrument pos)" for a i
      using other_positions_kept [OF pos1 _ gone that] cmd(1) same by (simp add: market_order_def)
    have "safe_step (env_column env) db db2" by (rule safe_step_trans [OF safe_fresh safe_place [OF col refl place]])
    moreover have "books_ok (env_column env) db2" using place_order_books [OF col ok1 place] .
    moreover have "open_position db2 (p_account pos) (p_instrument pos) = None"
      using place_order_closes_whole [OF col ok1 cmd place] by (simp add: market_order_def)
    moreover have "no_working_orders a db2" if "no_working_orders a db" for a
      using placed_no_working [OF place, of a] that by (simp add: no_working_orders_def)
    ultimately show ?thesis using others by (simp add: eq)
  qed
qed

lemma close_all:
  assumes "numeric_column (env_column env)" "books_ok (env_column env) db"
    and "\<forall>q \<in> set qs. open_position db (p_account q) (p_instrument q) = Some q" "distinct (map place_of qs)"
    and "foldl (close_one env ws) (res, db) qs = (res', db')"
  shows "safe_step (env_column env) db db'
    \<and> (\<forall>q \<in> set qs. open_position db' (p_account q) (p_instrument q) = None \<or> p_id q \<in> fst ` set (es_close_failures res'))
    \<and> (\<forall>a i. (a, i) \<notin> place_of ` set qs \<longrightarrow> open_position db' a i = open_position db a i)
    \<and> set (es_close_failures res) \<subseteq> set (es_close_failures res') \<and> (\<forall>a. no_working_orders a db \<longrightarrow> no_working_orders a db')
    \<and> es_halt res' = es_halt res \<and> es_stopped_bots res' = es_stopped_bots res \<and> es_bot_failures res' = es_bot_failures res"
  using assms(2-5)
proof (induction qs arbitrary: res db)
  case Nil
  then show ?case by auto
next
  case (Cons q qs)
  obtain res1 db1 where one: "close_one env ws (res, db) q = (res1, db1)" by fastforce
  have first: "open_position db (p_account q) (p_instrument q) = Some q" using Cons.prems(2) by simp
  note step = close_one_step [OF assms(1) Cons.prems(1) first one]
  have other: "(p_account x, p_instrument x) \<noteq> (p_account q, p_instrument q)" if "x \<in> set qs" for x
    using Cons.prems(3) that by (metis distinct.simps(2) imageI list.map(2) place_of_def set_map)
  have "\<forall>x \<in> set qs. open_position db1 (p_account x) (p_instrument x) = Some x"
    using step other Cons.prems(2) by (metis list.set_intros(2))
  then have rest: "safe_step (env_column env) db1 db'
    \<and> (\<forall>q \<in> set qs. open_position db' (p_account q) (p_instrument q) = None \<or> p_id q \<in> fst ` set (es_close_failures res'))
    \<and> (\<forall>a i. (a, i) \<notin> place_of ` set qs \<longrightarrow> open_position db' a i = open_position db1 a i)
    \<and> set (es_close_failures res1) \<subseteq> set (es_close_failures res') \<and> (\<forall>a. no_working_orders a db1 \<longrightarrow> no_working_orders a db')
    \<and> es_halt res' = es_halt res1 \<and> es_stopped_bots res' = es_stopped_bots res1 \<and> es_bot_failures res' = es_bot_failures res1"
    using Cons.IH [of db1 res1] step Cons.prems(3,4) one by simp
  have "(p_account q, p_instrument q) \<notin> place_of ` set qs" using Cons.prems(3) by (simp add: place_of_def)
  then have "open_position db' (p_account q) (p_instrument q) = None \<or> p_id q \<in> fst ` set (es_close_failures res')"
    using rest step by (metis image_mono subsetD)
  moreover have "open_position db' a i = open_position db a i" if "(a, i) \<notin> place_of ` set (q # qs)" for a i
    using rest step that by (auto simp: place_of_def)
  moreover have "safe_step (env_column env) db db'" using rest step safe_step_trans by blast
  ultimately show ?case using rest step by auto
qed

text \<open>The halt is in force, whatever came before.\<close>

lemma emergency_activated:
  assumes "halts_ok db" "activate_or_escalate env scope reason Emergency_stopped False ev db = (h, db')"
  shows "find_active_halt db' scope reason = Some h" "h_level h = Emergency_stopped" "halts_ok db'" "halts_kept db db'" "halt_frame db db'"
proof -
  note effect = activation_effect [OF assms]
  show "find_active_halt db' scope reason = Some h" using effect by blast
  show "h_level h = Emergency_stopped"
    using effect by (cases "h_level h"; cases "find_active_halt db scope reason") (auto simp: max_def less_eq_halt_level_def split: if_splits option.splits)
  have "halt_step db db'" using activate_step [of db env scope reason Emergency_stopped False ev] assms(2) by simp
  then show "halts_ok db'" by (rule halt_life.step_keeps [OF assms(1)])
  show "halts_kept db db'" using activate_keeps [OF assms(1), of env scope reason Emergency_stopped False ev] assms(2) by simp
  show "halt_frame db db'" using activate_halt_frame [of db env scope reason Emergency_stopped False ev] assms(2) by simp
qed

lemma to_close_positions:
  assumes "positions_ok column db"
  shows "\<forall>q \<in> set (to_close scope bots db). open_position db (p_account q) (p_instrument q) = Some q"
    and "distinct (map place_of (to_close scope bots db))"
proof -
  have keys: "exclusive p_id is_open place_of (db_positions db) (db_next_id db)" using assms by (simp add: positions_ok_def)
  show "\<forall>q \<in> set (to_close scope bots db). open_position db (p_account q) (p_instrument q) = Some q"
    using exclusive_find [OF keys] by (auto simp: to_close_def open_position_eq is_open_def place_of_def)
  have "distinct (db_positions db)" using keys by (auto simp: exclusive_def distinct_map)
  moreover have "inj_on place_of (set (to_close scope bots db))"
    by (rule inj_onI, rule exclusive_live [OF keys]) (auto simp: to_close_def is_open_def)
  ultimately show "distinct (map place_of (to_close scope bots db))"
    by (simp add: distinct_map) (simp add: to_close_def)
qed

definition stop_outcome ::
  "(decimal \<Rightarrow> decimal) \<Rightarrow> halt_scope \<Rightarrow> trading_bot list \<Rightarrow> bool \<Rightarrow> trading_db \<Rightarrow> emergency_result \<Rightarrow> trading_db \<Rightarrow> bool" where
  \<comment> \<open>the halt is in force, every bot is down, and the positions asked for are closed or reported\<close>
  "stop_outcome column scope bots close_positions db res db' \<longleftrightarrow>
     trading_ok column db' \<and> halts_kept db db'
     \<and> (\<exists>h. find_active_halt db' scope emergency_reason = Some h \<and> h_level h = Emergency_stopped)
     \<and> es_bot_failures res = [] \<and> es_stopped_bots res = map b_id (filter (\<lambda>b. b_desired b \<noteq> Stopped) bots)
     \<and> (\<forall>tb \<in> set bots. is_down db' (b_id tb) \<and> (b_desired tb \<noteq> Stopped \<longrightarrow> no_working_orders (b_account tb) db'))
     \<and> (if close_positions
        then \<forall>q \<in> set (to_close scope bots db). open_position db' (p_account q) (p_instrument q) = None
               \<or> p_id q \<in> fst ` set (es_close_failures res)
        else db_positions db' = db_positions db)"

lemma stop_audit_sel [simp]:
  fixes scope h aa cp rb rs c st fs db
  defines "db' \<equiv> stop_audit scope h aa cp rb rs c (st, fs, db)"
  shows "db_halts db' = db_halts db" "db_positions db' = db_positions db" "db_orders db' = db_orders db"
    "db_history db' = db_history db" "db_bots db' = db_bots db" "db_runs db' = db_runs db" "db_catalog db' = db_catalog db"
    "db_next_id db' = db_next_id db"
  by (simp_all add: db'_def stop_audit_def)

lemma activate_and_stop_total:
  assumes ok: "trading_ok column db" and clock: "runs_before (env_now env) db"
    and bots: "set bots \<subseteq> set (db_bots db)" "distinct (map b_id bots)"
  shows "\<exists>res db'. activate_and_stop env scope bots requested_by cp reason db = Inr (res, db')
    \<and> stop_outcome column scope bots False db res db' \<and> db_catalog db' = db_catalog db"
proof -
  let ?db1 = "db\<lparr>db_next_id := Suc (db_next_id db)\<rparr>"
  have ok1: "halts_ok ?db1" "halts_kept db ?db1"
    using ok halts_ok_frame [of db ?db1] by (simp_all add: trading_ok_def system_ok_def halts_kept_same)
  obtain ev h db2 where act: "activate_or_escalate env scope emergency_reason Emergency_stopped False ev ?db1 = (h, db2)"
    and eq: "activate_and_stop env scope bots requested_by cp reason db =
      res_bind (run_steps (stop_in_savepoint env) ([], [], db2) bots) (\<lambda>(stopped, failures, db3).
         Inr (\<lparr>es_halt = h, es_already_active = (find_active_halt ?db1 scope emergency_reason \<noteq> None), es_stopped_bots = stopped,
                es_bot_failures = failures, es_closing_orders = [], es_close_failures = []\<rparr>,
              stop_audit scope h (find_active_halt ?db1 scope emergency_reason \<noteq> None) cp requested_by reason (db_next_id db)
                (stopped, failures, db3)))"
    unfolding activate_and_stop_def fresh_id_def Let_def split_def by (simp, metis prod.collapse)
  note active = emergency_activated [OF ok1(1) act]
  note frame = halt_frame_sel [OF active(5)]
  have ok2: "bots_ok db2" "books_ok column db2" "runs_before (env_now env) db2" "set bots \<subseteq> set (db_bots db2)"
    using ok clock bots(1) frame bots_ok_frame [of db db2] books_ok_frame [of column db db2]
    by (simp_all add: trading_ok_def system_ok_def runs_before_def)
  obtain db3 where stops: "run_steps (stop_in_savepoint env) ([], [], db2) bots
        = Inr (map b_id (filter (\<lambda>b. b_desired b \<noteq> Stopped) bots), [], db3)"
      "stops_frame column db2 db3" "\<forall>tb \<in> set bots. is_down db3 (b_id tb)
           \<and> (b_desired tb \<noteq> Stopped \<longrightarrow> no_working_orders (b_account tb) db3)"
    using stop_all [OF ok2 bots(2), of "[]" "[]"] by auto
  obtain res db' where ret: "activate_and_stop env scope bots requested_by cp reason db = Inr (res, db')"
      "es_bot_failures res = []" "es_stopped_bots res = map b_id (filter (\<lambda>b. b_desired b \<noteq> Stopped) bots)"
    and db': "db_halts db' = db_halts db3" "db_positions db' = db_positions db3" "db_orders db' = db_orders db3"
    "db_history db' = db_history db3" "db_bots db' = db_bots db3" "db_runs db' = db_runs db3" "db_catalog db' = db_catalog db3"
    "db_next_id db' = db_next_id db3"
    using eq stops(1) by simp
  have same3: "db_halts db3 = db_halts db2" "db_positions db3 = db_positions db2" "db_catalog db3 = db_catalog db2"
      "db_next_id db2 \<le> db_next_id db3" "bots_ok db3" "books_ok column db3"
    using stops(2) by (simp_all add: stops_frame_def)
  have "trading_ok column db'"
    using same3 db' active(3) halts_ok_frame [of db2 db'] bots_ok_frame [of db3 db'] books_ok_frame [of column db3 db']
    by (simp add: trading_ok_def system_ok_def)
  moreover have "halts_kept db db'"
    using ok1(2) active(4) halts_kept_same [of db' db2] same3(1) db'(1) halts_kept_trans by metis
  moreover have "find_active_halt db' scope emergency_reason = Some h"
    using active(1) same3(1) db'(1) by (simp add: find_active_halt_def)
  moreover have "is_down db' b \<longleftrightarrow> is_down db3 b" "no_working_orders a db' \<longleftrightarrow> no_working_orders a db3" for a b
    by (simp_all add: is_down_def no_working_orders_def db')
  ultimately have "stop_outcome column scope bots False db res db'"
    using active(2) ret(2,3) stops(3) frame(7) same3(2) db'(2) by (simp add: stop_outcome_def)
  then show ?thesis using ret(1) frame(1) same3(3) db'(7) by auto
qed

lemma kept_emergency:
  assumes "halts_kept db db'" "halts_ok db'" "find_active_halt db scope reason = Some h"
    and "h_level h = Emergency_stopped" "reason \<notin> machine_relaxes"
  shows "\<exists>h'. find_active_halt db' scope reason = Some h' \<and> h_level h' = Emergency_stopped"
proof -
  note h = find_active_halt_Some [OF assms(3)]
  then obtain h' where h': "h' \<in> set (db_halts db')" "active h'" "cause h' = cause h" "h_level h \<le> h_level h'"
    using assms(1,5) unfolding halts_kept_def by blast
  then have "find_active_halt db' scope reason = Some h'"
    using find_active_halt_unique [OF assms(2) h'(1,2)] h by (simp add: cause_def)
  moreover have "h_level h' = Emergency_stopped"
    using h'(4) assms(4) by (cases "h_level h'") (simp_all add: less_eq_halt_level_def)
  ultimately show ?thesis by blast
qed

lemma emergency_stop_total:
  assumes col: "numeric_column (env_column env)" and ok: "trading_ok (env_column env) db" and clock: "runs_before (env_now env) db"
    and bots: "set bots \<subseteq> set (db_bots db)" "distinct (map b_id bots)"
  shows "\<exists>res db'. emergency_stop env scope bots requested_by cp reason db = Inr (res, db')
    \<and> stop_outcome (env_column env) scope bots cp db res db'"
proof -
  obtain res db1 where first: "activate_and_stop env scope bots requested_by cp reason db = Inr (res, db1)"
      "stop_outcome (env_column env) scope bots False db res db1" "db_catalog db1 = db_catalog db"
    using activate_and_stop_total [OF ok clock bots] by blast
  show ?thesis
  proof (cases cp)
    case False
    then show ?thesis using first by (auto simp: emergency_stop_def)
  next
    case True
    note out = first(2) [unfolded stop_outcome_def]
    have qs: "to_close scope bots db1 = to_close scope bots db" using out first(3) by (simp add: to_close_def)
    obtain res' db' where closing: "foldl (close_one env (hs_workspace scope)) (res, db1) (to_close scope bots db1) = (res', db')"
      by fastforce
    have books: "books_ok (env_column env) db1" "positions_ok (env_column env) db1"
      using out by (simp_all add: trading_ok_def system_ok_def books_ok_def)
    note closed = close_all [OF col books(1) to_close_positions [OF books(2)] closing]
    then have safe: "safe_step (env_column env) db1 db'" by blast
    obtain h where h: "find_active_halt db1 scope emergency_reason = Some h" "h_level h = Emergency_stopped" using out by blast
    have ok': "trading_ok (env_column env) db'" "halts_kept db1 db'"
      using safe out bots_ok_frame [of db1 db'] by (auto simp: safe_step_def trading_ok_def)
    moreover have "\<exists>h'. find_active_halt db' scope emergency_reason = Some h' \<and> h_level h' = Emergency_stopped"
      using kept_emergency [OF ok'(2) _ h] ok'(1) by (simp add: trading_ok_def system_ok_def emergency_reason_def machine_relaxes_def)
    moreover have "is_down db' b \<longleftrightarrow> is_down db1 b" for b using safe by (simp add: is_down_def safe_step_def)
    ultimately have "stop_outcome (env_column env) scope bots cp db res' db'"
      using out True closed halts_kept_trans [of db db1 db'] by (auto simp: stop_outcome_def qs)
    then show ?thesis using first(1) True closing by (auto simp: emergency_stop_def close_open_positions_def)
  qed
qed


text \<open>
  After an emergency stop of a workspace nothing in it opens a position again: whatever
  the bots are told or do next, entries are blocked for every account and every bot of the workspace,
  and none of them starts or resumes.
\<close>

theorem workspace_stop_blocks:
  assumes "numeric_column (env_column env)" "trading_ok (env_column env) db" "runs_before (env_now env) db"
    and "emergency_stop_workspace env ws requested_by cp reason db = Inr (res, db')"
    and "(bot_step (env_column env))\<^sup>*\<^sup>* db' db''"
  shows "entry_blocked_by_halt db'' ws account bot_id
    \<and> (b_workspace tb = ws \<longrightarrow> (\<exists>e. start_bot later tb db'' = Inl e) \<and> (\<exists>e. resume_bot later tb db'' = Inl e))"
proof -
  have "stop_outcome (env_column env) (workspace_scope ws) (filter (\<lambda>b. b_workspace b = ws) (db_bots db)) cp db res db'"
    using emergency_stop_total [OF assms(1-3), of "filter (\<lambda>b. b_workspace b = ws) (db_bots db)" "workspace_scope ws" requested_by cp reason]
      assms(2,4) by (auto simp: emergency_stop_workspace_def trading_ok_def bots_ok_def distinct_map_filter)
  then obtain h where ok: "trading_ok (env_column env) db'" and h: "find_active_halt db' (workspace_scope ws) emergency_reason = Some h"
      "h_level h = Emergency_stopped"
    by (auto simp: stop_outcome_def)
  have later: "trading_ok (env_column env) db''" "halts_kept db' db''"
    using numeric_column.bot_life_reachable [OF assms(1,5)] ok halts_kept_same [of db' db'] by simp_all
  obtain h' where h': "find_active_halt db'' (workspace_scope ws) emergency_reason = Some h'" "h_level h' = Emergency_stopped"
    using kept_emergency [OF later(2) _ h] later(1)
    by (auto simp: trading_ok_def system_ok_def emergency_reason_def machine_relaxes_def)
  note row = find_active_halt_Some [OF h'(1)]
  have "has_active_halt_at_or_above db'' (workspace_scope ws) Emergency_stopped"
    using row h'(2) by (auto simp: has_active_halt_at_or_above_def in_scope_iff)
  then have "validate_bot_startup later db'' tb \<noteq> Inr ()" if "b_workspace tb = ws"
    using emergency_refuses [of db'' tb later] that by blast
  then have "(\<exists>e. start_bot later tb db'' = Inl e) \<and> (\<exists>e. resume_bot later tb db'' = Inl e)" if "b_workspace tb = ws"
    using start_bot_Inr [of later tb db''] resume_bot_Inr [of later tb db''] that by (metis sum.exhaust)
  moreover have "entry_blocked_by_halt db'' ws account bot_id"
    using row h'(2) by (auto simp: entry_blocked_by_halt_def has_active_halt_at_or_above_def in_scope_iff workspace_scope_def less_eq_halt_level_def)
  ultimately show ?thesis by blast
qed

end
