(* ===== verification/Execution_Loop.thy ===== *)
theory Execution_Loop
  imports Emergency_Stop "HOL-Library.AList"
begin

text \<open>
  The worker's pass over the bots, \<open>app/trading/application/bot_execution_loop.py\<close>: one failing bot does
  not stop the others, a bot that keeps failing is failed, a lost database is nobody's failure. What
  the database may raise at any call is a parameter, \<open>faults\<close>; each bot's turn reads its own clock.
\<close>

subsection \<open>Consecutive failures\<close>

type_synonym tracker = "(uuid \<times> nat) list"

definition failure_threshold :: nat where
  "failure_threshold = 5"

definition tracker_count :: "tracker \<Rightarrow> uuid \<Rightarrow> nat" where
  "tracker_count t b = (case map_of t b of None \<Rightarrow> 0 | Some n \<Rightarrow> n)"

definition tracker_failed :: "tracker \<Rightarrow> uuid \<Rightarrow> nat \<times> tracker" where
  "tracker_failed t b = (let n = tracker_count t b + 1 in (n, AList.update b n t))"

definition tracker_succeeded :: "tracker \<Rightarrow> uuid \<Rightarrow> tracker" where
  "tracker_succeeded t b = AList.delete b t"

subsection \<open>A pass\<close>

record faults =
  fa_env :: "uuid \<Rightarrow> tx_env"
  fa_evaluation :: "uuid \<Rightarrow> string option"
  fa_heartbeat :: "uuid \<Rightarrow> bool"
  fa_failing :: "uuid \<Rightarrow> bool"

definition is_database_outage :: "string \<Rightarrow> bool" where
  "is_database_outage e \<longleftrightarrow> e \<in> {''OperationalError'', ''InterfaceError''}"

definition stamp_heartbeat :: "faults \<Rightarrow> uuid \<Rightarrow> uuid \<Rightarrow> trading_db \<Rightarrow> trading_db" where
  \<comment> \<open>a failure here is logged and forgotten\<close>
  "stamp_heartbeat fa bot_id run_id db =
     (if fa_heartbeat fa bot_id then db
      else db\<lparr>db_runs := map (\<lambda>r. if br_id r = run_id
             then r\<lparr>br_heartbeat_at := Some (env_now (fa_env fa bot_id))\<rparr> else r) (db_runs db)\<rparr>)"

definition give_up_on :: "faults \<Rightarrow> uuid \<Rightarrow> string \<Rightarrow> nat \<Rightarrow> tracker \<times> trading_db \<Rightarrow> tracker \<times> trading_db" where
  "give_up_on fa bot_id error_type failures = (\<lambda>(t, db).
     if fa_failing fa bot_id then (t, db)
     else case find (\<lambda>b. b_id b = bot_id) (db_bots db) of
       None \<Rightarrow> (tracker_succeeded t bot_id, db)
     | Some tb \<Rightarrow> if b_actual tb \<in> {Running, Paused}
         then (case fail_bot (fa_env fa bot_id) tb error_type failures db of
                 Inl _ \<Rightarrow> (t, db) | Inr (_, db') \<Rightarrow> (tracker_succeeded t bot_id, db'))
         else (tracker_succeeded t bot_id, db))"

definition attempt_evaluation ::
  "faults \<Rightarrow> trading_bot \<Rightarrow> bot_run \<Rightarrow> trading_db \<Rightarrow> (string, evaluation \<times> trading_db) result" where
  "attempt_evaluation fa tb run db =
     (case fa_evaluation fa (b_id tb) of
        Some e \<Rightarrow> Inl e
      | None \<Rightarrow> evaluate_bot_on_latest_bar (fa_env fa (b_id tb)) tb run db)"

type_synonym pass = "nat \<times> tracker \<times> trading_db"

definition run_one_bot :: "faults \<Rightarrow> pass \<Rightarrow> trading_bot \<Rightarrow> pass" where
  "run_one_bot fa = (\<lambda>(evaluated, t, db) tb.
     case find_run db (b_id tb) {Running, Paused} of
       None \<Rightarrow> (evaluated, t, db)
     | Some run \<Rightarrow> (case attempt_evaluation fa tb run db of
         Inl e \<Rightarrow>
           if is_database_outage e then (evaluated, t, db)
           else (let (failures, t1) = tracker_failed t (b_id tb);
                     db1 = stamp_heartbeat fa (b_id tb) (br_id run) db
                 in if failure_threshold \<le> failures
                    then (evaluated, give_up_on fa (b_id tb) e failures (t1, db1))
                    else (evaluated, t1, db1))
       | Inr (_, db1) \<Rightarrow>
           (evaluated + 1, tracker_succeeded t (b_id tb), stamp_heartbeat fa (b_id tb) (br_id run) db1)))"

definition run_active_bots_once :: "faults \<Rightarrow> tracker \<Rightarrow> trading_db \<Rightarrow> pass" where
  "run_active_bots_once fa t db =
     foldl (run_one_bot fa) (0, t, db) (filter (\<lambda>b. b_actual b \<in> {Running, Paused}) (db_bots db))"

subsection \<open>Lemmas: the tracker counts the failures in a row\<close>

datatype outcome = Failed_once uuid | Succeeded uuid

fun track :: "tracker \<Rightarrow> outcome \<Rightarrow> tracker" where
  "track t (Failed_once b) = snd (tracker_failed t b)"
| "track t (Succeeded b) = tracker_succeeded t b"

fun in_a_row :: "uuid \<Rightarrow> outcome list \<Rightarrow> nat" where
  \<comment> \<open>failures of a bot since its last success, the newest outcome first\<close>
  "in_a_row b [] = 0"
| "in_a_row b (Failed_once x # os) = (if x = b then Suc (in_a_row b os) else in_a_row b os)"
| "in_a_row b (Succeeded x # os) = (if x = b then 0 else in_a_row b os)"

lemma tracker_count_simps [simp]:
  "tracker_count (snd (tracker_failed t b)) x = (if x = b then Suc (tracker_count t b) else tracker_count t x)"
  "tracker_count (tracker_succeeded t b) x = (if x = b then 0 else tracker_count t x)"
  "fst (tracker_failed t b) = Suc (tracker_count t b)" "tracker_count [] x = 0"
  by (simp_all add: tracker_count_def tracker_failed_def tracker_succeeded_def Let_def AList.update_conv AList.delete_conv)

text \<open>
  The tracker's dictionary implements its promise: after any outcomes the count of a
  bot is the number of its failures since its last success, whatever the other bots did.
\<close>

theorem tracker_counts_in_a_row: "tracker_count (foldl track [] outcomes) b = in_a_row b (rev outcomes)"
proof (induction outcomes rule: rev_induct)
  case (snoc x xs)
  then show ?case by (cases x) simp_all
qed simp

subsection \<open>Lemmas: a bot's turn\<close>

definition same_run :: "bot_run \<Rightarrow> bot_run \<Rightarrow> bool" where
  "same_run r r' \<longleftrightarrow> br_id r' = br_id r \<and> br_bot r' = br_bot r \<and> br_status r' = br_status r
     \<and> br_started_at r' = br_started_at r \<and> br_stopped_at r' = br_stopped_at r"

lemma bots_ok_same_runs:
  assumes "bots_ok db" "db_bots db' = db_bots db" "db_runs db' = map f (db_runs db)" "\<And>r. same_run r (f r)"
    and "db_next_id db \<le> db_next_id db'"
  shows "bots_ok db'"
proof -
  have f: "br_id (f r) = br_id r" "br_bot (f r) = br_bot r" "active_run (f r) = active_run r" "run_dated (f r) = run_dated r"
      "br_status (f r) = br_status r" for r
    using assms(4) [of r] by (simp_all add: same_run_def active_run_def run_dated_def split: option.split)
  have "exclusive br_id active_run br_bot (db_runs db) (db_next_id db)" using assms(1) by (simp add: bots_ok_def)
  then have "exclusive br_id active_run br_bot (map f (db_runs db)) (db_next_id db)"
    unfolding exclusive_def by (simp add: comp_def f) metis
  then show ?thesis
    using assms(1,2,5) exclusive_mono by (auto simp: bots_ok_def assms(3) f in_state_def split: if_splits)
qed

definition turn_frame :: "(decimal \<Rightarrow> decimal) \<Rightarrow> trading_db \<Rightarrow> trading_db \<Rightarrow> bool" where
  "turn_frame column db db' \<longleftrightarrow> trading_ok column db' \<and> halts_kept db db' \<and> (\<forall>t. runs_before t db \<longrightarrow> runs_before t db')"

lemma turn_frame_trans: "turn_frame column a b \<Longrightarrow> turn_frame column b c \<Longrightarrow> turn_frame column a c"
  using halts_kept_trans by (auto simp: turn_frame_def)

lemma turn_frame_refl: "trading_ok column db \<Longrightarrow> turn_frame column db db"
  by (simp add: turn_frame_def halts_kept_same)

lemma turn_heartbeat:
  assumes "trading_ok column db"
  shows "turn_frame column db (stamp_heartbeat fa b rid db)" "db_bots (stamp_heartbeat fa b rid db) = db_bots db"
proof -
  let ?f = "\<lambda>r. if br_id r = rid then r\<lparr>br_heartbeat_at := Some (env_now (fa_env fa b))\<rparr> else r"
  let ?db = "db\<lparr>db_runs := map ?f (db_runs db)\<rparr>"
  have "bots_ok ?db"
    using assms by (intro bots_ok_same_runs [of db ?db ?f]) (auto simp: trading_ok_def same_run_def)
  moreover have "system_ok column ?db"
    using assms halts_ok_frame [of db ?db] books_ok_frame [of column db ?db] by (simp add: trading_ok_def system_ok_def)
  moreover have "runs_before t db \<longrightarrow> runs_before t ?db" for t by (auto simp: runs_before_def)
  ultimately show "turn_frame column db (stamp_heartbeat fa b rid db)"
    using turn_frame_refl [OF assms] by (simp add: turn_frame_def stamp_heartbeat_def trading_ok_def halts_kept_same)
  show "db_bots (stamp_heartbeat fa b rid db) = db_bots db" by (simp add: stamp_heartbeat_def)
qed

lemma turn_safe: "safe_step column db db' \<Longrightarrow> trading_ok column db \<Longrightarrow> turn_frame column db db'"
  using bots_ok_frame [of db db'] by (simp add: turn_frame_def safe_step_def trading_ok_def runs_before_def)

lemma turn_moves:
  assumes "moves db tb Stopped Failed db'" "trading_ok column db" shows "turn_frame column db db'"
  using assms halts_ok_frame [of db db'] halts_kept_same [of db' db]
  by (auto simp: turn_frame_def moves_def trading_ok_def system_ok_def)

definition bot_rows_kept :: "uuid \<Rightarrow> trading_db \<Rightarrow> trading_db \<Rightarrow> bool" where
  "bot_rows_kept b db db' \<longleftrightarrow> (\<forall>x. b_id x \<noteq> b \<longrightarrow> (x \<in> set (db_bots db') \<longleftrightarrow> x \<in> set (db_bots db)))"

lemma give_up_effect:
  assumes ok: "trading_ok column db" and give_up: "give_up_on fa b e n (t, db) = (t', db')"
  shows "turn_frame column db db' \<and> bot_rows_kept b db db' \<and> (\<forall>x. x \<noteq> b \<longrightarrow> tracker_count t' x = tracker_count t x)
    \<and> (\<not> fa_failing fa b \<longrightarrow> runs_before (env_now (fa_env fa b)) db \<longrightarrow>
        (\<forall>x \<in> set (db_bots db). b_id x = b \<longrightarrow> b_actual x \<in> {Running, Paused}) \<longrightarrow> is_down db' b \<and> tracker_count t' b = 0)"
proof (cases "find (\<lambda>x. b_id x = b) (db_bots db)")
  case None
  then have "db' = db" "t' = (if fa_failing fa b then t else tracker_succeeded t b)"
    using give_up by (simp_all add: give_up_on_def split: if_splits)
  moreover have "is_down db b" using None by (auto simp: is_down_def find_None_iff)
  ultimately show ?thesis using turn_frame_refl [OF ok] by (simp add: bot_rows_kept_def)
next
  case (Some tb)
  then have tb: "tb \<in> set (db_bots db)" "b_id tb = b" by (auto simp: find_Some_iff)
  have inv: "bots_ok db" "orders_ok db" using ok by (simp_all add: trading_ok_def system_ok_def books_ok_def)
  show ?thesis
  proof (cases "\<not> fa_failing fa b \<and> b_actual tb \<in> {Running, Paused}")
    case False
    then show ?thesis
      using give_up turn_frame_refl [OF ok] Some tb by (auto simp: give_up_on_def bot_rows_kept_def split: if_splits)
  next
    case True
    from fail_bot_total [OF inv tb(1), of "fa_env fa b" e n] show ?thesis
    proof (elim disjE exE conjE)
      fix run db2
      assume fail: "fail_bot (fa_env fa b) tb e n db = Inr (run, db2)" and m: "moves db tb Stopped Failed db2"
      then have eq: "db' = db2" "t' = tracker_succeeded t b" using give_up Some True by (simp_all add: give_up_on_def)
      have bots: "db_bots db2 = update_row b_id (moved_bot tb Stopped Failed) (db_bots db)" using m by (simp add: moves_def)
      have "bot_rows_kept b db db2" using tb by (auto simp: bot_rows_kept_def bots set_update_row)
      moreover have "is_down db2 b" using tb(2) by (auto simp: is_down_def bots set_update_row)
      ultimately show ?thesis using eq turn_moves [OF m ok] by simp
    next
      assume "fail_bot (fa_env fa b) tb e n db = Inl ''IntegrityError''"
        and late: "\<exists>r \<in> set (db_runs db). env_now (fa_env fa b) < br_started_at r"
      then have "db' = db" "t' = t" using give_up Some True by (simp_all add: give_up_on_def)
      moreover have "\<not> runs_before (env_now (fa_env fa b)) db" using late by (auto simp: runs_before_def not_le)
      ultimately show ?thesis using turn_frame_refl [OF ok] by (simp add: bot_rows_kept_def)
    qed
  qed
qed

lemma active_bot_has_run:
  assumes "bots_ok db" "tb \<in> set (db_bots db)" "b_actual tb \<in> {Running, Paused}"
  obtains run where "find_run db (b_id tb) {Running, Paused} = Some run"
proof -
  have "in_state (db_runs db) tb" using assms(1,2) by (simp add: bots_ok_def)
  then have "b_desired tb \<noteq> Stopped" using assms(3) by (auto simp: in_state_def)
  then show ?thesis using active_bot_run [OF assms(1,2)] that by (metis insert_subset subset_refl)
qed

lemma turn_failed:
  assumes ok: "trading_ok column db" and active: "\<forall>x \<in> set (db_bots db). b_id x = b \<longrightarrow> b_actual x \<in> {Running, Paused}"
    and turn: "(let (failures, t1) = tracker_failed t b; db1 = stamp_heartbeat fa b rid db
                in if failure_threshold \<le> failures then (n, give_up_on fa b e failures (t1, db1)) else (n, t1, db1)) = (n', t', db')"
  shows "turn_frame column db db' \<and> bot_rows_kept b db db' \<and> (\<forall>x. x \<noteq> b \<longrightarrow> tracker_count t' x = tracker_count t x)
    \<and> (if Suc (tracker_count t b) < failure_threshold
       then tracker_count t' b = Suc (tracker_count t b) \<and> db_bots db' = db_bots db
       else \<not> fa_failing fa b \<longrightarrow> runs_before (env_now (fa_env fa b)) db \<longrightarrow> is_down db' b \<and> tracker_count t' b = 0)"
proof -
  let ?t1 = "snd (tracker_failed t b)" and ?db1 = "stamp_heartbeat fa b rid db"
  note beat = turn_heartbeat [OF ok, of fa b rid]
  then have ok1: "trading_ok column ?db1" by (simp add: turn_frame_def)
  show ?thesis
  proof (cases "Suc (tracker_count t b) < failure_threshold")
    case True
    then have "t' = ?t1" "db' = ?db1" using turn by (simp_all add: Let_def split_def)
    then show ?thesis using beat True by (simp add: bot_rows_kept_def)
  next
    case False
    then have give_up: "give_up_on fa b e (Suc (tracker_count t b)) (?t1, ?db1) = (t', db')"
      using turn by (simp add: Let_def split_def)
    note effect = give_up_effect [OF ok1 give_up]
    have "runs_before (env_now (fa_env fa b)) ?db1" if "runs_before (env_now (fa_env fa b)) db"
      using beat(1) that by (simp add: turn_frame_def)
    then show ?thesis
      using effect turn_frame_trans [OF beat(1)] False active by (simp add: bot_rows_kept_def beat(2))
  qed
qed

lemma one_turn:
  assumes col: "numeric_column column" "env_column (fa_env fa (b_id tb)) = column" and ok: "trading_ok column db"
    and tb: "tb \<in> set (db_bots db)" "b_actual tb \<in> {Running, Paused}"
    and turn: "run_one_bot fa (n, t, db) tb = (n', t', db')"
  shows "turn_frame column db db' \<and> bot_rows_kept (b_id tb) db db' \<and> (\<forall>x. x \<noteq> b_id tb \<longrightarrow> tracker_count t' x = tracker_count t x)
    \<and> (\<forall>e. fa_evaluation fa (b_id tb) = Some e \<longrightarrow>
         (if is_database_outage e then n' = n \<and> t' = t \<and> db' = db
          else if Suc (tracker_count t (b_id tb)) < failure_threshold
          then tracker_count t' (b_id tb) = Suc (tracker_count t (b_id tb)) \<and> db_bots db' = db_bots db
          else \<not> fa_failing fa (b_id tb) \<longrightarrow> runs_before (env_now (fa_env fa (b_id tb))) db \<longrightarrow>
            is_down db' (b_id tb) \<and> tracker_count t' (b_id tb) = 0))"
proof -
  have bots: "bots_ok db" using ok by (simp add: trading_ok_def)
  obtain run where run: "find_run db (b_id tb) {Running, Paused} = Some run" by (rule active_bot_has_run [OF bots tb])
  have "x = tb" if "x \<in> set (db_bots db)" "b_id x = b_id tb" for x
    using bots tb(1) that by (auto simp: bots_ok_def distinct_map inj_on_def)
  then have active: "\<forall>x \<in> set (db_bots db). b_id x = b_id tb \<longrightarrow> b_actual x \<in> {Running, Paused}" using tb(2) by blast
  show ?thesis
  proof (cases "attempt_evaluation fa tb run db")
    case (Inl e)
    then have e: "e' = e" if "fa_evaluation fa (b_id tb) = Some e'" for e' using that by (simp add: attempt_evaluation_def)
    show ?thesis
    proof (cases "is_database_outage e")
      case True
      then have "n' = n \<and> t' = t \<and> db' = db" using turn run Inl by (simp add: run_one_bot_def)
      then show ?thesis using turn_frame_refl [OF ok] True e by (auto simp: bot_rows_kept_def)
    next
      case False
      then have "(let (failures, t1) = tracker_failed t (b_id tb); db1 = stamp_heartbeat fa (b_id tb) (br_id run) db
                in if failure_threshold \<le> failures then (n, give_up_on fa (b_id tb) e failures (t1, db1)) else (n, t1, db1)) = (n', t', db')"
        using turn run Inl by (simp add: run_one_bot_def)
      from turn_failed [OF ok active this] show ?thesis using False e by auto
    qed
  next
    case (Inr x)
    obtain r db1 where x: "x = (r, db1)" by fastforce
    have no_fault: "fa_evaluation fa (b_id tb) = None" and "evaluate_bot_on_latest_bar (fa_env fa (b_id tb)) tb run db = Inr (r, db1)"
      using Inr x by (simp_all add: attempt_evaluation_def split: option.splits)
    then have safe: "safe_step column db db1" using safe_evaluation [OF col] by blast
    note frame = turn_safe [OF safe ok]
    have ok1: "trading_ok column db1" using frame by (simp add: turn_frame_def)
    have "t' = tracker_succeeded t (b_id tb)" "db' = stamp_heartbeat fa (b_id tb) (br_id run) db1"
      using turn run Inr x by (simp_all add: run_one_bot_def)
    then show ?thesis
      using turn_frame_trans [OF frame turn_heartbeat(1) [OF ok1]] turn_heartbeat(2) [OF ok1] safe no_fault
      by (simp add: bot_rows_kept_def safe_step_def)
  qed
qed

subsection \<open>Lemmas: a pass\<close>

definition bot_untouched :: "uuid \<Rightarrow> trading_db \<Rightarrow> trading_db \<Rightarrow> bool" where
  "bot_untouched b db db' \<longleftrightarrow> (\<forall>x. b_id x = b \<longrightarrow> (x \<in> set (db_bots db') \<longleftrightarrow> x \<in> set (db_bots db)))"

lemma untouched_down: "bot_untouched b db db' \<Longrightarrow> is_down db' b \<longleftrightarrow> is_down db b"
  by (auto simp: bot_untouched_def is_down_def)

lemma rows_kept_untouched: "bot_rows_kept b db db' \<Longrightarrow> c \<noteq> b \<Longrightarrow> bot_untouched c db db'"
  by (auto simp: bot_rows_kept_def bot_untouched_def)

lemma turns:
  assumes col: "numeric_column column" "\<And>b. env_column (fa_env fa b) = column" and ok: "trading_ok column db"
    and bots: "set bots \<subseteq> set (db_bots db)" "distinct (map b_id bots)" "\<forall>x \<in> set bots. b_actual x \<in> {Running, Paused}"
    and pass: "foldl (run_one_bot fa) (n, t, db) bots = (n', t', db')"
  shows "turn_frame column db db' \<and> (\<forall>c. c \<notin> b_id ` set bots \<longrightarrow> bot_untouched c db db' \<and> tracker_count t' c = tracker_count t c)"
  using ok bots pass
proof (induction bots arbitrary: n t db)
  case Nil
  then show ?case by (simp add: turn_frame_refl bot_untouched_def)
next
  case (Cons tb bots)
  obtain n1 t1 db1 where one: "run_one_bot fa (n, t, db) tb = (n1, t1, db1)" by (metis prod.collapse)
  have turn: "turn_frame column db db1" "bot_rows_kept (b_id tb) db db1" "\<forall>x. x \<noteq> b_id tb \<longrightarrow> tracker_count t1 x = tracker_count t x"
    using one_turn [OF col(1) col(2) Cons.prems(1) _ _ one] Cons.prems(2,4) by simp_all
  have "x \<in> set (db_bots db1)" if "x \<in> set bots" for x
  proof -
    have "b_id x \<noteq> b_id tb" using Cons.prems(3) that by (metis distinct.simps(2) imageI list.map(2) set_map)
    then show ?thesis using turn(2) that Cons.prems(2) by (auto simp: bot_rows_kept_def)
  qed
  then have rest: "turn_frame column db1 db'"
      "\<forall>c. c \<notin> b_id ` set bots \<longrightarrow> bot_untouched c db1 db' \<and> tracker_count t' c = tracker_count t1 c"
    using Cons.IH [of db1 n1 t1] turn(1) Cons.prems(3-5) one by (auto simp: turn_frame_def)
  then show ?case
    using turn turn_frame_trans rows_kept_untouched [OF turn(2)] by (auto simp: bot_untouched_def)
qed

lemma active_bots:
  assumes "bots_ok db"
  defines "bots \<equiv> filter (\<lambda>b. b_actual b \<in> {Running, Paused}) (db_bots db)"
  shows "set bots \<subseteq> set (db_bots db)" "distinct (map b_id bots)" "\<forall>x \<in> set bots. b_actual x \<in> {Running, Paused}"
  using assms by (auto simp: bots_ok_def distinct_map_filter)

text \<open>
  C18 (invariant). A pass over the bots, whatever fails in it and whenever, keeps the books, the halts
  and the bots consistent and lowers no halt but those a bot may relax itself.
\<close>

theorem pass_keeps_trading:
  assumes "numeric_column column" "\<And>b. env_column (fa_env fa b) = column" "trading_ok column db"
    and "run_active_bots_once fa t db = (n, t', db')"
  shows "trading_ok column db' \<and> halts_kept db db'"
proof -
  have "bots_ok db" using assms(3) by (simp add: trading_ok_def)
  from turns [OF assms(1-3) active_bots [OF this] assms(4) [unfolded run_active_bots_once_def]]
  show ?thesis by (simp add: turn_frame_def)
qed

text \<open>
  A lost database is nobody's failure: a pass in which every evaluation meets an outage
  evaluates nothing, counts nothing and changes nothing.
\<close>

theorem outage_changes_nothing:
  assumes "\<And>b. \<exists>e. fa_evaluation fa b = Some e \<and> is_database_outage e"
  shows "run_active_bots_once fa t db = (0, t, db)"
proof -
  have "run_one_bot fa (n, t, db) tb = (n, t, db)" for n tb
    using assms [of "b_id tb"] by (auto simp: run_one_bot_def attempt_evaluation_def split: option.split)
  then have "foldl (run_one_bot fa) (n, t, db) bots = (n, t, db)" for n bots
    by (induction bots) simp_all
  then show ?thesis by (simp add: run_active_bots_once_def)
qed

lemma failing_pass:
  assumes col: "numeric_column column" "\<And>b. env_column (fa_env fa b) = column" and ok: "trading_ok column db"
    and tb: "tb \<in> set (db_bots db)" "b_actual tb \<in> {Running, Paused}"
    and fault: "fa_evaluation fa (b_id tb) = Some e" "\<not> is_database_outage e" "\<not> fa_failing fa (b_id tb)"
      "runs_before (env_now (fa_env fa (b_id tb))) db"
    and pass: "run_active_bots_once fa t db = (n, t', db')"
  shows "if Suc (tracker_count t (b_id tb)) < failure_threshold
    then tb \<in> set (db_bots db') \<and> tracker_count t' (b_id tb) = Suc (tracker_count t (b_id tb))
    else is_down db' (b_id tb)"
proof -
  have inv: "bots_ok db" using ok by (simp add: trading_ok_def)
  define act where "act = filter (\<lambda>b. b_actual b \<in> {Running, Paused}) (db_bots db)"
  note bots = active_bots [OF inv, folded act_def]
  have "tb \<in> set act" using tb by (simp add: act_def)
  then obtain xs ys where split: "act = xs @ tb # ys" by (meson split_list)
  obtain n1 t1 db1 where before: "foldl (run_one_bot fa) (0, t, db) xs = (n1, t1, db1)" by (metis prod.collapse)
  obtain n2 t2 db2 where turn: "run_one_bot fa (n1, t1, db1) tb = (n2, t2, db2)" by (metis prod.collapse)
  have after: "foldl (run_one_bot fa) (n2, t2, db2) ys = (n, t', db')"
    using pass unfolding run_active_bots_once_def act_def [symmetric] split by (simp add: before turn)
  have ids: "b_id tb \<notin> b_id ` set xs" "b_id tb \<notin> b_id ` set ys" "distinct (map b_id xs)" "distinct (map b_id ys)"
    using bots(2) by (simp_all add: split)
  have xs: "turn_frame column db db1" "bot_untouched (b_id tb) db db1" "tracker_count t1 (b_id tb) = tracker_count t (b_id tb)"
    using turns [OF col ok _ ids(3) _ before] bots(1,3) ids(1) by (auto simp: split)
  have tb1: "tb \<in> set (db_bots db1)" using xs(2) tb(1) by (simp add: bot_untouched_def)
  have ok1: "trading_ok column db1" "runs_before (env_now (fa_env fa (b_id tb))) db1"
    using xs(1) fault(4) by (simp_all add: turn_frame_def)
  note mid = one_turn [OF col(1) col(2) ok1(1) tb1 tb(2) turn]
  have "x \<in> set (db_bots db2)" if "x \<in> set ys" for x
  proof -
    have "b_id x \<in> b_id ` set ys" using that by blast
    moreover have "b_id ` set xs \<inter> b_id ` set ys = {}" using bots(2) by (simp add: split)
    ultimately have "b_id x \<noteq> b_id tb" "b_id x \<notin> b_id ` set xs" using ids(2) by (metis, blast)
    moreover from this(2) have "bot_untouched (b_id x) db db1"
      using turns [OF col ok _ ids(3) _ before] bots(1,3) by (auto simp: split)
    ultimately show ?thesis
      using mid bots(1) that by (auto simp: bot_rows_kept_def bot_untouched_def split)
  qed
  then have ys: "bot_untouched (b_id tb) db2 db' \<and> tracker_count t' (b_id tb) = tracker_count t2 (b_id tb)"
    using turns [OF col _ _ ids(4) _ after] mid bots(3) ids(2) by (auto simp: turn_frame_def split)
  show ?thesis
    using mid ys fault ok1(2) xs(3) tb1 untouched_down [of "b_id tb" db2 db'] by (auto simp: bot_untouched_def)
qed

definition run_passes :: "tracker \<Rightarrow> trading_db \<Rightarrow> (catalog \<times> faults) list \<Rightarrow> tracker \<times> trading_db" where
  \<comment> \<open>the worker's loop: before each pass the reference rows are refreshed, the tracker is kept\<close>
  "run_passes t db ps = foldl (\<lambda>(t, db) (cat, fa). snd (run_active_bots_once fa t (db\<lparr>db_catalog := cat\<rparr>))) (t, db) ps"

definition failing_for :: "(decimal \<Rightarrow> decimal) \<Rightarrow> uuid \<Rightarrow> datetime \<Rightarrow> faults \<Rightarrow> bool" where
  \<comment> \<open>every evaluation of the bot fails, the database is there to record it, the clock does not run backwards\<close>
  "failing_for column b start fa \<longleftrightarrow> (\<forall>x. env_column (fa_env fa x) = column) \<and> start \<le> env_now (fa_env fa b)
     \<and> (\<exists>e. fa_evaluation fa b = Some e \<and> \<not> is_database_outage e) \<and> \<not> fa_failing fa b"

lemma refreshed: "trading_ok column db \<Longrightarrow> trading_ok column (db\<lparr>db_catalog := cat\<rparr>)"
  using halts_ok_frame [of db "db\<lparr>db_catalog := cat\<rparr>"] books_ok_frame [of column db "db\<lparr>db_catalog := cat\<rparr>"]
    bots_ok_frame [of db "db\<lparr>db_catalog := cat\<rparr>"]
  by (simp add: trading_ok_def system_ok_def)

lemma down_pass:
  assumes col: "numeric_column column" "\<And>b. env_column (fa_env fa b) = column" and ok: "trading_ok column db"
    and down: "is_down db b" and pass: "run_active_bots_once fa t db = (n, t', db')"
  shows "turn_frame column db db' \<and> is_down db' b"
proof -
  have inv: "bots_ok db" using ok by (simp add: trading_ok_def)
  have "b \<notin> b_id ` set (filter (\<lambda>x. b_actual x \<in> {Running, Paused}) (db_bots db))" using down by (auto simp: is_down_def)
  then show ?thesis
    using turns [OF col ok active_bots [OF inv] pass [unfolded run_active_bots_once_def]] untouched_down down by blast
qed

lemma passes_fail:
  assumes col: "numeric_column column" and ok: "trading_ok column db" "runs_before start db"
    and fas: "\<forall>(cat, fa) \<in> set ps. failing_for column (b_id tb) start fa"
    and state: "is_down db (b_id tb) \<or> tb \<in> set (db_bots db) \<and> b_actual tb \<in> {Running, Paused}
        \<and> tracker_count t (b_id tb) < failure_threshold \<and> failure_threshold \<le> tracker_count t (b_id tb) + length ps"
  shows "is_down (snd (run_passes t db ps)) (b_id tb)"
  using ok fas state
proof (induction ps arbitrary: t db)
  case Nil
  then show ?case by (auto simp: run_passes_def)
next
  case (Cons p ps)
  obtain cat fa where p: "p = (cat, fa)" by fastforce
  let ?db = "db\<lparr>db_catalog := cat\<rparr>"
  obtain n t' db' where pass: "run_active_bots_once fa t ?db = (n, t', db')" by (metis prod.collapse)
  then have passes: "run_passes t db (p # ps) = run_passes t' db' ps" by (simp add: run_passes_def p)
  have fault: "failing_for column (b_id tb) start fa" using Cons.prems(3) p by simp
  then have cols: "\<And>b. env_column (fa_env fa b) = column" by (simp add: failing_for_def)
  have ok': "trading_ok column ?db" using Cons.prems(1) by (rule refreshed)
  have inv: "bots_ok ?db" using ok' by (simp add: trading_ok_def)
  have frame: "turn_frame column ?db db'"
    using turns [OF col cols ok' active_bots [OF inv] pass [unfolded run_active_bots_once_def]] by simp
  have before: "runs_before start ?db" using Cons.prems(2) by (simp add: runs_before_def)
  then have clock: "runs_before (env_now (fa_env fa (b_id tb))) ?db"
    using fault by (force simp: failing_for_def runs_before_def)
  have next_state: "is_down db' (b_id tb) \<or> tb \<in> set (db_bots db') \<and> b_actual tb \<in> {Running, Paused}
      \<and> tracker_count t' (b_id tb) < failure_threshold \<and> failure_threshold \<le> tracker_count t' (b_id tb) + length ps"
  proof (cases "is_down db (b_id tb)")
    case True
    then have "is_down ?db (b_id tb)" by (simp add: is_down_def)
    then show ?thesis using down_pass [OF col cols ok' _ pass] by blast
  next
    case False
    then have tb: "tb \<in> set (db_bots ?db)" "b_actual tb \<in> {Running, Paused}" using Cons.prems(4) by simp_all
    obtain e where e: "fa_evaluation fa (b_id tb) = Some e" "\<not> is_database_outage e" "\<not> fa_failing fa (b_id tb)"
      using fault by (auto simp: failing_for_def)
    show ?thesis
      using failing_pass [OF col cols ok' tb e clock pass] False Cons.prems(4) tb(2) by (auto split: if_splits)
  qed
  have "trading_ok column db'" "runs_before start db'" using frame before by (simp_all add: turn_frame_def)
  then show ?case unfolding passes using Cons.IH [OF _ _ _ next_state] Cons.prems(3) by simp
qed

text \<open>
  C19 (liveness). A bot that keeps failing is stopped: as long as the database can record it, at most
  five passes in a row in which its evaluation fails leave it down, whatever the other bots do and
  however the prices are refreshed in between.
\<close>

theorem persistent_failure_stops_the_bot:
  assumes "numeric_column column" "trading_ok column db" "runs_before start db"
    and "tb \<in> set (db_bots db)" "b_actual tb \<in> {Running, Paused}" "tracker_count t (b_id tb) < failure_threshold"
    and "length ps = failure_threshold" "\<forall>(cat, fa) \<in> set ps. failing_for column (b_id tb) start fa"
  shows "is_down (snd (run_passes t db ps)) (b_id tb)"
  using assms by (intro passes_fail [OF assms(1-3,8)]) simp

end
