(* ===== verification/Outage_Alerts.thy ===== *)
theory Outage_Alerts
  imports Trading_Halts
begin

text \<open>
  What the two watchdogs share (\<open>app/trading/application/worker_watchdog.py\<close> and
  \<open>app/market_data/application/worker_watchdog.py\<close>): late items are grouped by workspace, and a workspace is
  told of an outage once, until something is late that was not when it was last told. The locale states
  what an alert does to the events; each watchdog interprets it on its own.
\<close>

type_synonym stalled = "uuid \<times> string \<times> datetime" \<comment> \<open>workspace, label, since when\<close>

fun group_stalled :: "stalled list \<Rightarrow> (uuid \<times> (string \<times> datetime) list) list" where
  \<comment> \<open>a dictionary of lists: workspaces in the order they first appear\<close>
  "group_stalled [] = []"
| "group_stalled ((w, x) # rows) =
     (w, x # map snd (filter (\<lambda>r. fst r = w) rows)) # group_stalled (filter (\<lambda>r. fst r \<noteq> w) rows)"

definition last_alert :: "string \<Rightarrow> trading_db \<Rightarrow> uuid \<Rightarrow> datetime option" where
  "last_alert event_type db workspace =
     map_option se_occurred_at (latest_by se_occurred_at
       (filter (\<lambda>e. se_workspace e = workspace \<and> se_event_type e = event_type) (db_events db)))"

definition reported :: "string \<Rightarrow> trading_db \<Rightarrow> uuid \<Rightarrow> (string \<times> datetime) list \<Rightarrow> bool" where
  \<comment> \<open>the same outage, already reported\<close>
  "reported event_type db workspace stalled =
     (case last_alert event_type db workspace of None \<Rightarrow> False | Some t \<Rightarrow> list_all (\<lambda>x. snd x \<le> t) stalled)"

definition alert_workspace ::
  "string \<Rightarrow> (uuid \<Rightarrow> (string \<times> datetime) list \<Rightarrow> trading_db \<Rightarrow> trading_db) \<Rightarrow>
     nat \<times> trading_db \<Rightarrow> uuid \<times> (string \<times> datetime) list \<Rightarrow> nat \<times> trading_db" where
  "alert_workspace event_type alert = (\<lambda>(alerted, db) (workspace, stalled).
     if reported event_type db workspace stalled then (alerted, db)
     else (alerted + 1, alert workspace stalled db))"

definition alert_all ::
  "string \<Rightarrow> (uuid \<Rightarrow> (string \<times> datetime) list \<Rightarrow> trading_db \<Rightarrow> trading_db) \<Rightarrow> stalled list \<Rightarrow> trading_db \<Rightarrow> nat \<times> trading_db" where
  "alert_all event_type alert rows db = foldl (alert_workspace event_type alert) (0, db) (group_stalled rows)"

subsection \<open>Groups\<close>

lemma group_workspaces: "fst ` set (group_stalled rows) = fst ` set rows"
proof (induction rows rule: group_stalled.induct)
  case (2 w x rows)
  then show ?case by (simp only: group_stalled.simps list.set image_insert fst_conv) auto
qed simp

lemma group_distinct: "distinct (map fst (group_stalled rows))"
  by (induction rows rule: group_stalled.induct) (auto simp: group_workspaces [unfolded set_eq_iff image_iff] image_iff)

lemma group_members: "(w, st) \<in> set (group_stalled rows) \<Longrightarrow> set st = snd ` {r \<in> set rows. fst r = w}"
proof (induction rows rule: group_stalled.induct)
  case (2 v x rows)
  show ?case
  proof (cases "w = v")
    case True
    have "w \<notin> fst ` set (group_stalled (filter (\<lambda>r. fst r \<noteq> v) rows))" unfolding group_workspaces using True by auto
    then have "st = x # map snd (filter (\<lambda>r. fst r = v) rows)" using "2.prems" True by (auto simp: image_iff)
    moreover have "{r \<in> set ((v, x) # rows). fst r = w} = insert (w, x) {r \<in> set rows. fst r = w}" using True by auto
    ultimately show ?thesis using True by simp
  next
    case False
    moreover from this have "{r \<in> set ((v, x) # rows). fst r = w} = {r \<in> set (filter (\<lambda>r. fst r \<noteq> v) rows). fst r = w}" by auto
    ultimately show ?thesis using 2 by simp
  qed
qed simp

subsection \<open>Alerts\<close>

definition alerts_of :: "string \<Rightarrow> uuid \<Rightarrow> trading_db \<Rightarrow> system_event list" where
  "alerts_of event_type w db = filter (\<lambda>e. se_workspace e = w \<and> se_event_type e = event_type) (db_events db)"

lemma last_alert_cong: "alerts_of ty w db' = alerts_of ty w db \<Longrightarrow> last_alert ty db' w = last_alert ty db w"
  by (simp add: last_alert_def alerts_of_def)

lemma last_alert_snoc:
  assumes "alerts_of ty w db' = alerts_of ty w db @ [e]"
  shows "\<exists>t. last_alert ty db' w = Some t \<and> se_occurred_at e \<le> t"
proof -
  obtain x where x: "latest_by se_occurred_at (alerts_of ty w db') = Some x"
    using latest_by_None [of se_occurred_at "alerts_of ty w db'"] assms by fastforce
  have "e \<in> set (alerts_of ty w db')" using assms by simp
  then have "se_occurred_at e \<le> se_occurred_at x" using latest_by_Some [OF x] by blast
  then show ?thesis using x by (simp add: last_alert_def alerts_of_def)
qed

locale outage_alerts =
  fixes event_type :: string
    and alert :: "uuid \<Rightarrow> (string \<times> datetime) list \<Rightarrow> trading_db \<Rightarrow> trading_db"
    and alert_time :: datetime
    and kept :: "trading_db \<Rightarrow> 'f"
  assumes alert_kept: "kept (alert w st db) = kept db"
    and alert_events: "\<exists>e. se_occurred_at e = alert_time \<and>
      (\<forall>v. alerts_of event_type v (alert w st db) = alerts_of event_type v db @ (if v = w then [e] else []))"
begin

lemma alert_pass:
  assumes "distinct (map fst gs)" "foldl (alert_workspace event_type alert) (n, db) gs = (n', db')"
  shows "kept db' = kept db \<and> (\<forall>w. w \<notin> fst ` set gs \<longrightarrow> alerts_of event_type w db' = alerts_of event_type w db)
    \<and> (\<forall>(w, st) \<in> set gs. if reported event_type db w st then alerts_of event_type w db' = alerts_of event_type w db
         else \<exists>e. se_occurred_at e = alert_time \<and> alerts_of event_type w db' = alerts_of event_type w db @ [e])"
  using assms
proof (induction gs arbitrary: n db)
  case (Cons g gs)
  obtain w st where g: "g = (w, st)" by fastforce
  obtain n1 db1 where one: "alert_workspace event_type alert (n, db) g = (n1, db1)" by fastforce
  have db1: "db1 = (if reported event_type db w st then db else alert w st db)"
    using one by (auto simp: alert_workspace_def g split: if_splits)
  obtain e where e: "se_occurred_at e = alert_time"
      "\<And>v. alerts_of event_type v (alert w st db) = alerts_of event_type v db @ (if v = w then [e] else [])"
    using alert_events by blast
  have frame: "kept db1 = kept db" by (simp add: db1 alert_kept)
  have rest: "kept db' = kept db1 \<and> (\<forall>w. w \<notin> fst ` set gs \<longrightarrow> alerts_of event_type w db' = alerts_of event_type w db1)
    \<and> (\<forall>(w, st) \<in> set gs. if reported event_type db1 w st then alerts_of event_type w db' = alerts_of event_type w db1
         else \<exists>e. se_occurred_at e = alert_time \<and> alerts_of event_type w db' = alerts_of event_type w db1 @ [e])"
    using Cons.IH [of n1 db1] Cons.prems one by simp
  have other: "alerts_of event_type v db1 = alerts_of event_type v db" if "v \<noteq> w" for v using e(2) that by (simp add: db1)
  have same: "reported event_type db1 v s \<longleftrightarrow> reported event_type db v s" if "v \<noteq> w" for v s
    using last_alert_cong [OF other [OF that]] by (simp add: reported_def)
  have w: "w \<notin> fst ` set gs" using Cons.prems(1) by (simp add: g)
  have "if reported event_type db w st then alerts_of event_type w db' = alerts_of event_type w db
      else \<exists>e. se_occurred_at e = alert_time \<and> alerts_of event_type w db' = alerts_of event_type w db @ [e]"
    using rest w e by (auto simp: db1)
  moreover have "if reported event_type db v s then alerts_of event_type v db' = alerts_of event_type v db
      else \<exists>e. se_occurred_at e = alert_time \<and> alerts_of event_type v db' = alerts_of event_type v db @ [e]" if "(v, s) \<in> set gs" for v s
  proof -
    have "v \<noteq> w" using w that by (metis fst_conv imageI)
    then show ?thesis using rest that other [of v] same [of v s] by (auto split: if_splits)
  qed
  moreover have "alerts_of event_type v db' = alerts_of event_type v db" if "v \<notin> fst ` set (g # gs)" for v
    using rest that other [of v] by (simp add: g)
  ultimately show ?case using rest frame by (auto simp: g)
qed simp

lemma alerted:
  assumes "alert_all event_type alert rows db = (n, db')"
  shows "kept db' = kept db"
    and "w \<notin> fst ` set rows \<Longrightarrow> alerts_of event_type w db' = alerts_of event_type w db"
    and "w \<in> fst ` set rows \<Longrightarrow> \<exists>st. set st = snd ` {r \<in> set rows. fst r = w}
        \<and> (if reported event_type db w st then alerts_of event_type w db' = alerts_of event_type w db
           else \<exists>e. se_occurred_at e = alert_time \<and> alerts_of event_type w db' = alerts_of event_type w db @ [e])"
proof -
  note pass = alert_pass [OF group_distinct assms(1) [unfolded alert_all_def]]
  show "kept db' = kept db" using pass by blast
  show "w \<notin> fst ` set rows \<Longrightarrow> alerts_of event_type w db' = alerts_of event_type w db" using pass group_workspaces [of rows] by blast
  assume "w \<in> fst ` set rows"
  then obtain st where st: "(w, st) \<in> set (group_stalled rows)" using group_workspaces [of rows] by force
  then show "\<exists>st. set st = snd ` {r \<in> set rows. fst r = w}
      \<and> (if reported event_type db w st then alerts_of event_type w db' = alerts_of event_type w db
         else \<exists>e. se_occurred_at e = alert_time \<and> alerts_of event_type w db' = alerts_of event_type w db @ [e])"
    using group_members [OF st] pass by blast
qed

lemma row_reported:
  assumes "alert_all event_type alert rows db = (n, db')" "(w, label, since) \<in> set rows" "since \<le> alert_time"
  shows "\<exists>t. last_alert event_type db' w = Some t \<and> since \<le> t"
proof -
  have "w \<in> fst ` set rows" using assms(2) by force
  from alerted(3) [OF assms(1) this]
  obtain st where members: "set st = snd ` {r \<in> set rows. fst r = w}"
    and alerts: "if reported event_type db w st then alerts_of event_type w db' = alerts_of event_type w db
     else \<exists>e. se_occurred_at e = alert_time \<and> alerts_of event_type w db' = alerts_of event_type w db @ [e]"
    by (elim exE conjE) (rule that)
  have st: "(label, since) \<in> set st" unfolding members using assms(2) by force
  show ?thesis
  proof (cases "reported event_type db w st")
    case True
    then have "last_alert event_type db' w = last_alert event_type db w"
      using alerts last_alert_cong [of event_type w db' db] by simp
    then show ?thesis using True st by (fastforce simp: reported_def list_all_iff split: option.splits)
  next
    case False
    then obtain e where "se_occurred_at e = alert_time" "alerts_of event_type w db' = alerts_of event_type w db @ [e]"
      using alerts by auto
    then obtain t where "last_alert event_type db' w = Some t" "alert_time \<le> t" using last_alert_snoc by metis
    then show ?thesis using assms(3) by auto
  qed
qed

lemma silent:
  assumes "last_alert event_type db w = Some t" "\<forall>(v, _, since) \<in> set rows. v = w \<longrightarrow> since \<le> t"
    and "alert_all event_type alert rows db = (n, db')"
  shows "alerts_of event_type w db' = alerts_of event_type w db"
proof (cases "w \<in> fst ` set rows")
  case True
  then obtain st where st: "set st = snd ` {r \<in> set rows. fst r = w}"
      "if reported event_type db w st then alerts_of event_type w db' = alerts_of event_type w db
       else \<exists>e. se_occurred_at e = alert_time \<and> alerts_of event_type w db' = alerts_of event_type w db @ [e]"
    using alerted(3) [OF assms(3), of w] by blast
  have "\<forall>x \<in> set st. snd x \<le> t" unfolding st(1) using assms(2) by auto
  then have "reported event_type db w st" using assms(1) by (simp add: reported_def list_all_iff)
  then show ?thesis using st(2) by simp
qed (use alerted(2) [OF assms(3)] in blast)

end

end
