(* ===== verification/Worker_Watchdog.thy ===== *)
theory Worker_Watchdog
  imports Execution_Loop Outage_Alerts
begin

text \<open>
  The check that the trading worker is alive, \<open>app/trading/application/worker_watchdog.py\<close>: an active bot
  whose run was not stamped for a while is stalled, and a workspace with stalled bots is told so once
  per outage. Of a message its parts are kept, without the number of minutes.
\<close>

definition watchdog_event_type :: string where
  "watchdog_event_type = ''trading_worker_stalled''"

definition last_seen :: "bot_run \<Rightarrow> datetime" where
  \<comment> \<open>\<open>coalesce(heartbeat_at, started_at)\<close>\<close>
  "last_seen r = (case br_heartbeat_at r of Some t \<Rightarrow> t | None \<Rightarrow> br_started_at r)"

definition find_stalled_bots :: "trading_db \<Rightarrow> datetime \<Rightarrow> timedelta \<Rightarrow> uuid option \<Rightarrow> stalled list" where
  "find_stalled_bots db now stale_after workspace =
     sort_key (\<lambda>(_, _, seen). seen)
       (concat (map (\<lambda>b. map (\<lambda>r. (b_workspace b, b_name b, last_seen r))
            (filter (\<lambda>r. br_bot r = b_id b \<and> br_status r \<in> {Running, Paused} \<and> last_seen r < now - stale_after) (db_runs db)))
          (filter (\<lambda>b. b_actual b \<in> {Running, Paused}
             \<and> (case workspace of None \<Rightarrow> True | Some w \<Rightarrow> b_workspace b = w)) (db_bots db))))"

definition worker_alert :: "tx_env \<Rightarrow> timedelta \<Rightarrow> uuid \<Rightarrow> (string \<times> datetime) list \<Rightarrow> trading_db \<Rightarrow> trading_db" where
  "worker_alert env stale_after workspace stalled db =
     snd (publish_system_event env workspace ''error'' ''system'' watchdog_event_type (Some ''worker_stalled'')
       (watchdog_event_type # take 5 (map fst stalled) @ (if 5 < length stalled then [''others''] else []))
       [(''bot_names'', D_list (map (\<lambda>x. D_text (fst x)) stalled)),
        (''oldest_heartbeat'', D_time (seq_min (map snd stalled))),
        (''stale_after_seconds'', D_int \<lfloor>total_seconds stale_after\<rfloor>)]
       ''workspace'' workspace ''watchdog'' None None None None db)"

definition check_trading_worker :: "tx_env \<Rightarrow> datetime \<Rightarrow> timedelta \<Rightarrow> trading_db \<Rightarrow> nat \<times> trading_db" where
  \<comment> \<open>committed when it alerted; without an alert nothing was written\<close>
  "check_trading_worker env now stale_after db =
     alert_all watchdog_event_type (worker_alert env stale_after) (find_stalled_bots db now stale_after None) db"

subsection \<open>Lemmas\<close>

interpretation trading_watchdog: outage_alerts watchdog_event_type "worker_alert env stale_after" "env_now env" db_runs
  by unfold_locales (simp_all add: worker_alert_def alerts_of_def publish_system_event_def fresh_id_def Let_def)

lemma stalled_row:
  assumes "(w, name, seen) \<in> set (find_stalled_bots db now sa ws)"
  shows "seen < now - sa \<and> (\<exists>r \<in> set (db_runs db). seen = last_seen r)"
  using assms by (auto simp: find_stalled_bots_def)

text \<open>
  What the watchdog is there to find, said of the rows: an active bot, running or paused, with an active run
  whose last stamp, or whose start when it was never stamped, is older than the cut-off.
\<close>

definition left_alone :: "trading_db \<Rightarrow> datetime \<Rightarrow> trading_bot \<Rightarrow> bot_run \<Rightarrow> bool" where
  "left_alone db cutoff tb r \<longleftrightarrow> tb \<in> set (db_bots db) \<and> r \<in> set (db_runs db) \<and> br_bot r = b_id tb
     \<and> (b_actual tb = Running \<or> b_actual tb = Paused) \<and> (br_status r = Running \<or> br_status r = Paused)
     \<and> (case br_heartbeat_at r of Some stamp \<Rightarrow> stamp < cutoff | None \<Rightarrow> br_started_at r < cutoff)"

lemma left_alone_iff:
  "row \<in> set (find_stalled_bots db now sa None) \<longleftrightarrow>
     (\<exists>tb r. left_alone db (now - sa) tb r \<and> row = (b_workspace tb, b_name tb, last_seen r))"
proof -
  have "(case br_heartbeat_at r of Some stamp \<Rightarrow> stamp < c | None \<Rightarrow> br_started_at r < c) \<longleftrightarrow> last_seen r < c" for r c
    by (simp add: last_seen_def split: option.split)
  then show ?thesis by (auto simp: find_stalled_bots_def left_alone_def)
qed

text \<open>
  C20 (safety). No stalled bot goes unnoticed: after a check, the workspace of every active bot, running or paused,
  whose run was not stamped within the allowed time has an alert no older than that
  run's last stamp. And there is no false alarm: a workspace without such a bot gets no alert.
\<close>

theorem stalled_bots_are_reported:
  assumes "check_trading_worker env now stale_after db = (n, db')" "now - stale_after \<le> env_now env"
  shows "(\<forall>tb r. left_alone db (now - stale_after) tb r \<longrightarrow>
       (\<exists>e \<in> set (db_events db'). se_workspace e = b_workspace tb \<and> se_event_type e = ''trading_worker_stalled''
          \<and> last_seen r \<le> se_occurred_at e))
    \<and> (\<forall>w. (\<nexists>tb r. left_alone db (now - stale_after) tb r \<and> b_workspace tb = w) \<longrightarrow>
       alerts_of ''trading_worker_stalled'' w db' = alerts_of ''trading_worker_stalled'' w db)"
proof (intro conjI allI impI)
  note check = assms(1) [unfolded check_trading_worker_def]
  fix tb r assume "left_alone db (now - stale_after) tb r"
  then have late: "(b_workspace tb, b_name tb, last_seen r) \<in> set (find_stalled_bots db now stale_after None)"
    using left_alone_iff by blast
  then obtain t where "last_alert watchdog_event_type db' (b_workspace tb) = Some t" "last_seen r \<le> t"
    using trading_watchdog.row_reported [OF check late] stalled_row [OF late] assms(2) by auto
  then obtain e where e: "latest_by se_occurred_at
      (filter (\<lambda>e. se_workspace e = b_workspace tb \<and> se_event_type e = watchdog_event_type) (db_events db')) = Some e"
      "last_seen r \<le> se_occurred_at e"
    by (auto simp: last_alert_def)
  have "e \<in> set (filter (\<lambda>e. se_workspace e = b_workspace tb \<and> se_event_type e = watchdog_event_type) (db_events db'))"
    using latest_by_Some [OF e(1)] by blast
  then show "\<exists>e \<in> set (db_events db'). se_workspace e = b_workspace tb \<and> se_event_type e = ''trading_worker_stalled''
      \<and> last_seen r \<le> se_occurred_at e"
    using e(2) by (auto simp: watchdog_event_type_def)
next
  note check = assms(1) [unfolded check_trading_worker_def]
  fix w assume "\<nexists>tb r. left_alone db (now - stale_after) tb r \<and> b_workspace tb = w"
  then have "w \<notin> fst ` set (find_stalled_bots db now stale_after None)"
    using left_alone_iff by fastforce
  then show "alerts_of ''trading_worker_stalled'' w db' = alerts_of ''trading_worker_stalled'' w db"
    using trading_watchdog.alerted(2) [OF check] by (simp add: watchdog_event_type_def)
qed

lemma silent_check:
  assumes "last_alert watchdog_event_type db w = Some t" "\<forall>r \<in> set (db_runs db). last_seen r \<le> t" "check_trading_worker env now sa db = (n, db')"
  shows "alerts_of watchdog_event_type w db' = alerts_of watchdog_event_type w db \<and> db_runs db' = db_runs db"
proof -
  have "\<forall>(v, _, since) \<in> set (find_stalled_bots db now sa None). v = w \<longrightarrow> since \<le> t"
    using stalled_row [of _ _ _ db now sa None] assms(2) by blast
  then show ?thesis
    using trading_watchdog.silent [OF assms(1) _ assms(3) [unfolded check_trading_worker_def]]
      trading_watchdog.alerted(1) [OF assms(3) [unfolded check_trading_worker_def]] by blast
qed

definition check_again :: "(tx_env \<times> datetime \<times> timedelta) list \<Rightarrow> trading_db \<Rightarrow> trading_db" where
  "check_again later db = foldl (\<lambda>db (env, now, sa). snd (check_trading_worker env now sa db)) db later"

text \<open>
  An outage is reported once: a workspace that was just alerted is not alerted again
  by any number of later checks, however much later, until some run is stamped again.
\<close>

theorem outage_reported_once:
  assumes "check_trading_worker env now stale_after db = (n, db')"
    and "alerts_of watchdog_event_type w db' \<noteq> alerts_of watchdog_event_type w db"
    and "\<forall>r \<in> set (db_runs db). last_seen r \<le> env_now env"
  shows "alerts_of watchdog_event_type w (check_again later db') = alerts_of watchdog_event_type w db'"
proof -
  note check = assms(1) [unfolded check_trading_worker_def]
  have "w \<in> fst ` set (find_stalled_bots db now stale_after None)" using trading_watchdog.alerted(2) [OF check] assms(2) by blast
  then obtain e where "se_occurred_at e = env_now env" "alerts_of watchdog_event_type w db' = alerts_of watchdog_event_type w db @ [e]"
    using trading_watchdog.alerted(3) [OF check, of w] assms(2) by (auto split: if_splits)
  then obtain t where t: "last_alert watchdog_event_type db' w = Some t" "env_now env \<le> t" using last_alert_snoc by metis
  have stamps: "\<forall>r \<in> set (db_runs db'). last_seen r \<le> t" using assms(3) t(2) trading_watchdog.alerted(1) [OF check] by auto
  have "alerts_of watchdog_event_type w (foldl (\<lambda>db (env, now, sa). snd (check_trading_worker env now sa db)) d later) = alerts_of watchdog_event_type w d"
    if "last_alert watchdog_event_type d w = Some t" "\<forall>r \<in> set (db_runs d). last_seen r \<le> t" for d
    using that
  proof (induction later arbitrary: d)
    case (Cons x later)
    obtain env now sa n d1 where x: "x = (env, now, sa)" "check_trading_worker env now sa d = (n, d1)" by (metis prod.collapse)
    have "alerts_of watchdog_event_type w d1 = alerts_of watchdog_event_type w d" "db_runs d1 = db_runs d"
      using silent_check [OF Cons.prems x(2)] by simp_all
    then show ?case using Cons.IH [of d1] Cons.prems last_alert_cong [of watchdog_event_type w d1 d] by (simp add: x)
  qed simp
  then show ?thesis using t(1) stamps by (simp add: check_again_def)
qed

end
