(* ===== verification/Bot_Examples.thy ===== *)
theory Bot_Examples
  imports Database_Examples Worker_Watchdog
begin

text \<open>
  A workspace with one bot: a Donchian breakout on a Binance paper account of 10000 USDT, its last bar
  a breakout. The properties of the bots, of the emergency stop and of the worker are applied to it.
\<close>

declare One_nat_def [simp del]

definition bot_definition :: "string \<rightharpoonup> json" where
  "bot_definition = [''kind'' \<mapsto> JStr ''donchian_breakout'', ''entry_period'' \<mapsto> JInt 1, ''exit_period'' \<mapsto> JInt 1,
     ''exit_policy'' \<mapsto> JStr ''stop_loss'']"

definition bot_env :: tx_env where
  "bot_env = \<lparr>env_now = 10800000000, env_column = pg_numeric18\<rparr>"

definition bot_candles :: "decimal \<Rightarrow> candle list" where
  \<comment> \<open>the closing price of the last bar, after two at 999\<close>
  "bot_candles price = [demo_candle 0 999, demo_candle 1 999, demo_candle 2 price]"

definition bot_catalog :: "decimal \<Rightarrow> catalog" where
  "bot_catalog price = \<lparr>cat_accounts = [\<lparr>ac_id = 1, ac_workspace = 1, ac_connection = Some 1, ac_status = ''active''\<rparr>],
     cat_connections = [\<lparr>cn_id = 1, cn_exchange = 1, cn_secret_ref = Some ''vault'', cn_status = ''verified''\<rparr>],
     cat_exchanges = [(1, ''binance'')], cat_instruments = [demo_instrument],
     cat_candles = bot_candles price, cat_spreads = [(1, 999, 1000)],
     cat_strategies = [\<lparr>sv_id = 1, sv_definition = Some bot_definition, sv_lifecycle = ''paper_approved''\<rparr>],
     cat_profiles = [\<lparr>rp_id = 1, rp_rules = conservative_v1_rules, rp_status = ''approved''\<rparr>]\<rparr>"

definition bot_row :: "bot_state \<Rightarrow> trading_bot" where
  "bot_row st = \<lparr>b_id = 1, b_workspace = 1, b_name = ''breakout'', b_execution_mode = ''paper'', b_connection = 1,
     b_account = 1, b_instrument = 1, b_timeframe = ''1h'', b_strategy_version = 1, b_risk_profile_version = 1,
     b_desired = st, b_actual = st, b_version = 1\<rparr>"

definition run_row :: "bot_state \<Rightarrow> bot_run" where
  "run_row st = \<lparr>br_id = 2, br_bot = 1, br_status = st, br_started_at = 0, br_stopped_at = None,
     br_stop_reason = None, br_heartbeat_at = None\<rparr>"

definition bot_db :: "bot_state \<Rightarrow> decimal \<Rightarrow> account_snapshot list \<Rightarrow> trading_db" where
  "bot_db st price snapshots = demo_db\<lparr>db_catalog := bot_catalog price, db_bots := [bot_row st], db_runs := [run_row st],
     db_entries := [\<lparr>le_transaction = 3, le_account = 1, le_fill = None, le_asset = ''USDT'', le_amount = 10000,
       le_type = Deposit, le_occurred_at = 0\<rparr>], db_snapshots := snapshots\<rparr>"

lemma bot_row_sel [simp]:
  "b_id (bot_row st) = 1" "b_workspace (bot_row st) = 1" "b_account (bot_row st) = 1" "b_instrument (bot_row st) = 1"
  "b_connection (bot_row st) = 1" "b_timeframe (bot_row st) = ''1h''" "b_strategy_version (bot_row st) = 1"
  "b_risk_profile_version (bot_row st) = 1" "b_desired (bot_row st) = st" "b_actual (bot_row st) = st"
  "b_execution_mode (bot_row st) = ''paper''"
  by (simp_all add: bot_row_def)

lemma run_row_sel [simp]:
  "br_id (run_row st) = 2" "br_bot (run_row st) = 1" "br_status (run_row st) = st" "br_started_at (run_row st) = 0"
  "br_stopped_at (run_row st) = None" "br_heartbeat_at (run_row st) = None"
  by (simp_all add: run_row_def)

lemma bot_env_sel [simp]: "env_now bot_env = 10800000000" "env_column bot_env = pg_numeric18"
  by (simp_all add: bot_env_def)

lemma bot_catalog_sel [simp]:
  "find (\<lambda>a. ac_id a = 1) (cat_accounts (bot_catalog p)) = Some (hd (cat_accounts (bot_catalog p)))"
  "ac_id (hd (cat_accounts (bot_catalog p))) = 1"
  "find (\<lambda>i. i_id i = 1) (cat_instruments (bot_catalog p)) = Some demo_instrument"
  "find (\<lambda>v. sv_id v = 1) (cat_strategies (bot_catalog p)) = Some (hd (cat_strategies (bot_catalog p)))"
  "sv_definition (hd (cat_strategies (bot_catalog p))) = Some bot_definition"
  "find (\<lambda>v. rp_id v = 1) (cat_profiles (bot_catalog p)) = Some (hd (cat_profiles (bot_catalog p)))"
  "rp_rules (hd (cat_profiles (bot_catalog p))) = conservative_v1_rules"
  "rp_id (hd (cat_profiles (bot_catalog p))) = 1" "map_of (cat_spreads (bot_catalog p)) 1 = Some (999, 1000)"
  "cat_candles (bot_catalog p) = bot_candles p"
  by (simp_all add: bot_catalog_def demo_instrument_def)

lemma bot_db_sel [simp]:
  "db_catalog (bot_db st p sn) = bot_catalog p" "db_bots (bot_db st p sn) = [bot_row st]" "db_runs (bot_db st p sn) = [run_row st]"
  "db_halts (bot_db st p sn) = []" "db_positions (bot_db st p sn) = []" "db_orders (bot_db st p sn) = []"
  "db_signals (bot_db st p sn) = []" "db_decisions (bot_db st p sn) = []" "db_intents (bot_db st p sn) = []"
  "db_next_id (bot_db st p sn) = 10" "db_snapshots (bot_db st p sn) = sn" "db_history (bot_db st p sn) = []"
  "db_events (bot_db st p sn) = []"
  by (simp_all add: bot_db_def demo_db_def)

lemma demo_candle_sel [simp]:
  "c_id (demo_candle n p) = n" "c_instrument (demo_candle n p) = 1" "c_timeframe (demo_candle n p) = ''1h''"
  "c_final (demo_candle n p)" "c_open_time (demo_candle n p) = int n * 3600000000"
  "c_close_time (demo_candle n p) = int n * 3600000000 + 3600000000" "c_open (demo_candle n p) = p"
  "c_close (demo_candle n p) = p" "c_high (demo_candle n p) = p" "c_low (demo_candle n p) = p"
  by (simp_all add: demo_candle_def)

lemma bot_recent: "db_catalog db = bot_catalog p \<Longrightarrow> 3 \<le> n \<Longrightarrow> recent_final_candles db 1 ''1h'' n = bot_candles p"
  by (simp add: recent_final_candles_def newest_first_def bot_candles_def)

lemma bot_latest: "db_catalog db = bot_catalog p \<Longrightarrow> latest_final_candle db 1 = Some (demo_candle 2 p)"
  by (simp add: latest_final_candle_def latest_by_def bot_candles_def)

lemma bot_exchange: "db_catalog db = bot_catalog p \<Longrightarrow> exchange_code_for_connection db 1 = Inr ''binance''"
  by (simp add: exchange_code_for_connection_def bot_catalog_def)

lemma bot_strategy: "\<exists>s. resolve_live_strategy (Some bot_definition) = Inr s \<and> ls_exit_policy s = Exit_stop_loss
    \<and> ls_generate s = generate_donchian_breakout_signal 1 1"
  by (simp add: resolve_live_strategy_def bot_definition_def exit_policy_of_def positive_int_def One_nat_def)

lemma bot_generated:
  "generate_donchian_breakout_signal 1 1 (bot_candles 1000) = Buy" "generate_donchian_breakout_signal 1 1 (bot_candles 999) = Hold"
  by (simp_all add: generate_donchian_breakout_signal_def breaks_above_def breaks_below_def bot_candles_def slice_def One_nat_def)

subsection \<open>The bot's state is consistent\<close>

lemma bot_db_ok: "st \<in> {Running, Paused, Stopped} \<Longrightarrow> trading_ok pg_numeric18 (bot_db st p sn)"
  by (auto simp: trading_ok_def system_ok_def halts_ok_def books_ok_def positions_ok_def orders_ok_def bots_ok_def
      exclusive_def in_state_def run_dated_def active_run_def)

lemma bot_db_parts:
  assumes "st \<in> {Running, Paused, Stopped}"
  shows "halts_ok (bot_db st p sn)" "books_ok pg_numeric18 (bot_db st p sn)" "bots_ok (bot_db st p sn)"
    "orders_ok (bot_db st p sn)"
  using bot_db_ok [OF assms] by (simp_all add: trading_ok_def system_ok_def books_ok_def)

lemma bot_column: "numeric_column (env_column bot_env)"
  using pg.numeric_column_axioms by simp

lemma bot_valuation:
  assumes "db_catalog db = bot_catalog p" "db_positions db = []" "db_entries db = db_entries (bot_db st q sn)"
  shows "value_account db 1 demo_instrument = \<lparr>av_cash = 10000, av_unrealized = 0, av_equity = 10000\<rparr>"
  using assms bot_latest
  by (simp add: value_account_def cash_balance_def open_position_valuation_def open_position_def demo_instrument_def
      bot_db_def demo_db_def is_cash_entry_def arithmetic_defs decimal_eval Let_def)

lemma bot_reading:
  "account_lock_reading (bot_row st) 1 demo_instrument (bot_db st p []) = \<lparr>lr_consecutive_losses = 0, lr_peak_drawdown_pct = None\<rparr>"
  by (simp add: account_lock_reading_def read_locks_def losing_streak_def realized_results_def peak_equity_since_def Let_def
      newest_first_def) (simp add: bot_db_def demo_db_def)

subsection \<open>Commands\<close>

lemma bot_startup: "validate_bot_startup bot_env (bot_db st p sn) (bot_row st) = Inr ()"
proof -
  have connection: "check_connection (bot_db st p sn) (bot_row st) = Inr (hd (cat_connections (bot_catalog p)))"
    by (simp add: check_connection_def) (simp add: bot_catalog_def)
  have strategy: "check_strategy (bot_db st p sn) (bot_row st) = Inr ()"
    using bot_strategy by (auto simp: check_strategy_def) (simp add: bot_catalog_def)
  have instrument: "check_research_instrument (bot_db st p sn) (bot_row st) c = Inr ()" for c
    by (simp add: check_research_instrument_def raise_if_def) (simp add: bot_catalog_def demo_instrument_def)
  have fresh: "check_freshness bot_env (bot_db st p sn) (bot_row st) = Inr ()"
    by (simp add: check_freshness_def bot_candles_def latest_by_def timeframe_seconds.simps raise_if_def max_startup_delay_bars_def)
  show ?thesis
    using connection strategy instrument fresh
    by (simp add: validate_bot_startup_def raise_if_def has_active_halt_at_or_above_def) (simp add: bot_catalog_def)
qed

theorem commands_available_witness:
  "\<exists>x. start_bot bot_env (bot_row Stopped) (bot_db Stopped 1000 []) = Inr x"
  using commands_available [of "bot_db Stopped 1000 []" "bot_row Stopped" bot_env None] bot_db_parts [of Stopped] bot_startup
  by simp

theorem halted_bots_leave_no_orders_witness:
  "\<exists>run db'. stop_bot bot_env (bot_row Running) None (bot_db Running 1000 []) = Inr (run, db') \<and> no_working_orders 1 db'"
proof -
  obtain run db' where stop: "stop_bot bot_env (bot_row Running) None (bot_db Running 1000 []) = Inr (run, db')"
    using stop_bot_total [of "bot_db Running 1000 []" "bot_row Running" bot_env None] bot_db_parts [of Running] by auto
  then show ?thesis
    using halted_bots_leave_no_orders [of "bot_db Running 1000 []" "bot_row Running" bot_env run db' None] bot_db_parts [of Running]
    by simp
qed

theorem bots_stay_consistent_witness:
  "\<exists>run db'. stop_bot bot_env (bot_row Running) None (bot_db Running 1000 []) = Inr (run, db') \<and> trading_ok pg_numeric18 db'"
proof -
  obtain run db' where stop: "stop_bot bot_env (bot_row Running) None (bot_db Running 1000 []) = Inr (run, db')"
    using stop_bot_total [of "bot_db Running 1000 []" "bot_row Running" bot_env None] bot_db_parts [of Running] by auto
  then have "bot_step pg_numeric18 (bot_db Running 1000 []) db'" by (intro stop_step [of "bot_row Running"]) simp_all
  then show ?thesis
    using bots_stay_consistent [OF pg.numeric_column_axioms r_into_rtranclp bot_db_ok] stop by blast
qed

definition halted_bot_db :: trading_db where
  "halted_bot_db = snd (activate_or_escalate bot_env (bot_scope (bot_row Stopped)) ''user_emergency_stop'' Emergency_stopped False None
     (bot_db Stopped 1000 []))"

lemma halted_bot:
  "trading_ok pg_numeric18 halted_bot_db"
  "\<exists>h \<in> set (db_halts halted_bot_db). active h \<and> h_level h = Emergency_stopped \<and> h_reason h = ''user_emergency_stop''
     \<and> scope_of_halt h = bot_scope (bot_row Stopped)"
proof -
  obtain h db' where act: "activate_or_escalate bot_env (bot_scope (bot_row Stopped)) ''user_emergency_stop'' Emergency_stopped False None
     (bot_db Stopped 1000 []) = (h, db')" by fastforce
  then have db': "db' = halted_bot_db" by (simp add: halted_bot_db_def)
  note stop = emergency_activated [OF bot_db_parts(1) [of Stopped] act, unfolded db', simplified]
  note frame = halt_frame_sel [OF stop(5)]
  show "trading_ok pg_numeric18 halted_bot_db"
    using stop(3) frame books_ok_frame [OF bot_db_parts(2) [of Stopped], of halted_bot_db 1000 "[]"]
      bots_ok_frame [OF bot_db_parts(3) [of Stopped], of halted_bot_db 1000 "[]"]
    by (simp add: trading_ok_def system_ok_def)
  show "\<exists>h \<in> set (db_halts halted_bot_db). active h \<and> h_level h = Emergency_stopped \<and> h_reason h = ''user_emergency_stop''
     \<and> scope_of_halt h = bot_scope (bot_row Stopped)"
    using find_active_halt_Some [OF stop(1)] stop(2) by blast
qed

theorem emergency_stop_keeps_bots_down_witness:
  "\<exists>e. start_bot bot_env (bot_row Stopped) halted_bot_db = Inl e"
proof -
  obtain h where h: "h \<in> set (db_halts halted_bot_db)" "active h" "h_level h = Emergency_stopped"
      "h_reason h = ''user_emergency_stop''" "scope_of_halt h = bot_scope (bot_row Stopped)"
    using halted_bot(2) by blast
  then show ?thesis
    using emergency_stop_keeps_bots_down [OF pg.numeric_column_axioms halted_bot(1) rtranclp.rtrancl_refl h(1-3), of "bot_row Stopped" bot_env]
    by (simp add: in_scope_iff machine_relaxes_def)
qed

subsection \<open>Emergency stop\<close>

lemma bot_runs_before: "runs_before (env_now bot_env) (bot_db st p sn)"
  by (simp add: runs_before_def)


theorem workspace_stop_blocks_witness:
  "\<exists>res db'. emergency_stop_workspace bot_env 1 None True None (bot_db Running 1000 []) = Inr (res, db')
    \<and> entry_blocked_by_halt db' 1 1 None"
proof -
  obtain res db' where stop: "emergency_stop_workspace bot_env 1 None True None (bot_db Running 1000 []) = Inr (res, db')"
    using emergency_stop_total [of bot_env "bot_db Running 1000 []" "[bot_row Running]" "workspace_scope 1" None True None]
      bot_column bot_db_ok [of Running] bot_runs_before by (auto simp: emergency_stop_workspace_def)
  then show ?thesis
    using workspace_stop_blocks [OF bot_column _ bot_runs_before stop rtranclp.rtrancl_refl, of 1 None] bot_db_ok [of Running] by auto
qed

subsection \<open>The worker\<close>

definition bot_faults :: "string \<Rightarrow> faults" where
  \<comment> \<open>every evaluation raises this error\<close>
  "bot_faults e = \<lparr>fa_env = \<lambda>_. bot_env, fa_evaluation = \<lambda>_. Some e, fa_heartbeat = \<lambda>_. False, fa_failing = \<lambda>_. False\<rparr>"

lemma bot_faults_sel [simp]:
  "fa_env (bot_faults e) b = bot_env" "fa_evaluation (bot_faults e) b = Some e"
  "fa_heartbeat (bot_faults e) b = False" "fa_failing (bot_faults e) b = False"
  by (simp_all add: bot_faults_def)

theorem pass_keeps_trading_witness:
  "trading_ok pg_numeric18 (snd (snd (run_active_bots_once (bot_faults ''ValueError'') [] (bot_db Running 1000 []))))"
proof -
  obtain n t db' where "run_active_bots_once (bot_faults ''ValueError'') [] (bot_db Running 1000 []) = (n, t, db')"
    by (metis prod.collapse)
  then show ?thesis
    using pass_keeps_trading [OF pg.numeric_column_axioms _ bot_db_ok, of "bot_faults ''ValueError''" Running "[]" 1000 "[]" n t db'] by simp
qed

theorem outage_changes_nothing_witness:
  "run_active_bots_once (bot_faults ''OperationalError'') [(1, 3)] (bot_db Running 1000 []) = (0, [(1, 3)], bot_db Running 1000 [])"
  using outage_changes_nothing [of "bot_faults ''OperationalError''"] by (simp add: is_database_outage_def)

theorem persistent_failure_stops_the_bot_witness:
  "is_down (snd (run_passes [] (bot_db Running 1000 []) (replicate 5 (bot_catalog 1000, bot_faults ''ValueError'')))) 1"
  using persistent_failure_stops_the_bot [OF pg.numeric_column_axioms bot_db_ok, of Running 0 1000 "[]" "bot_row Running" "[]"
      "replicate 5 (bot_catalog 1000, bot_faults ''ValueError'')"]
  by (simp add: runs_before_def failure_threshold_def failing_for_def is_database_outage_def)

lemma bot_stalled: "find_stalled_bots (bot_db Running 1000 []) 10800000000 600000000 None = [(1, ''breakout'', 0)]"
  by (simp add: find_stalled_bots_def last_seen_def) (simp add: bot_row_def)

lemma bot_left_alone:
  "\<exists>r. left_alone (bot_db Paused 1000 []) 10200000000 (bot_row Paused) r \<and> last_seen r = 0"
  by (simp add: left_alone_def last_seen_def)

theorem stalled_bots_are_reported_witness:
  "\<exists>e \<in> set (db_events (snd (check_trading_worker bot_env 10800000000 600000000 (bot_db Paused 1000 [])))).
     se_workspace e = 1 \<and> se_event_type e = ''trading_worker_stalled'' \<and> 0 \<le> se_occurred_at e"
proof -
  obtain n db' where check: "check_trading_worker bot_env 10800000000 600000000 (bot_db Paused 1000 []) = (n, db')" by fastforce
  obtain r where "left_alone (bot_db Paused 1000 []) 10200000000 (bot_row Paused) r" "last_seen r = 0"
    using bot_left_alone by blast
  moreover have "b_workspace (bot_row Paused) = 1" "10200000000 \<le> env_now bot_env" by (simp_all add: bot_row_def bot_env_def)
  ultimately show ?thesis
    using stalled_bots_are_reported [OF check] check by fastforce
qed

theorem outage_reported_once_witness:
  "\<exists>n db'. check_trading_worker bot_env 10800000000 600000000 (bot_db Running 1000 []) = (n, db')
    \<and> alerts_of watchdog_event_type 1 (check_again [(bot_env, 21600000000, 600000000)] db') = alerts_of watchdog_event_type 1 db'"
proof -
  obtain n db' where check: "check_trading_worker bot_env 10800000000 600000000 (bot_db Running 1000 []) = (n, db')" by fastforce
  have "1 \<in> fst ` set (find_stalled_bots (bot_db Running 1000 []) 10800000000 600000000 None)" by (simp add: bot_stalled)
  from trading_watchdog.alerted(3) [OF check [unfolded check_trading_worker_def] this]
  have "alerts_of watchdog_event_type 1 db' \<noteq> alerts_of watchdog_event_type 1 (bot_db Running 1000 [])"
    by (auto simp: reported_def last_alert_def latest_by_def split: if_splits)
  then show ?thesis
    using outage_reported_once [OF check, of 1 "[(bot_env, 21600000000, 600000000)]"] check by (simp add: last_seen_def)
qed

subsection \<open>Cycles\<close>

lemma bot_locks:
  "snd (sync_lock_halts bot_env (bot_row st) 1 demo_instrument (hd (cat_profiles (bot_catalog p))) (bot_db st p [])) = bot_db st p []"
  by (simp add: sync_lock_halts_eq bot_reading lock_over_limit_def Let_def)

lemma bot_no_stop: "db_positions db = [] \<Longrightarrow> close_at_stop env tb a i cs db = Inr db"
  by (simp add: close_at_stop_def open_position_def)

definition bot_signal :: "signal_action \<Rightarrow> signal_row" where
  "bot_signal action = \<lparr>sg_id = 10, sg_workspace = 1, sg_bot_run = 2, sg_candle = 2, sg_strategy_version = 1, sg_action = action\<rparr>"

definition signalled_db :: "bot_state \<Rightarrow> decimal \<Rightarrow> signal_action \<Rightarrow> trading_db" where
  "signalled_db st p action = (bot_db st p [])\<lparr>db_next_id := 11, db_signals := [bot_signal action]\<rparr>"

lemma bot_cycle:
  assumes "st \<in> {Running, Paused}"
  shows "\<exists>s. ls_exit_policy s = Exit_stop_loss \<and> evaluate_bot_on_latest_bar bot_env (bot_row st) (run_row st) (bot_db st p [])
    = act_on_bot_signal bot_env (bot_row st) 1 demo_instrument ''binance'' (hd (cat_profiles (bot_catalog p))) s
        (bot_signal (generate_donchian_breakout_signal 1 1 (bot_candles p)))
        (signalled_db st p (generate_donchian_breakout_signal 1 1 (bot_candles p)))"
proof -
  obtain s where s: "resolve_live_strategy (Some bot_definition) = Inr s" "ls_exit_policy s = Exit_stop_loss"
      "ls_generate s = generate_donchian_breakout_signal 1 1"
    using bot_strategy by blast
  have candles: "recent_final_candles (bot_db st p []) 1 ''1h'' history_window = bot_candles p"
    by (rule bot_recent) (simp_all add: history_window_def atr_history_candles_def)
  have latest: "bot_candles p \<noteq> []" "c_id (last (bot_candles p)) = 2" by (simp_all add: bot_candles_def)
  have ids: "i_id demo_instrument = 1" by (simp add: demo_instrument_def)
  have added: "add_signal (bot_row st) (run_row st) 2 action (bot_db st p []) = (bot_signal action, signalled_db st p action)" for action
    by (simp add: add_signal_def fresh_id_def bot_signal_def signalled_db_def Let_def)
  have "evaluate_new_bar bot_env (bot_row st) (run_row st) 1 demo_instrument ''binance'' (bot_candles p) (bot_db st p [])
    = act_on_bot_signal bot_env (bot_row st) 1 demo_instrument ''binance'' (hd (cat_profiles (bot_catalog p))) s
        (bot_signal (generate_donchian_breakout_signal 1 1 (bot_candles p)))
        (signalled_db st p (generate_donchian_breakout_signal 1 1 (bot_candles p)))"
    using s by (simp add: evaluate_new_bar_def bot_locks bot_no_stop added latest ids Let_def)
  then show ?thesis
    using assms s(2) bot_exchange [of "bot_db st p []" p] latest ids
    by (auto simp: evaluate_bot_on_latest_bar_def candles Let_def)
qed

theorem paused_bots_never_enter_witness:
  "\<exists>r db'. evaluate_bot_on_latest_bar bot_env (bot_row Paused) (run_row Paused) (bot_db Paused 1000 []) = Inr (r, db')
    \<and> db_intents db' = [] \<and> r = Paused_no_entry 10"
proof -
  obtain s where "evaluate_bot_on_latest_bar bot_env (bot_row Paused) (run_row Paused) (bot_db Paused 1000 [])
    = act_on_bot_signal bot_env (bot_row Paused) 1 demo_instrument ''binance'' (hd (cat_profiles (bot_catalog 1000))) s
        (bot_signal Buy) (signalled_db Paused 1000 Buy)"
    using bot_cycle [of Paused 1000] bot_generated by auto
  then have eval: "evaluate_bot_on_latest_bar bot_env (bot_row Paused) (run_row Paused) (bot_db Paused 1000 [])
      = Inr (Paused_no_entry 10, signalled_db Paused 1000 Buy)"
    by (simp add: act_on_bot_signal_def judge_and_enter_def bot_signal_def open_position_def signalled_db_def)
  then show ?thesis
    using paused_bots_never_enter [OF bot_column eval] bot_db_parts [of Paused] by simp
qed

subsection \<open>An entry\<close>

definition entry_state :: risk_state where
  "entry_state = \<lparr>rs_action = Buy_order, rs_now = 10800000000, rs_rules = conservative_v1_rules,
     rs_exchange = ''binance'', rs_instrument = demo_instrument, rs_market_price = 1000,
     rs_latest_close_time = 10800000000, rs_bar_seconds = 3600, rs_stop_distance = 3, rs_expected_slippage = 1,
     rs_fee_per_unit = 1, rs_equity = 10000, rs_available_cash = 10000, rs_existing_open_risk = 0,
     rs_has_open_position = False, rs_existing_quantity = 0, rs_day_start_equity = None,
     rs_week_start_equity = None, rs_peak_equity = None, rs_consecutive_losses = 0,
     rs_minutes_since_last_order = None\<rparr>"

lemma entry_quantities:
  "raw_quantity entry_state = 10" "exposure_limit_quantity entry_state = 30"
  "broker_limit_quantity entry_state = Some 1" "stress_adjusted_stop entry_state = 5"
  by (simp_all add: raw_quantity_def exposure_limit_quantity_def broker_limit_quantity_def
      stress_adjusted_stop_def entry_state_def conservative_v1_rules_def demo_instrument_def
      arithmetic_defs decimal_eval)

lemma entry_sized: "sized_quantity entry_state = 1"
  by (simp add: sized_quantity_def entry_quantities round_down_to_step_def)
     (simp add: entry_state_def demo_instrument_def arithmetic_defs decimal_eval)

lemma entry_values:
  "loss_pct entry_state 1 = 1 / 2000" "all_open_pct entry_state 1 = 1 / 2000"
  "delay_bars entry_state = 0" "prospective_notional entry_state 1 = 1000"
  by (simp_all add: loss_pct_def loss_at_stop_def all_open_pct_def delay_bars_def prospective_notional_def entry_quantities)
    (simp_all add: entry_state_def arithmetic_defs decimal_eval)

lemma entry_fields:
  "rs_action entry_state = Buy_order" "rs_rules entry_state = conservative_v1_rules"
  "rs_exchange entry_state = ''binance''" "i_min_quantity (rs_instrument entry_state) = None"
  "rs_day_start_equity entry_state = None" "rs_week_start_equity entry_state = None"
  "rs_peak_equity entry_state = None" "rs_equity entry_state = 10000"
  "rs_consecutive_losses entry_state = 0" "rs_minutes_since_last_order entry_state = None"
  "dmul 10000 (1 / 4) = 2500"
  by (simp_all add: entry_state_def demo_instrument_def arithmetic_defs decimal_eval)

lemma entry_checks: "\<not> ca_hard (run_checks entry_state 1)" "\<not> ca_initial (run_checks entry_state 1)"
  by (simp_all add: run_checks_def check_defs quantity_too_small_def entry_values entry_fields Let_def conservative_v1_rules_def)

lemma entry_allowed:
  "pr_outcome (evaluate_conservative_v1 entry_state) = Allow_with_adjustment"
  "pr_quantity (evaluate_conservative_v1 entry_state) = Some 1"
  by (simp_all add: evaluate_conservative_v1_def entry_sized entry_quantities entry_checks)

lemma entry_state_is:
  "db_risk_state bot_env Buy_order 1 demo_instrument (bot_row Running) conservative_v1_rules ''binance'' (demo_candle 2 1000) 3600 3 1
     (signalled_db Running 1000 Buy) = entry_state"
proof -
  let ?db = "signalled_db Running 1000 Buy"
  have "value_account ?db 1 demo_instrument = \<lparr>av_cash = 10000, av_unrealized = 0, av_equity = 10000\<rparr>"
    by (rule bot_valuation [of _ 1000 Running 1000 "[]"]) (simp_all add: signalled_db_def)
  moreover have "existing_open_risk ?db 1 1 = 0" "open_position ?db 1 1 = None"
    by (simp_all add: existing_open_risk_def open_position_def signalled_db_def)
  moreover have "equity_at ?db 1 t = None" "peak_equity_since ?db 1 u = None" "losing_streak ?db 1 u = 0"
      "minutes_since_last_order ?db 1 now = None" for t u now
    by (simp_all add: equity_at_def peak_equity_since_def losing_streak_def realized_results_def newest_first_def
        minutes_since_last_order_def bot_orders_def latest_by_def signalled_db_def) (simp add: bot_db_def demo_db_def)
  moreover have "dmul (spread_of ?db ''binance'' 1) 1 = 1"
    by (simp add: spread_of_def signalled_db_def arithmetic_defs decimal_eval)
  ultimately show ?thesis
    by (simp add: db_risk_state_def entry_state_def demo_instrument_def slippage_coefficient_def Let_def)
qed

lemma entry_rules:
  "rule_holds (evaluate_conservative_v1 entry_state) ''data_delay''" "rule_holds (evaluate_conservative_v1 entry_state) ''daily_loss''"
  "rule_holds (evaluate_conservative_v1 entry_state) ''weekly_loss''" "rule_holds (evaluate_conservative_v1 entry_state) ''peak_drawdown''"
  by (simp_all add: rule_holds_def rule_passed_def evaluate_conservative_v1_def entry_sized entry_quantities
     run_checks_def check_defs quantity_too_small_def entry_values entry_fields Let_def conservative_v1_rules_def)

lemma no_halts_sync: "db_halts db = [] \<Longrightarrow> sync_halt env scope reason True db = db"
  by (simp add: sync_halt_def deescalate_one_step_def find_active_halt_def)

lemma entry_stop_distance: "\<exists>e. find (\<lambda>e. re_name e = ''quantity_calculation'') (pr_rule_results (evaluate_conservative_v1 entry_state)) = Some e
   \<and> map_of (re_values e) ''stop_distance'' = Some 3"
  by (simp add: evaluate_conservative_v1_def entry_sized entry_quantities
     run_checks_def check_defs quantity_too_small_def entry_values entry_fields Let_def conservative_v1_rules_def)
    (simp add: entry_state_def)

definition entry_decision :: risk_decision where
  "entry_decision = \<lparr>rd_id = 11, rd_signal = 10, rd_profile_version = 1, rd_outcome = Allow_with_adjustment,
     rd_rule_results = pr_rule_results (evaluate_conservative_v1 entry_state), rd_adjusted_quantity = Some 1,
     rd_reason = pr_reason (evaluate_conservative_v1 entry_state)\<rparr>"

definition decided_db :: trading_db where
  "decided_db = (signalled_db Running 1000 Buy)\<lparr>db_next_id := 12, db_decisions := [entry_decision]\<rparr>"

lemma entry_evaluated:
  "evaluate_signal bot_env (bot_signal Buy) 1 demo_instrument (bot_row Running) (hd (cat_profiles (bot_catalog 1000))) ''binance''
     (signalled_db Running 1000 Buy) = Inr ((entry_decision, Some 1), decided_db)"
proof -
  let ?db = "signalled_db Running 1000 Buy"
  have candles: "recent_final_candles ?db 1 ''1h'' atr_history_candles = bot_candles 1000" "bot_candles 1000 \<noteq> []"
      "last (bot_candles 1000) = demo_candle 2 1000"
    by (rule bot_recent; simp add: signalled_db_def atr_history_candles_def) (simp_all add: bot_candles_def)
  have spread: "spread_of ?db ''binance'' 1 = 1"
    by (simp add: spread_of_def signalled_db_def arithmetic_defs decimal_eval)
  have stop: "stop_distance_of ''binance'' demo_instrument (bot_candles 1000) 1 conservative_v1_rules = Inr 3"
    by (simp add: stop_distance_of_def average_true_range_def bot_candles_def conservative_v1_rules_def arithmetic_defs decimal_eval Let_def)
  have fee: "fee_buffer_per_unit ''binance'' 1000 conservative_v1_rules = Inr 1"
    by (simp add: fee_buffer_per_unit_def conservative_v1_rules_def arithmetic_defs decimal_eval)
  have equity: "av_equity (value_account ?db 1 demo_instrument) = 10000"
    using bot_valuation [of ?db 1000 Running 1000 "[]"] by (simp add: signalled_db_def)
  have ids: "i_id demo_instrument = 1" by (simp add: demo_instrument_def)
  have added: "add_decision bot_env 10 1 Allow_with_adjustment (pr_rule_results (evaluate_conservative_v1 entry_state)) (Some 1)
      (pr_reason (evaluate_conservative_v1 entry_state)) ?db = Inr (entry_decision, decided_db)"
    by (simp add: add_decision_def fresh_id_def entry_decision_def decided_db_def signalled_db_def Let_def)
  have halts: "sync_trading_halts bot_env (bot_row Running) 1 (evaluate_conservative_v1 entry_state) decided_db = Inr decided_db"
    by (simp add: sync_trading_halts_evaluated entry_rules no_halts_sync decided_db_def signalled_db_def)
  have signal: "sg_action (bot_signal Buy) = Buy" "sg_id (bot_signal Buy) = 10" by (simp_all add: bot_signal_def)
  show ?thesis
    using added halts
    by (simp add: evaluate_signal_def signal candles spread stop fee equity ids entry_state_is entry_allowed timeframe_seconds.simps Let_def)
qed

definition entry_command :: place_order_command where
  "entry_command = (market_order 1 1 1 Buy_order 1 (''dummy-'' @ hex12 13))\<lparr>pc_intent := Some 12, pc_bot := Some 1\<rparr>"

lemma entry_command_sel [simp]:
  "pc_workspace entry_command = 1" "pc_account entry_command = 1" "pc_instrument entry_command = 1" "pc_side entry_command = Buy_order"
  "pc_type entry_command = Market" "pc_quantity entry_command = 1" "pc_intent entry_command = Some 12"
  "pc_limit_price entry_command = None" "pc_stop_price entry_command = None" "pc_time_in_force entry_command = ''gtc''"
  "pc_bot entry_command = Some 1" "pc_stop_fill_price entry_command = None"
  by (simp_all add: entry_command_def market_order_def)

lemma entry_placed:
  assumes db: "db_catalog db = bot_catalog 1000" "db_positions db = []" "db_orders db = []" "db_halts db = []"
    "db_entries db = db_entries (bot_db Running 1000 [])" "db_next_id db = 14" "db_fills db = []"
    and intent: "db_intents db = [n]" "oi_id n = 12" "oi_side n = Buy_order"
  shows "\<exists>x f db'. place_order bot_env entry_command db = Inr (x, db') \<and> db_fills db' = [f] \<and> f_order f = o_id x \<and> f_price f = 1001
     \<and> (\<exists>pos. db_positions db' = [pos] \<and> p_account pos = 1 \<and> p_instrument pos = 1 \<and> p_status pos = Open
          \<and> p_closed_at pos = None \<and> p_quantity pos = 1 \<and> p_entry pos = Some 1001)"
proof -
  have ids: "i_id demo_instrument = 1" "i_quote_asset demo_instrument = ''USDT''" by (simp_all add: demo_instrument_def)
  have checks: "place_order_checks entry_command db = Inr (hd (cat_accounts (bot_catalog 1000)), demo_instrument, ''binance'')"
    using db intent by (simp add: place_order_checks_def validate_order_type_price_def exchange_code_for_account_def open_position_def
        closes_or_reduces_def entry_blocked_by_halt_def has_active_halt_at_or_above_def bot_catalog_def ids raise_if_def Let_def)
  obtain db1 where submit: "submit_order bot_env entry_command db = Inr (new_order bot_env entry_command 14, db1)"
    and db1: "db_catalog db1 = bot_catalog 1000" "db_positions db1 = []" "db_entries db1 = db_entries db" "db_fills db1 = []"
    using db by (simp add: submit_order_def fresh_id_def record_status_def order_audit_def times_in_force_def Let_def)
  note candle = bot_latest [OF db1(1)]
  obtain f filled db2 where fill: "simulate_fill_row bot_env (new_order bot_env entry_command 14) demo_instrument ''binance'' None db1
      = Inr (f, filled, db2)"
    and f: "f_price f = 1001" "f_quantity f = 1" "f_fee f = 1" "f_order f = 14" "o_id filled = 14"
    and db2: "db_catalog db2 = bot_catalog 1000" "db_positions db2 = []" "db_fills db2 = [f]"
    using candle db1
    by (simp add: simulate_fill_row_def new_order_def paper_fee_buffer_def ids
        slippage_of_spread_def slippage_coefficient_def fresh_id_def add_fill_def
        set_status_def record_status_def flush_order_def arithmetic_defs decimal_eval Let_def)
  obtain pos db3 where pos: "apply_fill_row bot_env 1 1 f Buy_order ''binance'' db2 = Inr (pos, 0, db3)"
    and db3: "db_fills db3 = [f]" "db_positions db3 = [pos]"
    and row: "p_account pos = 1 \<and> p_instrument pos = 1 \<and> p_status pos = Open \<and> p_closed_at pos = None \<and> p_quantity pos = 1 \<and> p_entry pos = Some 1001"
    using db2 f by (simp add: apply_fill_row_def open_position_def add_position_def position_checks_def
        stored_position_def fresh_id_def Let_def)
  obtain db4 where ledger: "record_ledger bot_env 1 demo_instrument f Buy_order 0 db3 = Inr db4"
    and db4: "db_fills db4 = [f]" "db_positions db4 = [pos]"
    using db3 f by (simp add: record_ledger_def add_entry_def fresh_id_def arithmetic_defs decimal_eval Let_def)
  obtain sn where sn: "record_account_snapshot bot_env 1 demo_instrument db4 = db4\<lparr>db_snapshots := db_snapshots db4 @ [sn]\<rparr>"
    using snapshot_eq by blast
  have "place_order bot_env entry_command db = Inr (stored_order bot_env filled,
      order_audit 1 ''trade_order.filled'' 14 [(''fill_id'', D_id (f_id f)), (''price'', D_decimal (f_price f)),
               (''fee_amount'', D_decimal (f_fee f)), (''realized_pnl'', D_decimal 0)] (db4\<lparr>db_snapshots := db_snapshots db4 @ [sn]\<rparr>))"
    using checks submit fill pos ledger sn by (simp add: place_order_def ids Let_def)
  then show ?thesis using f db4 row by (simp add: order_audit_eq)
qed

lemma entry_made:
  "\<exists>did iid oid db'. evaluate_bot_on_latest_bar bot_env (bot_row Running) (run_row Running) (bot_db Running 1000 [])
     = Inr (Opened 10 did iid oid, db')"
proof -
  obtain s where s: "ls_exit_policy s = Exit_stop_loss" "evaluate_bot_on_latest_bar bot_env (bot_row Running) (run_row Running) (bot_db Running 1000 [])
    = act_on_bot_signal bot_env (bot_row Running) 1 demo_instrument ''binance'' (hd (cat_profiles (bot_catalog 1000))) s
        (bot_signal Buy) (signalled_db Running 1000 Buy)"
    using bot_cycle [of Running 1000] bot_generated by auto
  have ids: "i_id demo_instrument = 1" by (simp add: demo_instrument_def)
  have signal: "sg_action (bot_signal Buy) = Buy" "sg_id (bot_signal Buy) = 10" by (simp_all add: bot_signal_def)
  have act: "act_on_bot_signal bot_env (bot_row Running) 1 demo_instrument ''binance'' (hd (cat_profiles (bot_catalog 1000))) s
        (bot_signal Buy) (signalled_db Running 1000 Buy)
    = enter_on_signal bot_env (bot_row Running) 1 demo_instrument True s (bot_signal Buy) entry_decision 1 decided_db"
    by (simp add: act_on_bot_signal_def judge_and_enter_def signal entry_evaluated ids open_position_def
        entry_blocked_by_halt_def has_active_halt_at_or_above_def)
      (simp add: signalled_db_def decided_db_def entry_decision_def)
  have stop: "recorded_stop_distance entry_decision = Inr 3"
    using entry_stop_distance by (auto simp: recorded_stop_distance_def entry_decision_def)
  obtain intent db1 where intent: "create_order_intent bot_env \<lparr>ic_signal = 10, ic_decision = 11, ic_side = Buy_order, ic_type = Market,
       ic_quantity = 1, ic_limit_price = None, ic_stop_price = None, ic_take_profit = None, ic_max_slippage_bps = None,
       ic_expires_at = None\<rparr> decided_db = Inr (intent, db1)"
    and db1: "db1 = decided_db\<lparr>db_next_id := 13, db_intents := [intent]\<rparr>" "oi_id intent = 12" "oi_side intent = Buy_order"
    by (simp add: create_order_intent_def validate_order_type_price_def fresh_id_def decided_db_def signalled_db_def
        bot_signal_def entry_decision_def Let_def)
  let ?db2 = "db1\<lparr>db_next_id := 14\<rparr>"
  obtain x f db3 pos where placed: "place_order bot_env entry_command ?db2 = Inr (x, db3)"
    and db3: "db_fills db3 = [f]" "f_order f = o_id x" "f_price f = 1001" "db_positions db3 = [pos]" "p_account pos = 1"
      "p_instrument pos = 1" "p_status pos = Open" "p_closed_at pos = None" "p_quantity pos = 1" "p_entry pos = Some 1001"
    using entry_placed [of ?db2 intent] by (auto simp: db1 decided_db_def signalled_db_def) (auto simp: bot_db_def demo_db_def)
  have "\<exists>db4. set_entry_stop bot_env 1 1 x Buy_order 3 db3 = Inr db4"
    using db3 by (simp add: set_entry_stop_def open_position_def entry_stop_price_def position_checks_def arithmetic_defs decimal_eval Let_def)
  then show ?thesis
    unfolding s(2) act using stop intent placed s(1) db1
    by (auto simp: enter_on_signal_def signal ids fresh_id_def Let_def entry_decision_def entry_command_def decided_db_def)
qed

theorem evaluation_records_the_decision_witness:
  "db_decisions decided_db = [entry_decision] \<and> rd_signal entry_decision = 10 \<and> rd_profile_version entry_decision = 1
    \<and> 0 < av_equity (value_account (signalled_db Running 1000 Buy) 1 demo_instrument)"
  using evaluation_records_the_decision [OF entry_evaluated] by (simp add: signalled_db_def bot_signal_def)

theorem opened_needs_approval_witness:
  "\<exists>did iid oid db'. evaluate_bot_on_latest_bar bot_env (bot_row Running) (run_row Running) (bot_db Running 1000 [])
     = Inr (Opened 10 did iid oid, db') \<and> \<not> entry_blocked_by_halt db' 1 1 (Some 1)
     \<and> (\<exists>d. d \<in> set (db_decisions db') \<and> rd_id d = did \<and> rd_outcome d \<noteq> Deny)"
proof -
  obtain did iid oid db' where "evaluate_bot_on_latest_bar bot_env (bot_row Running) (run_row Running) (bot_db Running 1000 [])
     = Inr (Opened 10 did iid oid, db')" using entry_made by blast
  then show ?thesis using opened_needs_approval [of bot_env "bot_row Running" "run_row Running" "bot_db Running 1000 []"] by fastforce
qed

theorem cycle_keeps_the_system_witness:
  "\<exists>r db'. evaluate_bot_on_latest_bar bot_env (bot_row Running) (run_row Running) (bot_db Running 1000 []) = Inr (r, db')
     \<and> halts_ok db' \<and> books_ok pg_numeric18 db'"
proof -
  obtain did iid oid db' where "evaluate_bot_on_latest_bar bot_env (bot_row Running) (run_row Running) (bot_db Running 1000 [])
     = Inr (Opened 10 did iid oid, db')" using entry_made by blast
  then show ?thesis using cycle_keeps_the_system [OF bot_column] bot_db_parts [of Running] by fastforce
qed

theorem bar_evaluated_once_witness:
  "\<exists>r r' db'. evaluate_bot_on_latest_bar bot_env (bot_row Running) (run_row Running) (bot_db Running 1000 []) = Inr (r, db')
     \<and> evaluate_bot_on_latest_bar bot_env (bot_row Running) (run_row Running) db' = Inr (r', db')"
proof -
  obtain did iid oid db' where "evaluate_bot_on_latest_bar bot_env (bot_row Running) (run_row Running) (bot_db Running 1000 [])
     = Inr (Opened 10 did iid oid, db')" using entry_made by blast
  then show ?thesis using bar_evaluated_once [OF bot_column] by blast
qed

subsection \<open>A drawdown over its limit\<close>

definition peak_snapshot :: account_snapshot where
  "peak_snapshot = \<lparr>sn_account = 1, sn_captured_at = 0, sn_cash = 20000, sn_equity = 20000, sn_unrealized = 0,
     sn_source = ''internal''\<rparr>"

abbreviation "drawn_db \<equiv> bot_db Running 999 [peak_snapshot]"

lemma drawn_reading:
  "account_lock_reading (bot_row Running) 1 demo_instrument drawn_db = \<lparr>lr_consecutive_losses = 0, lr_peak_drawdown_pct = Some (1 / 2)\<rparr>"
proof -
  have "value_account drawn_db 1 demo_instrument = \<lparr>av_cash = 10000, av_unrealized = 0, av_equity = 10000\<rparr>"
    by (rule bot_valuation [of _ 999 Running 999 "[peak_snapshot]"]) simp_all
  moreover have "losing_streak drawn_db 1 u = 0" for u
    by (simp add: losing_streak_def realized_results_def newest_first_def) (simp add: bot_db_def demo_db_def)
  moreover have "last_release_time drawn_db scope reason = None" for scope reason
    by (simp add: last_release_time_def most_recently_released_halt_def latest_by_def)
  moreover have "peak_equity_since drawn_db 1 None = Some 20000"
    by (simp add: peak_equity_since_def peak_snapshot_def)
  ultimately show ?thesis
    by (simp add: account_lock_reading_def read_locks_def arithmetic_defs decimal_eval Let_def)
qed

lemma drawn_over: "lock_over_limit (account_lock_reading (bot_row Running) 1 demo_instrument drawn_db) conservative_v1_rules ''peak_drawdown_limit''"
  by (simp add: drawn_reading lock_over_limit_def conservative_v1_rules_def)

lemma drawn_locks: "locks_ok drawn_db" "''peak_drawdown_limit'' \<in> lock_reasons"
  by (simp_all add: locks_ok_def lock_reasons_def)

theorem exceeded_limit_blocks_entries_witness:
  "entry_blocked_by_halt (snd (sync_lock_halts bot_env (bot_row Running) 1 demo_instrument
     (hd (cat_profiles (bot_catalog 999))) drawn_db)) 1 1 None"
  using exceeded_limit_blocks_entries [of drawn_db "''peak_drawdown_limit''" "bot_row Running" 1 demo_instrument
      "hd (cat_profiles (bot_catalog 999))" bot_env] bot_db_parts(1) [of Running] drawn_over drawn_locks
  by (metis bot_catalog_sel(7) bot_row_sel(2) insertI1 prod.collapse)

theorem exceeded_limit_opens_nothing_witness:
  "\<exists>r db'. evaluate_bot_on_latest_bar bot_env (bot_row Running) (run_row Running) drawn_db = Inr (r, db') \<and> r \<noteq> Opened 1 2 3 4"
proof -
  let ?profile = "hd (cat_profiles (bot_catalog 999))"
  let ?db = "snd (sync_lock_halts bot_env (bot_row Running) 1 demo_instrument ?profile drawn_db)"
  obtain s where s: "resolve_live_strategy (Some bot_definition) = Inr s" "ls_exit_policy s = Exit_stop_loss"
      "ls_generate s = generate_donchian_breakout_signal 1 1"
    using bot_strategy by blast
  have candles: "recent_final_candles drawn_db 1 ''1h'' history_window = bot_candles 999"
    by (rule bot_recent) (simp_all add: history_window_def atr_history_candles_def)
  have latest: "bot_candles 999 \<noteq> []" "c_id (last (bot_candles 999)) = 2" by (simp_all add: bot_candles_def)
  have ids: "i_id demo_instrument = 1" by (simp add: demo_instrument_def)
  have frame: "db_positions ?db = []" "db_catalog ?db = bot_catalog 999"
    using halt_frame_sel [OF sync_lock_halts_frame [of drawn_db bot_env "bot_row Running" 1 demo_instrument ?profile]] by simp_all
  obtain signal db3 where added: "add_signal (bot_row Running) (run_row Running) 2 Hold ?db = (signal, db3)" "sg_action signal = Hold"
    by (simp add: add_signal_def fresh_id_def Let_def)
  have "evaluate_new_bar bot_env (bot_row Running) (run_row Running) 1 demo_instrument ''binance'' (bot_candles 999) drawn_db
      = Inr (Held (sg_id signal), db3)"
    using s by (simp add: evaluate_new_bar_def bot_no_stop frame added bot_generated latest ids act_on_bot_signal_def Let_def)
  then obtain r db' where eval: "evaluate_bot_on_latest_bar bot_env (bot_row Running) (run_row Running) drawn_db = Inr (r, db')"
    using bot_exchange [of drawn_db 999] latest ids
    by (auto simp: evaluate_bot_on_latest_bar_def candles Let_def)
  have "r \<noteq> Opened 1 2 3 4"
    by (rule exceeded_limit_opens_nothing [OF bot_column eval, of "''peak_drawdown_limit''" demo_instrument ?profile])
      (use bot_db_parts [of Running] drawn_over drawn_locks in simp_all)
  with eval show ?thesis by blast
qed

end
