(* ===== verification/Ledger_Reconciliation.thy ===== *)
theory Ledger_Reconciliation
  imports Emergency_Stop
begin

text \<open>
  Reconciling the orders, fills, ledger and positions of an account,
  \<open>app/trading/application/ledger_reconciliation.py\<close>, and the check that stops an account whose records
  disagree, \<open>ledger_check.py\<close>. The text of a finding is fixed by its code, so a finding is its code
  and its details.
\<close>

subsection \<open>Rows and findings\<close>

definition reconciliation_tolerance :: decimal where
  "reconciliation_tolerance = 1 / 10 ^ 9"

definition fill_entry_types :: "entry_type set" where
  "fill_entry_types = {Cash, Fee, Realized_pnl}"

definition max_findings :: nat where
  "max_findings = 50"

record finding =
  fd_code :: string
  fd_detail :: payload

record order_row =
  or_id :: uuid
  or_instrument :: uuid
  or_side :: order_side
  or_quantity :: decimal
  or_filled :: decimal
  or_status :: order_status

record filled_row =
  fr_id :: uuid
  fr_order :: uuid
  fr_price :: decimal
  fr_quantity :: decimal
  fr_fee :: decimal

record entry_row =
  er_fill :: "uuid option"
  er_type :: entry_type
  er_amount :: decimal

record position_row =
  ps_id :: uuid
  ps_instrument :: uuid
  ps_side :: position_side
  ps_quantity :: decimal
  ps_entry :: "decimal option"
  ps_realized :: decimal
  ps_status :: position_status

record account_rows =
  rw_orders :: "order_row list"
  rw_fills :: "filled_row list"
  rw_entries :: "entry_row list"
  rw_refs :: "uuid option list"
  rw_history :: "uuid \<Rightarrow> order_status set option"
  rw_positions :: "position_row list"

definition differs :: "decimal \<Rightarrow> decimal \<Rightarrow> bool" where
  "differs a b \<longleftrightarrow> reconciliation_tolerance < \<bar>dsub a b\<bar>"

subsection \<open>The checks\<close>

definition order_of :: "account_rows \<Rightarrow> uuid \<Rightarrow> order_row option" where
  \<comment> \<open>the dict by identifier: among equal keys the last row\<close>
  "order_of rows oid = find (\<lambda>x. or_id x = oid) (rev (rw_orders rows))"

definition fills_of :: "account_rows \<Rightarrow> uuid \<Rightarrow> filled_row list" where
  "fills_of rows oid = filter (\<lambda>f. fr_order f = oid) (rw_fills rows)"

definition entries_of :: "account_rows \<Rightarrow> uuid \<Rightarrow> entry_row list" where
  "entries_of rows fid = filter (\<lambda>e. er_fill e = Some fid) (rw_entries rows)"

definition amounts_of :: "entry_type \<Rightarrow> entry_row list \<Rightarrow> decimal list" where
  "amounts_of type es = map er_amount (filter (\<lambda>e. er_type e = type) es)"

definition finding_if :: "bool \<Rightarrow> string \<Rightarrow> payload \<Rightarrow> finding list" where
  "finding_if found code detail = (if found then [\<lparr>fd_code = code, fd_detail = detail\<rparr>] else [])"

definition fill_findings :: "account_rows \<Rightarrow> filled_row \<Rightarrow> (string, finding list) result" where
  "fill_findings rows f =
     (case order_of rows (fr_order f) of
        None \<Rightarrow> Inl ''KeyError''
      | Some order \<Rightarrow>
          if Some (fr_id f) \<notin> set (rw_refs rows)
          then Inr (finding_if True ''fill_without_ledger'' [(''fill_id'', D_id (fr_id f)), (''order_id'', D_id (or_id order))])
          else let es = entries_of rows (fr_id f);
                   notional = dmul (fr_price f) (fr_quantity f);
                   expected_cash = (if or_side order = Buy_order then dneg notional else notional);
                   cash = dsum (amounts_of Cash es);
                   fee = dsum (amounts_of Fee es)
               in Inr (finding_if (differs cash expected_cash) ''ledger_cash_mismatch''
                         [(''fill_id'', D_id (fr_id f)), (''expected'', D_decimal expected_cash), (''ledger'', D_decimal cash)]
                     @ finding_if (differs fee (dneg (fr_fee f))) ''ledger_fee_mismatch''
                         [(''fill_id'', D_id (fr_id f)), (''expected'', D_decimal (dneg (fr_fee f))), (''ledger'', D_decimal fee)]))"

definition ledger_findings :: "account_rows \<Rightarrow> finding list" where
  \<comment> \<open>the missing references come out of a set; here in the order of the rows\<close>
  "ledger_findings rows =
     (let orphans = filter (\<lambda>e. er_fill e = None) (rw_entries rows);
          missing = filter (\<lambda>r. r \<notin> set (map fr_id (rw_fills rows))) (remdups (map the (filter (\<lambda>r. r \<noteq> None) (rw_refs rows))))
      in finding_if (orphans \<noteq> []) ''ledger_entry_without_fill'' [(''count'', D_int (int (length orphans)))]
       @ finding_if (missing \<noteq> []) ''ledger_transaction_without_fill''
           [(''count'', D_int (int (length missing))), (''reference_id'', D_id (hd missing))])"

definition order_findings :: "account_rows \<Rightarrow> order_row \<Rightarrow> finding list" where
  "order_findings rows order =
     (let filled = dsum (map fr_quantity (fills_of rows (or_id order)))
      in (if differs (or_filled order) filled
          then finding_if True ''order_filled_quantity_mismatch''
                 [(''order_id'', D_id (or_id order)), (''order'', D_decimal (or_filled order)), (''fills'', D_decimal filled)]
          else finding_if (or_status order = Filled \<and> differs (or_filled order) (or_quantity order)) ''order_filled_incompletely''
                 [(''order_id'', D_id (or_id order)), (''quantity'', D_decimal (or_quantity order)),
                  (''filled'', D_decimal (or_filled order))])
       @ finding_if (case rw_history rows (or_id order) of None \<Rightarrow> False | Some recorded \<Rightarrow> or_status order \<notin> recorded)
           ''order_status_not_in_history'' [(''order_id'', D_id (or_id order)), (''status'', D_text (status_text (or_status order)))])"

definition movements :: "account_rows \<Rightarrow> uuid \<Rightarrow> (order_side \<times> filled_row) list" where
  \<comment> \<open>the fills of the instrument's orders, each with the side of its order\<close>
  "movements rows instrument =
     concat (map (\<lambda>x. map (\<lambda>f. (or_side x, f)) (fills_of rows (or_id x)))
       (filter (\<lambda>x. or_instrument x = instrument) (rw_orders rows)))"

definition net_quantity :: "(order_side \<times> filled_row) list \<Rightarrow> decimal" where
  "net_quantity ms = foldl (\<lambda>net (side, f). dadd net (if side = Buy_order then fr_quantity f else dneg (fr_quantity f))) 0 ms"

definition net_cash :: "(order_side \<times> filled_row) list \<Rightarrow> decimal" where
  "net_cash ms = foldl (\<lambda>cash (side, f). dadd cash
     (let notional = dmul (fr_price f) (fr_quantity f) in if side = Buy_order then dneg notional else notional)) 0 ms"

definition realized_in_ledger :: "account_rows \<Rightarrow> (order_side \<times> filled_row) list \<Rightarrow> decimal" where
  "realized_in_ledger rows ms = foldl dadd 0 (concat (map (\<lambda>(_, f). amounts_of Realized_pnl (entries_of rows (fr_id f))) ms))"

definition instrument_findings :: "account_rows \<Rightarrow> uuid \<Rightarrow> finding list" where
  "instrument_findings rows instrument =
     (let label = (''instrument_id'', D_id instrument);
          here = filter (\<lambda>p. ps_instrument p = instrument) (rw_positions rows);
          opened = filter (\<lambda>p. ps_status p = Open) here
      in if 1 < length opened
         then finding_if True ''multiple_open_positions'' [label, (''count'', D_int (int (length opened)))]
         else
           let position = (case opened of [] \<Rightarrow> None | p # _ \<Rightarrow> Some p);
               ms = movements rows instrument;
               net = net_quantity ms;
               cash = net_cash ms;
               realized_ledger = realized_in_ledger rows ms;
               signed_quantity = (case position of None \<Rightarrow> 0 | Some p \<Rightarrow> dmul (direction (ps_side p)) (ps_quantity p));
               signed_cost = (case position of None \<Rightarrow> 0 | Some p \<Rightarrow> (case ps_entry p of None \<Rightarrow> 0
                  | Some e \<Rightarrow> dmul (dmul (direction (ps_side p)) e) (ps_quantity p)));
               realized_positions = dsum (map ps_realized here)
           in concat (map (\<lambda>p. finding_if (ps_status p \<noteq> Open \<and> ps_quantity p \<noteq> 0) ''closed_position_with_quantity''
                   [label, (''position_id'', D_id (ps_id p)), (''quantity'', D_decimal (ps_quantity p))]) here)
            @ (case position of None \<Rightarrow> [] | Some p \<Rightarrow>
                 finding_if (ps_quantity p \<le> 0) ''open_position_without_quantity'' [label, (''position_id'', D_id (ps_id p))]
               @ finding_if (ps_entry p = None) ''open_position_without_entry_price'' [label, (''position_id'', D_id (ps_id p))])
            @ finding_if (differs signed_quantity net) ''position_quantity_mismatch''
                [label, (''position'', D_decimal signed_quantity), (''fills'', D_decimal net)]
            @ finding_if (differs realized_positions realized_ledger) ''realized_pnl_mismatch''
                [label, (''positions'', D_decimal realized_positions), (''ledger'', D_decimal realized_ledger)]
            @ finding_if (\<not> differs signed_quantity net \<and> differs (dadd cash signed_cost) realized_ledger)
                ''position_cost_basis_mismatch''
                [label, (''cash_plus_cost_basis'', D_decimal (dadd cash signed_cost)), (''realized_pnl'', D_decimal realized_ledger)])"

definition instruments_of :: "account_rows \<Rightarrow> uuid list" where
  "instruments_of rows = sort (remdups (map or_instrument (rw_orders rows) @ map ps_instrument (rw_positions rows)))"

definition reconcile :: "account_rows \<Rightarrow> (string, finding list) result" where
  "reconcile rows =
     res_bind (run_steps (\<lambda>found f. res_bind (fill_findings rows f) (\<lambda>more. Inr (found @ more))) [] (rw_fills rows))
       (\<lambda>found. Inr (take max_findings (found @ ledger_findings rows
          @ concat (map (order_findings rows) (rw_orders rows))
          @ concat (map (instrument_findings rows) (instruments_of rows)))))"

subsection \<open>Loading an account\<close>

definition account_orders :: "trading_db \<Rightarrow> uuid \<Rightarrow> trade_order list" where
  "account_orders db account = filter (\<lambda>x. o_account x = account) (db_orders db)"

definition load_account_rows :: "trading_db \<Rightarrow> uuid \<Rightarrow> account_rows" where
  "load_account_rows db account =
     (let ids = o_id ` set (account_orders db account)
      in \<lparr>rw_orders = map (\<lambda>x. \<lparr>or_id = o_id x, or_instrument = o_instrument x, or_side = o_side x,
             or_quantity = o_quantity x, or_filled = o_filled x, or_status = o_status x\<rparr>) (account_orders db account),
          rw_fills = map (\<lambda>f. \<lparr>fr_id = f_id f, fr_order = f_order f, fr_price = f_price f,
             fr_quantity = f_quantity f, fr_fee = f_fee f\<rparr>) (filter (\<lambda>f. f_order f \<in> ids) (db_fills db)),
          rw_entries = map (\<lambda>e. \<lparr>er_fill = le_fill e, er_type = le_type e, er_amount = le_amount e\<rparr>)
             (filter (\<lambda>e. le_account e = account \<and> le_type e \<in> fill_entry_types) (db_entries db)),
          rw_refs = map lt_reference
             (filter (\<lambda>t. lt_account t = account \<and> lt_reference_type t = ''fill'') (db_transactions db)),
          rw_history = (\<lambda>oid. if oid \<in> ids \<and> (\<exists>h \<in> set (db_history db). sh_order h = oid)
             then Some (sh_to ` set (filter (\<lambda>h. sh_order h = oid) (db_history db))) else None),
          rw_positions = map (\<lambda>p. \<lparr>ps_id = p_id p, ps_instrument = p_instrument p, ps_side = p_side p,
             ps_quantity = p_quantity p, ps_entry = p_entry p, ps_realized = p_realized p, ps_status = p_status p\<rparr>)
             (filter (\<lambda>p. p_account p = account) (db_positions db))\<rparr>)"

definition reconcile_account :: "trading_db \<Rightarrow> uuid \<Rightarrow> (string, finding list) result" where
  "reconcile_account db account = reconcile (load_account_rows db account)"

subsection \<open>Stopping an account whose records disagree\<close>

definition mismatch_reason :: string where
  "mismatch_reason = ''ledger_mismatch''"

definition payload_findings :: nat where
  "payload_findings = 10"

definition findings_summary :: "finding list \<Rightarrow> nat \<Rightarrow> string list" where
  \<comment> \<open>the first findings, and a note when there are more\<close>
  "findings_summary findings limit =
     map fd_code (take limit findings) @ (if limit < length findings then [''more''] else [])"

definition accounts_to_check :: "trading_db \<Rightarrow> (uuid \<times> uuid) list" where
  \<comment> \<open>accounts with an order and no active halt of this reason, in the order they were created\<close>
  "accounts_to_check db =
     map (\<lambda>a. (ac_workspace a, ac_id a))
       (filter (\<lambda>a. ac_id a \<in> o_account ` set (db_orders db)
            \<and> \<not> (\<exists>h \<in> set (db_halts db). h_reason h = mismatch_reason \<and> h_scope_type h = ''account''
                  \<and> h_status h = Halt_active \<and> h_scope_id h = Some (ac_id a)))
          (cat_accounts (db_catalog db)))"

definition halt_account :: "tx_env \<Rightarrow> uuid \<Rightarrow> uuid \<Rightarrow> finding list \<Rightarrow> trading_db \<Rightarrow> trading_db" where
  "halt_account env workspace account findings db =
     snd (activate_or_escalate env (account_scope workspace account) mismatch_reason Emergency_stopped False
       (Some \<lparr>he_type = ''trading_halt.'' @ mismatch_reason, he_message = ''ledger_mismatch'' # findings_summary findings 3,
          he_payload = [(''account_id'', D_id account), (''finding_count'', D_int (int (length findings))),
            (''findings'', D_list (map (\<lambda>f. D_list (D_text (fd_code f) # map snd (fd_detail f))) (take payload_findings findings)))],
          he_source_type = ''reconciliation'', he_source_id = None, he_correlation = None\<rparr>) db)"

definition check_account :: "(uuid \<Rightarrow> tx_env) \<Rightarrow> nat \<times> trading_db \<Rightarrow> uuid \<times> uuid \<Rightarrow> nat \<times> trading_db" where
  \<comment> \<open>an error leaves the account as it was and the loop goes on\<close>
  "check_account env = (\<lambda>(halted, db) (workspace, account).
     case reconcile_account db account of
       Inl _ \<Rightarrow> (halted, db)
     | Inr [] \<Rightarrow> (halted, db)
     | Inr findings \<Rightarrow> (halted + 1, halt_account (env account) workspace account findings db))"

definition check_ledger_reconciliation :: "(uuid \<Rightarrow> tx_env) \<Rightarrow> trading_db \<Rightarrow> nat \<times> trading_db" where
  "check_ledger_reconciliation env db = foldl (check_account env) (0, db) (accounts_to_check db)"


subsection \<open>Lemmas: recorded amounts agree\<close>

lemma exact_grid:
  assumes "\<bar>n\<bar> \<le> (10 ^ 28 :: int)"
  shows "dexact (of_int n / 10 ^ k)"
proof -
  have "(of_int n :: rat) / 10 ^ k = of_int n * of_nat 10 powi (- int k)"
    by (simp add: power_int_minus field_simps)
  then show ?thesis using assms unfolding dexact_def representable_def by (intro exI [of _ n] exI [of _ "- int k"]) simp
qed

lemma dround_close:
  assumes "\<bar>y\<bar> * 10 ^ k \<le> 10 ^ 28 - 1" shows "\<bar>dround y - y\<bar> \<le> 1 / 10 ^ k"
proof -
  define n where "n = \<lfloor>y * 10 ^ k\<rfloor>"
  have n: "of_int n \<le> y * 10 ^ k" "y * 10 ^ k < of_int n + 1" unfolding n_def by linarith+
  have "\<bar>y * 10 ^ k\<bar> \<le> 10 ^ 28 - 1" using assms(1) by (simp add: abs_mult)
  then have "of_int n \<le> (10 ^ 28 - 1 :: rat)" "- (10 ^ 28) \<le> (of_int n :: rat)" using n by linarith+
  then have "(of_int (n + 1) :: rat) \<le> of_int (10 ^ 28)" "(of_int (- (10 ^ 28)) :: rat) \<le> of_int n" by simp_all
  then have bounds: "n + 1 \<le> 10 ^ 28" "- (10 ^ 28) \<le> n" by (simp_all only: of_int_le_iff)
  then have exact: "dexact (of_int n / 10 ^ k)" "dexact (of_int (n + 1) / 10 ^ k)"
    by (intro exact_grid; linarith)+
  have le: "of_int n / 10 ^ k \<le> y" "y \<le> of_int (n + 1) / 10 ^ k" using n by (simp_all add: field_simps)
  have "of_int n / 10 ^ k \<le> dround y" "dround y \<le> of_int (n + 1) / 10 ^ k"
    using dec.exact_le_round [OF le(1) exact(1)] dec.round_le_exact [OF le(2) exact(2)] .
  moreover have "of_int (n + 1) / 10 ^ k = of_int n / 10 ^ k + 1 / (10 ^ k :: rat)" by (simp add: field_simps)
  ultimately show ?thesis using le by linarith
qed

lemma tolerance_exact: "dexact reconciliation_tolerance"
  using exact_grid [of 1 9] by (simp add: reconciliation_tolerance_def)

lemma close_agrees:
  assumes "\<bar>a - b\<bar> \<le> reconciliation_tolerance" shows "\<not> differs a b"
proof -
  have "dsub a b \<le> reconciliation_tolerance" "- reconciliation_tolerance \<le> dsub a b"
    unfolding dsub_def using assms tolerance_exact dec.exact_neg [OF tolerance_exact]
    by (auto intro!: dec.round_le_exact dec.exact_le_round)
  then show ?thesis by (simp add: differs_def abs_le_iff not_less)
qed

lemma differs_self [simp]: "\<not> differs a a"
  by (rule close_agrees) (simp add: reconciliation_tolerance_def)

lemma differs_commute: "differs a b \<longleftrightarrow> differs b a"
proof -
  have "dsub a b = - dsub b a" unfolding dsub_def by (metis dec.round_neg minus_diff_eq)
  then show ?thesis by (simp add: differs_def)
qed

lemma dsum_single: "dsum [a] = dround a"
  by (simp add: dsum_def dadd_def)

context numeric_column
begin

lemma column_add_exact:
  assumes "column x = x" "column y = y" shows "column (x + y) = x + y"
proof -
  have "column (- y) = - y" using assms(2) column_minus by simp
  then show ?thesis using column_diff_exact [OF assms(1), of "- y"] by simp
qed

lemma column_dexact:
  assumes "column x = x" "\<bar>x\<bar> \<le> 10 ^ 10" shows "dexact x"
proof -
  obtain k :: int where k: "x = of_int k / 10 ^ 18" using column_grid [of x] assms(1) by metis
  then have "(of_int \<bar>k\<bar> :: rat) \<le> of_int (10 ^ 28)" using assms(2) by (simp add: field_simps)
  then have "\<bar>k\<bar> \<le> 10 ^ 28" by (simp only: of_int_le_iff)
  then show ?thesis unfolding k by (rule exact_grid)
qed

lemma recorded_agrees:
  assumes "\<bar>x\<bar> \<le> 10 ^ 17" shows "\<not> differs (dsum [column x]) x"
proof -
  have close: "\<bar>column x - x\<bar> \<le> 1 / 10 ^ 18" by (rule column_close)
  then have "\<bar>column x - x\<bar> \<le> 1" by (rule order_trans) simp
  then have "\<bar>column x\<bar> \<le> 10 ^ 17 + 1" using assms by linarith
  then have "\<bar>column x\<bar> * 10 ^ 10 \<le> 10 ^ 28 - 1" by simp
  from dround_close [OF this] have "\<bar>dround (column x) - column x\<bar> \<le> 1 / 10 ^ 10" by simp
  then have "\<bar>dround (column x) - x\<bar> \<le> reconciliation_tolerance"
    using close abs_triangle_ineq [of "dround (column x) - column x" "column x - x"]
    by (simp add: reconciliation_tolerance_def)
  then show ?thesis unfolding dsum_single by (rule close_agrees)
qed

lemma stored_agrees:
  assumes "column x = x" "\<bar>x\<bar> \<le> 10 ^ 17" shows "\<not> differs x (dsum [x])"
  using recorded_agrees [OF assms(2)] assms(1) by (simp add: differs_commute)

end

subsection \<open>Lemmas: what an order books\<close>

definition entry_amounts :: "trading_db \<Rightarrow> uuid \<Rightarrow> entry_type \<Rightarrow> decimal list" where
  "entry_amounts db fid type = map le_amount (filter (\<lambda>e. le_fill e = Some fid \<and> le_type e = type) (db_entries db))"

definition order_fills :: "trading_db \<Rightarrow> uuid \<Rightarrow> fill_row list" where
  "order_fills db oid = filter (\<lambda>f. f_order f = oid) (db_fills db)"

definition fill_recorded :: "(decimal \<Rightarrow> decimal) \<Rightarrow> trading_db \<Rightarrow> trade_order \<Rightarrow> fill_row \<Rightarrow> bool" where
  "fill_recorded column db x f \<longleftrightarrow>
     (\<exists>t \<in> set (db_transactions db). lt_account t = o_account x \<and> lt_reference_type t = ''fill'' \<and> lt_reference t = Some (f_id f))
   \<and> (\<forall>e \<in> set (db_entries db). le_fill e = Some (f_id f) \<longrightarrow> le_account e = o_account x)
   \<and> entry_amounts db (f_id f) Cash = [column (if o_side x = Buy_order then dneg (dmul (f_price f) (f_quantity f))
        else dmul (f_price f) (f_quantity f))]
   \<and> entry_amounts db (f_id f) Fee = (if 0 < f_fee f then [column (dneg (f_fee f))] else [])"

definition order_booked :: "(decimal \<Rightarrow> decimal) \<Rightarrow> trading_db \<Rightarrow> trade_order \<Rightarrow> bool" where
  \<comment> \<open>an order is filled by one fill that the ledger records, or not at all\<close>
  "order_booked column db x \<longleftrightarrow>
     o_status x \<noteq> Filled \<and> o_filled x = 0 \<and> order_fills db (o_id x) = []
   \<or> o_status x = Filled \<and> (\<exists>f. order_fills db (o_id x) = [f] \<and> fill_row_ok column f
        \<and> f_quantity f = o_quantity x \<and> o_filled x = o_quantity x \<and> fill_recorded column db x f)"

definition fill_of_account :: "trading_db \<Rightarrow> uuid \<Rightarrow> uuid \<Rightarrow> bool" where
  "fill_of_account db account fid \<longleftrightarrow>
     (\<exists>f \<in> set (db_fills db). f_id f = fid \<and> (\<exists>x \<in> set (db_orders db). o_id x = f_order f \<and> o_account x = account))"

definition ledger_ok :: "(decimal \<Rightarrow> decimal) \<Rightarrow> trading_db \<Rightarrow> bool" where
  "ledger_ok column db \<longleftrightarrow> (\<forall>x \<in> set (db_orders db). order_booked column db x)
     \<and> (\<forall>f \<in> set (db_fills db). f_id f < db_next_id db \<and> f_order f \<in> o_id ` set (db_orders db))
     \<and> (\<forall>e \<in> set (db_entries db). (le_type e \<in> fill_entry_types \<longrightarrow> le_fill e \<noteq> None)
          \<and> (\<forall>i. le_fill e = Some i \<longrightarrow> i < db_next_id db))
     \<and> (\<forall>t \<in> set (db_transactions db). \<forall>i. lt_reference_type t = ''fill'' \<longrightarrow> lt_reference t = Some i \<longrightarrow>
          fill_of_account db (lt_account t) i)"

lemma fill_recorded_frame:
  "fill_recorded column db x f \<Longrightarrow> db_transactions db' = db_transactions db @ ts \<Longrightarrow> db_entries db' = db_entries db @ es \<Longrightarrow>
    \<forall>e \<in> set es. le_fill e \<noteq> Some (f_id f) \<Longrightarrow> fill_recorded column db' x f"
  by (auto simp: fill_recorded_def entry_amounts_def filter_empty_conv)

lemma fill_recorded_order:
  "o_account y = o_account x \<Longrightarrow> o_side y = o_side x \<Longrightarrow> fill_recorded column db y f = fill_recorded column db x f"
  by (simp add: fill_recorded_def)

lemma order_booked_frame:
  assumes "order_booked column db x" "order_fills db' (o_id x) = order_fills db (o_id x)"
    and "db_transactions db' = db_transactions db @ ts" "db_entries db' = db_entries db @ es"
    and "\<forall>f \<in> set (db_fills db). \<forall>e \<in> set es. le_fill e \<noteq> Some (f_id f)"
  shows "order_booked column db' x"
proof -
  have "fill_recorded column db' x f" if "fill_recorded column db x f" "order_fills db (o_id x) = [f]" for f
  proof -
    have "f \<in> set (order_fills db (o_id x))" using that(2) by simp
    then have "f \<in> set (db_fills db)" by (simp add: order_fills_def)
    then show ?thesis using fill_recorded_frame [OF that(1) assms(3,4)] assms(5) by blast
  qed
  then show ?thesis using assms(1,2) unfolding order_booked_def by metis
qed

lemma ledger_ok_frame:
  assumes "ledger_ok column db" "db_orders db' = db_orders db" "db_fills db' = db_fills db" "db_next_id db \<le> db_next_id db'"
    and "db_transactions db' = db_transactions db @ ts" "db_entries db' = db_entries db @ es"
    and "\<forall>t \<in> set ts. lt_reference_type t \<noteq> ''fill''" "\<forall>e \<in> set es. le_fill e = None \<and> le_type e \<notin> fill_entry_types"
  shows "ledger_ok column db'"
proof -
  have "order_booked column db' x" if "x \<in> set (db_orders db)" for x
    using order_booked_frame [OF _ _ assms(5,6), of column x] assms(1,3,8) that
    by (simp add: ledger_ok_def order_fills_def)
  moreover have "fill_of_account db' = fill_of_account db" using assms(2,3) by (simp add: fill_of_account_def fun_eq_iff)
  ultimately show ?thesis
    using assms(1,4,7,8) unfolding ledger_ok_def assms(2,3,5,6) by (fastforce dest: less_le_trans)
qed

lemma seed_paper_deposit_rows:
  assumes "seed_paper_deposit env a amount asset db = Inr (tx, db')"
  shows "\<exists>e. db' = db\<lparr>db_next_id := Suc (db_next_id db), db_transactions := db_transactions db @ [tx],
     db_entries := db_entries db @ [e]\<rparr> \<and> lt_reference_type tx = ''deposit'' \<and> le_fill e = None \<and> le_type e = Deposit"
  using assms
  by (auto simp: seed_paper_deposit_def Let_def split_def result_simps dest!: add_entry_Inr split: if_splits
      intro!: exI trading_db.equality)

lemma cancel_order_ledger:
  assumes "numeric_column (env_column env)" "ledger_ok (env_column env) db" "orders_ok db" "x \<in> set (db_orders db)"
    and "cancel_order env x reason db = Inr (o', db')"
  shows "ledger_ok (env_column env) db'"
proof -
  note col = numeric_column.column_zero [OF assms(1)]
  obtain a h where st: "cancellable (o_status x)" and o': "o' = stored_order env (x\<lparr>o_status := Cancelled\<rparr>)"
    and db': "db' = db\<lparr>db_next_id := Suc (db_next_id db), db_audit := db_audit db @ [a],
         db_orders := update_row o_id o' (db_orders db), db_history := db_history db @ [h]\<rparr>"
    using cancel_order_Inr [OF assms(5)] by blast
  have "order_booked (env_column env) db x" using assms(2,4) by (simp add: ledger_ok_def)
  then have "o_filled x = 0" "order_fills db (o_id x) = []" using st by (auto simp: order_booked_def cancellable_def)
  then have "order_booked (env_column env) db' o'" using col by (simp add: order_booked_def order_fills_def o' db')
  moreover have "order_booked (env_column env) db' y" if "y \<in> set (db_orders db)" for y
    using assms(2) that order_booked_frame [of "env_column env" db y db' "[]" "[]"] by (simp add: ledger_ok_def order_fills_def db')
  moreover have "(\<exists>y \<in> set (db_orders db'). o_id y = i \<and> o_account y = acc) \<longleftrightarrow> (\<exists>y \<in> set (db_orders db). o_id y = i \<and> o_account y = acc)" for i acc
  proof -
    have "y = x" if "y \<in> set (db_orders db)" "o_id y = o_id x" for y
      using assms(3,4) that by (auto simp: orders_ok_def distinct_map inj_on_def)
    moreover have "y \<in> set (db_orders db') \<longleftrightarrow> y \<in> set (db_orders db) \<and> o_id y \<noteq> o_id x \<or> y = o'" for y
      using assms(4) by (auto simp: db' set_update_row o')
    moreover have "o_id o' = o_id x" "o_account o' = o_account x" by (simp_all add: o')
    ultimately show ?thesis using assms(4) by metis
  qed
  then have "fill_of_account db' = fill_of_account db" by (simp add: fill_of_account_def fun_eq_iff) (simp add: db')
  moreover have "o_id ` set (db_orders db') = o_id ` set (db_orders db)"
    using map_key_update_row [of o_id o' "db_orders db"] by (simp add: db' flip: set_map)
  ultimately show ?thesis using assms(2) unfolding ledger_ok_def
    by (auto simp: db' set_update_row)
qed

lemma place_order_ledger:
  assumes "numeric_column (env_column env)" "ledger_ok (env_column env) db" "orders_ok db"
    and "place_order env cmd db = Inr (o', db')"
  shows "ledger_ok (env_column env) db'"
  using assms(4)
proof (cases rule: place_order_effect)
  case (1 account instrument ex f db2 pos pnl db3 es tx)
  let ?n = "db_next_id db" and ?new = "stored_order env (new_order env cmd (db_next_id db))"
  have o': "o_id o' = ?n" "o_account o' = pc_account cmd" "o_side o' = pc_side cmd" "o_status o' = Filled"
      "o_quantity o' = f_quantity f" "o_filled o' = f_quantity f"
    using 1(2,5) by simp_all
  have old: "\<And>g. g \<in> set (db_fills db) \<Longrightarrow> f_id g < ?n \<and> f_order g \<in> o_id ` set (db_orders db)"
      "\<And>e i. e \<in> set (db_entries db) \<Longrightarrow> le_fill e = Some i \<Longrightarrow> i < ?n"
    using assms(2) by (simp_all add: ledger_ok_def)
  have "?n \<notin> o_id ` set (db_orders db)" using assms(3) by (auto simp: orders_ok_def)
  moreover from this have "order_fills db ?n = []" unfolding order_fills_def filter_empty_conv using old(1) by metis
  ultimately have fresh: "?n \<notin> o_id ` set (db_orders db)" "order_fills db ?n = []" .
  obtain as ps sn n where db': "db' = db\<lparr>db_next_id := n, db_audit := db_audit db @ as,
       db_orders := update_row o_id o' (db_orders db @ [?new]), db_history := db_history db @ filled_history env ?n,
       db_fills := db_fills db @ [f], db_positions := ps, db_transactions := db_transactions db @ [tx],
       db_entries := db_entries db @ es, db_snapshots := db_snapshots db @ [sn]\<rparr>" using 1(16) by blast
  have rows: "db_orders db' = db_orders db @ [o']" "db_fills db' = db_fills db @ [f]"
      "db_transactions db' = db_transactions db @ [tx]" "db_entries db' = db_entries db @ es"
    using fresh(1) o'(1) by (simp_all add: db' update_row_snoc)
  have n: "?n + 2 < db_next_id db'" using 1(12,14) apply_fill_row_frame [OF 1(10)] by linarith
  obtain tx' es' where eq: "db3\<lparr>db_next_id := Suc (db_next_id db3), db_transactions := db_transactions db @ [tx], db_entries := db_entries db @ es\<rparr>
       = db3\<lparr>db_next_id := Suc (db_next_id db3), db_transactions := db_transactions db3 @ [tx'], db_entries := db_entries db3 @ es'\<rparr>"
    and booked: "lt_account tx' = pc_account cmd" "lt_reference_type tx' = ''fill''" "lt_reference tx' = Some (f_id f)"
      "\<forall>e \<in> set es'. le_account e = pc_account cmd \<and> le_fill e = Some (f_id f) \<and> le_amount e \<noteq> 0 \<and> le_type e \<in> fill_entry_types"
      "map le_amount (filter (\<lambda>e. le_type e = Cash) es')
        = [env_column env (if pc_side cmd = Buy_order then dneg (dmul (f_price f) (f_quantity f)) else dmul (f_price f) (f_quantity f))]"
      "map le_amount (filter (\<lambda>e. le_type e = Fee) es') = (if 0 < f_fee f then [env_column env (dneg (f_fee f))] else [])"
    using record_ledger_Inr [OF 1(15)]
    by (elim exE conjE) (rule that, assumption+, unfold fill_entry_types_def, assumption+)
  have tx: "tx' = tx" using arg_cong [OF eq, of db_transactions] by simp
  have es: "es' = es" using arg_cong [OF eq, of db_entries] 1(17) by simp
  note ledger = booked [unfolded tx es 1(4)]
  have "entry_amounts db' (?n + 2) ty = map le_amount (filter (\<lambda>e. le_type e = ty) es)" for ty
  proof -
    have "filter (\<lambda>e. le_fill e = Some (?n + 2) \<and> le_type e = ty) es = filter (\<lambda>e. le_type e = ty) es"
      by (rule filter_cong) (use ledger(4) es in auto)
    moreover have "filter (\<lambda>e. le_fill e = Some (?n + 2) \<and> le_type e = ty) (db_entries db) = []"
      using old(2) by (fastforce simp: filter_empty_conv)
    ultimately show ?thesis by (simp add: entry_amounts_def rows)
  qed
  then have "fill_recorded (env_column env) db' o' f"
    using ledger old(2) 1(4) o' by (fastforce simp: fill_recorded_def rows)
  then have "order_booked (env_column env) db' o'"
    using fresh(2) o' 1(3,9) assms(1) by (simp add: order_booked_def order_fills_def rows)
  moreover have "order_booked (env_column env) db' x" if "x \<in> set (db_orders db)" for x
  proof (rule order_booked_frame [of _ db x db' "[tx]" es])
    show "order_booked (env_column env) db x" using assms(2) that by (simp add: ledger_ok_def)
    show "order_fills db' (o_id x) = order_fills db (o_id x)"
      using that fresh(1) 1(3) by (auto simp: order_fills_def rows)
    show "\<forall>g \<in> set (db_fills db). \<forall>e \<in> set es. le_fill e \<noteq> Some (f_id g)" using old(1) ledger(4) by fastforce
  qed (simp_all add: rows)
  moreover have "fill_of_account db' acc i" if "fill_of_account db acc i" for acc i
    using that by (auto simp: fill_of_account_def rows)
  moreover have "fill_of_account db' (pc_account cmd) (?n + 2)"
    using 1(3,4) o' by (auto simp: fill_of_account_def rows)
  ultimately show ?thesis
    using assms(2) old n ledger 1(3,4) o'(1) unfolding ledger_ok_def rows by (fastforce dest: less_trans)
qed

subsection \<open>Lemmas: the position is the net of the fills\<close>

definition account_movements :: "trading_db \<Rightarrow> uuid \<Rightarrow> uuid \<Rightarrow> (order_side \<times> fill_row) list" where
  "account_movements db a i =
     concat (map (\<lambda>x. map (\<lambda>f. (o_side x, f)) (order_fills db (o_id x)))
       (filter (\<lambda>x. o_account x = a \<and> o_instrument x = i) (db_orders db)))"

definition signed_fill :: "order_side \<times> fill_row \<Rightarrow> rat" where
  "signed_fill m = (if fst m = Buy_order then f_quantity (snd m) else - f_quantity (snd m))"

definition volume :: "(order_side \<times> fill_row) list \<Rightarrow> rat" where
  "volume ms = sum_list (map (\<lambda>m. f_quantity (snd m)) ms)"

definition signed_position :: "trading_db \<Rightarrow> uuid \<Rightarrow> uuid \<Rightarrow> rat" where
  "signed_position db a i = (case open_position db a i of None \<Rightarrow> 0 | Some p \<Rightarrow> direction (p_side p) * p_quantity p)"

definition positions_net :: "trading_db \<Rightarrow> bool" where
  \<comment> \<open>as long as the quantities are small enough for the decimal context to be exact\<close>
  "positions_net db \<longleftrightarrow> (\<forall>a i. volume (account_movements db a i) \<le> 10 ^ 10 \<longrightarrow>
     signed_position db a i = sum_list (map signed_fill (account_movements db a i)))"

lemma signed_fill_bound: "0 \<le> f_quantity (snd m) \<Longrightarrow> \<bar>signed_fill m\<bar> = f_quantity (snd m)"
  by (simp add: signed_fill_def)

lemma net_below_volume:
  "\<forall>m \<in> set ms. 0 \<le> f_quantity (snd m) \<Longrightarrow> \<bar>sum_list (map signed_fill ms)\<bar> \<le> volume ms"
proof (induction ms)
  case (Cons m ms)
  then show ?case using signed_fill_bound [of m] by (simp add: volume_def)
qed (simp add: volume_def)

lemma find_update_row_other:
  "\<not> P r \<Longrightarrow> \<forall>x \<in> set rows. key x = key r \<longrightarrow> \<not> P x \<Longrightarrow> find P (update_row key r rows) = find P rows"
  by (induction rows) (auto simp: update_row_def)

lemma find_append: "find P (xs @ ys) = (case find P xs of None \<Rightarrow> find P ys | Some x \<Rightarrow> Some x)"
  by (induction xs) auto

lemma applied_position:
  assumes "numeric_column (env_column env)" "positions_ok (env_column env) db" "fill_row_ok (env_column env) f"
    and "apply_fill_row env a i f side ex db = Inr (pos, pnl, db')"
  shows "open_position db' a i = (if p_status pos = Open then Some pos else None)"
    and "(b, j) \<noteq> (a, i) \<Longrightarrow> open_position db' b j = open_position db b j"
proof -
  note after = apply_fill_row_positions [OF assms]
  have same_place: "open_position db' a i = Some pos" if "p_status pos = Open"
    using open_position_unique [of "env_column env" db' pos] after that by (auto simp: place_of_def)
  show "open_position db' a i = (if p_status pos = Open then Some pos else None)"
    using assms(4)
  proof (cases rule: apply_fill_row_cases)
    case opened
    then show ?thesis using same_place by (simp add: opened_row_def)
  next
    case (changed p entry r)
    note p = open_position_Some [OF changed(1)]
    have id: "p_id pos = p_id p" using changed(3,4) reduce_position_sel by (auto simp: increased_row_def Let_def; metis)
    have "open_position db' a i = None" if "p_status pos \<noteq> Open"
      using exclusive_find_None [of p_id is_open place_of "db_positions db" "db_next_id db" p pos] assms(2) p that id changed(6)
      by (simp add: open_position_eq positions_ok_def is_open_def place_of_def [of p])
    then show ?thesis using same_place by simp
  qed
  assume other: "(b, j) \<noteq> (a, i)"
  show "open_position db' b j = open_position db b j"
    using assms(4)
  proof (cases rule: apply_fill_row_cases)
    case opened
    then show ?thesis using other by (auto simp: open_position_eq find_append opened_row_def place_of_def split: option.split)
  next
    case (changed p entry r)
    note p = open_position_Some [OF changed(1)]
    have r: "p_id pos = p_id p" "place_of pos = (a, i)" using after changed(3,4) reduce_position_sel
      by (auto simp: increased_row_def Let_def; metis)+
    have "place_of x = (a, i)" if "x \<in> set (db_positions db)" "p_id x = p_id pos" for x
    proof -
      have "x = p" using exclusive_key [of p_id is_open place_of "db_positions db" "db_next_id db" x p] assms(2) that r(1) p
        by (simp add: positions_ok_def)
      then show ?thesis using p by (simp add: place_of_def)
    qed
    then show ?thesis using r(2) other unfolding open_position_eq changed(6)
      by (simp, intro find_update_row_other) auto
  qed
qed

lemma applied_signed:
  assumes "numeric_column (env_column env)" "positions_ok (env_column env) db" "fill_row_ok (env_column env) f"
    and "apply_fill_row env a i f side ex db = Inr (pos, pnl, db')"
    and "\<bar>signed_position db a i\<bar> + f_quantity f \<le> 10 ^ 10"
  shows "signed_position db' a i = signed_position db a i + signed_fill (side, f)"
proof -
  note col = assms(1) and idem = numeric_column.column_idem [OF assms(1)]
  note now = applied_position(1) [OF assms(1-4)]
  have Q: "env_column env (f_quantity f) = f_quantity f" "0 < f_quantity f" using assms(3) by (simp_all add: fill_row_ok_def)
  have dir: "signed_fill (side, f) = direction (opening_side side) * f_quantity f" by (cases side) (simp_all add: signed_fill_def)
  show ?thesis using assms(4)
  proof (cases rule: apply_fill_row_cases)
    case opened
    then show ?thesis using now Q by (simp add: signed_position_def opened_row_def dir)
  next
    case (changed p entry r)
    note p = open_position_Some [OF changed(1)]
    have pq: "env_column env (p_quantity p) = p_quantity p" "0 < p_quantity p"
      using assms(2) p by (auto simp: positions_ok_def position_row_ok_def)
    have before: "signed_position db a i = direction (p_side p) * p_quantity p" by (simp add: signed_position_def changed(1))
    have "\<bar>direction (p_side p) * p_quantity p\<bar> = p_quantity p" using pq(2) by (cases "p_side p") simp_all
    then have small: "p_quantity p + f_quantity f \<le> 10 ^ 10" using assms(5) before by simp
    have grid: "env_column env (p_quantity p + f_quantity f) = p_quantity p + f_quantity f"
      "env_column env (f_quantity f - p_quantity p) = f_quantity f - p_quantity p"
      "env_column env (p_quantity p - f_quantity f) = p_quantity p - f_quantity f"
      using numeric_column.column_add_exact [OF col pq(1) Q(1)] numeric_column.column_diff_exact [OF col Q(1) pq(1)]
        numeric_column.column_diff_exact [OF col pq(1) Q(1)] .
    have exact: "dadd (p_quantity p) (f_quantity f) = p_quantity p + f_quantity f"
      "dsub (f_quantity f) (p_quantity p) = f_quantity f - p_quantity p"
      "dsub (p_quantity p) (f_quantity f) = p_quantity p - f_quantity f"
      using numeric_column.column_dexact [OF col grid(1)] numeric_column.column_dexact [OF col grid(2)]
        numeric_column.column_dexact [OF col grid(3)] small pq(2) Q(2)
      by (simp_all add: dadd_def dsub_def dec.round_exact abs_le_iff)
    from changed(3) show ?thesis
    proof (elim disjE conjE)
      assume "opening_side side = p_side p" "r = increased_row p entry f"
      then show ?thesis using now changed(4) p grid exact by (simp add: signed_position_def increased_row_def Let_def dir changed(1) algebra_simps)
    next
      assume side: "opening_side side \<noteq> p_side p" and red: "reduce_position env p entry f side (ex = ''oanda'') = Inr (r, pnl)"
      then have opposite: "direction (p_side p) = - direction (opening_side side)"
        by (cases "p_side p"; cases side) simp_all
      have "p_status pos = (if f_quantity f = p_quantity p then Closed else Open)"
        "p_side pos = (if p_quantity p < f_quantity f then opening_side side else p_side p)"
        "p_quantity pos = (if p_quantity p < f_quantity f then f_quantity f - p_quantity p else p_quantity p - f_quantity f)"
        using red p unfolding changed(4)
        by (auto simp: reduce_position_def Let_def exact grid numeric_column.column_zero [OF col] split: if_splits)
      then have "(if p_status pos = Open then direction (p_side pos) * p_quantity pos else 0)
          = direction (p_side p) * p_quantity p + direction (opening_side side) * f_quantity f"
        using opposite by (simp add: algebra_simps)
      then show ?thesis unfolding before dir by (simp add: signed_position_def now split: if_splits)
    qed
  qed
qed

lemma movements_ok:
  assumes "ledger_ok column db" "m \<in> set (account_movements db a i)"
  shows "fill_row_ok column (snd m)" "snd m \<in> set (db_fills db)"
proof -
  obtain x f where x: "x \<in> set (db_orders db)" "f \<in> set (order_fills db (o_id x))" "m = (o_side x, f)"
    using assms(2) by (auto simp: account_movements_def)
  then have "order_booked column db x" using assms(1) by (simp add: ledger_ok_def)
  then show "fill_row_ok column (snd m)" using x(2,3) by (auto simp: order_booked_def)
  show "snd m \<in> set (db_fills db)" using x(2,3) by (simp add: order_fills_def)
qed

lemma movements_frame:
  "db_orders db' = db_orders db \<Longrightarrow> db_fills db' = db_fills db \<Longrightarrow> account_movements db' = account_movements db"
  by (simp add: account_movements_def order_fills_def fun_eq_iff)

lemma signed_position_frame: "db_positions db' = db_positions db \<Longrightarrow> signed_position db' = signed_position db"
  using open_position_cong [of db' db] by (simp add: signed_position_def fun_eq_iff)

lemma positions_net_frame:
  "positions_net db \<Longrightarrow> account_movements db' = account_movements db \<Longrightarrow> db_positions db' = db_positions db \<Longrightarrow> positions_net db'"
  using signed_position_frame [of db' db] by (simp add: positions_net_def)

lemma movements_update:
  assumes "o_id o' = o_id x" "o_account o' = o_account x" "o_instrument o' = o_instrument x" "o_side o' = o_side x"
    and "x \<in> set (db_orders db)" "orders_ok db" "db_orders db' = update_row o_id o' (db_orders db)" "db_fills db' = db_fills db"
  shows "account_movements db' = account_movements db"
proof (intro ext)
  fix a i
  let ?P = "\<lambda>x. o_account x = a \<and> o_instrument x = i" and ?m = "\<lambda>x. map (\<lambda>f. (o_side x, f)) (order_fills db (o_id x))"
  let ?u = "\<lambda>y. if o_id y = o_id o' then o' else y"
  have same: "?P (?u y) = ?P y" "?m (?u y) = ?m y" if "y \<in> set (db_orders db)" for y
  proof -
    have "y = x" if "o_id y = o_id x" using assms(5,6) that \<open>y \<in> set (db_orders db)\<close> by (auto simp: orders_ok_def distinct_map inj_on_def)
    then show "?P (?u y) = ?P y" "?m (?u y) = ?m y" using assms(1-4) by auto
  qed
  have "map ?m (filter ?P (map ?u xs)) = map ?m (filter ?P xs)" if "set xs \<subseteq> set (db_orders db)" for xs
    using that same by (induction xs) auto
  from this [of "db_orders db"] show "account_movements db' a i = account_movements db a i"
    unfolding account_movements_def assms(7) update_row_def order_fills_def assms(8) by simp
qed

lemma place_order_net:
  assumes "numeric_column (env_column env)" "books_ok (env_column env) db" "ledger_ok (env_column env) db" "positions_net db"
    and "place_order env cmd db = Inr (o', db')"
  shows "positions_net db'"
  using assms(5)
proof (cases rule: place_order_effect)
  case (1 account instrument ex f db2 pos pnl db3 es tx)
  let ?n = "db_next_id db" and ?a = "pc_account cmd" and ?i = "pc_instrument cmd"
  have o': "o_id o' = ?n" "o_account o' = ?a" "o_instrument o' = ?i" "o_side o' = pc_side cmd" using 1(2) by simp_all
  have fresh: "?n \<notin> o_id ` set (db_orders db)" using assms(2) by (auto simp: books_ok_def orders_ok_def)
  then have none: "order_fills db ?n = []"
    using assms(3) unfolding order_fills_def filter_empty_conv ledger_ok_def by metis
  have rows: "db_orders db' = db_orders db @ [o']" "db_fills db' = db_fills db @ [f]"
    using 1(16) fresh o'(1) by (auto simp: update_row_snoc)
  have old: "order_fills db' (o_id x) = order_fills db (o_id x)" if "x \<in> set (db_orders db)" for x
    using that fresh 1(3) by (auto simp: order_fills_def rows)
  have moved: "account_movements db' a i = account_movements db a i @ (if (a, i) = (?a, ?i) then [(pc_side cmd, f)] else [])" for a i
  proof -
    let ?P = "\<lambda>x. o_account x = a \<and> o_instrument x = i"
    have "concat (map (\<lambda>x. map (\<lambda>f. (o_side x, f)) (order_fills db' (o_id x))) (filter ?P (db_orders db))) = account_movements db a i"
      unfolding account_movements_def by (intro arg_cong [of _ _ concat] map_cong) (auto simp: old)
    moreover have "order_fills db' ?n = [f]" using none 1(3) by (simp add: order_fills_def rows)
    ultimately show ?thesis using o' by (auto simp: account_movements_def rows)
  qed
  have ok2: "positions_ok (env_column env) db2"
    using assms(2) 1(11,12) by (auto simp: books_ok_def intro: positions_ok_cong)
  have f: "fill_row_ok (env_column env) f" using 1(9) assms(1) by blast
  have same: "signed_position db2 = signed_position db" "signed_position db' = signed_position db3"
    using signed_position_frame [OF 1(11)] signed_position_frame [OF 1(13)] .
  show ?thesis unfolding positions_net_def
  proof (intro allI impI)
    fix a i assume small: "volume (account_movements db' a i) \<le> 10 ^ 10"
    have nonneg: "\<forall>m \<in> set (account_movements db a i). 0 \<le> f_quantity (snd m)"
      using movements_ok [OF assms(3)] by (force simp: fill_row_ok_def)
    show "signed_position db' a i = sum_list (map signed_fill (account_movements db' a i))"
    proof (cases "(a, i) = (?a, ?i)")
      case True
      then have vol: "volume (account_movements db a i) + f_quantity f \<le> 10 ^ 10"
        using small by (simp add: moved volume_def)
      then have "volume (account_movements db a i) \<le> 10 ^ 10" using 1(7) by linarith
      then have net: "signed_position db a i = sum_list (map signed_fill (account_movements db a i))"
        using assms(4) by (simp add: positions_net_def)
      then have "\<bar>signed_position db2 ?a ?i\<bar> + f_quantity f \<le> 10 ^ 10"
        using vol net_below_volume [OF nonneg] True same by simp
      from applied_signed [OF assms(1) ok2 f 1(10) this] show ?thesis using net True by (simp add: moved same)
    next
      case False
      then have "signed_position db3 a i = signed_position db2 a i"
        using applied_position(2) [OF assms(1) ok2 f 1(10)] by (simp add: signed_position_def)
      then show ?thesis using False small assms(4) by (auto simp: moved same positions_net_def)
    qed
  qed
qed

lemma records_frame:
  assumes "ledger_ok column db \<and> positions_net db" "db_orders db' = db_orders db" "db_fills db' = db_fills db"
    and "db_positions db' = db_positions db" "db_next_id db \<le> db_next_id db'"
    and "db_transactions db' = db_transactions db @ ts" "db_entries db' = db_entries db @ es"
    and "\<forall>t \<in> set ts. lt_reference_type t \<noteq> ''fill''" "\<forall>e \<in> set es. le_fill e = None \<and> le_type e \<notin> fill_entry_types"
  shows "ledger_ok column db' \<and> positions_net db'"
  using ledger_ok_frame [OF _ assms(2,3,5-9)] positions_net_frame [OF _ movements_frame [OF assms(2,3)] assms(4)] assms(1) by blast

definition records_ok :: "(decimal \<Rightarrow> decimal) \<Rightarrow> trading_db \<Rightarrow> bool" where
  "records_ok column db \<longleftrightarrow> books_ok column db \<and> ledger_ok column db \<and> positions_net db"

sublocale numeric_column \<subseteq> ledger_life: state_machine "order_step column" "records_ok column"
proof
  fix db db' assume ok: "records_ok column db" and step: "order_step column db db'"
  then have books: "books_ok column db'" using order_life.step_keeps [OF _ step] by (simp add: records_ok_def)
  from step have "ledger_ok column db' \<and> positions_net db'"
  proof cases
    case (intent_step env ic i)
    have "ledger_ok column db \<and> positions_net db" using ok by (simp add: records_ok_def)
    then show ?thesis
      by (rule records_frame [of _ db db' "[]" "[]"]) (use create_order_intent_Inr [OF intent_step(2)] in auto)
  next
    case (place_step env cmd o')
    show ?thesis using ok place_order_ledger [OF _ _ _ place_step(2)] place_order_net [OF _ _ _ _ place_step(2)] place_step(1)
        numeric_column_axioms by (auto simp: records_ok_def books_ok_def)
  next
    case (cancel_step env x reason o')
    obtain a h where o': "o' = stored_order env (x\<lparr>o_status := Cancelled\<rparr>)"
      and eq: "db' = db\<lparr>db_next_id := Suc (db_next_id db), db_audit := db_audit db @ [a],
         db_orders := update_row o_id o' (db_orders db), db_history := db_history db @ [h]\<rparr>"
      using cancel_order_Inr [OF cancel_step(3)] by blast
    have "account_movements db' = account_movements db"
      using ok cancel_step(2) by (intro movements_update [of o' x]) (simp_all add: o' eq records_ok_def books_ok_def)
    then show ?thesis using ok cancel_order_ledger [OF _ _ _ cancel_step(2,3)] cancel_step(1) numeric_column_axioms
      by (auto simp: records_ok_def books_ok_def eq intro: positions_net_frame)
  next
    case (deposit_step env account amount asset tx)
    obtain e where rows: "db' = db\<lparr>db_next_id := Suc (db_next_id db), db_transactions := db_transactions db @ [tx],
        db_entries := db_entries db @ [e]\<rparr>" "lt_reference_type tx = ''deposit''" "le_fill e = None" "le_type e = Deposit"
      using seed_paper_deposit_rows [OF deposit_step(2)] by blast
    have "ledger_ok column db \<and> positions_net db" using ok by (simp add: records_ok_def)
    then show ?thesis by (rule records_frame [of _ db db' "[tx]" "[e]"]) (simp_all add: rows fill_entry_types_def)
  qed
  then show "records_ok column db'" using books by (simp add: records_ok_def)
qed

subsection \<open>Lemmas: what is loaded of an account\<close>

definition small_amounts :: "trading_db \<Rightarrow> uuid \<Rightarrow> bool" where
  \<comment> \<open>amounts the 28 digits of the decimal context hold to nine decimals, and quantities they hold exactly\<close>
  "small_amounts db account \<longleftrightarrow>
     (\<forall>x \<in> set (account_orders db account). \<forall>f \<in> set (order_fills db (o_id x)).
        f_price f * f_quantity f \<le> 10 ^ 17 \<and> f_fee f \<le> 10 ^ 17 \<and> f_quantity f \<le> 10 ^ 10)
   \<and> (\<forall>i. volume (account_movements db account i) \<le> 10 ^ 10)"

definition fill_part :: "fill_row \<Rightarrow> filled_row" where
  "fill_part f = \<lparr>fr_id = f_id f, fr_order = f_order f, fr_price = f_price f, fr_quantity = f_quantity f, fr_fee = f_fee f\<rparr>"

definition order_part :: "trade_order \<Rightarrow> order_row" where
  "order_part x = \<lparr>or_id = o_id x, or_instrument = o_instrument x, or_side = o_side x,
     or_quantity = o_quantity x, or_filled = o_filled x, or_status = o_status x\<rparr>"

definition position_part :: "trading_position \<Rightarrow> position_row" where
  "position_part p = \<lparr>ps_id = p_id p, ps_instrument = p_instrument p, ps_side = p_side p,
     ps_quantity = p_quantity p, ps_entry = p_entry p, ps_realized = p_realized p, ps_status = p_status p\<rparr>"

lemma part_sel [simp]:
  "fr_id (fill_part f) = f_id f" "fr_order (fill_part f) = f_order f" "fr_price (fill_part f) = f_price f"
  "fr_quantity (fill_part f) = f_quantity f" "fr_fee (fill_part f) = f_fee f"
  "or_id (order_part x) = o_id x" "or_instrument (order_part x) = o_instrument x" "or_side (order_part x) = o_side x"
  "or_quantity (order_part x) = o_quantity x" "or_filled (order_part x) = o_filled x" "or_status (order_part x) = o_status x"
  "ps_id (position_part p) = p_id p" "ps_instrument (position_part p) = p_instrument p" "ps_side (position_part p) = p_side p"
  "ps_quantity (position_part p) = p_quantity p" "ps_entry (position_part p) = p_entry p"
  "ps_realized (position_part p) = p_realized p" "ps_status (position_part p) = p_status p"
  by (simp_all add: fill_part_def order_part_def position_part_def)

lemma loaded_orders: "rw_orders (load_account_rows db a) = map order_part (account_orders db a)"
  by (simp add: load_account_rows_def order_part_def [abs_def])

lemma loaded_fills: "rw_fills (load_account_rows db a) = map fill_part (filter (\<lambda>f. f_order f \<in> o_id ` set (account_orders db a)) (db_fills db))"
  by (simp add: load_account_rows_def fill_part_def [abs_def])

lemma loaded_positions: "rw_positions (load_account_rows db a) = map position_part (filter (\<lambda>p. p_account p = a) (db_positions db))"
  by (simp add: load_account_rows_def position_part_def [abs_def])

lemma loaded_fills_of:
  assumes "x \<in> set (account_orders db a)"
  shows "fills_of (load_account_rows db a) (o_id x) = map fill_part (order_fills db (o_id x))"
proof -
  have "filter (\<lambda>f. f_order f \<in> o_id ` set (account_orders db a) \<and> f_order f = o_id x) (db_fills db) = order_fills db (o_id x)"
    unfolding order_fills_def by (rule filter_cong) (use assms in auto)
  then show ?thesis by (simp add: fills_of_def loaded_fills filter_map o_def)
qed

lemma loaded_order_of:
  assumes "orders_ok db" "x \<in> set (account_orders db a)"
  shows "order_of (load_account_rows db a) (o_id x) = Some (order_part x)"
proof -
  let ?rows = "rev (map order_part (account_orders db a))"
  have "find (\<lambda>r. or_id r = o_id x) ?rows \<noteq> None" using assms(2) by (auto simp: find_None_iff)
  then obtain r where r: "find (\<lambda>r. or_id r = o_id x) ?rows = Some r" by blast
  then obtain y where y: "y \<in> set (account_orders db a)" "r = order_part y" "o_id y = o_id x"
    by (auto simp: find_Some_iff rev_map [symmetric]) (metis in_set_conv_nth length_map nth_map nth_mem part_sel(6) set_rev length_rev)
  then have "y = x" using assms by (auto simp: orders_ok_def account_orders_def distinct_map inj_on_def)
  then show ?thesis using r y by (simp add: order_of_def loaded_orders)
qed

lemma loaded_amounts:
  assumes "fill_recorded column db x f" "o_account x = a" "type \<in> fill_entry_types"
  shows "amounts_of type (entries_of (load_account_rows db a) (f_id f)) = entry_amounts db (f_id f) type"
proof -
  have "filter (\<lambda>e. le_account e = a \<and> le_type e \<in> fill_entry_types \<and> le_fill e = Some (f_id f) \<and> le_type e = type) (db_entries db)
      = filter (\<lambda>e. le_fill e = Some (f_id f) \<and> le_type e = type) (db_entries db)"
    by (rule filter_cong) (use assms in \<open>auto simp: fill_recorded_def\<close>)
  then show ?thesis
    by (simp add: amounts_of_def entries_of_def entry_amounts_def load_account_rows_def filter_map o_def conj_assoc)
qed

subsection \<open>Lemmas: the checks on an account the order flow wrote\<close>

lemma dround_below:
  assumes "\<bar>x\<bar> \<le> 10 ^ 17" shows "\<bar>dround x\<bar> \<le> 10 ^ 17"
proof -
  have exact: "dexact (10 ^ 17)" using exact_grid [of "10 ^ 17" 0] by simp
  have "dround x \<le> 10 ^ 17" "- (10 ^ 17) \<le> dround x"
    using assms dec.round_le_exact [OF _ exact, of x] dec.exact_le_round [OF _ dec.exact_neg [OF exact], of x]
    by (simp_all add: abs_le_iff)
  then show ?thesis by (simp add: abs_le_iff)
qed

lemma checked_order:
  assumes "records_ok column db" "x \<in> set (account_orders db a)"
  shows "x \<in> set (db_orders db)" "o_account x = a" "order_booked column db x"
  using assms by (simp_all add: account_orders_def records_ok_def ledger_ok_def)

lemma checked_fill:
  assumes "numeric_column column" "records_ok column db" "small_amounts db a"
    and "f \<in> set (rw_fills (load_account_rows db a))"
  shows "fill_findings (load_account_rows db a) f = Inr []"
proof -
  obtain g x where g: "f = fill_part g" "g \<in> set (db_fills db)" "x \<in> set (account_orders db a)" "f_order g = o_id x"
    using assms(4) by (auto simp: loaded_fills)
  note x = checked_order [OF assms(2) g(3)]
  have orders: "orders_ok db" using assms(2) by (simp add: records_ok_def books_ok_def)
  have "g \<in> set (order_fills db (o_id x))" using g by (simp add: order_fills_def)
  then have ok: "fill_row_ok column g" "fill_recorded column db x g"
    and small: "f_price g * f_quantity g \<le> 10 ^ 17" "f_fee g \<le> 10 ^ 17"
    using x(3) assms(3) g(3) by (auto simp: order_booked_def small_amounts_def)
  have pos: "0 < f_price g" "0 < f_quantity g" "0 \<le> f_fee g" using ok(1) by (simp_all add: fill_row_ok_def)
  let ?n = "dmul (f_price g) (f_quantity g)"
  have "\<bar>?n\<bar> \<le> 10 ^ 17" unfolding dmul_def by (rule dround_below) (use small pos in simp)
  then have "\<bar>if or_side (order_part x) = Buy_order then dneg ?n else ?n\<bar> \<le> 10 ^ 17"
    using dround_below [of "- ?n"] by (simp add: dneg_def)
  from numeric_column.recorded_agrees [OF assms(1) this]
  have cash: "\<not> differs (dsum (amounts_of Cash (entries_of (load_account_rows db a) (f_id g))))
      (if o_side x = Buy_order then dneg ?n else ?n)"
    using ok(2) by (simp add: loaded_amounts [OF ok(2) x(2)] fill_entry_types_def fill_recorded_def)
  have "\<bar>dneg (f_fee g)\<bar> \<le> 10 ^ 17" unfolding dneg_def by (rule dround_below) (use small pos in simp)
  from numeric_column.recorded_agrees [OF assms(1) this]
  have fee: "\<not> differs (dsum (amounts_of Fee (entries_of (load_account_rows db a) (f_id g)))) (dneg (f_fee g))"
    using ok(2) pos(3) by (cases "0 < f_fee g")
      (simp_all add: loaded_amounts [OF ok(2) x(2)] fill_entry_types_def fill_recorded_def dneg_def)
  have "Some (f_id g) \<in> set (rw_refs (load_account_rows db a))"
    using ok(2) x(2) by (force simp: fill_recorded_def load_account_rows_def)
  then show ?thesis using cash fee g(4)
    by (simp add: fill_findings_def g(1) loaded_order_of [OF orders g(3)] finding_if_def Let_def)
qed

lemma checked_ledger:
  assumes "records_ok column db" shows "ledger_findings (load_account_rows db a) = []"
proof -
  let ?rows = "load_account_rows db a"
  have ok: "ledger_ok column db" using assms by (simp add: records_ok_def)
  have "filter (\<lambda>e. er_fill e = None) (rw_entries ?rows) = []"
    using ok by (auto simp: filter_empty_conv load_account_rows_def ledger_ok_def)
  moreover have "i \<in> fr_id ` set (rw_fills ?rows)" if ref: "Some i \<in> set (rw_refs ?rows)" for i
  proof -
    obtain t where "t \<in> set (db_transactions db)" "lt_account t = a" "lt_reference_type t = ''fill''" "lt_reference t = Some i"
      using ref by (auto simp: load_account_rows_def)
    then have "fill_of_account db a i" using ok by (auto simp: ledger_ok_def)
    then show ?thesis by (force simp: fill_of_account_def loaded_fills account_orders_def)
  qed
  then have "filter (\<lambda>r. r \<notin> set (map fr_id (rw_fills ?rows))) (remdups (map the (filter (\<lambda>r. r \<noteq> None) (rw_refs ?rows)))) = []"
    by (auto simp: filter_empty_conv)
  ultimately show ?thesis by (simp add: ledger_findings_def finding_if_def Let_def)
qed

lemma checked_order_row:
  assumes "numeric_column column" "records_ok column db" "small_amounts db a"
    and "r \<in> set (rw_orders (load_account_rows db a))"
  shows "order_findings (load_account_rows db a) r = []"
proof -
  obtain x where x: "r = order_part x" "x \<in> set (account_orders db a)" using assms(4) by (auto simp: loaded_orders)
  note ok = checked_order [OF assms(2) x(2)]
  have filled: "\<not> differs (o_filled x) (dsum (map f_quantity (order_fills db (o_id x)))) \<and> (o_status x = Filled \<longrightarrow> o_filled x = o_quantity x)"
  proof (cases "o_status x = Filled")
    case True
    then obtain f where f: "order_fills db (o_id x) = [f]" "fill_row_ok column f" "f_quantity f = o_quantity x" "o_filled x = o_quantity x"
      using ok(3) by (auto simp: order_booked_def)
    then have "f \<in> set (order_fills db (o_id x))" by simp
    then have "f_quantity f \<le> 10 ^ 10" using assms(3) x(2) unfolding small_amounts_def by blast
    then have "f_quantity f \<le> 10 ^ 17" by (rule order_trans) simp
    then show ?thesis using numeric_column.stored_agrees [OF assms(1), of "f_quantity f"] f by (simp add: fill_row_ok_def)
  next
    case False
    then show ?thesis using ok(3) by (auto simp: order_booked_def)
  qed
  have "trail None (history_of db (o_id x)) = Some (Some (o_status x))"
    using assms(2) ok(1) by (simp add: records_ok_def books_ok_def orders_ok_def)
  then have "o_status x \<in> sh_to ` set (history_of db (o_id x))"
    by (cases "history_of db (o_id x)" rule: rev_cases) (auto simp: trail_snoc split: option.splits if_splits)
  then have recorded: "\<not> (case rw_history (load_account_rows db a) (o_id x) of None \<Rightarrow> False | Some s \<Rightarrow> o_status x \<notin> s)"
    by (auto simp: load_account_rows_def history_of_def)
  show ?thesis
    using filled recorded unfolding order_findings_def x(1) part_sel loaded_fills_of [OF x(2)]
    by (simp add: finding_if_def o_def Let_def)
qed

lemma filter_exclusive:
  assumes "exclusive key live grp rows n"
  shows "filter (\<lambda>r. grp r = g \<and> live r) rows = (case find (\<lambda>r. grp r = g \<and> live r) rows of None \<Rightarrow> [] | Some r \<Rightarrow> [r])"
proof (cases "find (\<lambda>r. grp r = g \<and> live r) rows")
  case (Some r)
  then have r: "r \<in> set rows" "grp r = g" "live r" by (auto simp: find_Some_iff)
  have "distinct rows" using assms by (simp add: exclusive_def distinct_map)
  have only: "set (filter (\<lambda>r. grp r = g \<and> live r) rows) = {r}"
    using exclusive_live [OF assms] r by auto
  have "length (filter (\<lambda>r. grp r = g \<and> live r) rows) = 1"
    using distinct_card [OF distinct_filter [OF \<open>distinct rows\<close>], of "\<lambda>r. grp r = g \<and> live r"] unfolding only by simp
  then obtain y where "filter (\<lambda>r. grp r = g \<and> live r) rows = [y]" by (metis One_nat_def length_0_conv length_Suc_conv)
  then show ?thesis using only Some by simp
next
  case None
  then have "filter (\<lambda>r. grp r = g \<and> live r) rows = []" by (auto simp: find_None_iff filter_empty_conv)
  with None show ?thesis by simp
qed

lemma loaded_opened:
  assumes "positions_ok column db"
  shows "filter (\<lambda>p. ps_status p = Open) (filter (\<lambda>p. ps_instrument p = i) (rw_positions (load_account_rows db a)))
    = (case open_position db a i of None \<Rightarrow> [] | Some p \<Rightarrow> [position_part p])"
proof -
  have "filter (\<lambda>p. ps_status p = Open) (filter (\<lambda>p. ps_instrument p = i) (rw_positions (load_account_rows db a)))
      = map position_part (filter (\<lambda>p. place_of p = (a, i) \<and> is_open p) (db_positions db))"
    by (simp add: loaded_positions filter_map o_def place_of_def is_open_def conj_assoc)
  also have "\<dots> = (case open_position db a i of None \<Rightarrow> [] | Some p \<Rightarrow> [position_part p])"
    using filter_exclusive [of p_id is_open place_of "db_positions db" "db_next_id db" "(a, i)"] assms
    by (simp add: positions_ok_def open_position_eq split: option.split)
  finally show ?thesis .
qed

lemma loaded_movements:
  assumes "orders_ok db"
  shows "movements (load_account_rows db a) i = map (\<lambda>(side, f). (side, fill_part f)) (account_movements db a i)"
proof -
  have "map (\<lambda>x. map (\<lambda>f. (or_side x, f)) (fills_of (load_account_rows db a) (or_id x)))
      (filter (\<lambda>x. or_instrument x = i) (map order_part (account_orders db a)))
    = map (\<lambda>x. map (\<lambda>(side, f). (side, fill_part f)) (map (\<lambda>f. (o_side x, f)) (order_fills db (o_id x))))
      (filter (\<lambda>x. o_instrument x = i) (account_orders db a))"
    by (simp add: filter_map o_def loaded_fills_of)
  then show ?thesis
    by (simp add: movements_def loaded_orders account_movements_def map_concat o_def account_orders_def conj_commute)
qed

lemma net_exact:
  assumes "numeric_column column" "\<forall>m \<in> set ms. fill_row_ok column (snd m)" "column acc = acc"
    and "\<bar>acc\<bar> + volume ms \<le> 10 ^ 10"
  shows "foldl (\<lambda>net (side, f). dadd net (if side = Buy_order then fr_quantity f else dneg (fr_quantity f))) acc
      (map (\<lambda>(side, f). (side, fill_part f)) ms) = acc + sum_list (map signed_fill ms)"
  using assms(2-4)
proof (induction ms arbitrary: acc)
  case (Cons m ms)
  have q: "column (f_quantity (snd m)) = f_quantity (snd m)" "0 < f_quantity (snd m)"
    using Cons.prems(1) by (simp_all add: fill_row_ok_def)
  have "\<forall>m \<in> set ms. 0 \<le> f_quantity (snd m)" using Cons.prems(1) by (simp add: fill_row_ok_def less_imp_le)
  from net_below_volume [OF this] have "0 \<le> volume ms" by linarith
  then have small: "\<bar>acc\<bar> + f_quantity (snd m) \<le> 10 ^ 10" "\<bar>acc\<bar> + f_quantity (snd m) + volume ms \<le> 10 ^ 10"
    using Cons.prems(3) by (simp_all add: volume_def)
  have fill: "column (signed_fill m) = signed_fill m" "\<bar>signed_fill m\<bar> = f_quantity (snd m)"
    using q numeric_column.column_minus [OF assms(1)] by (simp_all add: signed_fill_def)
  have "dexact (f_quantity (snd m))" using numeric_column.column_dexact [OF assms(1) q(1)] small(1) q(2) by simp
  then have "(if fst m = Buy_order then f_quantity (snd m) else dneg (f_quantity (snd m))) = signed_fill m"
    by (auto simp: signed_fill_def dneg_def dec.round_exact)
  moreover have grid: "column (acc + signed_fill m) = acc + signed_fill m"
    using numeric_column.column_add_exact [OF assms(1) Cons.prems(2) fill(1)] .
  moreover have near: "\<bar>acc + signed_fill m\<bar> \<le> \<bar>acc\<bar> + f_quantity (snd m)" using fill(2) by linarith
  then have "dexact (acc + signed_fill m)" using numeric_column.column_dexact [OF assms(1) grid] small(1) by linarith
  ultimately have step: "dadd acc (if fst m = Buy_order then f_quantity (snd m) else dneg (f_quantity (snd m))) = acc + signed_fill m"
    by (simp add: dadd_def dec.round_exact)
  show ?case
    using Cons.IH [OF _ grid] Cons.prems(1) near small(2) step
    by (cases "fst m = Buy_order") (simp_all add: split_def add.assoc)
qed simp

context numeric_column
begin

lemma records_reachable: "(order_step column)\<^sup>*\<^sup>* db db' \<Longrightarrow> records_ok column db \<Longrightarrow> records_ok column db'"
  by (rule ledger_life.reachable_keeps)

end

text \<open>The two checks that compare sums of rounded money amounts are left aside.\<close>

definition money_codes :: "string set" where
  "money_codes = {''realized_pnl_mismatch'', ''position_cost_basis_mismatch''}"

lemma fd_code_finding_if: "fd_code ` set (finding_if b c d) = (if b then {c} else {})"
  by (simp add: finding_if_def)

lemma checked_instrument:
  assumes "numeric_column column" "records_ok column db" "small_amounts db a"
  shows "fd_code ` set (instrument_findings (load_account_rows db a) i) \<subseteq> money_codes"
proof -
  let ?rows = "load_account_rows db a"
  have ok: "positions_ok column db" "orders_ok db" "ledger_ok column db" "positions_net db"
    using assms(2) by (simp_all add: records_ok_def books_ok_def)
  have vol: "volume (account_movements db a i) \<le> 10 ^ 10" using assms(3) by (simp add: small_amounts_def)
  have fills: "\<forall>m \<in> set (account_movements db a i). fill_row_ok column (snd m)" using movements_ok [OF ok(3)] by blast
  have nonneg: "\<forall>m \<in> set (account_movements db a i). 0 \<le> f_quantity (snd m)" using fills by (simp add: fill_row_ok_def less_imp_le)
  let ?net = "sum_list (map signed_fill (account_movements db a i))"
  have net: "net_quantity (movements ?rows i) = ?net"
    using net_exact [OF assms(1) fills, of 0] vol numeric_column.column_zero [OF assms(1)]
    by (simp add: net_quantity_def loaded_movements [OF ok(2)])
  have signed: "signed_position db a i = ?net" using ok(4) vol by (simp add: positions_net_def)
  have row: "p_quantity p = dmul 1 (p_quantity p) \<and> 0 < p_quantity p \<and> p_entry p \<noteq> None" if "open_position db a i = Some p" for p
  proof -
    have "position_row_ok column p" using ok(1) open_position_Some [OF that] by (simp add: positions_ok_def)
    then have p: "column (p_quantity p) = p_quantity p" "0 < p_quantity p" "p_entry p \<noteq> None"
      using open_position_Some [OF that] by (auto simp: position_row_ok_def)
    have "\<bar>p_quantity p\<bar> = \<bar>signed_position db a i\<bar>" using that by (cases "p_side p") (simp_all add: signed_position_def)
    also have "\<dots> \<le> 10 ^ 10" using signed net_below_volume [OF nonneg] vol by linarith
    finally have "dexact (p_quantity p)" using numeric_column.column_dexact [OF assms(1) p(1)] by simp
    then show ?thesis using p by (simp add: dmul_def dec.round_exact)
  qed
  have exact: "(case open_position db a i of None \<Rightarrow> 0 | Some p \<Rightarrow> dmul (direction (p_side p)) (p_quantity p)) = ?net"
  proof (cases "open_position db a i")
    case (Some p)
    have "dmul (direction (p_side p)) (p_quantity p) = direction (p_side p) * p_quantity p"
      using row [OF Some] by (cases "p_side p") (simp_all add: dmul_def)
    then show ?thesis using signed by (simp add: signed_position_def Some)
  qed (use signed in \<open>simp add: signed_position_def\<close>)
  have closed: "p_quantity p = 0" if "p \<in> set (db_positions db)" "p_status p \<noteq> Open" for p
    using ok(1) that by (cases "p_status p") (auto simp: positions_ok_def position_row_ok_def)
  have here: "ps_quantity p = 0" if "p \<in> set (rw_positions ?rows)" "ps_status p \<noteq> Open" for p
    using that closed by (auto simp: loaded_positions)
  have none: "concat (map (\<lambda>p. finding_if (ps_status p \<noteq> Open \<and> ps_quantity p \<noteq> 0) c (d p))
      (filter (\<lambda>p. ps_instrument p = i) (rw_positions ?rows))) = []" for c d
    using here by (auto simp: finding_if_def)
  note opened = loaded_opened [OF ok(1), unfolded filter_filter]
  show ?thesis
  proof (cases "open_position db a i")
    case None
    then show ?thesis using exact
      by (simp add: instrument_findings_def opened none net image_Un fd_code_finding_if money_codes_def Let_def)
  next
    case (Some p)
    then show ?thesis using exact row [OF Some]
      by (simp add: instrument_findings_def opened none net image_Un fd_code_finding_if money_codes_def Let_def)
  qed
qed

lemma checked_account:
  assumes "numeric_column column" "records_ok column db" "small_amounts db a"
  shows "\<exists>found. reconcile_account db a = Inr found \<and> fd_code ` set found \<subseteq> money_codes"
proof -
  let ?rows = "load_account_rows db a"
  have "run_steps (\<lambda>found f. res_bind (fill_findings ?rows f) (\<lambda>more. Inr (found @ more))) [] fs = Inr []"
    if "set fs \<subseteq> set (rw_fills ?rows)" for fs
    using that by (induction fs) (auto simp: checked_fill [OF assms])
  from this [OF order_refl]
  have "reconcile_account db a = Inr (take max_findings (concat (map (order_findings ?rows) (rw_orders ?rows))
      @ concat (map (instrument_findings ?rows) (instruments_of ?rows))))"
    by (simp add: reconcile_account_def reconcile_def checked_ledger [OF assms(2)])
  moreover have "concat (map (order_findings ?rows) (rw_orders ?rows)) = []"
    using checked_order_row [OF assms] by simp
  moreover have "fd_code ` set (take n (concat (map (instrument_findings ?rows) is))) \<subseteq> money_codes" for n "is"
    using checked_instrument [OF assms] by (fastforce dest: in_set_takeD)
  ultimately show ?thesis by simp
qed

text \<open>
  C9 (invariant). The order flow does not trip the reconciliation: however intents, orders, cancellations
  and deposits are interleaved from consistent records (an empty database is one), reconciling an
  account whose amounts the decimal context can hold raises no error and reports no missing ledger
  row, no wrong cash or fee entry, no wrong order or status, no duplicate or empty position and no
  position that is not the net of its fills. What it may report compares sums of rounded money
  amounts.
\<close>

theorem order_flow_reconciles:
  assumes "numeric_column column" "(order_step column)\<^sup>*\<^sup>* db db'" "records_ok column db" "small_amounts db' a"
  shows "\<exists>found. reconcile_account db' a = Inr found \<and> fd_code ` set found \<subseteq> money_codes"
  using checked_account [OF assms(1) numeric_column.records_reachable [OF assms(1-3)] assms(4)] .

subsection \<open>The check stops the account\<close>

definition mismatched :: "trading_db \<Rightarrow> uuid \<times> uuid \<Rightarrow> bool" where
  "mismatched db = (\<lambda>(workspace, account). \<exists>f fs. reconcile_account db account = Inr (f # fs))"

definition stopped_for_mismatch :: "trading_db \<Rightarrow> uuid \<times> uuid \<Rightarrow> bool" where
  "stopped_for_mismatch db = (\<lambda>(workspace, account). \<exists>h \<in> set (db_halts db). active h
     \<and> cause h = (account_scope workspace account, mismatch_reason) \<and> h_level h = Emergency_stopped)"

lemma reconcile_account_frame: "halt_frame db db' \<Longrightarrow> reconcile_account db' a = reconcile_account db a"
  using halt_frame_sel [of db db']
  by (simp add: reconcile_account_def load_account_rows_def account_orders_def Let_def cong: if_cong)

lemma stopped_kept:
  assumes "halts_kept db db'" "stopped_for_mismatch db wa" shows "stopped_for_mismatch db' wa"
proof -
  obtain h where h: "h \<in> set (db_halts db)" "active h" "cause h = (account_scope (fst wa) (snd wa), mismatch_reason)"
      "h_level h = Emergency_stopped"
    using assms(2) by (auto simp: stopped_for_mismatch_def split_def)
  have "h_reason h \<notin> machine_relaxes" using h(3) by (simp add: cause_def mismatch_reason_def machine_relaxes_def)
  then obtain h' where "h' \<in> set (db_halts db')" "active h'" "cause h' = cause h" "h_level h \<le> h_level h'"
    using assms(1) h(1,2) unfolding halts_kept_def by blast
  moreover have "h_level h' = Emergency_stopped" using calculation(4) h(4) by (cases "h_level h'") (simp_all add: less_eq_halt_level_def)
  ultimately show ?thesis using h(3) by (auto simp: stopped_for_mismatch_def split_def)
qed

text \<open>
  The accounts the check has to look at, said of the rows: an order was ever placed on the account, and no
  halt of this reason is active on it. A halt that was released does not count.
\<close>

definition awaits_check :: "trading_db \<Rightarrow> trading_account \<Rightarrow> bool" where
  "awaits_check db ac \<longleftrightarrow> (\<exists>x \<in> set (db_orders db). o_account x = ac_id ac)
     \<and> (\<forall>h \<in> set (db_halts db). h_status h = Halt_active \<longrightarrow>
          \<not> (h_reason h = ''ledger_mismatch'' \<and> h_scope_type h = ''account'' \<and> h_scope_id h = Some (ac_id ac)))"

lemma accounts_to_check_iff:
  "accounts_to_check db = map (\<lambda>ac. (ac_workspace ac, ac_id ac)) (filter (awaits_check db) (cat_accounts (db_catalog db)))"
proof -
  have "(ac_id ac \<in> o_account ` set (db_orders db)
      \<and> \<not> (\<exists>h \<in> set (db_halts db). h_reason h = mismatch_reason \<and> h_scope_type h = ''account''
            \<and> h_status h = Halt_active \<and> h_scope_id h = Some (ac_id ac))) = awaits_check db ac" for ac
    by (auto simp: awaits_check_def mismatch_reason_def image_iff eq_commute [of "ac_id ac"])
  then show ?thesis by (simp add: accounts_to_check_def)
qed

lemma check_account_effect:
  assumes "halts_ok db" "check_account env (n, db) wa = (n', db')"
  shows "halts_ok db' \<and> halts_kept db db' \<and> halt_frame db db'
    \<and> (if mismatched db wa then n' = n + 1 \<and> stopped_for_mismatch db' wa else n' = n \<and> db' = db)"
proof (cases "mismatched db wa")
  case True
  then obtain ws a f fs where wa: "wa = (ws, a)" "reconcile_account db a = Inr (f # fs)"
    by (auto simp: mismatched_def)
  then have db': "n' = n + 1" "db' = halt_account (env a) ws a (f # fs) db" using assms(2) by (simp_all add: check_account_def)
  then obtain ev where "db' = snd (activate_or_escalate (env a) (account_scope ws a) mismatch_reason Emergency_stopped False ev db)"
    by (auto simp: halt_account_def)
  then obtain h where act: "activate_or_escalate (env a) (account_scope ws a) mismatch_reason Emergency_stopped False ev db = (h, db')"
    by (cases "activate_or_escalate (env a) (account_scope ws a) mismatch_reason Emergency_stopped False ev db") simp
  note stop = emergency_activated [OF assms(1) act]
  have "stopped_for_mismatch db' wa"
    using find_active_halt_Some [OF stop(1)] stop(2) by (auto simp: stopped_for_mismatch_def wa(1) cause_def)
  then show ?thesis using stop(3-5) db'(1) True by simp
next
  case False
  then have "n' = n \<and> db' = db"
    using assms(2) by (cases wa) (auto simp: mismatched_def check_account_def split: sum.splits list.splits)
  then show ?thesis using assms(1) False by (simp add: halts_kept_same)
qed

lemma check_accounts_effect:
  assumes "halts_ok db" "foldl (check_account env) (n, db) was = (n', db')"
  shows "halts_ok db' \<and> halts_kept db db' \<and> halt_frame db db'
    \<and> n' = n + length (filter (mismatched db) was)
    \<and> (\<forall>wa \<in> set was. mismatched db wa \<longrightarrow> stopped_for_mismatch db' wa)
    \<and> ((\<forall>wa \<in> set was. \<not> mismatched db wa) \<longrightarrow> db' = db)"
  using assms
proof (induction was arbitrary: n db)
  case Nil
  then show ?case by (simp add: halts_kept_same)
next
  case (Cons wa was)
  obtain m db1 where first: "check_account env (n, db) wa = (m, db1)" by fastforce
  note one = check_account_effect [OF Cons.prems(1) first]
  note rest = Cons.IH [of db1 m] and more = Cons.prems(2)
  have same: "mismatched db1 = mismatched db" using one reconcile_account_frame [of db db1] by (simp add: mismatched_def fun_eq_iff)
  have later: "halts_ok db' \<and> halts_kept db1 db' \<and> halt_frame db1 db' \<and> n' = m + length (filter (mismatched db) was)
    \<and> (\<forall>wa \<in> set was. mismatched db wa \<longrightarrow> stopped_for_mismatch db' wa)
    \<and> ((\<forall>wa \<in> set was. \<not> mismatched db wa) \<longrightarrow> db' = db1)"
    using rest one more first same by simp
  then show ?case
    using one halts_kept_trans [of db db1 db'] halt_frame_trans [of db db1 db'] stopped_kept [of db1 db' wa]
    by (auto split: if_splits)
qed

text \<open>
  C10 (safety). Every account on which an order was placed, which no active ledger halt stops and whose
  records disagree is stopped by the check, an account whose earlier halt was released included: afterwards
  an emergency stop for the mismatch is active on it and blocks new entries of every bot. The check counts
  exactly these accounts, writes nothing but halts and their events, and changes nothing when every account agrees.
\<close>

theorem mismatch_stops_account:
  assumes "halts_ok db" "check_ledger_reconciliation env db = (n, db')"
  shows "(\<forall>ac \<in> set (cat_accounts (db_catalog db)).
       awaits_check db ac \<and> reconcile_account db (ac_id ac) = Inr (f # fs) \<longrightarrow>
         (\<exists>h \<in> set (db_halts db'). h_status h = Halt_active \<and> h_reason h = ''ledger_mismatch''
            \<and> scope_of_halt h = account_scope (ac_workspace ac) (ac_id ac) \<and> h_level h = Emergency_stopped)
         \<and> entry_blocked_by_halt db' (ac_workspace ac) (ac_id ac) bot_id)
    \<and> n = length (filter (\<lambda>ac. awaits_check db ac \<and> (\<exists>f fs. reconcile_account db (ac_id ac) = Inr (f # fs)))
             (cat_accounts (db_catalog db)))
    \<and> (n = 0 \<longrightarrow> db' = db) \<and> halt_frame db db' \<and> halts_kept db db'"
proof -
  note effect = check_accounts_effect [OF assms(1) assms(2) [unfolded check_ledger_reconciliation_def]]
  have stopped: "\<exists>h \<in> set (db_halts db'). h_status h = Halt_active \<and> h_reason h = ''ledger_mismatch''
        \<and> scope_of_halt h = account_scope (ac_workspace ac) (ac_id ac) \<and> h_level h = Emergency_stopped
        \<and> entry_blocked_by_halt db' (ac_workspace ac) (ac_id ac) bot_id"
    if "ac \<in> set (cat_accounts (db_catalog db))" "awaits_check db ac" "reconcile_account db (ac_id ac) = Inr (f # fs)" for ac
  proof -
    have "stopped_for_mismatch db' (ac_workspace ac, ac_id ac)"
      using effect that by (force simp: accounts_to_check_iff mismatched_def)
    then obtain h where h: "h \<in> set (db_halts db')" "active h" "scope_of_halt h = account_scope (ac_workspace ac) (ac_id ac)"
        "h_reason h = mismatch_reason" "h_level h = Emergency_stopped"
      by (auto simp: stopped_for_mismatch_def cause_def)
    have "find_active_halt db' (account_scope (ac_workspace ac) (ac_id ac)) mismatch_reason = Some h"
      using find_active_halt_unique [of db' h] effect h by simp
    then have "entry_blocked_by_halt db' (ac_workspace ac) (ac_id ac) bot_id"
      by (rule active_halt_blocks) (simp add: h(5) less_eq_halt_level_def)
    then show ?thesis using h by (auto simp: mismatch_reason_def)
  qed
  have "length (filter (mismatched db) (accounts_to_check db))
    = length (filter (\<lambda>ac. awaits_check db ac \<and> (\<exists>f fs. reconcile_account db (ac_id ac) = Inr (f # fs))) (cat_accounts (db_catalog db)))"
    by (simp add: accounts_to_check_iff filter_map o_def mismatched_def conj_commute)
  moreover have "db' = db" if "n = 0"
  proof -
    have "filter (mismatched db) (accounts_to_check db) = []" using effect that by simp
    then show ?thesis using effect by (simp add: filter_empty_conv)
  qed
  ultimately show ?thesis using effect stopped by (intro conjI ballI impI) (blast | simp)+
qed

end
