(* ===== verification/Ledger_Examples.thy ===== *)
theory Ledger_Examples
  imports Database_Examples Ledger_Reconciliation
begin

text \<open>
  Reconciling concrete accounts: one whose single order the order flow placed, one whose
  order lacks its fill, and one with a position so large that the stored entry price cannot pass
  the check.
\<close>

declare One_nat_def [simp del]

lemma demo_records_ok: "records_ok pg_numeric18 demo_db"
  using demo_books_ok
  by (simp add: records_ok_def ledger_ok_def positions_net_def)
    (simp add: demo_db_def signed_position_def open_position_def account_movements_def)

theorem order_flow_reconciles_witness:
  "\<exists>o' db' found. place_order demo_env demo_order demo_db = Inr (o', db') \<and> reconcile_account db' 1 = Inr found
    \<and> fd_code ` set found \<subseteq> money_codes"
proof -
  obtain o' db' f where placed: "place_order demo_env demo_order demo_db = Inr (o', db')"
    and f: "db_fills db' = [f]" "f_price f = 1001" "f_quantity f = 1" "f_fee f = 1"
    using demo_placed_fill by blast
  have step: "order_step pg_numeric18 demo_db db'" by (rule place_step [OF _ placed]) (simp add: demo_env_def)
  have "db_orders db' = [o']"
    by (rule place_order_effect [OF placed])
      (clarsimp simp: demo_db_def demo_order_def market_order_def update_row_def new_order_def)
  then have "small_amounts db' 1"
    using f by (simp add: small_amounts_def account_orders_def account_movements_def order_fills_def volume_def)
  then show ?thesis
    using order_flow_reconciles [OF pg.numeric_column_axioms r_into_rtranclp [where r = "order_step pg_numeric18", OF step] demo_records_ok] placed by blast
qed

definition unfilled_order :: trade_order where
  "unfilled_order = \<lparr>o_id = 5, o_workspace = 1, o_account = 1, o_intent = None, o_client_id = ''first'', o_instrument = 1,
     o_side = Buy_order, o_type = Market, o_time_in_force = ''gtc'', o_quantity = 1, o_filled = 1, o_limit_price = None,
     o_stop_price = None, o_status = Filled, o_submitted_at = Some 0, o_created_at = 0\<rparr>"

definition broken_db :: trading_db where
  "broken_db = demo_db\<lparr>db_orders := [unfilled_order]\<rparr>"

lemma broken_mismatched: "mismatched broken_db (1, 1)"
  by (simp add: mismatched_def reconcile_account_def reconcile_def load_account_rows_def account_orders_def broken_db_def
      demo_db_def ledger_findings_def order_findings_def fills_of_def finding_if_def unfilled_order_def differs_def
      reconciliation_tolerance_def max_findings_def arithmetic_defs decimal_eval Let_def)

theorem mismatch_stops_account_witness:
  "entry_blocked_by_halt (snd (check_ledger_reconciliation (\<lambda>_. demo_env) broken_db)) 1 1 None"
proof -
  obtain n db' where check: "check_ledger_reconciliation (\<lambda>_. demo_env) broken_db = (n, db')" by fastforce
  obtain f fs where found: "reconcile_account broken_db 1 = Inr (f # fs)"
    using broken_mismatched by (auto simp: mismatched_def)
  have "halts_ok broken_db" by (simp add: halts_ok_def broken_db_def demo_db_def exclusive_def)
  from mismatch_stops_account [OF this check, of f fs None] show ?thesis
    using found check
    by (simp add: awaits_check_def broken_db_def unfilled_order_def demo_db_def demo_catalog_def)
qed

subsection \<open>A position the check cannot reconcile\<close>

definition held :: trading_position where
  \<comment> \<open>ten thousand million bought at 1\<close>
  "held = \<lparr>p_id = 9, p_account = 1, p_instrument = 1, p_side = Long, p_quantity = 10000000000, p_entry = Some 1,
     p_realized = 0, p_stop_price = None, p_status = Open, p_version = 1, p_opened_at = Some 0, p_closed_at = None\<rparr>"

definition second_fill :: fill_row where
  \<comment> \<open>thirty thousand million more, at a price one unit of the 18th decimal higher\<close>
  "second_fill = \<lparr>f_id = 4, f_order = 3, f_price = 1000000000000000001 / 1000000000000000000, f_quantity = 30000000000,
     f_fee = 0, f_fee_asset = None, f_executed_at = 0\<rparr>"

definition large_rows :: account_rows where
  \<comment> \<open>two buys: the position as \<open>increased_row\<close> makes it and the database stores it\<close>
  "large_rows = \<lparr>rw_orders = [\<lparr>or_id = 1, or_instrument = 1, or_side = Buy_order, or_quantity = 10000000000,
       or_filled = 10000000000, or_status = Filled\<rparr>,
       \<lparr>or_id = 3, or_instrument = 1, or_side = Buy_order, or_quantity = 30000000000, or_filled = 30000000000, or_status = Filled\<rparr>],
     rw_fills = [\<lparr>fr_id = 2, fr_order = 1, fr_price = 1, fr_quantity = 10000000000, fr_fee = 0\<rparr>, fill_part second_fill],
     rw_entries = [\<lparr>er_fill = Some 2, er_type = Cash, er_amount = - 10000000000\<rparr>,
       \<lparr>er_fill = Some 4, er_type = Cash, er_amount = pg_numeric18 (dneg (dmul (f_price second_fill) (f_quantity second_fill)))\<rparr>],
     rw_refs = [Some 2, Some 4], rw_history = (\<lambda>_. None),
     rw_positions = [position_part (stored_position demo_env (increased_row held 1 second_fill))]\<rparr>"

lemma second_sel:
  "f_price second_fill = 1000000000000000001 / 1000000000000000000" "f_quantity second_fill = 30000000000"
  "f_id second_fill = 4" "f_order second_fill = 3" "f_fee second_fill = 0"
  by (simp_all add: second_fill_def)

lemma large_values:
  "dmul (1000000000000000001 / 1000000000000000000) 30000000000 = 3000000000000000003 / 100000000"
  "dmul 1 10000000000 = 10000000000"
  "dadd 10000000000 (3000000000000000003 / 100000000) = 4000000000000000003 / 100000000"
  "dadd 10000000000 30000000000 = 40000000000"
  "ddiv (4000000000000000003 / 100000000) 40000000000 = 4000000000000000003 / 4000000000000000000"
  "pg_numeric18 (4000000000000000003 / 4000000000000000000) = 1000000000000000001 / 1000000000000000000"
  using exact_grid [of 3000000000000000003 8] exact_grid [of 4000000000000000003 8] exact_grid [of 100000000000000000075 20]
  by (simp_all add: arithmetic_defs dec.round_exact dround_exact decimal_eval)
    (simp add: pg_numeric18_def, rule floor_unique, simp_all)

lemma large_position:
  "position_part (stored_position demo_env (increased_row held 1 second_fill)) = \<lparr>ps_id = 9, ps_instrument = 1, ps_side = Long,
     ps_quantity = 40000000000, ps_entry = Some (1000000000000000001 / 1000000000000000000), ps_realized = 0, ps_status = Open\<rparr>"
  by (simp add: position_part_def increased_row_def held_def second_sel large_values demo_env_def Let_def)

lemma large_integers:
  "dneg 10000000000 = - 10000000000" "dsum [- 10000000000] = - 10000000000"
  "dadd 0 10000000000 = 10000000000" "dadd 0 (- 10000000000) = - 10000000000"
  "dmul 1 40000000000 = 40000000000" "dsum [10000000000] = 10000000000" "dsum [30000000000] = 30000000000" "dsum [0] = 0" "dneg 0 = 0"
  by (simp_all add: arithmetic_defs decimal_eval)

lemma large_fractions:
  "dneg (3000000000000000003 / 100000000) = - (3000000000000000003 / 100000000)"
  "pg_numeric18 (- (3000000000000000003 / 100000000)) = - (3000000000000000003 / 100000000)"
  "dsum [- (3000000000000000003 / 100000000)] = - (3000000000000000003 / 100000000)"
  "dadd (- 10000000000) (- (3000000000000000003 / 100000000)) = - (4000000000000000003 / 100000000)"
  "dmul 1 (1000000000000000001 / 1000000000000000000) = 1000000000000000001 / 1000000000000000000"
  "dmul (1000000000000000001 / 1000000000000000000) 40000000000 = 1000000000000000001 / 25000000"
  "dadd (- (4000000000000000003 / 100000000)) (1000000000000000001 / 25000000) = 1 / 100000000"
proof -
  have e: "dround (3000000000000000003 / 100000000) = 3000000000000000003 / 100000000"
    "dround (4000000000000000003 / 100000000) = 4000000000000000003 / 100000000"
    "dround (1000000000000000001 / 25000000) = 1000000000000000001 / 25000000"
    "dround (1000000000000000001 / 1000000000000000000) = 1000000000000000001 / 1000000000000000000"
    "dround (1 / 100000000) = 1 / 100000000"
    using exact_grid [of 3000000000000000003 8] exact_grid [of 4000000000000000003 8] exact_grid [of 4000000000000000004 8]
      exact_grid [of 1000000000000000001 18] exact_grid [of 1 8] by (simp_all add: dec.round_exact)
  show "dneg (3000000000000000003 / 100000000) = - (3000000000000000003 / 100000000)"
    "dsum [- (3000000000000000003 / 100000000)] = - (3000000000000000003 / 100000000)"
    "dadd (- 10000000000) (- (3000000000000000003 / 100000000)) = - (4000000000000000003 / 100000000)"
    "dmul 1 (1000000000000000001 / 1000000000000000000) = 1000000000000000001 / 1000000000000000000"
    "dmul (1000000000000000001 / 1000000000000000000) 40000000000 = 1000000000000000001 / 25000000"
    "dadd (- (4000000000000000003 / 100000000)) (1000000000000000001 / 25000000) = 1 / 100000000"
    by (simp_all add: arithmetic_defs e)
  show "pg_numeric18 (- (3000000000000000003 / 100000000)) = - (3000000000000000003 / 100000000)"
    using pg.column_exact [of "- 30000000000000000030000000000"] by simp
qed

lemmas large_sums = large_integers large_fractions

text \<open>
  The tolerance of the cost check is absolute, the rounding of the stored entry price is not: on these written-out
  rows, whose position is the stored result of the order flow's own increase and whose entries carry the
  exact cost, the check reports a mismatch.
\<close>

lemma large_position_is_reported:
  "\<exists>d. reconcile large_rows = Inr [\<lparr>fd_code = ''position_cost_basis_mismatch'', fd_detail = d\<rparr>]"
proof -
  have rows: "rw_refs large_rows = [Some 2, Some 4]" "rw_history large_rows = (\<lambda>_. None)"
    "rw_fills large_rows = [\<lparr>fr_id = 2, fr_order = 1, fr_price = 1, fr_quantity = 10000000000, fr_fee = 0\<rparr>, fill_part second_fill]"
    "rw_positions large_rows = [\<lparr>ps_id = 9, ps_instrument = 1, ps_side = Long, ps_quantity = 40000000000,
       ps_entry = Some (1000000000000000001 / 1000000000000000000), ps_realized = 0, ps_status = Open\<rparr>]"
    "rw_orders large_rows = [\<lparr>or_id = 1, or_instrument = 1, or_side = Buy_order, or_quantity = 10000000000,
       or_filled = 10000000000, or_status = Filled\<rparr>,
       \<lparr>or_id = 3, or_instrument = 1, or_side = Buy_order, or_quantity = 30000000000, or_filled = 30000000000, or_status = Filled\<rparr>]"
    by (simp_all add: large_rows_def large_position)
  have orders: "order_of large_rows 1 = Some \<lparr>or_id = 1, or_instrument = 1, or_side = Buy_order, or_quantity = 10000000000,
       or_filled = 10000000000, or_status = Filled\<rparr>"
    "order_of large_rows 3 = Some \<lparr>or_id = 3, or_instrument = 1, or_side = Buy_order, or_quantity = 30000000000,
       or_filled = 30000000000, or_status = Filled\<rparr>"
    by (simp_all add: order_of_def rows)
  have fills: "fills_of large_rows 1 = [\<lparr>fr_id = 2, fr_order = 1, fr_price = 1, fr_quantity = 10000000000, fr_fee = 0\<rparr>]"
    "fills_of large_rows 3 = [fill_part second_fill]"
    by (simp_all add: fills_of_def rows second_sel)
  have entries: "entries_of large_rows 2 = [\<lparr>er_fill = Some 2, er_type = Cash, er_amount = - 10000000000\<rparr>]"
    "entries_of large_rows 4 = [\<lparr>er_fill = Some 4, er_type = Cash, er_amount = - (3000000000000000003 / 100000000)\<rparr>]"
    by (simp_all add: entries_of_def large_rows_def second_sel large_values large_sums)
  have fill: "fill_findings large_rows \<lparr>fr_id = 2, fr_order = 1, fr_price = 1, fr_quantity = 10000000000, fr_fee = 0\<rparr> = Inr []"
      "fill_findings large_rows (fill_part second_fill) = Inr []"
    by (simp_all add: fill_findings_def orders entries rows second_sel amounts_of_def large_values large_sums finding_if_def Let_def)
  have over: "differs (1 / 100000000) 0"
    using exact_grid [of 1 8] by (simp add: differs_def dsub_def dec.round_exact reconciliation_tolerance_def)
  have moves: "movements large_rows 1 = [(Buy_order, \<lparr>fr_id = 2, fr_order = 1, fr_price = 1, fr_quantity = 10000000000, fr_fee = 0\<rparr>),
      (Buy_order, fill_part second_fill)]"
    by (simp add: movements_def rows fills)
  have sums: "net_quantity (movements large_rows 1) = 40000000000"
      "net_cash (movements large_rows 1) = - (4000000000000000003 / 100000000)"
      "realized_in_ledger large_rows (movements large_rows 1) = 0"
    by (simp_all add: moves net_quantity_def net_cash_def realized_in_ledger_def entries amounts_of_def second_sel
        large_values large_sums Let_def)
  have instrument: "\<exists>d. instrument_findings large_rows 1 = [\<lparr>fd_code = ''position_cost_basis_mismatch'', fd_detail = d\<rparr>]"
    by (simp add: instrument_findings_def sums rows finding_if_def large_sums over Let_def)
  have quiet: "instruments_of large_rows = [1]" "ledger_findings large_rows = []"
      "concat (map (order_findings large_rows) (rw_orders large_rows)) = []"
    by (simp add: instruments_of_def rows, simp add: ledger_findings_def rows large_rows_def second_sel finding_if_def Let_def,
        simp add: rows order_findings_def fills second_sel large_sums finding_if_def Let_def)
  obtain d where "instrument_findings large_rows 1 = [\<lparr>fd_code = ''position_cost_basis_mismatch'', fd_detail = d\<rparr>]"
    using instrument by blast
  then have "reconcile large_rows = Inr [\<lparr>fd_code = ''position_cost_basis_mismatch'', fd_detail = d\<rparr>]"
    unfolding reconcile_def rows(3) quiet by (simp add: fill max_findings_def)
  then show ?thesis by blast
qed

end
