(* ===== verification/Coverage.thy ===== *)
theory Coverage
  imports Signals
begin

text \<open>
  Which candles are missing, \<open>app/market_data/domain/coverage.py\<close>: the gaps between stored candles,
  as runs of missing opening times, and the coverage of a requested range. The time in New York comes
  from the time zone database, a parameter.
\<close>

subsection \<open>Expected times\<close>

record gap_window =
  gw_from :: datetime
  gw_to :: datetime
  gw_expected :: nat
  gw_missing :: nat
  gw_reason :: string

definition hour_of :: "datetime \<Rightarrow> int" where
  "hour_of t = t mod day_length div (3600 * 1000000)"

definition is_expected_market_time :: "(datetime \<Rightarrow> datetime) \<Rightarrow> string \<Rightarrow> datetime \<Rightarrow> bool" where
  \<comment> \<open>an Oanda week closes on Friday and opens on Sunday, at 17:00 in New York\<close>
  "is_expected_market_time new_york exchange_code candle_open_time =
     (if exchange_code \<noteq> ''oanda'' then True
      else let new_york_time = new_york candle_open_time;
               weekday = weekday_of (date_of new_york_time)
           in if weekday = 5 then False
              else if weekday = 4 \<and> 17 \<le> hour_of new_york_time then False
              else \<not> (weekday = 6 \<and> hour_of new_york_time < 17))"

subsection \<open>Gaps\<close>

function missing_between :: "(datetime \<Rightarrow> bool) \<Rightarrow> timedelta \<Rightarrow> datetime \<Rightarrow> datetime \<Rightarrow> datetime list" where
  \<comment> \<open>the \<open>while\<close> loop; the step is a timeframe's, so it is positive\<close>
  "missing_between expected delta candidate current =
     (if candidate < current \<and> 0 < delta
      then (if expected candidate then [candidate] else []) @ missing_between expected delta (candidate + delta) current
      else [])"
  by pat_completeness auto
termination by (relation "measure (\<lambda>(_, _, candidate, current). nat (current - candidate))") auto

declare missing_between.simps [simp del]

definition gap_segment :: "datetime \<Rightarrow> datetime \<Rightarrow> nat \<Rightarrow> gap_window" where
  "gap_segment from_time to_time count = \<lparr>gw_from = from_time, gw_to = to_time, gw_expected = count,
     gw_missing = count, gw_reason = ''internal_missing_candles''\<rparr>"

definition segment_step ::
  "timedelta \<Rightarrow> gap_window list \<times> datetime \<times> nat \<Rightarrow> datetime \<times> datetime \<Rightarrow> gap_window list \<times> datetime \<times> nat" where
  "segment_step delta = (\<lambda>(gaps, start, count) (prior, missing).
     if missing \<noteq> prior + delta then (gaps @ [gap_segment start (prior + delta) count], missing, 1)
     else (gaps, start, count + 1))"

definition split_segments :: "timedelta \<Rightarrow> datetime list \<Rightarrow> gap_window list" where
  "split_segments delta missing_times =
     (case missing_times of [] \<Rightarrow> []
      | first # rest \<Rightarrow>
          let (gaps, start, count) = foldl (segment_step delta) ([], first, 1) (zip missing_times rest)
          in gaps @ [gap_segment start (last missing_times + delta) count])"

definition find_internal_gaps ::
  "(datetime \<Rightarrow> datetime) \<Rightarrow> datetime list \<Rightarrow> string \<Rightarrow> string \<Rightarrow> (string, gap_window list) result" where
  "find_internal_gaps new_york open_times timeframe exchange_code =
     res_bind (timeframe_delta timeframe) (\<lambda>delta.
       let ordered = sort (remdups open_times)
       in Inr (concat (map (\<lambda>(previous, current).
            split_segments delta (missing_between (is_expected_market_time new_york exchange_code) delta (previous + delta) current))
          (zip ordered (tl ordered)))))"

subsection \<open>Coverage of a requested range\<close>

record coverage_result =
  cv_requested_from :: "datetime option"
  cv_requested_to :: "datetime option"
  cv_actual_from :: "datetime option"
  cv_actual_to :: "datetime option"
  cv_stored_count :: nat
  cv_expected_count :: "int option"
  cv_missing_count :: "int option"
  cv_status :: string
  cv_source_limitation :: "string option"

definition whole_steps :: "timedelta \<Rightarrow> timedelta \<Rightarrow> int" where
  \<comment> \<open>\<open>int(width / delta)\<close>: a binary64 quotient, cut towards zero\<close>
  "whole_steps width delta = (let q = fround (of_int width / of_int delta) in if 0 \<le> q then \<lfloor>q\<rfloor> else \<lceil>q\<rceil>)"

definition classify_candle_coverage ::
  "string option \<Rightarrow> string \<Rightarrow> datetime option \<Rightarrow> datetime option \<Rightarrow> nat \<Rightarrow> datetime option \<Rightarrow> datetime option \<Rightarrow>
     int option \<Rightarrow> (string, coverage_result) result" where
  "classify_candle_coverage exchange_code timeframe requested_from requested_to stored_count actual_from actual_to
     internal_missing_count =
     res_bind (timeframe_delta timeframe) (\<lambda>delta.
       let (expected, missing, status) = (case (actual_from, actual_to) of
             (Some first_open, Some last_close) \<Rightarrow>
               if stored_count = 0 then (None, None, ''empty'')
               else let binance = (exchange_code = Some ''binance'' \<or> exchange_code = Some ''binance_public'');
                        expected = (case (requested_from, requested_to) of
                          (Some f, Some t) \<Rightarrow> if binance then Some (max 0 (whole_steps (t - f) delta)) else None
                        | _ \<Rightarrow> None);
                        missing = (case internal_missing_count of
                          None \<Rightarrow> if binance then Some (max 0 (max 1 (whole_steps (last_close - first_open) delta) - int stored_count)) else None
                        | Some m \<Rightarrow> Some m);
                        starts = (case requested_from of None \<Rightarrow> True | Some f \<Rightarrow> first_open \<le> f + delta);
                        ends = (case requested_to of None \<Rightarrow> True | Some t \<Rightarrow> t - delta \<le> last_close)
                    in (expected, missing,
                        if starts \<and> ends \<and> missing \<in> {None, Some 0} then ''complete''
                        else if missing \<notin> {None, Some 0} then ''partial_gaps''
                        else ''partial_source_limit'')
           | _ \<Rightarrow> (None, None, ''empty''))
       in Inr \<lparr>cv_requested_from = requested_from, cv_requested_to = requested_to, cv_actual_from = actual_from,
            cv_actual_to = actual_to, cv_stored_count = stored_count, cv_expected_count = expected,
            cv_missing_count = missing, cv_status = status,
            cv_source_limitation = (if exchange_code = Some ''binance'' \<and> status = ''partial_source_limit''
              then Some ''binance_testnet_periodic_reset'' else None)\<rparr>)"

subsection \<open>Lemmas: runs of missing times\<close>

definition window_times :: "timedelta \<Rightarrow> gap_window \<Rightarrow> datetime set" where
  "window_times delta g = {t. gw_from g \<le> t \<and> t < gw_to g \<and> (t - gw_from g) mod delta = 0}"

definition window_ok :: "timedelta \<Rightarrow> gap_window \<Rightarrow> bool" where
  "window_ok delta g \<longleftrightarrow> 0 < gw_missing g \<and> int (gw_missing g) * delta = gw_to g - gw_from g
     \<and> gw_expected g = gw_missing g"

lemma window_times_segment:
  assumes "0 < delta" "from_time + int count * delta = to_time"
  shows "window_times delta (gap_segment from_time to_time count) = (\<lambda>k. from_time + int k * delta) ` {..<count}"
proof (intro set_eqI iffI)
  fix t assume "t \<in> window_times delta (gap_segment from_time to_time count)"
  then have t: "from_time \<le> t" "t < to_time" "delta dvd t - from_time"
    by (simp_all add: window_times_def gap_segment_def dvd_eq_mod_eq_0)
  then obtain k where k: "t - from_time = delta * k" by (auto simp: dvd_def)
  then have "0 \<le> k" using t(1) assms(1) by (metis diff_ge_0_iff_ge mult.commute mult_less_0_iff not_less)
  moreover have "delta * k < delta * int count" using t(2) assms(2) k by (simp add: mult.commute)
  then have "k < int count" using assms(1) by simp
  ultimately have "t = from_time + int (nat k) * delta" "nat k < count" using k by (simp_all add: mult.commute)
  then show "t \<in> (\<lambda>k. from_time + int k * delta) ` {..<count}" by blast
next
  fix t assume "t \<in> (\<lambda>k. from_time + int k * delta) ` {..<count}"
  then obtain k where "k < count" "t = from_time + int k * delta" by blast
  moreover have "int k * delta < int count * delta" using \<open>k < count\<close> assms(1) by (intro mult_strict_right_mono) simp_all
  then have "from_time + int k * delta < to_time" using assms(2) by linarith
  ultimately show "t \<in> window_times delta (gap_segment from_time to_time count)"
    using assms by (simp add: window_times_def gap_segment_def)
qed

fun segments_from :: "timedelta \<Rightarrow> datetime \<Rightarrow> nat \<Rightarrow> datetime \<Rightarrow> datetime list \<Rightarrow> gap_window list" where
  \<comment> \<open>the same loop as a recursion over the times that follow\<close>
  "segments_from delta start count prior [] = [gap_segment start (prior + delta) count]"
| "segments_from delta start count prior (m # ms) =
     (if m \<noteq> prior + delta then gap_segment start (prior + delta) count # segments_from delta m 1 m ms
      else segments_from delta start (count + 1) m ms)"

lemma fold_segments:
  "foldl (segment_step delta) (gaps, start, count) (zip (prior # ms) ms) = (gaps', start', count') \<Longrightarrow>
     gaps' @ [gap_segment start' (last (prior # ms) + delta) count'] = gaps @ segments_from delta start count prior ms"
  by (induction ms arbitrary: gaps start count prior) (auto simp: segment_step_def split: if_splits)

lemma split_segments_Cons: "split_segments delta (m # ms) = segments_from delta m 1 m ms"
proof -
  obtain gaps start count where f: "foldl (segment_step delta) ([], m, 1) (zip (m # ms) ms) = (gaps, start, count)"
    by (metis prod_cases3)
  show ?thesis using fold_segments [OF f] f by (simp add: split_segments_def)
qed

lemma segments_from_times:
  assumes "0 < delta" "0 < count" "start + int count * delta = prior + delta"
  shows "(\<Union>g \<in> set (segments_from delta start count prior ms). window_times delta g)
    = (\<lambda>k. start + int k * delta) ` {..<count} \<union> set ms"
  using assms
proof (induction ms arbitrary: start count prior)
  case Nil
  then show ?case by (simp add: window_times_segment)
next
  case (Cons m ms)
  show ?case
  proof (cases "m = prior + delta")
    case True
    have "(\<lambda>k. start + int k * delta) ` {..<Suc count} = insert m ((\<lambda>k. start + int k * delta) ` {..<count})"
      using Cons.prems(3) True by (simp add: lessThan_Suc)
    then show ?thesis using Cons.IH [of "count + 1" start m] Cons.prems True by (simp add: algebra_simps)
  next
    case False
    then show ?thesis using Cons.IH [of 1 m m] Cons.prems by (simp add: window_times_segment lessThan_Suc)
  qed
qed

lemma segments_from_ok:
  assumes "0 < delta" "0 < count" "start + int count * delta = prior + delta"
    and "sorted_wrt (<) (prior # ms)" "\<forall>m \<in> set ms. delta dvd m - prior"
  shows "(\<forall>g \<in> set (segments_from delta start count prior ms). window_ok delta g \<and> start \<le> gw_from g
      \<and> gw_to g \<le> last (prior # ms) + delta)
    \<and> sorted_wrt (\<lambda>g h. gw_to g < gw_from h) (segments_from delta start count prior ms)"
  using assms
proof (induction ms arbitrary: start count prior)
  case Nil
  then show ?case by (simp add: window_ok_def gap_segment_def)
next
  case (Cons m ms)
  have div: "\<forall>k \<in> set ms. delta dvd k - m"
  proof
    fix k assume "k \<in> set ms"
    then have "delta dvd k - prior" "delta dvd m - prior" using Cons.prems(5) by simp_all
    from dvd_diff [OF this] show "delta dvd k - m" by simp
  qed
  have "m \<le> last (m # ms)" using Cons.prems(4) by (auto simp: less_imp_le)
  have above: "prior + delta \<le> m" using Cons.prems(4,5) zdvd_imp_le [of delta "m - prior"] by simp
  show ?case
  proof (cases "m = prior + delta")
    case True
    then show ?thesis using Cons.IH [of "count + 1" start m] Cons.prems div by (simp add: algebra_simps)
  next
    case False
    have "start \<le> prior + delta" using Cons.prems(1-3) by (smt (verit) of_nat_0_le_iff zero_le_mult_iff)
    then show ?thesis using Cons.IH [of 1 m m] Cons.prems div False above \<open>m \<le> last (m # ms)\<close>
      by (auto simp: window_ok_def gap_segment_def)
  qed
qed

subsection \<open>Lemmas: the gaps of a series\<close>

lemma next_step:
  assumes "0 < (delta :: int)"
  shows "candidate + delta \<le> t \<and> delta dvd t - (candidate + delta) \<longleftrightarrow> candidate < t \<and> delta dvd t - candidate"
proof -
  have "delta \<le> t - candidate" if "delta dvd t - candidate" "candidate < t"
    using zdvd_imp_le [OF that(1)] that(2) by simp
  moreover have "delta dvd t - candidate \<longleftrightarrow> delta dvd t - (candidate + delta)"
    by (metis add_diff_cancel_left' diff_diff_add dvd_diff_left_iff dvd_refl)
  ultimately show ?thesis using assms by force
qed

lemma missing_between_set:
  assumes "0 < delta"
  shows "set (missing_between expected delta candidate current) = {t. candidate \<le> t \<and> t < current \<and> delta dvd t - candidate \<and> expected t}"
  using assms
proof (induction expected delta candidate current rule: missing_between.induct)
  case (1 expected delta candidate current)
  have eq: "candidate \<le> t \<and> t < current \<and> delta dvd t - candidate
      \<longleftrightarrow> candidate < current \<and> (t = candidate \<or> candidate + delta \<le> t \<and> t < current \<and> delta dvd t - (candidate + delta))" for t
    using next_step [OF "1.prems", of candidate t] by auto
  show ?case
  proof (cases "candidate < current")
    case True
    have step: "missing_between expected delta candidate current
        = (if expected candidate then [candidate] else []) @ missing_between expected delta (candidate + delta) current"
      by (subst missing_between.simps) (use True "1.prems" in simp)
    have rest: "set (missing_between expected delta (candidate + delta) current)
        = {t. candidate + delta \<le> t \<and> t < current \<and> delta dvd t - (candidate + delta) \<and> expected t}"
      using "1.IH" True "1.prems" by simp
    show ?thesis unfolding step set_append rest
    proof (intro set_eqI)
      fix t
      show "t \<in> set (if expected candidate then [candidate] else []) \<union>
            {t. candidate + delta \<le> t \<and> t < current \<and> delta dvd t - (candidate + delta) \<and> expected t}
          \<longleftrightarrow> t \<in> {t. candidate \<le> t \<and> t < current \<and> delta dvd t - candidate \<and> expected t}"
        using eq [of t] True
        by (cases "expected candidate") (simp_all only: if_True if_False list.set Un_iff mem_Collect_eq, blast+)
    qed
  next
    case False
    then show ?thesis by (subst missing_between.simps) auto
  qed
qed

lemma missing_between_sorted:
  "0 < delta \<Longrightarrow> sorted_wrt (<) (missing_between expected delta candidate current)"
proof (induction expected delta candidate current rule: missing_between.induct)
  case (1 expected delta candidate current)
  then show ?case
    by (subst missing_between.simps) (auto simp: missing_between_set sorted_wrt_append)
qed

definition pair_gaps :: "(datetime \<Rightarrow> bool) \<Rightarrow> timedelta \<Rightarrow> datetime \<times> datetime \<Rightarrow> gap_window list" where
  "pair_gaps expected delta = (\<lambda>(previous, current). split_segments delta (missing_between expected delta (previous + delta) current))"

lemma pair_gaps_times:
  assumes "0 < delta"
  shows "(\<Union>g \<in> set (pair_gaps expected delta (p, c)). window_times delta g) = {t. p < t \<and> t < c \<and> delta dvd t - p \<and> expected t}"
proof -
  have set: "set (missing_between expected delta (p + delta) c) = {t. p < t \<and> t < c \<and> delta dvd t - p \<and> expected t}"
  proof -
    show ?thesis unfolding missing_between_set [OF assms] using next_step [OF assms] by blast
  qed
  show ?thesis
  proof (cases "missing_between expected delta (p + delta) c")
    case Nil
    then show ?thesis using set by (simp add: pair_gaps_def split_segments_def)
  next
    case (Cons m ms)
    have "(\<Union>g \<in> set (pair_gaps expected delta (p, c)). window_times delta g) = insert m (set ms)"
      using segments_from_times [OF assms, of 1 m m ms] by (simp add: pair_gaps_def Cons split_segments_Cons lessThan_Suc)
    then show ?thesis using set Cons by simp
  qed
qed

lemma pair_gaps_ok:
  assumes "0 < delta"
  shows "(\<forall>g \<in> set (pair_gaps expected delta (p, c)). window_ok delta g \<and> p + delta \<le> gw_from g \<and> gw_to g < c + delta)
    \<and> sorted_wrt (\<lambda>g h. gw_to g \<le> gw_from h) (pair_gaps expected delta (p, c))"
proof (cases "missing_between expected delta (p + delta) c")
  case Nil
  then show ?thesis by (simp add: pair_gaps_def split_segments_def)
next
  case (Cons m ms)
  note set = missing_between_set [OF assms, of expected "p + delta" c, unfolded Cons]
  have div: "\<forall>k \<in> set ms. delta dvd k - m"
  proof
    fix k assume "k \<in> set ms"
    then have "k \<in> {t. p + delta \<le> t \<and> t < c \<and> delta dvd t - (p + delta) \<and> expected t}"
        "m \<in> {t. p + delta \<le> t \<and> t < c \<and> delta dvd t - (p + delta) \<and> expected t}" using set by auto
    then have "delta dvd k - (p + delta)" "delta dvd m - (p + delta)" by simp_all
    from dvd_diff [OF this] show "delta dvd k - m" by simp
  qed
  have "sorted_wrt (<) (m # ms)" using missing_between_sorted [OF assms, of expected "p + delta" c] Cons by simp
  from segments_from_ok [OF assms _ _ this div, of 1 m]
  have ok: "\<forall>g \<in> set (segments_from delta m 1 m ms). window_ok delta g \<and> m \<le> gw_from g \<and> gw_to g \<le> last (m # ms) + delta"
    "sorted_wrt (\<lambda>g h. gw_to g < gw_from h) (segments_from delta m 1 m ms)" by simp_all
  have "m \<in> set (m # ms)" "last (m # ms) \<in> set (m # ms)" by (simp, rule last_in_set, simp)
  then have bounds: "p + delta \<le> m" "last (m # ms) < c" unfolding set by simp_all
  have "sorted_wrt (\<lambda>g h. gw_to g \<le> gw_from h) (segments_from delta m 1 m ms)"
    by (rule sorted_wrt_mono_rel [OF _ ok(2)]) simp
  moreover have "window_ok delta g \<and> p + delta \<le> gw_from g \<and> gw_to g < c + delta" if "g \<in> set (segments_from delta m 1 m ms)" for g
  proof -
    have "window_ok delta g" "m \<le> gw_from g" "gw_to g \<le> last (m # ms) + delta" using ok(1) that by blast+
    then show ?thesis using bounds by linarith
  qed
  ultimately show ?thesis by (simp add: pair_gaps_def Cons split_segments_Cons)
qed

lemma consecutive_pairs:
  assumes "sorted_wrt (<) (xs :: int list)"
  shows "(p, c) \<in> set (zip xs (tl xs)) \<longleftrightarrow> p \<in> set xs \<and> c \<in> set xs \<and> p < c \<and> (\<forall>s \<in> set xs. \<not> (p < s \<and> s < c))"
  using assms
proof (induction xs rule: induct_list012)
  case (3 a b ys)
  have "(p, c) \<in> set (zip (a # b # ys) (tl (a # b # ys))) \<longleftrightarrow> p = a \<and> c = b \<or> (p, c) \<in> set (zip (b # ys) (tl (b # ys)))" by simp
  also have "\<dots> \<longleftrightarrow> p = a \<and> c = b \<or> p \<in> set (b # ys) \<and> c \<in> set (b # ys) \<and> p < c \<and> (\<forall>s \<in> set (b # ys). \<not> (p < s \<and> s < c))"
    using "3.IH"(2) "3.prems" by simp
  also have "\<dots> \<longleftrightarrow> p \<in> set (a # b # ys) \<and> c \<in> set (a # b # ys) \<and> p < c \<and> (\<forall>s \<in> set (a # b # ys). \<not> (p < s \<and> s < c))"
    using "3.prems" by auto
  finally show ?case .
qed auto

lemma series_gaps_ok:
  assumes "0 < delta" "sorted_wrt (<) xs"
  shows "(\<forall>g \<in> set (concat (map (pair_gaps expected delta) (zip xs (tl xs)))). window_ok delta g \<and> hd xs + delta \<le> gw_from g)
    \<and> sorted_wrt (\<lambda>g h. gw_to g \<le> gw_from h) (concat (map (pair_gaps expected delta) (zip xs (tl xs))))"
  using assms(2)
proof (induction xs rule: induct_list012)
  case (3 a b ys)
  note pair = pair_gaps_ok [OF assms(1), of expected a b]
  show ?case using pair "3.IH"(2) "3.prems" by (fastforce simp: sorted_wrt_append)
qed auto

lemma find_internal_gaps_eq:
  assumes "timeframe_delta tf = Inr delta"
  shows "find_internal_gaps new_york ots tf ex = Inr (concat (map (pair_gaps (is_expected_market_time new_york ex) delta)
    (zip (sort (remdups ots)) (tl (sort (remdups ots))))))"
  by (simp add: find_internal_gaps_def assms pair_gaps_def [abs_def] Let_def)

lemma timeframe_delta_pos: "timeframe_delta tf = Inr delta \<Longrightarrow> 0 < delta"
  by (auto simp: timeframe_delta_def seconds_def split: option.splits dest: timeframe_seconds_pos)

lemma strictly_sorted: "sorted_wrt (<) (sort (remdups (xs :: int list)))"
  by (simp add: strict_sorted_iff)

text \<open>
  C33 (functional). The gaps are exactly the missing candles: when the stored candles open on the grid of their
  timeframe, a time lies in a gap, a whole number of steps from its start, if and only if it is a time
  on the grid between the first and the last stored candle, at which the market was open and at which
  no candle is stored. The windows are in order and do not overlap, and each counts the times it spans.
\<close>

theorem gaps_are_the_missing_candles:
  assumes "find_internal_gaps new_york open_times timeframe ex = Inr gaps" "timeframe_delta timeframe = Inr delta"
    and "\<forall>x \<in> set open_times. delta dvd x"
  shows "((\<exists>g \<in> set gaps. t \<in> window_times delta g) \<longleftrightarrow>
      (\<exists>p \<in> set open_times. p < t) \<and> (\<exists>c \<in> set open_times. t < c) \<and> t \<notin> set open_times \<and> delta dvd t
        \<and> is_expected_market_time new_york ex t)
    \<and> sorted_wrt (\<lambda>g h. gw_to g \<le> gw_from h) gaps \<and> (\<forall>g \<in> set gaps. window_ok delta g)"
proof -
  let ?xs = "sort (remdups open_times)" and ?E = "is_expected_market_time new_york ex" and ?S = "set open_times"
  note pos = timeframe_delta_pos [OF assms(2)]
  have gaps: "gaps = concat (map (pair_gaps ?E delta) (zip ?xs (tl ?xs)))"
    using assms(1) find_internal_gaps_eq [OF assms(2)] by simp
  have pairs: "(p, c) \<in> set (zip ?xs (tl ?xs)) \<longleftrightarrow> p \<in> ?S \<and> c \<in> ?S \<and> p < c \<and> (\<forall>s \<in> ?S. \<not> (p < s \<and> s < c))" for p c
    using consecutive_pairs [OF strictly_sorted, of p c open_times] by simp
  have "(\<exists>g \<in> set gaps. t \<in> window_times delta g)
      \<longleftrightarrow> (\<exists>(p, c) \<in> set (zip ?xs (tl ?xs)). t \<in> (\<Union>g \<in> set (pair_gaps ?E delta (p, c)). window_times delta g))"
    unfolding gaps by auto
  also have "\<dots> \<longleftrightarrow> (\<exists>p c. (p, c) \<in> set (zip ?xs (tl ?xs)) \<and> p < t \<and> t < c \<and> delta dvd t - p \<and> ?E t)"
    unfolding pair_gaps_times [OF pos] by auto
  also have "\<dots> \<longleftrightarrow> (\<exists>p \<in> ?S. p < t) \<and> (\<exists>c \<in> ?S. t < c) \<and> t \<notin> ?S \<and> delta dvd t \<and> ?E t"
  proof
    assume "\<exists>p c. (p, c) \<in> set (zip ?xs (tl ?xs)) \<and> p < t \<and> t < c \<and> delta dvd t - p \<and> ?E t"
    then obtain p c where pc: "p \<in> ?S" "c \<in> ?S" "\<forall>s \<in> ?S. \<not> (p < s \<and> s < c)" "p < t" "t < c" "delta dvd t - p" "?E t"
      unfolding pairs by blast
    moreover have "delta dvd t" using dvd_add [of delta "t - p" p] pc(1,6) assms(3) by simp
    ultimately show "(\<exists>p \<in> ?S. p < t) \<and> (\<exists>c \<in> ?S. t < c) \<and> t \<notin> ?S \<and> delta dvd t \<and> ?E t" by blast
  next
    assume r: "(\<exists>p \<in> ?S. p < t) \<and> (\<exists>c \<in> ?S. t < c) \<and> t \<notin> ?S \<and> delta dvd t \<and> ?E t"
    define p where "p = Max {s \<in> ?S. s < t}"
    define c where "c = Min {s \<in> ?S. t < s}"
    have p: "p \<in> {s \<in> ?S. s < t}" unfolding p_def by (rule Max_in) (use r in auto)
    have c: "c \<in> {s \<in> ?S. t < s}" unfolding c_def by (rule Min_in) (use r in auto)
    have "\<not> (p < s \<and> s < c)" if "s \<in> ?S" for s
    proof -
      have "s \<le> p" if "s < t" unfolding p_def by (rule Max_ge) (use that \<open>s \<in> ?S\<close> in auto)
      moreover have "c \<le> s" if "t < s" unfolding c_def by (rule Min_le) (use that \<open>s \<in> ?S\<close> in auto)
      moreover have "s \<noteq> t" using r \<open>s \<in> ?S\<close> by auto
      ultimately show ?thesis by linarith
    qed
    then have "(p, c) \<in> set (zip ?xs (tl ?xs))" using p c unfolding pairs by auto
    moreover have "delta dvd t - p" using p r assms(3) by (intro dvd_diff) auto
    ultimately show "\<exists>p c. (p, c) \<in> set (zip ?xs (tl ?xs)) \<and> p < t \<and> t < c \<and> delta dvd t - p \<and> ?E t"
      using p c r by blast
  qed
  finally have "(\<exists>g \<in> set gaps. t \<in> window_times delta g) \<longleftrightarrow>
    (\<exists>p \<in> ?S. p < t) \<and> (\<exists>c \<in> ?S. t < c) \<and> t \<notin> ?S \<and> delta dvd t \<and> ?E t" .
  moreover have "sorted_wrt (\<lambda>g h. gw_to g \<le> gw_from h) gaps \<and> (\<forall>g \<in> set gaps. window_ok delta g)"
    using series_gaps_ok [OF pos strictly_sorted, of ?E open_times] unfolding gaps by blast
  ultimately show ?thesis by blast
qed

end
