(* ===== verification/Market_Access.thy ===== *)
theory Market_Access
  imports Trading_Db
begin

text \<open>
  Whether a workspace may read market data from an exchange now, and through which connection:
  \<open>app/market_data/infrastructure/access.py\<close>, with the endpoint checks of \<open>exchanges/oanda.py\<close> and
  \<open>exchanges/binance.py\<close>. The stored secrets are a function from a reference to its keys.
\<close>

subsection \<open>Rows\<close>

record exchange_state =
  xs_id :: uuid
  xs_code :: string
  xs_status :: string

record workspace_row =
  ws_id :: uuid
  ws_status :: string

record access_connection = exchange_connection +
  cx_workspace :: uuid
  cx_environment :: string
  cx_base_url :: string
  cx_credentials_updated :: "datetime option"

record external_account =
  xa_id :: uuid
  xa_connection :: uuid
  xa_environment :: string
  xa_status :: string

record account_selection =
  as_workspace :: uuid
  as_exchange :: uuid
  as_account :: uuid
  as_updated :: datetime

record market_instrument = instrument +
  mi_status :: string

record access_tables =
  at_exchanges :: "exchange_state list"
  at_workspaces :: "workspace_row list"
  at_connections :: "access_connection list"
  at_accounts :: "external_account list"
  at_selections :: "account_selection list"
  at_instruments :: "market_instrument list"

type_synonym access_row = "exchange_state \<times> access_connection \<times> external_account \<times> account_selection"

record instrument_access =
  ia_instrument :: market_instrument
  ia_exchange :: exchange_state
  ia_connection :: access_connection
  ia_account :: external_account
  ia_selection :: account_selection
  ia_secret_ref :: string

definition access_error_codes :: "string set" where
  "access_error_codes = {''access_unavailable'', ''credentials_missing'', ''credentials_unreadable''}"

subsection \<open>The selected account\<close>

definition restrict_to_selected_account :: "access_tables \<Rightarrow> uuid \<Rightarrow> exchange_state \<Rightarrow> access_row list" where
  \<comment> \<open>the joins, for one exchange\<close>
  "restrict_to_selected_account db workspace_id e =
     [(e, c, a, s).
        s \<leftarrow> at_selections db, as_workspace s = workspace_id \<and> as_exchange s = xs_id e,
        w \<leftarrow> at_workspaces db, ws_id w = as_workspace s,
        a \<leftarrow> at_accounts db, xa_id a = as_account s,
        c \<leftarrow> at_connections db, cn_id c = xa_connection a,
        xs_status e = ''active'' \<and> ws_status w = ''active'' \<and> xa_status a = ''active''
          \<and> cx_workspace c = workspace_id \<and> cn_exchange c = xs_id e \<and> cn_status c = ''verified''
          \<and> xa_environment a = cx_environment c]"

definition selected_account_rows :: "access_tables \<Rightarrow> uuid \<Rightarrow> access_row list" where
  "selected_account_rows db workspace_id = concat (map (restrict_to_selected_account db workspace_id) (at_exchanges db))"

definition readable_instrument_ids :: "access_tables \<Rightarrow> uuid \<Rightarrow> uuid list" where
  "readable_instrument_ids db workspace_id =
     [i_id i. i \<leftarrow> at_instruments db, e \<leftarrow> at_exchanges db, i_exchange i = xs_id e,
        _ \<leftarrow> restrict_to_selected_account db workspace_id e, mi_status i = ''active'']"

definition instrument_is_readable :: "access_tables \<Rightarrow> uuid \<Rightarrow> uuid \<Rightarrow> bool" where
  "instrument_is_readable db workspace_id instrument_id \<longleftrightarrow>
     [i_id i. i \<leftarrow> at_instruments db, e \<leftarrow> at_exchanges db, i_exchange i = xs_id e,
        _ \<leftarrow> restrict_to_selected_account db workspace_id e, i_id i = instrument_id \<and> mi_status i = ''active''] \<noteq> []"

subsection \<open>Endpoints\<close>

record parsed_url =
  pu_scheme :: string
  pu_hostname :: "string option"
  pu_port :: "(string, nat option) result" \<comment> \<open>a port that is not a number raises when it is read\<close>

definition validate_url :: "(string \<Rightarrow> parsed_url) \<Rightarrow> string \<Rightarrow> string \<Rightarrow> string \<Rightarrow> (string, unit) result" where
  \<comment> \<open>the parser of the standard library is the argument\<close>
  "validate_url urlparse host client_error base_url =
     (let parsed = urlparse base_url
      in if pu_scheme parsed \<noteq> ''https'' \<or> pu_hostname parsed \<noteq> Some host then Inl client_error
         else res_bind (pu_port parsed) (\<lambda>port. raise_if (port \<noteq> None) client_error))"

definition validate_testnet_url :: "(string \<Rightarrow> parsed_url) \<Rightarrow> string \<Rightarrow> (string, unit) result" where
  "validate_testnet_url urlparse = validate_url urlparse ''testnet.binance.vision'' ''BinanceApiError''"

definition validate_practice_url :: "(string \<Rightarrow> parsed_url) \<Rightarrow> string \<Rightarrow> (string, unit) result" where
  "validate_practice_url urlparse = validate_url urlparse ''api-fxpractice.oanda.com'' ''OandaApiError''"

definition ensure_sandbox_endpoint :: "(string \<Rightarrow> parsed_url) \<Rightarrow> string \<Rightarrow> access_connection \<Rightarrow> (string, unit) result" where
  "ensure_sandbox_endpoint urlparse exchange_code connection =
     (if exchange_code = ''binance'' \<and> cx_environment connection = ''testnet''
      then validate_testnet_url urlparse (cx_base_url connection)
      else if exchange_code = ''oanda'' \<and> cx_environment connection = ''practice''
      then validate_practice_url urlparse (cx_base_url connection)
      else Inl ''access_unavailable'')"

subsection \<open>Credentials\<close>

type_synonym secrets = "string \<Rightarrow> (string \<rightharpoonup> string) option" \<comment> \<open>\<open>None\<close>: missing or unreadable\<close>

definition load_credentials :: "secrets \<Rightarrow> string option \<Rightarrow> string \<Rightarrow> (string, string \<rightharpoonup> string) result" where
  "load_credentials secrets secret_ref exchange_code =
     (case secret_ref of None \<Rightarrow> Inl ''credentials_missing''
      | Some ref \<Rightarrow>
          if ref = '''' then Inl ''credentials_missing''
          else case secrets ref of None \<Rightarrow> Inl ''credentials_unreadable''
          | Some credentials \<Rightarrow>
              let required = (if exchange_code = ''oanda'' then [''token''] else [''api_key'', ''secret_key''])
              in if list_all (\<lambda>key. case credentials key of None \<Rightarrow> False | Some v \<Rightarrow> v \<noteq> '''') required
                 then Inr credentials else Inl ''credentials_missing'')"

subsection \<open>The access to an instrument\<close>

definition instrument_rows :: "access_tables \<Rightarrow> uuid \<Rightarrow> uuid \<Rightarrow> (access_row \<times> market_instrument) list" where
  "instrument_rows db workspace_id instrument_id =
     [(r, i). r \<leftarrow> selected_account_rows db workspace_id, i \<leftarrow> at_instruments db,
        i_exchange i = xs_id (fst r) \<and> i_id i = instrument_id \<and> mi_status i = ''active'']"

definition resolve_instrument_access ::
  "(string \<Rightarrow> parsed_url) \<Rightarrow> access_tables \<Rightarrow> uuid \<Rightarrow> uuid \<Rightarrow> (string, instrument_access) result" where
  "resolve_instrument_access urlparse db workspace_id instrument_id =
     (case instrument_rows db workspace_id instrument_id of
        [] \<Rightarrow> Inl ''access_unavailable''
      | [((e, c, a, s), i)] \<Rightarrow>
          res_bind (ensure_sandbox_endpoint urlparse (xs_code e) c) (\<lambda>_.
            case cn_secret_ref c of None \<Rightarrow> Inl ''credentials_missing''
            | Some ref \<Rightarrow>
                if ref = '''' then Inl ''credentials_missing''
                else Inr \<lparr>ia_instrument = i, ia_exchange = e, ia_connection = c, ia_account = a, ia_selection = s,
                  ia_secret_ref = ref\<rparr>)
      | _ \<Rightarrow> Inl ''MultipleResultsFound'')"

definition check_collection_access ::
  "(string \<Rightarrow> parsed_url) \<Rightarrow> secrets \<Rightarrow> access_tables \<Rightarrow> uuid \<Rightarrow> uuid \<Rightarrow> (string, unit) result" where
  "check_collection_access urlparse secrets db workspace_id instrument_id =
     (case resolve_instrument_access urlparse db workspace_id instrument_id of
        Inl e \<Rightarrow> Inl (if e \<in> {''BinanceApiError'', ''OandaApiError''} then ''access_unavailable'' else e)
      | Inr access \<Rightarrow>
          res_bind (load_credentials secrets (Some (ia_secret_ref access)) (xs_code (ia_exchange access))) (\<lambda>_. Inr ()))"

subsection \<open>The worker's snapshot, \<open>page_access.py\<close>\<close>

record access_snapshot =
  ap_exchange :: string
  ap_symbol :: string
  ap_base_url :: string
  ap_connection :: uuid
  ap_account :: uuid
  ap_secret_ref :: string
  ap_credentials_updated :: "datetime option"
  ap_selection_updated :: datetime

definition resolve_access ::
  "(string \<Rightarrow> parsed_url) \<Rightarrow> access_tables \<Rightarrow> uuid \<Rightarrow> uuid \<Rightarrow> (string, access_snapshot) result" where
  "resolve_access urlparse db workspace_id instrument_id =
     res_bind (resolve_instrument_access urlparse db workspace_id instrument_id) (\<lambda>access.
       Inr \<lparr>ap_exchange = xs_code (ia_exchange access), ap_symbol = i_symbol (ia_instrument access),
         ap_base_url = cx_base_url (ia_connection access), ap_connection = cn_id (ia_connection access),
         ap_account = xa_id (ia_account access), ap_secret_ref = ia_secret_ref access,
         ap_credentials_updated = cx_credentials_updated (ia_connection access),
         ap_selection_updated = as_updated (ia_selection access)\<rparr>)"

subsection \<open>Lemmas\<close>

lemma validate_url_ok:
  "validate_url urlparse host err url = Inr u \<longleftrightarrow> pu_scheme (urlparse url) = ''https''
     \<and> pu_hostname (urlparse url) = Some host \<and> pu_port (urlparse url) = Inr None"
  by (cases "pu_port (urlparse url)") (auto simp: validate_url_def Let_def raise_if_def)

lemma sandbox_endpoint_ok:
  assumes "ensure_sandbox_endpoint urlparse code c = Inr u"
  shows "pu_scheme (urlparse (cx_base_url c)) = ''https'' \<and> pu_port (urlparse (cx_base_url c)) = Inr None
    \<and> (code = ''binance'' \<and> cx_environment c = ''testnet'' \<and> pu_hostname (urlparse (cx_base_url c)) = Some ''testnet.binance.vision''
       \<or> code = ''oanda'' \<and> cx_environment c = ''practice'' \<and> pu_hostname (urlparse (cx_base_url c)) = Some ''api-fxpractice.oanda.com'')"
  using assms
  by (auto simp: ensure_sandbox_endpoint_def validate_testnet_url_def validate_practice_url_def validate_url_ok split: if_splits)

lemma instrument_rows_mem:
  "((e, c, a, s), i) \<in> set (instrument_rows db wid iid) \<longleftrightarrow>
     e \<in> set (at_exchanges db) \<and> i \<in> set (at_instruments db) \<and> c \<in> set (at_connections db) \<and> a \<in> set (at_accounts db)
     \<and> s \<in> set (at_selections db) \<and> (\<exists>w \<in> set (at_workspaces db). ws_id w = wid \<and> ws_status w = ''active'')
     \<and> as_workspace s = wid \<and> as_exchange s = xs_id e \<and> as_account s = xa_id a \<and> xa_connection a = cn_id c
     \<and> xs_status e = ''active'' \<and> xa_status a = ''active'' \<and> cx_workspace c = wid \<and> cn_exchange c = xs_id e
     \<and> cn_status c = ''verified'' \<and> xa_environment a = cx_environment c
     \<and> i_exchange i = xs_id e \<and> i_id i = iid \<and> mi_status i = ''active''"
  by (auto simp: instrument_rows_def selected_account_rows_def restrict_to_selected_account_def)

lemma nonempty_iff: "xs \<noteq> [] \<longleftrightarrow> (\<exists>x. x \<in> set xs)"
  by (cases xs) auto

lemma restrict_exchange: "r \<in> set (restrict_to_selected_account db wid e) \<Longrightarrow> fst r = e"
  by (auto simp: restrict_to_selected_account_def)

lemma readable_rows: "instrument_is_readable db wid iid \<longleftrightarrow> (\<exists>i \<in> set (at_instruments db). \<exists>e \<in> set (at_exchanges db).
    restrict_to_selected_account db wid e \<noteq> [] \<and> i_exchange i = xs_id e \<and> i_id i = iid \<and> mi_status i = ''active'')"
  by (auto simp: instrument_is_readable_def split: if_splits)

lemma readable_iff: "instrument_is_readable db wid iid \<longleftrightarrow> instrument_rows db wid iid \<noteq> []"
proof
  assume "instrument_is_readable db wid iid"
  then obtain i e r where i: "i \<in> set (at_instruments db)" "i_exchange i = xs_id e" "i_id i = iid" "mi_status i = ''active''"
      and r: "e \<in> set (at_exchanges db)" "r \<in> set (restrict_to_selected_account db wid e)"
    unfolding readable_rows nonempty_iff by blast
  then have "(r, i) \<in> set (instrument_rows db wid iid)"
    using restrict_exchange[OF r(2)] by (cases r) (auto simp: instrument_rows_def selected_account_rows_def)
  then show "instrument_rows db wid iid \<noteq> []" by auto
next
  assume "instrument_rows db wid iid \<noteq> []"
  then obtain r i where "(r, i) \<in> set (instrument_rows db wid iid)" by (metis nonempty_iff surj_pair)
  then obtain e where "e \<in> set (at_exchanges db)" "r \<in> set (restrict_to_selected_account db wid e)"
      "i \<in> set (at_instruments db)" "i_exchange i = xs_id (fst r)" "i_id i = iid" "mi_status i = ''active''"
    unfolding instrument_rows_def selected_account_rows_def by auto
  then show "instrument_is_readable db wid iid"
    unfolding readable_rows nonempty_iff using restrict_exchange by blast
qed

lemma readable_ids_iff: "iid \<in> set (readable_instrument_ids db wid) \<longleftrightarrow> instrument_is_readable db wid iid"
  by (auto simp: instrument_is_readable_def readable_instrument_ids_def)

lemma resolve_row:
  assumes "resolve_instrument_access urlparse db wid iid = Inr access"
  shows "instrument_rows db wid iid = [((ia_exchange access, ia_connection access, ia_account access, ia_selection access), ia_instrument access)]"
    "ensure_sandbox_endpoint urlparse (xs_code (ia_exchange access)) (ia_connection access) = Inr ()"
    "cn_secret_ref (ia_connection access) = Some (ia_secret_ref access)"
  using assms
  by (auto simp: resolve_instrument_access_def result_simps split: list.splits prod.splits option.splits if_splits)

text \<open>
  The access a worker resolves goes to a sandbox only: an https endpoint without a port, the practice host of Oanda or the
  testnet host of Binance, on a verified connection of the workspace and an active account of that
  connection which the workspace selected; the instrument is readable by the workspace.
\<close>

theorem access_is_sandbox_only:
  assumes "resolve_access urlparse db wid iid = Inr snap"
  shows "pu_scheme (urlparse (ap_base_url snap)) = ''https'' \<and> pu_port (urlparse (ap_base_url snap)) = Inr None
    \<and> (ap_exchange snap = ''binance'' \<and> pu_hostname (urlparse (ap_base_url snap)) = Some ''testnet.binance.vision''
       \<or> ap_exchange snap = ''oanda'' \<and> pu_hostname (urlparse (ap_base_url snap)) = Some ''api-fxpractice.oanda.com'')
    \<and> instrument_is_readable db wid iid
    \<and> (\<exists>c \<in> set (at_connections db). cn_id c = ap_connection snap \<and> cx_workspace c = wid \<and> cn_status c = ''verified''
         \<and> cx_base_url c = ap_base_url snap
         \<and> (\<exists>a \<in> set (at_accounts db). xa_id a = ap_account snap \<and> xa_connection a = cn_id c \<and> xa_status a = ''active''
              \<and> xa_environment a = cx_environment c
              \<and> (\<exists>s \<in> set (at_selections db). as_workspace s = wid \<and> as_account s = xa_id a)))"
proof -
  obtain access where access: "resolve_instrument_access urlparse db wid iid = Inr access"
      and snap: "ap_exchange snap = xs_code (ia_exchange access)" "ap_base_url snap = cx_base_url (ia_connection access)"
        "ap_connection snap = cn_id (ia_connection access)" "ap_account snap = xa_id (ia_account access)"
    using assms by (auto simp: resolve_access_def result_simps)
  note row = resolve_row[OF access]
  have member: "((ia_exchange access, ia_connection access, ia_account access, ia_selection access), ia_instrument access)
      \<in> set (instrument_rows db wid iid)"
    by (simp add: row(1))
  have "instrument_is_readable db wid iid" by (simp add: readable_iff row(1))
  then show ?thesis
    using sandbox_endpoint_ok[OF row(2)] member unfolding instrument_rows_mem snap by blast
qed

end
