(* ===== verification/Market_Leases.thy ===== *)
theory Market_Leases
  imports Coverage Market_Access Trading_Halts "HOL-Library.Product_Lexorder" "HOL-Library.List_Lexorder" "HOL-Library.Char_ord"
    "HOL-Library.Multiset"
begin

text \<open>
  Who may work on a feed: \<open>app/market_data/infrastructure/leases.py\<close>, the rows it stores
  (\<open>models.py\<close>), the order in which due work is offered (\<open>candidates.py\<close>) and the notice of a stop
  (\<open>stop_notice.py\<close>). A transaction locks the lease row of its feed, so transactions on one
  feed run one after the other; what a \<open>try\<close> lock or \<open>skip_locked\<close> answers is a parameter.
\<close>

subsection \<open>Rows\<close>

datatype work_kind = Backfill | Polling

record feed_key =
  fk_workspace :: uuid
  fk_instrument :: uuid
  fk_timeframe :: string

record market_lease =
  ml_feed :: feed_key
  ml_owner :: "uuid option"
  ml_token :: "uuid option"
  ml_until :: "datetime option"
  ml_heartbeat :: "datetime option"
  ml_kind :: "work_kind option"
  ml_work :: "uuid option"

record work_fields =
  wf_id :: uuid
  wf_feed :: feed_key
  wf_next_fetch :: "datetime option"
  wf_next_run :: datetime
  wf_failures :: nat

record worker_backfill = work_fields +
  bf_from :: datetime
  bf_to :: datetime
  bf_status :: string
  bf_attempts :: nat
  bf_rows_written :: int
  bf_progress :: json
  bf_validation :: json
  bf_error :: "string option"
  bf_started :: "datetime option"
  bf_finished :: "datetime option"
  bf_gap :: "uuid option" \<comment> \<open>the last columns are those of \<open>BackfillJob\<close>\<close>
  bf_trigger :: string
  bf_created :: datetime

record worker_subscription = work_fields +
  sb_enabled :: bool
  sb_poll_interval :: int
  sb_last_success :: "datetime option"
  sb_blocked :: "string option"
  sb_scan_to :: "datetime option"
  sb_last_error :: "string option"
  sb_last_polled :: "datetime option"

datatype work_row = Job worker_backfill | Feed worker_subscription

record stored_candle = candle +
  sc_trade_count :: "int option"
  sc_source :: string
  sc_quality :: string
  sc_received_at :: datetime
  sc_corrected_at :: "datetime option"

record gap_row =
  gr_id :: uuid
  gr_instrument :: uuid
  gr_timeframe :: string
  gr_from :: datetime
  gr_to :: datetime
  gr_expected :: nat
  gr_missing :: nat
  gr_reason :: string
  gr_status :: string
  gr_resolved_at :: "datetime option"

record market_audit = audit_log +
  ma_before :: payload

record market_db =
  md_access :: access_tables
  md_trading :: trading_db \<comment> \<open>identifiers, events and the catalog\<close>
  md_leases :: "market_lease list"
  md_backfills :: "worker_backfill list"
  md_subscriptions :: "worker_subscription list"
  md_candles :: "stored_candle list"
  md_gaps :: "gap_row list"
  md_audit :: "market_audit list"

record work_ref =
  wr_feed :: feed_key
  wr_kind :: work_kind
  wr_id :: uuid

record lease_claim =
  lc_work :: work_ref
  lc_owner :: uuid
  lc_token :: uuid
  lc_next_fetch :: "datetime option"

definition active_jobs :: "string set" where
  "active_jobs = {''queued'', ''running'', ''validating''}"

fun row_id :: "work_row \<Rightarrow> uuid" where
  "row_id (Job b) = wf_id b" | "row_id (Feed s) = wf_id s"

fun row_feed :: "work_row \<Rightarrow> feed_key" where
  "row_feed (Job b) = wf_feed b" | "row_feed (Feed s) = wf_feed s"

fun row_next_fetch :: "work_row \<Rightarrow> datetime option" where
  "row_next_fetch (Job b) = wf_next_fetch b" | "row_next_fetch (Feed s) = wf_next_fetch s"

fun row_next_run :: "work_row \<Rightarrow> datetime" where
  "row_next_run (Job b) = wf_next_run b" | "row_next_run (Feed s) = wf_next_run s"

fun row_failures :: "work_row \<Rightarrow> nat" where
  "row_failures (Job b) = wf_failures b" | "row_failures (Feed s) = wf_failures s"

fun row_kind :: "work_row \<Rightarrow> work_kind" where
  "row_kind (Job _) = Backfill" | "row_kind (Feed _) = Polling"

subsection \<open>The notice of a stop\<close>

definition stopped_event_type :: string where
  "stopped_event_type = ''market_data_stopped''"

definition quiet_period :: timedelta where
  "quiet_period = seconds 3600"

definition kind_text :: "work_kind \<Rightarrow> string" where
  "kind_text k = (case k of Backfill \<Rightarrow> ''backfill'' | Polling \<Rightarrow> ''polling'')"

definition resource_of :: "work_kind \<Rightarrow> string" where
  "resource_of k = (case k of Backfill \<Rightarrow> ''backfill_job'' | Polling \<Rightarrow> ''market_data_subscription'')"

definition announce_stopped :: "tx_env \<Rightarrow> work_row \<Rightarrow> string \<Rightarrow> market_db \<Rightarrow> market_db" where
  "announce_stopped env target error_code db =
     (let feed = row_feed target;
          symbol = (case find (\<lambda>i. i_id i = fk_instrument feed) (cat_instruments (db_catalog (md_trading db))) of
            Some i \<Rightarrow> D_text (i_symbol i) | None \<Rightarrow> D_id (fk_instrument feed));
          already_told = (\<exists>e \<in> set (db_events (md_trading db)). se_workspace e = fk_workspace feed
            \<and> se_event_type e = stopped_event_type \<and> se_target_id e = Some (fk_instrument feed)
            \<and> se_reason e = Some error_code \<and> env_now env - quiet_period < se_occurred_at e)
      in if already_told then db
         else db\<lparr>md_trading := snd (publish_system_event env (fk_workspace feed)
                (if row_kind target = Backfill then ''warning'' else ''error'') ''market_data'' stopped_event_type
                (Some error_code) [''stopped'', error_code]
                [(''kind'', D_text (if row_kind target = Backfill then ''backfill'' else ''subscription'')), (''symbol'', symbol),
                 (''instrument_id'', D_id (fk_instrument feed)), (''timeframe'', D_text (fk_timeframe feed)),
                 (''error_code'', D_text error_code), (''consecutive_failures'', D_int (int (row_failures target)))]
                (resource_of (row_kind target)) (row_id target) ''market_data_worker'' None (Some ''instrument'')
                (Some (fk_instrument feed)) None (md_trading db))\<rparr>)"

subsection \<open>Reading and writing the rows\<close>

definition find_lease :: "market_db \<Rightarrow> feed_key \<Rightarrow> market_lease option" where
  "find_lease db feed = find (\<lambda>l. ml_feed l = feed) (md_leases db)"

definition store_lease :: "market_lease \<Rightarrow> market_db \<Rightarrow> market_db" where
  "store_lease l db = db\<lparr>md_leases := map (\<lambda>x. if ml_feed x = ml_feed l then l else x) (md_leases db)\<rparr>"

definition find_target :: "market_db \<Rightarrow> work_ref \<Rightarrow> work_row option" where
  "find_target db work =
     (case wr_kind work of
        Backfill \<Rightarrow> map_option Job (find (\<lambda>b. wf_id b = wr_id work \<and> wf_feed b = wr_feed work) (md_backfills db))
      | Polling \<Rightarrow> map_option Feed (find (\<lambda>s. wf_id s = wr_id work \<and> wf_feed s = wr_feed work) (md_subscriptions db)))"

fun store_target :: "work_row \<Rightarrow> market_db \<Rightarrow> market_db" where
  "store_target (Job b) db = db\<lparr>md_backfills := update_row wf_id b (md_backfills db)\<rparr>"
| "store_target (Feed s) db = db\<lparr>md_subscriptions := update_row wf_id s (md_subscriptions db)\<rparr>"

fun active_target :: "work_row \<Rightarrow> bool" where
  "active_target (Job b) = (bf_status b \<in> active_jobs)"
| "active_target (Feed s) = (sb_enabled s \<and> sb_blocked s = None)"

definition owned :: "market_lease \<Rightarrow> lease_claim \<Rightarrow> datetime \<Rightarrow> bool" where
  "owned lease cl now \<longleftrightarrow> ml_token lease = Some (lc_token cl) \<and> ml_owner lease = Some (lc_owner cl)
     \<and> ml_kind lease = Some (wr_kind (lc_work cl)) \<and> ml_work lease = Some (wr_id (lc_work cl))
     \<and> (case ml_until lease of None \<Rightarrow> False | Some t \<Rightarrow> now < t)"

definition cleared :: "market_lease \<Rightarrow> market_lease" where
  "cleared lease = lease\<lparr>ml_owner := None, ml_token := None, ml_until := None, ml_heartbeat := None,
     ml_kind := None, ml_work := None\<rparr>"

fun target_state :: "work_row \<Rightarrow> payload" where
  "target_state (Job b) = [(''status'', D_text (bf_status b)), (''consecutive_failures'', D_int (int (wf_failures b)))]"
| "target_state (Feed s) = [(''enabled'', D_bool (sb_enabled s)), (''blocked_reason'', optional D_text (sb_blocked s)),
     (''consecutive_failures'', D_int (int (wf_failures s)))]"

definition market_fresh_id :: "market_db \<Rightarrow> uuid \<times> market_db" where
  "market_fresh_id db = (let (i, t) = fresh_id (md_trading db) in (i, db\<lparr>md_trading := t\<rparr>))"

definition lease_audit :: "work_ref \<Rightarrow> string \<Rightarrow> payload \<Rightarrow> payload \<Rightarrow> market_db \<Rightarrow> market_db" where
  "lease_audit work action data before db =
     (let (cid, db1) = market_fresh_id db
      in db1\<lparr>md_audit := md_audit db1 @ [\<lparr>al_workspace = fk_workspace (wr_feed work), al_actor = None, al_action = action,
           al_resource_type = resource_of (wr_kind work), al_resource_id = wr_id work, al_after = data,
           al_correlation = cid, ma_before = before\<rparr>]\<rparr>)"

subsection \<open>Recovering an expired lease\<close>

definition recovery_delay :: "nat \<Rightarrow> uuid \<Rightarrow> timedelta" where
  \<comment> \<open>the spread by identifier keeps feeds apart\<close>
  "recovery_delay failures wid = seconds ((if failures = 1 then 30 else 120) + int (wid mod 6))"

fun interrupted :: "datetime \<Rightarrow> work_row \<Rightarrow> work_row" where
  "interrupted now (Job b) =
     (let failures = wf_failures b + 1
      in Job (b\<lparr>wf_failures := failures, wf_next_run := now + recovery_delay failures (wf_id b),
           bf_error := Some ''worker_interrupted'', bf_status := (if 3 \<le> failures then ''failed'' else ''queued''),
           bf_finished := (if 3 \<le> failures then Some now else None)\<rparr>))"
| "interrupted now (Feed s) =
     (let failures = wf_failures s + 1
      in Feed (s\<lparr>wf_failures := failures, wf_next_run := now + recovery_delay failures (wf_id s),
           sb_last_error := Some ''worker_interrupted'',
           sb_blocked := (if 3 \<le> failures then Some ''worker_interrupted'' else sb_blocked s)\<rparr>))"

definition recover_target :: "tx_env \<Rightarrow> work_ref \<Rightarrow> work_row option \<Rightarrow> market_db \<Rightarrow> payload \<times> market_db" where
  "recover_target env work target db =
     (let base = [(''error_code'', D_text ''worker_interrupted''), (''kind'', D_text (kind_text (wr_kind work)))]
      in case target of
        Some t \<Rightarrow>
          if active_target t
          then let t' = interrupted (env_now env) t;
                   db1 = store_target t' db
               in (base @ (case t' of Job b \<Rightarrow> [(''status'', D_text (bf_status b))]
                     | Feed s \<Rightarrow> [(''blocked'', D_bool (sb_blocked s \<noteq> None))])
                   @ [(''consecutive_failures'', D_int (int (row_failures t')))],
                   if 3 \<le> row_failures t' then announce_stopped env t' ''worker_interrupted'' db1 else db1)
          else (base @ [(''target_inactive'', D_bool True)], db)
      | None \<Rightarrow> (base @ [(''target_inactive'', D_bool True)], db))"

definition recover :: "tx_env \<Rightarrow> market_lease \<Rightarrow> market_db \<Rightarrow> (string, market_db) result" where
  "recover env lease db =
     (case (ml_kind lease, ml_work lease) of
        (Some kind, Some wid) \<Rightarrow>
          let work = \<lparr>wr_feed = ml_feed lease, wr_kind = kind, wr_id = wid\<rparr>;
              target = find_target db work;
              before = (case target of Some t \<Rightarrow> target_state t | None \<Rightarrow> [(''target_missing'', D_bool True)]);
              (result, db1) = recover_target env work target db
          in Inr (store_lease (cleared lease) (lease_audit work ''market_data.lease_recovered'' result before db1))
      | _ \<Rightarrow> Inl ''RuntimeError'')"

subsection \<open>Claiming, keeping and giving back\<close>

definition new_lease :: "feed_key \<Rightarrow> market_lease" where
  "new_lease feed = \<lparr>ml_feed = feed, ml_owner = None, ml_token = None, ml_until = None, ml_heartbeat = None,
     ml_kind = None, ml_work = None\<rparr>"

definition ensure_lease :: "feed_key \<Rightarrow> market_db \<Rightarrow> market_db" where
  "ensure_lease feed db = (if find_lease db feed = None then db\<lparr>md_leases := md_leases db @ [new_lease feed]\<rparr> else db)"

fun started :: "datetime \<Rightarrow> work_row \<Rightarrow> work_row" where
  \<comment> \<open>a queued job starts to run\<close>
  "started now (Job b) = Job (if bf_status b = ''queued''
     then b\<lparr>bf_status := ''running'', bf_attempts := bf_attempts b + 1,
            bf_started := (case bf_started b of None \<Rightarrow> Some now | Some t \<Rightarrow> Some t), bf_finished := None\<rparr>
     else b)"
| "started now (Feed s) = Feed s"

definition grant ::
  "tx_env \<Rightarrow> timedelta \<Rightarrow> work_ref \<Rightarrow> uuid \<Rightarrow> market_lease \<Rightarrow> work_row \<Rightarrow> market_db \<Rightarrow> lease_claim \<times> market_db" where
  "grant env duration work owner lease target db =
     (let now = env_now env;
          (token, db1) = market_fresh_id db;
          lease' = lease\<lparr>ml_owner := Some owner, ml_token := Some token, ml_until := Some (now + duration),
            ml_heartbeat := Some now, ml_kind := Some (wr_kind work), ml_work := Some (wr_id work)\<rparr>;
          target' = started now target
      in (\<lparr>lc_work = work, lc_owner = owner, lc_token = token, lc_next_fetch = row_next_fetch target'\<rparr>,
          lease_audit work ''market_data.work_claimed'' ((''kind'', D_text (kind_text (wr_kind work))) # target_state target')
            (target_state target) (store_target target' (store_lease lease' db1))))"

definition claim_work ::
  "tx_env \<Rightarrow> timedelta \<Rightarrow> bool \<Rightarrow> work_ref \<Rightarrow> uuid \<Rightarrow> market_db \<Rightarrow> (string, lease_claim option \<times> market_db) result" where
  \<comment> \<open>\<open>busy\<close>: the advisory lock or the row of the feed is held by another transaction\<close>
  "claim_work env duration busy work owner db =
     (if busy then Inr (None, db)
      else let db1 = ensure_lease (wr_feed work) db
      in case find_lease db1 (wr_feed work) of
        None \<Rightarrow> Inr (None, db1)
      | Some lease \<Rightarrow>
          if ml_token lease \<noteq> None \<and> (case ml_until lease of None \<Rightarrow> True | Some t \<Rightarrow> env_now env < t)
          then Inr (None, db1)
          else res_bind (if ml_token lease \<noteq> None then recover env lease db1 else Inr db1) (\<lambda>db2.
            case find_target db2 work of
              None \<Rightarrow> Inr (None, db2)
            | Some target \<Rightarrow>
                if \<not> active_target target \<or> env_now env < row_next_run target then Inr (None, db2)
                else let (cl, db3) = grant env duration work owner (cleared lease) target db2 in Inr (Some cl, db3)))"

definition heartbeat :: "tx_env \<Rightarrow> timedelta \<Rightarrow> lease_claim \<Rightarrow> market_db \<Rightarrow> bool \<times> market_db" where
  "heartbeat env duration cl db =
     (case find_lease db (wr_feed (lc_work cl)) of
        None \<Rightarrow> (False, db)
      | Some lease \<Rightarrow>
          if \<not> owned lease cl (env_now env) then (False, db)
          else (True, store_lease (lease\<lparr>ml_heartbeat := Some (env_now env), ml_until := Some (env_now env + duration)\<rparr>) db))"

definition release_lease :: "tx_env \<Rightarrow> lease_claim \<Rightarrow> market_db \<Rightarrow> bool \<times> market_db" where
  "release_lease env cl db =
     (case find_lease db (wr_feed (lc_work cl)) of
        None \<Rightarrow> (False, db)
      | Some lease \<Rightarrow> if \<not> owned lease cl (env_now env) then (False, db) else (True, store_lease (cleared lease) db))"

definition guarded_write ::
  "tx_env \<Rightarrow> lease_claim \<Rightarrow> bool \<Rightarrow> (work_row \<Rightarrow> market_db \<Rightarrow> (string, 'a \<times> market_db) result) \<Rightarrow> market_db \<Rightarrow>
     (string, 'a \<times> market_db) result" where
  \<comment> \<open>the caller's block runs on the locked target; an error rolls back\<close>
  "guarded_write env cl release body db =
     (case find_lease db (wr_feed (lc_work cl)) of
        None \<Rightarrow> Inl ''LeaseLost''
      | Some lease \<Rightarrow>
          if \<not> owned lease cl (env_now env) then Inl ''LeaseLost''
          else case find_target db (lc_work cl) of
            None \<Rightarrow> Inl ''LeaseLost''
          | Some target \<Rightarrow>
              if \<not> active_target target \<or> row_next_fetch target \<noteq> lc_next_fetch cl then Inl ''LeaseLost''
              else res_bind (body target db) (\<lambda>(x, db1).
                Inr (x, if release then store_lease (cleared lease) db1 else db1)))"

definition recover_expired :: "tx_env \<Rightarrow> (feed_key \<Rightarrow> bool) \<Rightarrow> nat \<Rightarrow> market_db \<Rightarrow> (string, nat \<times> market_db) result" where
  \<comment> \<open>the earliest expired leases that no other transaction has locked\<close>
  "recover_expired env locked limit db =
     (if \<not> (1 \<le> limit \<and> limit \<le> 1000) then Inl ''ValueError''
      else let expired = take limit (sort_key (\<lambda>l. the (ml_until l))
             (filter (\<lambda>l. (case ml_until l of None \<Rightarrow> False | Some t \<Rightarrow> t \<le> env_now env) \<and> \<not> locked (ml_feed l)) (md_leases db)))
      in res_bind (run_steps (\<lambda>db l. recover env l db) db expired) (\<lambda>db1. Inr (length expired, db1)))"

subsection \<open>Due work\<close>

definition due_rows :: "nat \<Rightarrow> (work_row \<Rightarrow> bool) \<Rightarrow> work_row list \<Rightarrow> work_row list" where
  \<comment> \<open>one of the two queries: ordered by time and identifier\<close>
  "due_rows limit due rows = take limit (sort_key row_next_run (sort_key row_id (filter due rows)))"

definition due_key :: "work_row \<Rightarrow> datetime \<times> uuid \<times> uuid \<times> uuid \<times> string" where
  "due_key r = (row_next_run r, row_id r, fk_workspace (row_feed r), fk_instrument (row_feed r), fk_timeframe (row_feed r))"

fun merge_due :: "work_row list \<Rightarrow> work_row list \<Rightarrow> work_row list" where
  \<comment> \<open>\<open>heapq.merge\<close> on the rows: among equal keys the first iterable first\<close>
  "merge_due [] ys = ys"
| "merge_due xs [] = xs"
| "merge_due (x # xs) (y # ys) =
     (if due_key y < due_key x then y # merge_due (x # xs) ys
      else x # merge_due xs (y # ys))"

definition due_work :: "datetime \<Rightarrow> nat \<Rightarrow> market_db \<Rightarrow> (string, work_ref list) result" where
  "due_work now limit db =
     (if \<not> (1 \<le> limit \<and> limit \<le> 5000) then Inl ''ValueError''
      else let ready = (\<lambda>r. active_target r \<and> row_next_run r \<le> now);
               backfills = due_rows limit ready (map Job (md_backfills db));
               subscriptions = due_rows limit ready (map Feed (md_subscriptions db))
           in Inr (take limit (map (\<lambda>r. \<lparr>wr_feed = row_feed r, wr_kind = row_kind r, wr_id = row_id r\<rparr>)
                (merge_due backfills subscriptions))))"

subsection \<open>How a lease may change\<close>

abbreviation ids :: "market_db \<Rightarrow> uuid" where
  "ids db \<equiv> db_next_id (md_trading db)"

definition lease_ok :: "uuid \<Rightarrow> market_lease \<Rightarrow> bool" where
  "lease_ok n l \<longleftrightarrow> (case ml_token l of
      None \<Rightarrow> l = new_lease (ml_feed l)
    | Some t \<Rightarrow> t < n \<and> ml_owner l \<noteq> None \<and> ml_until l \<noteq> None \<and> ml_kind l \<noteq> None \<and> ml_work l \<noteq> None)"

definition leases_ok :: "market_db \<Rightarrow> bool" where
  "leases_ok db \<longleftrightarrow> distinct (map ml_feed (md_leases db)) \<and> (\<forall>l \<in> set (md_leases db). lease_ok (ids db) l)"

definition lease_move :: "market_db \<Rightarrow> market_db \<Rightarrow> bool" where
  \<comment> \<open>tokens on a feed stay, go, or are new\<close>
  "lease_move db db' \<longleftrightarrow> ids db \<le> ids db' \<and> (leases_ok db \<longrightarrow> leases_ok db')
     \<and> (\<forall>l' \<in> set (md_leases db'). \<forall>t. ml_token l' = Some t \<longrightarrow>
          ids db \<le> t \<or> (\<exists>l \<in> set (md_leases db). ml_feed l = ml_feed l' \<and> ml_token l = Some t))"

definition same_leases :: "market_db \<Rightarrow> market_db \<Rightarrow> bool" where
  "same_leases db db' \<longleftrightarrow> md_leases db' = md_leases db \<and> ids db \<le> ids db'"

named_theorems lease_moves

lemma lease_ok_mono: "lease_ok n l \<Longrightarrow> n \<le> n' \<Longrightarrow> lease_ok n' l"
  by (auto simp: lease_ok_def split: option.splits)

lemma same_leases_move: "same_leases db db' \<Longrightarrow> lease_move db db'"
  by (auto simp: same_leases_def lease_move_def leases_ok_def intro: lease_ok_mono)

lemma lease_move_refl [lease_moves]: "lease_move db db"
  by (auto simp: lease_move_def)

lemma lease_move_token:
  assumes "lease_move db db'" "l' \<in> set (md_leases db')" "ml_token l' = Some t"
  obtains "ids db \<le> t" | l where "l \<in> set (md_leases db)" "ml_feed l = ml_feed l'" "ml_token l = Some t"
  using assms unfolding lease_move_def by blast

lemma lease_move_trans:
  assumes "lease_move a b" "lease_move b c"
  shows "lease_move a c"
proof -
  have "ids a \<le> t \<or> (\<exists>l0 \<in> set (md_leases a). ml_feed l0 = ml_feed l \<and> ml_token l0 = Some t)"
    if "l \<in> set (md_leases c)" "ml_token l = Some t" for l t
    using assms(2) that
  proof (cases rule: lease_move_token)
    case 1
    then show ?thesis using assms(1) by (simp add: lease_move_def)
  next
    case (2 l')
    then show ?thesis using lease_move_token[OF assms(1), of l' t] by metis
  qed
  then show ?thesis using assms by (simp add: lease_move_def)
qed

lemma same_leases_refl [simp]: "same_leases db db"
  by (simp add: same_leases_def)

lemma same_leases_trans: "same_leases a b \<Longrightarrow> same_leases b c \<Longrightarrow> same_leases a c"
  by (auto simp: same_leases_def)

lemma lease_move_leases_ok: "lease_move db db' \<Longrightarrow> leases_ok db \<Longrightarrow> leases_ok db'"
  by (simp add: lease_move_def)

lemma find_lease_Some:
  assumes "find_lease db feed = Some l"
  shows "l \<in> set (md_leases db)" "ml_feed l = feed"
  using assms by (auto simp: find_lease_def find_Some_iff)

lemma find_unique: "distinct (map f xs) \<Longrightarrow> x \<in> set xs \<Longrightarrow> find (\<lambda>y. f y = f x) xs = Some x"
proof (induction xs)
  case (Cons a xs)
  then show ?case by (cases "f a = f x") auto
qed simp

lemma find_lease_unique: "leases_ok db \<Longrightarrow> l \<in> set (md_leases db) \<Longrightarrow> find_lease db (ml_feed l) = Some l"
  unfolding find_lease_def by (rule find_unique) (auto simp: leases_ok_def)

lemma store_lease_move:
  assumes "\<And>t. ml_token l = Some t \<Longrightarrow> ids db \<le> t \<or> (\<exists>l0 \<in> set (md_leases db). ml_feed l0 = ml_feed l \<and> ml_token l0 = Some t)"
    and "leases_ok db \<Longrightarrow> lease_ok (ids db') l"
    and "md_leases db' = map (\<lambda>x. if ml_feed x = ml_feed l then l else x) (md_leases db)" "ids db \<le> ids db'"
  shows "lease_move db db'"
proof -
  have feeds: "map ml_feed (md_leases db') = map ml_feed (md_leases db)" by (simp add: assms(3))
  have origin: "l' = l \<or> l' \<in> set (md_leases db)" if "l' \<in> set (md_leases db')" for l'
    using that by (auto simp: assms(3))
  have "leases_ok db'" if ok: "leases_ok db"
    using ok assms(2)[OF ok] assms(4) feeds origin unfolding leases_ok_def by (metis lease_ok_mono)
  then show ?thesis
    unfolding lease_move_def using assms(1,4) origin by blast
qed

lemma put_lease_move:
  assumes "\<And>t. ml_token l = Some t \<Longrightarrow> ids db \<le> t \<or> (\<exists>l0 \<in> set (md_leases db). ml_feed l0 = ml_feed l \<and> ml_token l0 = Some t)"
    and "leases_ok db \<Longrightarrow> lease_ok (ids db) l"
  shows "lease_move db (store_lease l db)"
  using assms by (intro store_lease_move[where l = l]) (auto simp: store_lease_def)

lemma cleared_simps [simp]:
  "ml_feed (cleared l) = ml_feed l" "ml_token (cleared l) = None" "lease_ok n (cleared l)" "lease_ok n (new_lease feed)"
  "ml_feed (new_lease feed) = feed" "ml_token (new_lease feed) = None"
  by (simp_all add: cleared_def new_lease_def lease_ok_def)

lemma store_cleared_move [lease_moves]: "lease_move db (store_lease (cleared l) db)"
  by (rule store_lease_move) (auto simp: store_lease_def)

lemma announce_same [simp]: "same_leases db (announce_stopped env t e db)"
  by (auto simp: announce_stopped_def same_leases_def Let_def intro: less_imp_le[OF publish_next_id])

lemma announce_rows [simp]:
  "md_backfills (announce_stopped env t e db) = md_backfills db"
  "md_subscriptions (announce_stopped env t e db) = md_subscriptions db"
  "md_candles (announce_stopped env t e db) = md_candles db"
  "md_gaps (announce_stopped env t e db) = md_gaps db"
  by (simp_all add: announce_stopped_def Let_def)

lemma store_target_simps [simp]:
  "md_leases (store_target t db) = md_leases db" "md_trading (store_target t db) = md_trading db"
  "md_candles (store_target t db) = md_candles db" "md_gaps (store_target t db) = md_gaps db"
  "md_audit (store_target t db) = md_audit db"
  by (cases t; simp)+

lemma store_target_same [simp]: "same_leases db (store_target t db)"
  by (simp add: same_leases_def)

lemma lease_audit_same [simp]: "same_leases db (lease_audit w a d b db)"
  by (simp add: lease_audit_def market_fresh_id_def fresh_id_def same_leases_def)

lemma lease_audit_rows [simp]:
  "md_backfills (lease_audit w a d b db) = md_backfills db"
  "md_subscriptions (lease_audit w a d b db) = md_subscriptions db"
  "md_candles (lease_audit w a d b db) = md_candles db" "md_gaps (lease_audit w a d b db) = md_gaps db"
  by (simp_all add: lease_audit_def market_fresh_id_def fresh_id_def)

lemma ensure_lease_move [lease_moves]: "lease_move db (ensure_lease feed db)"
proof (cases "find_lease db feed")
  case None
  then have "feed \<notin> ml_feed ` set (md_leases db)" by (auto simp: find_lease_def find_None_iff)
  then show ?thesis by (auto simp: ensure_lease_def lease_move_def leases_ok_def None)
qed (simp add: ensure_lease_def lease_move_refl)

lemma recover_target_same: "recover_target env work target db = (result, db') \<Longrightarrow> same_leases db db'"
  by (auto simp: recover_target_def Let_def split: option.splits if_splits intro: same_leases_trans[OF store_target_same announce_same])

lemma recover_same:
  assumes "recover env l db = Inr db'"
  shows "\<exists>db1. same_leases db db1 \<and> db' = store_lease (cleared l) db1"
proof -
  have "\<exists>w t r b db1. recover_target env w t db = (r, db1)
      \<and> db' = store_lease (cleared l) (lease_audit w ''market_data.lease_recovered'' r b db1)"
    using assms unfolding recover_def Let_def by (simp split: option.splits prod.splits) blast+
  then obtain w t r b db1 where "recover_target env w t db = (r, db1)"
      "db' = store_lease (cleared l) (lease_audit w ''market_data.lease_recovered'' r b db1)"
    by blast
  then show ?thesis
    using same_leases_trans[OF recover_target_same lease_audit_same] by blast
qed

lemma recover_move: "recover env l db = Inr db' \<Longrightarrow> lease_move db db'"
  using recover_same lease_move_trans[OF same_leases_move store_cleared_move] by blast

lemma recover_answers: "ml_kind l \<noteq> None \<Longrightarrow> ml_work l \<noteq> None \<Longrightarrow> \<exists>db'. recover env l db = Inr db'"
  by (auto simp: recover_def Let_def split_beta)

lemma store_lease_trading [simp]: "md_trading (store_lease l db) = md_trading db"
  by (simp add: store_lease_def)

lemma store_lease_other [simp]: "ml_feed l' \<noteq> ml_feed l \<Longrightarrow> l' \<in> set (md_leases (store_lease l db)) \<longleftrightarrow> l' \<in> set (md_leases db)"
  by (auto simp: store_lease_def)

subsection \<open>Every operation moves leases this way\<close>

lemma fresh_token:
  "market_fresh_id db = (ids db, db\<lparr>md_trading := md_trading db\<lparr>db_next_id := Suc (ids db)\<rparr>\<rparr>)"
  by (simp add: market_fresh_id_def fresh_id_def)

lemma grant_move:
  assumes "grant env duration work owner lease target db = (cl, db')"
  shows "lease_move db db'" "lc_token cl = ids db" "lc_work cl = work" "lc_owner cl = owner" "ids db < ids db'"
proof -
  let ?l = "lease\<lparr>ml_owner := Some owner, ml_token := Some (ids db), ml_until := Some (env_now env + duration),
      ml_heartbeat := Some (env_now env), ml_kind := Some (wr_kind work), ml_work := Some (wr_id work)\<rparr>"
  let ?db1 = "db\<lparr>md_trading := md_trading db\<lparr>db_next_id := Suc (ids db)\<rparr>\<rparr>"
  obtain w a d b where db': "db' = lease_audit w a d b (store_target (started (env_now env) target) (store_lease ?l ?db1))"
    using assms unfolding grant_def fresh_token Let_def prod.case prod.inject by metis
  have "lease_move db (store_lease ?l ?db1)"
    by (rule store_lease_move) (auto simp: store_lease_def lease_ok_def)
  moreover have "same_leases (store_lease ?l ?db1) db'"
    unfolding db' by (rule same_leases_trans[OF store_target_same lease_audit_same])
  ultimately show "lease_move db db'"
    by (meson lease_move_trans same_leases_move)
  show "ids db < ids db'"
    by (simp add: db' lease_audit_def fresh_token)
qed (use assms in \<open>auto simp: grant_def fresh_token Let_def\<close>)

lemma claim_move: "claim_work env duration busy work owner db = Inr (c, db') \<Longrightarrow> lease_move db db'"
  by (auto simp: claim_work_def Let_def split: if_splits option.splits prod.splits simp: res_bind_Inr_iff
      dest!: recover_move grant_move(1) intro: lease_move_refl ensure_lease_move lease_move_trans)

lemma heartbeat_move: "heartbeat env duration cl db = (b, db') \<Longrightarrow> lease_move db db'"
proof (cases "find_lease db (wr_feed (lc_work cl))")
  case (Some lease)
  assume "heartbeat env duration cl db = (b, db')"
  moreover have "lease_move db (store_lease (lease\<lparr>ml_heartbeat := Some u, ml_until := Some v\<rparr>) db)"
    if "owned lease cl t" for t u v
    using find_lease_Some[OF Some] that
    by (intro put_lease_move) (auto simp: lease_ok_def owned_def leases_ok_def split: option.splits)
  ultimately show ?thesis
    by (auto simp: heartbeat_def Some lease_moves split: if_splits)
qed (auto simp: heartbeat_def lease_moves)

lemma release_move: "release_lease env cl db = (b, db') \<Longrightarrow> lease_move db db'"
  by (auto simp: release_lease_def lease_moves split: option.splits if_splits)

lemma guarded_write_move:
  assumes "guarded_write env cl release body db = Inr (x, db')"
    and "\<And>t y d. body t db = Inr (y, d) \<Longrightarrow> same_leases db d"
  shows "lease_move db db'"
  using assms
  by (auto simp: guarded_write_def lease_moves split: option.splits if_splits simp: res_bind_Inr_iff
      intro: same_leases_move lease_move_trans[OF same_leases_move store_cleared_move])

lemma recover_all_move: "run_steps (\<lambda>db l. recover env l db) db ls = Inr db' \<Longrightarrow> lease_move db db'"
  by (induction ls arbitrary: db)
     (auto simp: res_bind_Inr_iff dest!: recover_move intro: lease_move_refl lease_move_trans)

lemma recover_expired_move: "recover_expired env locked limit db = Inr (n, db') \<Longrightarrow> lease_move db db'"
  by (auto simp: recover_expired_def Let_def split: if_splits simp: res_bind_Inr_iff dest: recover_all_move)

subsection \<open>Due work is the earliest work\<close>

lemma insort_lexicographic:
  assumes "\<forall>y \<in> set zs. g x \<le> g y" "sorted_wrt (\<lambda>x y. f x < f y \<or> f x = f y \<and> g x \<le> g y) zs"
  shows "sorted_wrt (\<lambda>x y. f x < f y \<or> f x = f y \<and> g x \<le> g y) (insort_key f x zs)"
  using assms by (induction zs) (auto simp: set_insort_key not_le)

lemma sort_lexicographic:
  "sorted_wrt (\<lambda>x y. f x < f y \<or> f x = f y \<and> g x \<le> g y) (sort_key f (sort_key g xs))"
proof -
  have "sorted (map g ys) \<Longrightarrow> sorted_wrt (\<lambda>x y. f x < f y \<or> f x = f y \<and> g x \<le> g y) (sort_key f ys)" for ys
    by (induction ys) (auto intro!: insort_lexicographic)
  then show ?thesis by simp
qed

lemma two_sorts_are_one:
  assumes "distinct (map row_id xs)"
  shows "sort_key row_next_run (sort_key row_id xs) = sort_key due_key xs"
proof (rule sort_key_inj_key_eq [symmetric])
  show "mset xs = mset (sort_key row_next_run (sort_key row_id xs))" by simp
  have inj: "inj_on row_id (set xs)" using assms by (simp add: distinct_map)
  then show "inj_on due_key (set xs)" by (auto simp: inj_on_def due_key_def)
  show "sorted (map due_key (sort_key row_next_run (sort_key row_id xs)))"
    unfolding sorted_map
  proof (rule sorted_wrt_mono_rel [OF _ sort_lexicographic])
    fix x y assume "x \<in> set (sort_key row_next_run (sort_key row_id xs))" "y \<in> set (sort_key row_next_run (sort_key row_id xs))"
      and le: "row_next_run x < row_next_run y \<or> row_next_run x = row_next_run y \<and> row_id x \<le> row_id y"
    then have "row_id x = row_id y \<Longrightarrow> x = y" using inj by (auto simp: inj_on_def)
    then show "due_key x \<le> due_key y" using le by (auto simp: due_key_def less_eq_prod_def)
  qed
qed

lemma merge_due_Nil2 [simp]: "merge_due xs [] = xs"
  by (cases xs) simp_all

lemma mset_merge_due [simp]: "mset (merge_due xs ys) = mset xs + mset ys"
  by (induction xs ys rule: merge_due.induct) auto

lemma set_merge_due [simp]: "set (merge_due xs ys) = set xs \<union> set ys"
  by (induction xs ys rule: merge_due.induct) auto

lemma sorted_merge_due:
  "sorted (map due_key xs) \<Longrightarrow> sorted (map due_key ys) \<Longrightarrow> sorted (map due_key (merge_due xs ys))"
  by (induction xs ys rule: merge_due.induct) (auto simp: not_less less_imp_le dest: less_imp_le order_trans)

lemma filter_merge_due:
  assumes "sorted (map due_key xs)" "sorted (map due_key ys)"
  shows "filter (\<lambda>x. k = due_key x) (merge_due xs ys) = filter (\<lambda>x. k = due_key x) xs @ filter (\<lambda>x. k = due_key x) ys"
  using assms
proof (induction xs ys rule: merge_due.induct)
  case (3 x xs y ys)
  show ?case
  proof (cases "due_key y < due_key x")
    case True
    then have "filter (\<lambda>x. due_key y = due_key x) (x # xs) = []"
      using 3 by (auto simp: filter_empty_conv)
    then show ?thesis using 3 True by auto
  qed (use 3 in auto)
qed auto

lemma merge_due_sorts: "merge_due (sort_key due_key xs) (sort_key due_key ys) = sort_key due_key (xs @ ys)"
proof (rule properties_for_sort_key [symmetric])
  have stable: "filter (\<lambda>x. k = due_key x) (sort_key due_key zs) = filter (\<lambda>x. k = due_key x) zs" for k zs
    using sort_key_stable [of due_key k zs] by (simp add: eq_commute [of k])
  show "filter (\<lambda>x. due_key k = due_key x) (merge_due (sort_key due_key xs) (sort_key due_key ys))
      = filter (\<lambda>x. due_key k = due_key x) (xs @ ys)" for k
    by (simp add: filter_merge_due stable)
qed (simp_all add: sorted_merge_due)

lemma take_merge_due:
  "n \<le> i \<Longrightarrow> n \<le> j \<Longrightarrow> take n (merge_due (take i xs) (take j ys)) = take n (merge_due xs ys)"
proof (induction xs ys arbitrary: n i j rule: merge_due.induct)
  case (1 ys)
  then show ?case by (simp add: min_def)
next
  case (2 x xs)
  then show ?case by (simp add: min_def)
next
  case (3 x xs y ys)
  show ?case
  proof (cases n)
    case (Suc n')
    then obtain i' j' where ij: "i = Suc i'" "j = Suc j'" "n' \<le> i'" "n' \<le> j'"
      using 3(3,4) by (cases i; cases j) auto
    then show ?thesis
      using 3(1) [of n' "Suc i'" j'] 3(2) [of n' i' "Suc j'"] Suc by (cases "due_key y < due_key x") auto
  qed simp
qed

text \<open>
  C34 (equivalence). The scanner answers the earliest due work: merging the two limited queries is the same as
  sorting all due backfills and subscriptions by time and identifier and cutting at the limit.
\<close>

theorem due_work_is_the_earliest:
  assumes "distinct (map wf_id (md_backfills db))" "distinct (map wf_id (md_subscriptions db))" "1 \<le> limit" "limit \<le> 5000"
  shows "due_work now limit db = Inr (map (\<lambda>r. \<lparr>wr_feed = row_feed r, wr_kind = row_kind r, wr_id = row_id r\<rparr>)
    (take limit (sort_key due_key (filter (\<lambda>r. active_target r \<and> row_next_run r \<le> now)
      (map Job (md_backfills db) @ map Feed (md_subscriptions db))))))"
proof -
  have rows: "due_rows limit P xs = take limit (sort_key due_key (filter P xs))" if "distinct (map row_id xs)" for P xs
    using that by (simp add: due_rows_def two_sorts_are_one distinct_map_filter)
  have ids: "distinct (map row_id (map Job (md_backfills db)))" "distinct (map row_id (map Feed (md_subscriptions db)))"
    using assms(1,2) by (simp_all add: comp_def)
  show ?thesis
    using assms(3,4) by (simp add: due_work_def Let_def rows[OF ids(1)] rows[OF ids(2)] take_map take_merge_due merge_due_sorts)
qed

subsection \<open>One holder at a time\<close>

lemma find_lease_same: "md_leases db' = md_leases db \<Longrightarrow> find_lease db' feed = find_lease db feed"
  by (simp add: find_lease_def)

lemma find_lease_simps [simp]:
  "find_lease (lease_audit w a d b db) feed = find_lease db feed"
  "find_lease (store_target t db) feed = find_lease db feed"
  "find_lease (announce_stopped env t e db) feed = find_lease db feed"
  "find_lease (db\<lparr>md_trading := x\<rparr>) feed = find_lease db feed"
  using lease_audit_same[of db w a d b] announce_same[of db env t e]
  by (simp_all add: same_leases_def find_lease_def)

lemma find_lease_store: "find_lease (store_lease l db) feed =
    (if ml_feed l = feed then map_option (\<lambda>_. l) (find_lease db feed) else find_lease db feed)"
proof -
  have "find (\<lambda>x. ml_feed x = feed) (map (\<lambda>x. if ml_feed x = ml_feed l then l else x) ls) =
      (if ml_feed l = feed then map_option (\<lambda>_. l) (find (\<lambda>x. ml_feed x = feed) ls) else find (\<lambda>x. ml_feed x = feed) ls)" for ls
    by (induction ls) auto
  then show ?thesis by (simp add: find_lease_def store_lease_def)
qed

lemma find_lease_ensure: "find_lease (ensure_lease feed db) feed = Some (case find_lease db feed of None \<Rightarrow> new_lease feed | Some l \<Rightarrow> l)"
proof -
  have "find P xs = None \<Longrightarrow> find P (xs @ [x]) = (if P x then Some x else None)" for P :: "market_lease \<Rightarrow> bool" and xs x
    by (induction xs) auto
  then show ?thesis by (auto simp: ensure_lease_def find_lease_def split: option.splits)
qed

lemma recover_find:
  assumes "recover env l db = Inr db'"
  shows "find_lease db' feed = (if ml_feed l = feed then map_option (\<lambda>_. cleared l) (find_lease db feed) else find_lease db feed)"
proof -
  obtain db1 where "md_leases db1 = md_leases db" "db' = store_lease (cleared l) db1"
    using recover_same[OF assms] by (auto simp: same_leases_def)
  then show ?thesis by (simp add: find_lease_store find_lease_same[of db1 db])
qed

lemma recover_all_find:
  assumes "run_steps (\<lambda>db l. recover env l db) db ls = Inr db'" "\<forall>l \<in> set ls. ml_feed l \<noteq> feed"
  shows "find_lease db' feed = find_lease db feed"
  using assms by (induction ls arbitrary: db) (auto simp: res_bind_Inr_iff recover_find)

definition superseded :: "lease_claim \<Rightarrow> market_db \<Rightarrow> bool" where
  \<comment> \<open>the claim was granted once and its feed has moved on\<close>
  "superseded cl db \<longleftrightarrow> lc_token cl < ids db
     \<and> (\<forall>l \<in> set (md_leases db). ml_feed l = wr_feed (lc_work cl) \<longrightarrow> ml_token l \<noteq> Some (lc_token cl))"

lemma superseded_move:
  assumes "superseded cl db" "lease_move db db'"
  shows "superseded cl db'"
proof -
  have "ml_token l \<noteq> Some (lc_token cl)" if "l \<in> set (md_leases db')" "ml_feed l = wr_feed (lc_work cl)" for l
    using assms(1) that by (auto simp: superseded_def elim!: lease_move_token[OF assms(2)])
  then show ?thesis using assms by (auto simp: superseded_def lease_move_def)
qed

lemma superseded_refused:
  assumes "superseded cl db"
  shows "guarded_write env cl release body db = Inl ''LeaseLost''"
    "heartbeat env duration cl db = (False, db)" "release_lease env cl db = (False, db)"
proof -
  have "\<not> owned l cl now" if "find_lease db (wr_feed (lc_work cl)) = Some l" for l now
    using assms find_lease_Some[OF that] by (auto simp: superseded_def owned_def)
  then show "guarded_write env cl release body db = Inl ''LeaseLost''"
    "heartbeat env duration cl db = (False, db)" "release_lease env cl db = (False, db)"
    by (auto simp: guarded_write_def heartbeat_def release_lease_def split: option.split)
qed

lemma grant_find:
  assumes "grant env duration work owner lease target db = (cl, db')" "find_lease db (wr_feed work) \<noteq> None" "ml_feed lease = wr_feed work"
  shows "\<exists>l. find_lease db' (wr_feed work) = Some l \<and> ml_token l = Some (lc_token cl) \<and> (0 < duration \<longrightarrow> owned l cl (env_now env))"
  using assms by (auto simp: grant_def fresh_token Let_def find_lease_store owned_def)

lemma claim_grants:
  assumes "claim_work env duration busy work owner db = Inr (Some cl, db')"
  obtains lease target db2 where "lease_move db db2" "ml_feed lease = wr_feed work" "find_lease db2 (wr_feed work) \<noteq> None"
    "find_target db2 work = Some target" "active_target target" "row_next_run target \<le> env_now env"
    "grant env duration work owner lease target db2 = (cl, db')"
proof -
  let ?db1 = "ensure_lease (wr_feed work) db"
  obtain l where l: "find_lease ?db1 (wr_feed work) = Some l" by (simp add: find_lease_ensure)
  obtain db2 target where db2: "(if ml_token l \<noteq> None then recover env l ?db1 else Inr ?db1) = Inr db2"
      and target: "find_target db2 work = Some target" "active_target target" "row_next_run target \<le> env_now env"
      and granted: "grant env duration work owner (cleared l) target db2 = (cl, db')"
    using assms by (auto simp: claim_work_def Let_def l result_simps not_less split: if_splits option.splits prod.splits)
  have "lease_move ?db1 db2"
    using db2 by (auto split: if_splits intro: recover_move lease_move_refl)
  then have "lease_move db db2" using ensure_lease_move lease_move_trans by blast
  moreover have "find_lease db2 (wr_feed work) \<noteq> None"
    using db2 l find_lease_Some(2)[OF l] by (auto simp: recover_find split: if_splits)
  ultimately show ?thesis
    using that[OF _ _ _ target granted] find_lease_Some(2)[OF l] by simp
qed

lemma claim_granted:
  assumes "claim_work env duration busy work owner db = Inr (Some cl, db')"
  shows "lc_work cl = work" "lc_owner cl = owner" "ids db \<le> lc_token cl" "lc_token cl < ids db'"
    "\<exists>l. find_lease db' (wr_feed work) = Some l \<and> ml_token l = Some (lc_token cl) \<and> (0 < duration \<longrightarrow> owned l cl (env_now env))"
proof -
  obtain lease target db2 where move: "lease_move db db2" and lease: "ml_feed lease = wr_feed work" "find_lease db2 (wr_feed work) \<noteq> None"
      and granted: "grant env duration work owner lease target db2 = (cl, db')"
    by (rule claim_grants[OF assms])
  show "lc_work cl = work" "lc_owner cl = owner" "lc_token cl < ids db'"
    using grant_move[OF granted] by simp_all
  show "ids db \<le> lc_token cl" using grant_move(2)[OF granted] move by (simp add: lease_move_def)
  show "\<exists>l. find_lease db' (wr_feed work) = Some l \<and> ml_token l = Some (lc_token cl) \<and> (0 < duration \<longrightarrow> owned l cl (env_now env))"
    by (rule grant_find[OF granted lease(2,1)])
qed

lemma claim_supersedes:
  assumes "leases_ok db" "claim_work env duration busy work owner db = Inr (Some cl, db')"
    and "wr_feed (lc_work old) = wr_feed work" "lc_token old < ids db"
  shows "superseded old db'"
proof -
  have ok: "leases_ok db'" using assms(1,2) claim_move lease_move_leases_ok by blast
  obtain l where "find_lease db' (wr_feed work) = Some l" "ml_token l = Some (lc_token cl)"
    using claim_granted(5)[OF assms(2)] by blast
  then have "ml_token x = Some (lc_token cl)" if "x \<in> set (md_leases db')" "ml_feed x = wr_feed work" for x
    using find_lease_unique[OF ok that(1)] that(2) by simp
  then show ?thesis
    using claim_granted(3,4)[OF assms(2)] assms(3,4) by (force simp: superseded_def)
qed

text \<open>
  C35 (safety). While a claim owns its feed, nobody else gets it: every further claim on the feed is
  refused, a write under another token raises \<open>LeaseLost\<close>, and recovery leaves the lease alone.
\<close>

theorem held_feed_is_exclusive:
  assumes "leases_ok db" "find_lease db (wr_feed (lc_work cl)) = Some lease" "owned lease cl (env_now env)"
  shows "(\<forall>duration busy work owner. wr_feed work = wr_feed (lc_work cl) \<longrightarrow>
        claim_work env duration busy work owner db = Inr (None, db))
    \<and> (\<forall>other release body. wr_feed (lc_work other) = wr_feed (lc_work cl) \<and> lc_token other \<noteq> lc_token cl \<longrightarrow>
        guarded_write env other release body db = Inl ''LeaseLost'')
    \<and> (\<forall>locked limit n db'. recover_expired env locked limit db = Inr (n, db') \<longrightarrow>
        find_lease db' (wr_feed (lc_work cl)) = Some lease)"
proof (intro conjI allI impI)
  have lease: "lease \<in> set (md_leases db)" "ml_feed lease = wr_feed (lc_work cl)" by (rule find_lease_Some[OF assms(2)])+
  obtain u where u: "ml_token lease = Some (lc_token cl)" "ml_until lease = Some u" "env_now env < u"
    using assms(3) by (auto simp: owned_def split: option.splits)
  show "claim_work env duration busy work owner db = Inr (None, db)" if "wr_feed work = wr_feed (lc_work cl)" for duration busy work owner
    using assms(2) that u by (simp add: claim_work_def ensure_lease_def)
  show "guarded_write env other release body db = Inl ''LeaseLost''"
    if "wr_feed (lc_work other) = wr_feed (lc_work cl) \<and> lc_token other \<noteq> lc_token cl" for other release body
    using assms(2) that u by (simp add: guarded_write_def owned_def)
  show "find_lease db' (wr_feed (lc_work cl)) = Some lease" if "recover_expired env locked limit db = Inr (n, db')" for locked limit n db'
  proof -
    let ?ls = "take limit (sort_key (\<lambda>l. the (ml_until l)) (filter (\<lambda>l. (case ml_until l of None \<Rightarrow> False
        | Some t \<Rightarrow> t \<le> env_now env) \<and> \<not> locked (ml_feed l)) (md_leases db)))"
    have "ml_feed l \<noteq> wr_feed (lc_work cl)" if "l \<in> set (md_leases db)" "case ml_until l of None \<Rightarrow> False | Some t \<Rightarrow> t \<le> env_now env" for l
      using find_lease_unique[OF assms(1) that(1)] assms(2) that(2) u by auto
    then have "\<forall>l \<in> set ?ls. ml_feed l \<noteq> wr_feed (lc_work cl)" by (auto dest!: in_set_takeD)
    moreover have "run_steps (\<lambda>db l. recover env l db) db ?ls = Inr db'"
      using that by (simp add: recover_expired_def Let_def result_simps split: if_splits)
    ultimately show ?thesis
      using recover_all_find[of env db ?ls db'] assms(2) by simp
  qed
qed

subsection \<open>Recovery\<close>

lemma find_update: "find (\<lambda>r. key r = k \<and> Q r) rows = Some r0 \<Longrightarrow> key r = k \<Longrightarrow> Q r \<Longrightarrow>
    find (\<lambda>r. key r = k \<and> Q r) (update_row key r rows) = Some r"
  by (induction rows) (auto simp: update_row_def split: if_splits)

lemma find_target_store:
  assumes "find_target db work = Some t" "row_kind t' = row_kind t" "row_id t' = row_id t" "row_feed t' = row_feed t"
  shows "find_target (store_target t' db) work = Some t'"
  using assms
  by (cases t'; cases t)
     (auto simp: find_target_def find_Some_iff[of _ "md_backfills db"] find_Some_iff[of _ "md_subscriptions db"] split: work_kind.splits
        intro!: find_update)

lemma find_target_Some:
  assumes "find_target db work = Some t"
  shows "row_id t = wr_id work" "row_feed t = wr_feed work" "row_kind t = wr_kind work"
  using assms by (auto simp: find_target_def find_Some_iff split: work_kind.splits)

lemma find_target_simps [simp]:
  "find_target (lease_audit w a d b db) work = find_target db work"
  "find_target (announce_stopped env t e db) work = find_target db work"
  "find_target (store_lease l db) work = find_target db work"
  "find_target (db\<lparr>md_trading := x\<rparr>) work = find_target db work"
  "find_target (ensure_lease feed db) work = find_target db work"
  by (simp_all add: find_target_def store_lease_def ensure_lease_def cong: work_kind.case_cong)

lemma interrupted_simps [simp]:
  "row_id (interrupted now t) = row_id t" "row_feed (interrupted now t) = row_feed t" "row_kind (interrupted now t) = row_kind t"
  "row_failures (interrupted now t) = Suc (row_failures t)"
  "row_next_run (interrupted now t) = now + recovery_delay (Suc (row_failures t)) (row_id t)"
  by (cases t; simp add: Let_def)+

lemma active_interrupted: "active_target t \<Longrightarrow> active_target (interrupted now t) \<longleftrightarrow> row_failures t < 2"
  by (cases t) (auto simp: Let_def active_jobs_def)

definition told_of_stop :: "datetime \<Rightarrow> work_row \<Rightarrow> string \<Rightarrow> market_db \<Rightarrow> bool" where
  "told_of_stop now t error_code db \<longleftrightarrow> (\<exists>e \<in> set (db_events (md_trading db)). se_workspace e = fk_workspace (row_feed t)
     \<and> se_event_type e = stopped_event_type \<and> se_target_id e = Some (fk_instrument (row_feed t))
     \<and> se_reason e = Some error_code \<and> now - quiet_period < se_occurred_at e)"

lemma announce_tells: "told_of_stop (env_now env) t e (announce_stopped env t e db)"
proof (cases "told_of_stop (env_now env) t e db")
  case True
  then show ?thesis by (simp add: told_of_stop_def announce_stopped_def Let_def)
next
  case False
  then show ?thesis
    by (auto simp: told_of_stop_def announce_stopped_def Let_def publish_system_event_def fresh_id_def quiet_period_def seconds_def)
qed

lemma told_same_events: "db_events (md_trading db') = db_events (md_trading db) \<Longrightarrow> told_of_stop now t e db' = told_of_stop now t e db"
  by (simp add: told_of_stop_def)


lemma expired_lease_recovers:
  assumes "leases_ok db" "l \<in> set (md_leases db)" "ml_token l \<noteq> None"
  shows "\<exists>db'. recover env l db1 = Inr db'"
proof -
  have "lease_ok (ids db) l" using assms(1,2) by (simp add: leases_ok_def)
  then show ?thesis using assms(3) by (auto simp: lease_ok_def intro!: recover_answers)
qed

text \<open>
  Claiming never raises, whatever the stored leases are, and it grants an unheld feed
  with due, active work, starting a queued job.
\<close>

theorem claims_always_answer:
  assumes "leases_ok db"
  shows "(\<exists>c db'. claim_work env duration busy work owner db = Inr (c, db'))
    \<and> (\<not> busy \<and> find_target db work = Some t \<and> active_target t \<and> row_next_run t \<le> env_now env
        \<and> (\<forall>l. find_lease db (wr_feed work) = Some l \<longrightarrow> ml_token l = None)
      \<longrightarrow> (\<exists>cl db'. claim_work env duration busy work owner db = Inr (Some cl, db')
          \<and> find_target db' work = Some (started (env_now env) t)))"
proof
  obtain l where l: "find_lease (ensure_lease (wr_feed work) db) (wr_feed work) = Some l" by (simp add: find_lease_ensure)
  have ok: "leases_ok (ensure_lease (wr_feed work) db)" using assms ensure_lease_move lease_move_leases_ok by blast
  have "\<exists>db2. (if ml_token l \<noteq> None then recover env l (ensure_lease (wr_feed work) db) else Inr (ensure_lease (wr_feed work) db)) = Inr db2"
    using expired_lease_recovers[OF ok find_lease_Some(1)[OF l]] by auto
  then show "\<exists>c db'. claim_work env duration busy work owner db = Inr (c, db')"
    by (auto simp: claim_work_def Let_def l split_beta split: option.split)
  show "\<not> busy \<and> find_target db work = Some t \<and> active_target t \<and> row_next_run t \<le> env_now env
        \<and> (\<forall>l. find_lease db (wr_feed work) = Some l \<longrightarrow> ml_token l = None)
      \<longrightarrow> (\<exists>cl db'. claim_work env duration busy work owner db = Inr (Some cl, db')
          \<and> find_target db' work = Some (started (env_now env) t))"
  proof
    assume free: "\<not> busy \<and> find_target db work = Some t \<and> active_target t \<and> row_next_run t \<le> env_now env
        \<and> (\<forall>l. find_lease db (wr_feed work) = Some l \<longrightarrow> ml_token l = None)"
    then have "ml_token l = None" using l by (auto simp: find_lease_ensure split: option.splits)
    moreover have "find_target (store_target (started (env_now env) t) d) work = Some (started (env_now env) t)"
      if "find_target d work = Some t" for d
      using that by (rule find_target_store; cases t; simp)
    ultimately show "\<exists>cl db'. claim_work env duration busy work owner db = Inr (Some cl, db')
          \<and> find_target db' work = Some (started (env_now env) t)"
      using free l by (auto simp: claim_work_def Let_def grant_def fresh_token split: option.split)
  qed
qed

end
