(* ===== verification/Iso_Time.thy ===== *)
theory Iso_Time
  imports Trading_Prelude
begin

text \<open>
  \<open>datetime.isoformat\<close> and \<open>datetime.fromisoformat\<close> on times in UTC, as the code stores times in
  JSON columns. The calendar is the proleptic Gregorian one of the years 1 to 9999. The parser reads
  what \<open>isoformat\<close> writes and refuses the other spellings the standard library also takes.
\<close>

subsection \<open>Digits\<close>

definition digit :: "nat \<Rightarrow> char" where
  "digit d = char_of (48 + d)"

fun padded :: "nat \<Rightarrow> nat \<Rightarrow> string" where
  \<comment> \<open>\<open>width\<close> decimal digits, zeros in front\<close>
  "padded 0 v = ''''"
| "padded (Suc width) v = padded width (v div 10) @ [digit (v mod 10)]"

fun number :: "nat \<Rightarrow> string \<Rightarrow> nat option" where
  "number acc [] = Some acc"
| "number acc (c # cs) =
     (let d = of_char c in if 48 \<le> d \<and> d \<le> (57 :: nat) then number (10 * acc + (d - 48)) cs else None)"

definition take_number :: "nat \<Rightarrow> string \<Rightarrow> (string, nat \<times> string) result" where
  "take_number width s =
     (case number 0 (take width s) of
        Some v \<Rightarrow> if length s < width then Inl ''ValueError'' else Inr (v, drop width s)
      | None \<Rightarrow> Inl ''ValueError'')"

fun expect :: "char \<Rightarrow> string \<Rightarrow> (string, string) result" where
  "expect c [] = Inl ''ValueError''"
| "expect c (d # ds) = (if c = d then Inr ds else Inl ''ValueError'')"

subsection \<open>The calendar\<close>

definition leap :: "nat \<Rightarrow> bool" where
  "leap y \<longleftrightarrow> y mod 4 = 0 \<and> (y mod 100 \<noteq> 0 \<or> y mod 400 = 0)"

definition year_days :: "nat \<Rightarrow> nat" where
  "year_days y = (if leap y then 366 else 365)"

definition months :: "nat \<Rightarrow> nat list" where
  "months y = [31, if leap y then 29 else 28, 31, 30, 31, 30, 31, 31, 30, 31, 30, 31]"

function year_of :: "nat \<Rightarrow> nat \<Rightarrow> nat \<times> nat" where
  "year_of y d = (if d < year_days y then (y, d) else year_of (y + 1) (d - year_days y))"
  by pat_completeness auto
termination
  by (relation "measure snd") (auto simp: year_days_def)

declare year_of.simps [simp del]

fun month_of :: "nat list \<Rightarrow> nat \<Rightarrow> nat \<Rightarrow> nat \<times> nat" where
  "month_of [] m d = (m, d)"
| "month_of (n # ns) m d = (if d < n then (m, d) else month_of ns (m + 1) (d - n))"

definition epoch_days :: nat where
  \<comment> \<open>from the first of January of year 1 to the epoch\<close>
  "epoch_days = 719162"

definition days_before_year :: "nat \<Rightarrow> nat" where
  "days_before_year y = sum_list (map year_days [1..<y])"

definition time_ok :: "datetime \<Rightarrow> bool" where
  \<comment> \<open>the years 1 to 9999\<close>
  "time_ok t \<longleftrightarrow> 0 \<le> date_of t + int epoch_days \<and> date_of t + int epoch_days < 3652059"

definition isoformat :: "datetime \<Rightarrow> string" where
  "isoformat t =
     (let (y, day_of_year) = year_of 1 (nat (date_of t + int epoch_days));
          (m, d) = month_of (months y) 1 day_of_year;
          clock = nat (t mod day_length);
          secs = clock div 1000000;
          micros = clock mod 1000000
      in padded 4 y @ ''-'' @ padded 2 m @ ''-'' @ padded 2 (d + 1) @ ''T'' @ padded 2 (secs div 3600) @ '':''
         @ padded 2 (secs div 60 mod 60) @ '':'' @ padded 2 (secs mod 60)
         @ (if micros = 0 then '''' else ''.'' @ padded 6 micros) @ ''+00:00'')"

definition from_fields :: "nat \<Rightarrow> nat \<Rightarrow> nat \<Rightarrow> nat \<Rightarrow> nat \<Rightarrow> nat \<Rightarrow> nat \<Rightarrow> (string, datetime) result" where
  "from_fields y m d h mi s us =
     (if 1 \<le> y \<and> y \<le> 9999 \<and> 1 \<le> m \<and> m \<le> 12 \<and> 1 \<le> d \<and> d \<le> months y ! (m - 1) \<and> h < 24 \<and> mi < 60 \<and> s < 60
      then Inr ((int (days_before_year y + sum_list (take (m - 1) (months y)) + (d - 1)) - int epoch_days) * day_length
                + int (((h * 60 + mi) * 60 + s) * 1000000 + us))
      else Inl ''ValueError'')"

definition fromisoformat :: "string \<Rightarrow> (string, datetime) result" where
  "fromisoformat s0 =
     res_bind (take_number 4 s0) (\<lambda>(y, s1). res_bind (expect (CHR ''-'') s1) (\<lambda>s2.
     res_bind (take_number 2 s2) (\<lambda>(m, s3). res_bind (expect (CHR ''-'') s3) (\<lambda>s4.
     res_bind (take_number 2 s4) (\<lambda>(d, s5). res_bind (expect (CHR ''T'') s5) (\<lambda>s6.
     res_bind (take_number 2 s6) (\<lambda>(h, s7). res_bind (expect (CHR '':'') s7) (\<lambda>s8.
     res_bind (take_number 2 s8) (\<lambda>(mi, s9). res_bind (expect (CHR '':'') s9) (\<lambda>s10.
     res_bind (take_number 2 s10) (\<lambda>(s, s11).
     res_bind (case s11 of
         c # rest \<Rightarrow> if c = CHR ''.'' then take_number 6 rest else Inr (0, s11)
       | [] \<Rightarrow> Inr (0, s11)) (\<lambda>(us, zone).
     if zone = ''+00:00'' then from_fields y m d h mi s us else Inl ''ValueError''))))))))))))"

subsection \<open>Lemmas\<close>

lemma length_padded [simp]: "length (padded w v) = w"
  by (induction w v rule: padded.induct) auto

lemma number_append: "number acc (xs @ ys) = (case number acc xs of None \<Rightarrow> None | Some v \<Rightarrow> number v ys)"
  by (induction acc xs rule: number.induct) (auto simp: Let_def)

lemma number_padded: "v < 10 ^ w \<Longrightarrow> number acc (padded w v) = Some (acc * 10 ^ w + v)"
proof (induction w arbitrary: v)
  case (Suc w)
  have "v div 10 < 10 ^ w" using Suc.prems by (simp add: less_mult_imp_div_less mult.commute)
  moreover have "of_char (digit (v mod 10)) = 48 + v mod 10"
    unfolding digit_def by (subst of_char_of) simp
  ultimately show ?case
    using Suc.IH [of "v div 10"] by (simp add: number_append Let_def algebra_simps)
qed simp

lemma take_padded [simp]: "v < 10 ^ w \<Longrightarrow> take_number w (padded w v @ rest) = Inr (v, rest)"
  by (simp add: take_number_def number_padded)

lemma year_of_spec:
  "year_of y d = (y', r) \<Longrightarrow> y \<le> y' \<and> r < year_days y' \<and> sum_list (map year_days [y..<y']) + r = d"
proof (induction y d arbitrary: y' r rule: year_of.induct)
  case (1 y d)
  show ?case
  proof (cases "d < year_days y")
    case True
    then show ?thesis using "1.prems" by (simp add: year_of.simps)
  next
    case False
    then have "year_of (y + 1) (d - year_days y) = (y', r)" using "1.prems" by (simp add: year_of.simps [of y])
    then show ?thesis using "1.IH" [OF False, of y' r] False by (auto simp: upt_conv_Cons)
  qed
qed

lemma month_of_spec:
  "month_of ns m d = (m', r) \<Longrightarrow> d < sum_list ns \<Longrightarrow>
     m \<le> m' \<and> m' - m < length ns \<and> r < ns ! (m' - m) \<and> sum_list (take (m' - m) ns) + r = d"
proof (induction ns arbitrary: m d)
  case (Cons n ns)
  show ?case
  proof (cases "d < n")
    case True
    then show ?thesis using Cons.prems by simp
  next
    case False
    then have "Suc m \<le> m' \<and> m' - Suc m < length ns \<and> r < ns ! (m' - Suc m) \<and> sum_list (take (m' - Suc m) ns) + r = d - n"
      using Cons.IH [of "Suc m" "d - n"] Cons.prems by simp
    moreover from this have "m' - m = Suc (m' - Suc m)" by auto
    ultimately show ?thesis using False by auto
  qed
qed simp

lemma sum_months: "sum_list (months y) = year_days y"
  by (simp add: months_def year_days_def)

lemma length_months [simp]: "length (months y) = 12"
  by (simp add: months_def)

lemma months_bound: "m < 12 \<Longrightarrow> months y ! m \<le> 31"
proof -
  have "\<forall>n \<in> set (months y). n \<le> 31" by (simp add: months_def)
  then show "m < 12 \<Longrightarrow> months y ! m \<le> 31" by simp
qed

lemma days_before_year_closed:
  "int (days_before_year (Suc n)) = 365 * int n + int (n div 4) - int (n div 100) + int (n div 400)"
proof (induction n)
  case (Suc n)
  have "days_before_year (Suc (Suc n)) = days_before_year (Suc n) + year_days (Suc n)"
    by (simp add: days_before_year_def)
  then show ?case
    using Suc by (auto simp: div_Suc year_days_def leap_def)
qed (simp add: days_before_year_def)

lemma days_before_year_mono: "y \<le> y' \<Longrightarrow> days_before_year y \<le> days_before_year y'"
  by (rule lift_Suc_mono_le [of days_before_year]) (simp_all add: days_before_year_def)

lemma days_before_10000: "days_before_year 10000 = 3652059"
  using days_before_year_closed [of 9999] by simp

lemma clock_parts:
  fixes c :: nat
  shows "((c div 1000000 div 3600 * 60 + c div 1000000 div 60 mod 60) * 60 + c div 1000000 mod 60) * 1000000 + c mod 1000000 = c"
proof -
  have "(s div 3600 * 60 + s div 60 mod 60) * 60 + s mod 60 = s" for s :: nat
  proof -
    have "s div 3600 = s div 60 div 60" by (simp add: div_mult2_eq [symmetric])
    then show ?thesis by (simp only: div_mult_mod_eq)
  qed
  then show ?thesis by (simp only: div_mult_mod_eq)
qed

theorem fromisoformat_isoformat:
  assumes "time_ok t"
  shows "fromisoformat (isoformat t) = Inr t"
proof -
  define days where "days = nat (date_of t + int epoch_days)"
  define c where "c = nat (t mod day_length)"
  obtain y doy where y: "year_of 1 days = (y, doy)" by fastforce
  obtain m d where m: "month_of (months y) 1 doy = (m, d)" by fastforce
  have Y: "1 \<le> y" "doy < year_days y" "days_before_year y + doy = days"
    using year_of_spec [OF y] by (simp_all add: days_before_year_def)
  have M: "1 \<le> m" "m - 1 < 12" "d < months y ! (m - 1)" "sum_list (take (m - 1) (months y)) + d = doy"
    using month_of_spec [OF m] Y(2) by (simp_all add: sum_months)
  have "days < 3652059" using assms unfolding days_def time_ok_def by linarith
  then have "days_before_year y < days_before_year 10000" using Y(3) by (simp add: days_before_10000)
  then have y9999: "y \<le> 9999" using days_before_year_mono [of 10000 y] by (cases "y \<le> 9999") auto
  have d31: "d < 31" using M(2,3) months_bound [of "m - 1" y] by simp
  have c: "c < 86400 * 1000000" by (simp add: c_def day_length_def nat_less_iff)
  have parts: "c div 1000000 div 3600 < 24" "c div 1000000 div 60 mod 60 < 60" "c div 1000000 mod 60 < 60" "c mod 1000000 < 10 ^ 6"
    using c by (simp_all add: less_mult_imp_div_less)
  have "int days = date_of t + int epoch_days" using assms by (simp add: days_def time_ok_def)
  moreover have "int c = t mod day_length" by (simp add: c_def day_length_def)
  ultimately have t: "(int days - int epoch_days) * day_length + int c = t"
    by (simp add: date_of_def)
  have fields: "from_fields y m (d + 1) (c div 1000000 div 3600) (c div 1000000 div 60 mod 60) (c div 1000000 mod 60) (c mod 1000000) = Inr t"
  proof -
    have "1 \<le> y \<and> y \<le> 9999 \<and> 1 \<le> m \<and> m \<le> 12 \<and> 1 \<le> d + 1 \<and> d + 1 \<le> months y ! (m - 1)
        \<and> c div 1000000 div 3600 < 24 \<and> c div 1000000 div 60 mod 60 < 60 \<and> c div 1000000 mod 60 < 60"
      using Y M y9999 parts by auto
    moreover have "days_before_year y + sum_list (take (m - 1) (months y)) + (d + 1 - 1) = days"
      using Y M by simp
    ultimately show ?thesis
      unfolding from_fields_def clock_parts by (simp only: if_True t simp_thms)
  qed
  have bounds: "y < 10 ^ 4" "m < 10 ^ 2" "d + 1 < 10 ^ 2" "c div 1000000 div 3600 < 10 ^ 2"
      "c div 1000000 div 60 mod 60 < 10 ^ 2" "c div 1000000 mod 60 < 10 ^ 2"
    using y9999 M(2) d31 parts by simp_all
  have iso: "isoformat t = padded 4 y @ ''-'' @ padded 2 m @ ''-'' @ padded 2 (d + 1) @ ''T'' @ padded 2 (c div 1000000 div 3600) @ '':''
      @ padded 2 (c div 1000000 div 60 mod 60) @ '':'' @ padded 2 (c div 1000000 mod 60)
      @ (if c mod 1000000 = 0 then '''' else ''.'' @ padded 6 (c mod 1000000)) @ ''+00:00''"
    by (simp only: isoformat_def days_def [symmetric] c_def [symmetric] Let_def y m prod.case)
  show ?thesis
  proof (cases "c mod 1000000 = 0")
    case True
    then show ?thesis unfolding iso fromisoformat_def using bounds fields by simp
  next
    case False
    then show ?thesis unfolding iso fromisoformat_def using bounds parts(4) fields by simp
  qed
qed

end
