(* ===== verification/Ingestion_Report.thy ===== *)
theory Ingestion_Report
  imports Iso_Time Coverage
begin

text \<open>
  The running report of a backfill: \<open>app/market_data/domain/ingestion_report.py\<close>, the JSON it is stored
  as (\<open>as_validation_result\<close>) and the reading of the stored JSON (\<open>restore_report\<close> of \<open>pages.py\<close>). A
  Python dictionary is its list of items in order.
\<close>

subsection \<open>The report\<close>

type_synonym window_sample = "string \<times> string" \<comment> \<open>\<open>from_time\<close>, \<open>to_time\<close>\<close>

record ingestion_report =
  ir_from :: datetime
  ir_to :: datetime
  ir_first :: "datetime option"
  ir_last :: "datetime option"
  ir_received :: int
  ir_inserted :: int
  ir_updated :: int
  ir_empty_count :: int
  ir_samples :: "window_sample list"

definition new_report :: "datetime \<Rightarrow> datetime \<Rightarrow> ingestion_report" where
  "new_report requested_from requested_to = \<lparr>ir_from = requested_from, ir_to = requested_to, ir_first = None,
     ir_last = None, ir_received = 0, ir_inserted = 0, ir_updated = 0, ir_empty_count = 0, ir_samples = []\<rparr>"

definition ir_rows_written :: "ingestion_report \<Rightarrow> int" where
  "ir_rows_written r = ir_inserted r + ir_updated r"

definition record_empty_window :: "datetime \<Rightarrow> datetime \<Rightarrow> ingestion_report \<Rightarrow> ingestion_report" where
  "record_empty_window start end_time r =
     (let r1 = r\<lparr>ir_empty_count := ir_empty_count r + 1\<rparr>
      in if length (ir_samples r) < 20
         then r1\<lparr>ir_samples := ir_samples r @ [(isoformat start, isoformat end_time)]\<rparr> else r1)"

definition record_candles :: "datetime list \<Rightarrow> ingestion_report \<Rightarrow> ingestion_report" where
  \<comment> \<open>the points' opening times\<close>
  "record_candles open_times r =
     (if open_times = [] then r
      else let first_time = Min (set open_times);
               last_time = Max (set open_times);
               r1 = (case ir_first r of None \<Rightarrow> r\<lparr>ir_first := Some first_time\<rparr>
                 | Some t \<Rightarrow> if first_time < t then r\<lparr>ir_first := Some first_time\<rparr> else r)
           in (case ir_last r1 of None \<Rightarrow> r1\<lparr>ir_last := Some last_time\<rparr>
                 | Some t \<Rightarrow> if t < last_time then r1\<lparr>ir_last := Some last_time\<rparr> else r1))"

subsection \<open>As JSON\<close>

type_synonym json_dict = "(string \<times> json) list"

definition json_get :: "json_dict \<Rightarrow> string \<Rightarrow> json" where
  "json_get d key = (case map_of d key of None \<Rightarrow> JNull | Some v \<Rightarrow> v)"

definition json_update :: "json_dict \<Rightarrow> json_dict \<Rightarrow> json_dict" where
  \<comment> \<open>\<open>{**d, **e}\<close>\<close>
  "json_update d e = map (\<lambda>(k, v). (k, case map_of e k of None \<Rightarrow> v | Some w \<Rightarrow> w)) d
     @ filter (\<lambda>(k, _). k \<notin> fst ` set d) e"

definition json_time :: "datetime option \<Rightarrow> json" where
  "json_time t = (case t of None \<Rightarrow> JNull | Some x \<Rightarrow> JStr (isoformat x))"

definition json_int :: "int option \<Rightarrow> json" where
  "json_int n = (case n of None \<Rightarrow> JNull | Some x \<Rightarrow> JInt x)"

definition json_text :: "string option \<Rightarrow> json" where
  "json_text s = (case s of None \<Rightarrow> JNull | Some x \<Rightarrow> JStr x)"

definition gap_as_dict :: "gap_window \<Rightarrow> json_dict" where
  "gap_as_dict g = [(''from_time'', JStr (isoformat (gw_from g))), (''to_time'', JStr (isoformat (gw_to g))),
     (''expected_count'', JInt (int (gw_expected g))), (''missing_count'', JInt (int (gw_missing g))),
     (''reason_code'', JStr (gw_reason g))]"

definition coverage_dict :: "coverage_result \<Rightarrow> json_dict" where
  "coverage_dict c = [(''requested_from'', json_time (cv_requested_from c)), (''requested_to'', json_time (cv_requested_to c)),
     (''actual_from'', json_time (cv_actual_from c)), (''actual_to'', json_time (cv_actual_to c)),
     (''stored_count'', JInt (int (cv_stored_count c))), (''expected_count'', json_int (cv_expected_count c)),
     (''missing_count'', json_int (cv_missing_count c)), (''coverage_status'', JStr (cv_status c)),
     (''source_limitation'', json_text (cv_source_limitation c))]"

definition safe_reason_code :: "json_dict \<Rightarrow> json" where
  "safe_reason_code coverage =
     (let code = json_get coverage ''source_limitation'';
          status = json_get coverage ''coverage_status''
      in if code = JNull \<and> status = JStr ''partial_gaps'' then JStr ''internal_missing_candles''
         else if code = JNull \<and> status = JStr ''empty'' then JStr ''empty_source_response''
         else code)"

definition sample_json :: "window_sample \<Rightarrow> json" where
  "sample_json s = JObj [(''from_time'', JStr (fst s)), (''to_time'', JStr (snd s))]"

definition as_validation_result :: "ingestion_report \<Rightarrow> json_dict \<Rightarrow> gap_window list \<Rightarrow> json_dict" where
  "as_validation_result r coverage gaps = json_update
     [(''requested_from'', JStr (isoformat (ir_from r))), (''requested_to'', JStr (isoformat (ir_to r))),
      (''actual_first_candle_time'', json_time (ir_first r)), (''actual_last_candle_time'', json_time (ir_last r)),
      (''source_rows_received'', JInt (ir_received r)), (''rows_inserted'', JInt (ir_inserted r)),
      (''rows_updated'', JInt (ir_updated r)), (''rows_written'', JInt (ir_rows_written r)),
      (''empty_source_window_count'', JInt (ir_empty_count r)),
      (''empty_source_window_samples'', JList (map sample_json (ir_samples r))),
      (''final_candles_only'', JBool True), (''duplicates'', JStr ''upserted''),
      (''internal_gap_count'', JInt (int (length gaps))),
      (''internal_gap_samples'', JList (map (\<lambda>g. JObj (gap_as_dict g)) (take 20 gaps))),
      (''safe_reason_code'', safe_reason_code coverage)]
     coverage"

subsection \<open>Reading the stored report\<close>

definition counter_of :: "json_dict \<Rightarrow> string \<Rightarrow> (string, int) result" where
  \<comment> \<open>a missing counter is zero; a boolean is not a counter\<close>
  "counter_of saved name =
     (case map_of saved name of
        None \<Rightarrow> Inr 0
      | Some v \<Rightarrow> (case v of JInt n \<Rightarrow> if n < 0 then Inl ''invalid_checkpoint'' else Inr n | _ \<Rightarrow> Inl ''invalid_checkpoint''))"

definition time_of :: "json_dict \<Rightarrow> string \<Rightarrow> (string, datetime option) result" where
  "time_of saved name =
     (case json_get saved name of
        JStr s \<Rightarrow> res_bind (fromisoformat s) (\<lambda>t. Inr (Some t))
      | _ \<Rightarrow> Inr None)"

fun read_sample :: "json \<Rightarrow> (string, window_sample) result" where
  "read_sample (JObj d) =
     (case (json_get d ''from_time'', json_get d ''to_time'') of
        (JStr start, JStr end_time) \<Rightarrow> Inr (start, end_time)
      | _ \<Rightarrow> Inl ''invalid_checkpoint'')"
| "read_sample _ = Inl ''invalid_checkpoint''"

fun read_samples :: "json list \<Rightarrow> (string, window_sample list) result" where
  "read_samples [] = Inr []"
| "read_samples (x # xs) = res_bind (read_sample x) (\<lambda>s. res_bind (read_samples xs) (\<lambda>ss. Inr (s # ss)))"

definition samples_of :: "json_dict \<Rightarrow> (string, window_sample list) result" where
  "samples_of saved =
     (case map_of saved ''empty_source_window_samples'' of
        None \<Rightarrow> Inr []
      | Some (JList xs) \<Rightarrow> read_samples (take 20 xs)
      | _ \<Rightarrow> Inl ''invalid_checkpoint'')"

definition restore_report :: "datetime \<Rightarrow> datetime \<Rightarrow> json \<Rightarrow> (string, ingestion_report) result" where
  \<comment> \<open>the job's range and its stored progress, an object by the table's check\<close>
  "restore_report from_time to_time progress =
     (let saved = (case progress of JObj d \<Rightarrow> d | _ \<Rightarrow> [])
      in res_bind (counter_of saved ''source_rows_received'') (\<lambda>received.
         res_bind (counter_of saved ''rows_inserted'') (\<lambda>inserted.
         res_bind (counter_of saved ''rows_updated'') (\<lambda>updated.
         res_bind (counter_of saved ''empty_source_window_count'') (\<lambda>empty_count.
         res_bind (time_of saved ''actual_first_candle_time'') (\<lambda>first_time.
         res_bind (time_of saved ''actual_last_candle_time'') (\<lambda>last_time.
         res_bind (samples_of saved) (\<lambda>samples.
         Inr \<lparr>ir_from = from_time, ir_to = to_time, ir_first = first_time, ir_last = last_time, ir_received = received,
           ir_inserted = inserted, ir_updated = updated, ir_empty_count = empty_count, ir_samples = samples\<rparr>))))))))"

subsection \<open>Lemmas\<close>

definition report_ok :: "ingestion_report \<Rightarrow> bool" where
  "report_ok r \<longleftrightarrow> 0 \<le> ir_received r \<and> 0 \<le> ir_inserted r \<and> 0 \<le> ir_updated r \<and> 0 \<le> ir_empty_count r
     \<and> length (ir_samples r) \<le> 20 \<and> (\<forall>t \<in> set_option (ir_first r) \<union> set_option (ir_last r). time_ok t)"

lemma json_update_Nil [simp]: "json_update d [] = d"
  by (simp add: json_update_def)

lemma read_samples_json: "read_samples (map sample_json ss) = Inr ss"
  by (induction ss) (simp_all add: sample_json_def json_get_def)

lemma time_of_json: "map_of saved name = Some (json_time t) \<Longrightarrow> (\<And>x. t = Some x \<Longrightarrow> time_ok x) \<Longrightarrow> time_of saved name = Inr t"
  by (cases t) (simp_all add: time_of_def json_get_def json_time_def fromisoformat_isoformat)

lemma counter_of_json: "map_of saved name = Some (JInt n) \<Longrightarrow> 0 \<le> n \<Longrightarrow> counter_of saved name = Inr n"
  by (simp add: counter_of_def)

text \<open>
  C32 (roundtrip). The report a page stores is the report the next page reads: restoring what
  \<open>as_validation_result\<close> wrote gives the same report, times and samples included.
\<close>

theorem restore_report_roundtrip:
  assumes "report_ok r"
  shows "restore_report (ir_from r) (ir_to r) (JObj (as_validation_result r [] [])) = Inr r"
proof -
  let ?d = "as_validation_result r [] []"
  have "counter_of ?d ''source_rows_received'' = Inr (ir_received r)" "counter_of ?d ''rows_inserted'' = Inr (ir_inserted r)"
    "counter_of ?d ''rows_updated'' = Inr (ir_updated r)" "counter_of ?d ''empty_source_window_count'' = Inr (ir_empty_count r)"
    using assms by (auto intro!: counter_of_json simp: as_validation_result_def report_ok_def)
  moreover have "time_of ?d ''actual_first_candle_time'' = Inr (ir_first r)" "time_of ?d ''actual_last_candle_time'' = Inr (ir_last r)"
    using assms by (auto intro!: time_of_json simp: as_validation_result_def report_ok_def)
  moreover have "samples_of ?d = Inr (ir_samples r)"
    using assms by (simp add: samples_of_def as_validation_result_def read_samples_json report_ok_def)
  ultimately show ?thesis by (simp add: restore_report_def)
qed

lemma record_keeps_report:
  "report_ok r \<Longrightarrow> report_ok (record_empty_window s e r)"
  "report_ok r \<Longrightarrow> \<forall>t \<in> set ts. time_ok t \<Longrightarrow> report_ok (record_candles ts r)"
proof -
  show "report_ok r \<Longrightarrow> report_ok (record_empty_window s e r)"
    by (simp add: report_ok_def record_empty_window_def Let_def)
  assume ok: "report_ok r" "\<forall>t \<in> set ts. time_ok t"
  then have "time_ok (Min (set ts)) \<and> time_ok (Max (set ts))" if "ts \<noteq> []" using that by simp
  then show "report_ok (record_candles ts r)"
    using ok by (auto simp: report_ok_def record_candles_def Let_def split: option.splits if_splits)
qed

end
