(* ===== verification/Candle_Store.thy ===== *)
theory Candle_Store
  imports Market_Leases Ingestion_Report "HOL-Library.AList"
begin

text \<open>
  Storing candles and gaps, \<open>app/market_data/infrastructure/candle_store.py\<close>: the upsert with the checks
  of the candle table, the coverage of a stored range and the persisted gaps. A Python dictionary
  filled in a loop is an association list under \<open>AList.update\<close>.
\<close>

declare store_target.simps [simp del]

lemma access_of_rows [simp]:
  "md_access (store_target t db) = md_access db" "md_access (store_lease l db) = md_access db"
  "md_access (lease_audit w a d b db) = md_access db" "md_access (announce_stopped env t e db) = md_access db"
  by (cases t; simp add: store_target.simps store_lease_def lease_audit_def fresh_token announce_stopped_def Let_def)+

subsection \<open>Points\<close>

record candle_point =
  cp_open_time :: "datetime option" \<comment> \<open>\<open>None\<close>: a time without an offset\<close>
  cp_close_time :: "datetime option"
  cp_open :: "decimal option" \<comment> \<open>\<open>None\<close>: not finite\<close>
  cp_high :: "decimal option"
  cp_low :: "decimal option"
  cp_close :: "decimal option"
  cp_volume :: "decimal option option"
  cp_trade_count :: "int option"
  cp_final :: bool

definition dict_of :: "('k \<times> 'v) list \<Rightarrow> ('k \<times> 'v) list" where
  \<comment> \<open>a dictionary comprehension\<close>
  "dict_of items = foldl (\<lambda>d (k, v). AList.update k v d) [] items"

subsection \<open>The upsert\<close>

definition candle_checks :: "stored_candle \<Rightarrow> bool" where
  \<comment> \<open>the checks of the table\<close>
  "candle_checks c \<longleftrightarrow> 0 < c_open c \<and> 0 < c_high c \<and> 0 < c_low c \<and> 0 < c_close c \<and> c_open_time c < c_close_time c
     \<and> max (max (c_open c) (c_close c)) (c_low c) \<le> c_high c \<and> c_low c \<le> min (min (c_open c) (c_close c)) (c_high c)
     \<and> (case c_volume c of None \<Rightarrow> True | Some v \<Rightarrow> 0 \<le> v) \<and> (case sc_trade_count c of None \<Rightarrow> True | Some n \<Rightarrow> 0 \<le> n)
     \<and> timeframe_seconds (c_timeframe c) \<noteq> None"

definition business_key :: "stored_candle \<Rightarrow> uuid \<times> string \<times> datetime" where
  "business_key c = (c_instrument c, c_timeframe c, c_open_time c)"

definition proposed_candle :: "tx_env \<Rightarrow> uuid \<Rightarrow> string \<Rightarrow> string \<Rightarrow> string \<Rightarrow> uuid \<Rightarrow> candle_point \<Rightarrow> stored_candle" where
  \<comment> \<open>one entry of \<open>values\<close>, in the types of the columns\<close>
  "proposed_candle env instrument_id timeframe source quality_status cid p =
     \<lparr>c_id = cid, c_instrument = instrument_id, c_timeframe = timeframe, c_open_time = the (cp_open_time p),
      c_close_time = the (cp_close_time p), c_open = env_column env (the (cp_open p)), c_high = env_column env (the (cp_high p)),
      c_low = env_column env (the (cp_low p)), c_close = env_column env (the (cp_close p)),
      c_volume = map_option (\<lambda>v. env_column env (the v)) (cp_volume p), c_final = True, sc_trade_count = cp_trade_count p,
      sc_source = source, sc_quality = quality_status, sc_received_at = env_now env, sc_corrected_at = None\<rparr>"

definition find_candle :: "market_db \<Rightarrow> uuid \<times> string \<times> datetime \<Rightarrow> stored_candle option" where
  "find_candle db key = find (\<lambda>c. business_key c = key) (md_candles db)"

definition store_candle :: "stored_candle \<Rightarrow> market_db \<Rightarrow> market_db" where
  "store_candle c db = db\<lparr>md_candles := map (\<lambda>x. if business_key x = business_key c then c else x) (md_candles db)\<rparr>"

definition upsert_point ::
  "tx_env \<Rightarrow> uuid \<Rightarrow> string \<Rightarrow> string \<Rightarrow> string \<Rightarrow> bool list \<times> market_db \<Rightarrow> candle_point \<Rightarrow> (string, bool list \<times> market_db) result" where
  \<comment> \<open>one row of the statement; the flags are the rows it returns, true for an insert. PostgreSQL refuses a statement
    that names one key twice; the points of a page were deduplicated before, so their times are distinct\<close>
  "upsert_point env instrument_id timeframe source quality_status = (\<lambda>(flags, db) p.
     let (cid, db1) = market_fresh_id db;
         row = proposed_candle env instrument_id timeframe source quality_status cid p
     in if \<not> candle_checks row then Inl ''IntegrityError''
        else case find_candle db1 (business_key row) of
          None \<Rightarrow> Inr (flags @ [True], db1\<lparr>md_candles := md_candles db1 @ [row]\<rparr>)
        | Some c \<Rightarrow>
            if sc_source c = source
            then Inr (flags @ [False], store_candle (row\<lparr>c_id := c_id c, sc_corrected_at := Some (env_now env)\<rparr>) db1)
            else Inr (flags, db1))"

record upsert_counts =
  uc_inserted :: nat
  uc_updated :: nat
  uc_rejected :: nat

definition upsert_candle_points ::
  "tx_env \<Rightarrow> uuid \<Rightarrow> string \<Rightarrow> string \<Rightarrow> string \<Rightarrow> candle_point list \<Rightarrow> market_db \<Rightarrow> (string, upsert_counts \<times> market_db) result" where
  "upsert_candle_points env instrument_id timeframe source quality_status points db =
     res_bind (run_steps (upsert_point env instrument_id timeframe source quality_status) ([], db) points) (\<lambda>(flags, db1).
       let inserted = length (filter (\<lambda>flag. flag) flags)
       in Inr (\<lparr>uc_inserted = inserted, uc_updated = length flags - inserted, uc_rejected = length points - length flags\<rparr>, db1))"

subsection \<open>Coverage\<close>

definition exchange_code_of :: "access_tables \<Rightarrow> uuid \<Rightarrow> string option" where
  "exchange_code_of db instrument_id =
     (case [xs_code e. i \<leftarrow> at_instruments db, i_id i = instrument_id, e \<leftarrow> at_exchanges db, xs_id e = i_exchange i] of
        [] \<Rightarrow> None | code # _ \<Rightarrow> Some code)"

definition or_unknown :: "string option \<Rightarrow> string" where
  "or_unknown code = (case code of None \<Rightarrow> ''unknown'' | Some c \<Rightarrow> if c = '''' then ''unknown'' else c)"

definition final_candles :: "market_db \<Rightarrow> uuid \<Rightarrow> string \<Rightarrow> datetime option \<Rightarrow> datetime option \<Rightarrow> stored_candle list" where
  "final_candles db instrument_id timeframe requested_from requested_to =
     filter (\<lambda>c. c_instrument c = instrument_id \<and> c_timeframe c = timeframe \<and> c_final c
       \<and> (case requested_from of None \<Rightarrow> True | Some f \<Rightarrow> f \<le> c_open_time c)
       \<and> (case requested_to of None \<Rightarrow> True | Some t \<Rightarrow> c_open_time c < t)) (md_candles db)"

definition stored_open_times :: "market_db \<Rightarrow> uuid \<Rightarrow> string \<Rightarrow> datetime option \<Rightarrow> datetime option \<Rightarrow> datetime list" where
  "stored_open_times db instrument_id timeframe requested_from requested_to =
     sort (map c_open_time (final_candles db instrument_id timeframe requested_from requested_to))"

definition build_candle_coverage ::
  "(datetime \<Rightarrow> datetime) \<Rightarrow> market_db \<Rightarrow> uuid \<Rightarrow> string \<Rightarrow> datetime option \<Rightarrow> datetime option \<Rightarrow> (string, coverage_result) result" where
  "build_candle_coverage new_york db instrument_id timeframe requested_from requested_to =
     (let rows = final_candles db instrument_id timeframe requested_from requested_to;
          stored_count = length rows;
          actual_from = (if rows = [] then None else Some (Min (c_open_time ` set rows)));
          actual_to = (if rows = [] then None else Some (Max (c_close_time ` set rows)));
          exchange_code = exchange_code_of (md_access db) instrument_id
      in res_bind (find_internal_gaps new_york (stored_open_times db instrument_id timeframe requested_from requested_to)
             timeframe (or_unknown exchange_code)) (\<lambda>gaps.
           classify_candle_coverage exchange_code timeframe requested_from requested_to stored_count actual_from actual_to
             (Some (int (sum_list (map gw_missing gaps))))))"

subsection \<open>Gaps\<close>

function gap_scan :: "(datetime \<Rightarrow> bool) \<Rightarrow> datetime set \<Rightarrow> timedelta \<Rightarrow> datetime \<Rightarrow> datetime \<Rightarrow> nat \<Rightarrow> bool" where
  \<comment> \<open>the loop of \<open>_gap_is_filled\<close>\<close>
  "gap_scan expected_time stored delta to_time candidate expected =
     (if candidate < to_time \<and> 0 < delta
      then if expected_time candidate
           then if candidate \<notin> stored then False
                else gap_scan expected_time stored delta to_time (candidate + delta) (expected + 1)
           else gap_scan expected_time stored delta to_time (candidate + delta) expected
      else 0 < expected)"
  by pat_completeness auto
termination by (relation "measure (\<lambda>(_, _, _, to_time, candidate, _). nat (to_time - candidate))") auto

declare gap_scan.simps [simp del]

definition gap_is_filled :: "(datetime \<Rightarrow> datetime) \<Rightarrow> gap_row \<Rightarrow> datetime set \<Rightarrow> timedelta \<Rightarrow> string \<Rightarrow> bool" where
  "gap_is_filled new_york gap stored delta exchange_code =
     gap_scan (is_expected_market_time new_york exchange_code) stored delta (gr_to gap) (gr_from gap) 0"

definition gap_key :: "gap_row \<Rightarrow> datetime \<times> datetime" where
  "gap_key g = (gr_from g, gr_to g)"

definition window_key :: "gap_window \<Rightarrow> datetime \<times> datetime" where
  "window_key g = (gw_from g, gw_to g)"

definition existing_gaps :: "market_db \<Rightarrow> uuid \<Rightarrow> string \<Rightarrow> datetime \<Rightarrow> datetime \<Rightarrow> gap_row list" where
  "existing_gaps db instrument_id timeframe requested_from requested_to =
     filter (\<lambda>g. gr_instrument g = instrument_id \<and> gr_timeframe g = timeframe \<and> gr_reason g = ''internal_missing_candles''
       \<and> gr_status g \<in> {''open'', ''ignored''} \<and> gr_from g < requested_to \<and> requested_from < gr_to g) (md_gaps db)"

definition store_gap :: "gap_row \<Rightarrow> market_db \<Rightarrow> market_db" where
  "store_gap g db = db\<lparr>md_gaps := update_row gr_id g (md_gaps db)\<rparr>"

definition resolve_gap ::
  "tx_env \<Rightarrow> (datetime \<Rightarrow> datetime) \<Rightarrow> gap_window list \<Rightarrow> ((datetime \<times> datetime) \<times> gap_window) list \<Rightarrow> datetime set \<Rightarrow>
     timedelta \<Rightarrow> string \<Rightarrow> market_db \<Rightarrow> (datetime \<times> datetime) \<times> gap_row \<Rightarrow> market_db" where
  "resolve_gap env new_york gaps gaps_by_key stored delta exchange_code db = (\<lambda>(key, existing_gap).
     let overlapping_replacement = (\<exists>gap \<in> set gaps. gw_from gap < gr_to existing_gap \<and> gr_from existing_gap < gw_to gap)
     in if map_of gaps_by_key key = None
           \<and> (overlapping_replacement \<or> gap_is_filled new_york existing_gap stored delta exchange_code)
        then store_gap (existing_gap\<lparr>gr_status := ''resolved'', gr_resolved_at := Some (env_now env)\<rparr>) db
        else db)"

definition record_gap ::
  "uuid \<Rightarrow> string \<Rightarrow> ((datetime \<times> datetime) \<times> gap_row) list \<Rightarrow> market_db \<Rightarrow> (datetime \<times> datetime) \<times> gap_window \<Rightarrow> market_db" where
  "record_gap instrument_id timeframe existing_by_key db = (\<lambda>(key, gap).
     case map_of existing_by_key key of
       Some matching_gap \<Rightarrow> store_gap (matching_gap\<lparr>gr_expected := gw_expected gap, gr_missing := gw_missing gap\<rparr>) db
     | None \<Rightarrow>
         let (gid, db1) = market_fresh_id db
         in db1\<lparr>md_gaps := md_gaps db1 @ [\<lparr>gr_id = gid, gr_instrument = instrument_id, gr_timeframe = timeframe,
              gr_from = gw_from gap, gr_to = gw_to gap, gr_expected = gw_expected gap, gr_missing = gw_missing gap,
              gr_reason = gw_reason gap, gr_status = ''open'', gr_resolved_at = None\<rparr>]\<rparr>)"

definition persist_internal_gaps ::
  "tx_env \<Rightarrow> (datetime \<Rightarrow> datetime) \<Rightarrow> uuid \<Rightarrow> string \<Rightarrow> datetime \<Rightarrow> datetime \<Rightarrow> market_db \<Rightarrow>
     (string, gap_window list \<times> market_db) result" where
  "persist_internal_gaps env new_york instrument_id timeframe requested_from requested_to db =
     (let exchange_code = or_unknown (exchange_code_of (md_access db) instrument_id);
          open_times = stored_open_times db instrument_id timeframe (Some requested_from) (Some requested_to)
      in res_bind (timeframe_delta timeframe) (\<lambda>delta.
         res_bind (find_internal_gaps new_york open_times timeframe exchange_code) (\<lambda>gaps.
           let existing = existing_gaps db instrument_id timeframe requested_from requested_to;
               gaps_by_key = dict_of (map (\<lambda>g. (window_key g, g)) gaps);
               existing_by_key = dict_of (map (\<lambda>g. (gap_key g, g)) existing);
               db1 = foldl (resolve_gap env new_york gaps gaps_by_key (set open_times) delta exchange_code) db existing_by_key;
               db2 = foldl (record_gap instrument_id timeframe existing_by_key) db1 gaps_by_key
           in Inr (gaps, db2))))"

subsection \<open>Lemmas: the candle table\<close>

definition candles_ok :: "market_db \<Rightarrow> bool" where
  "candles_ok db \<longleftrightarrow> distinct (map business_key (md_candles db)) \<and> (\<forall>c \<in> set (md_candles db). candle_checks c)"

definition point_key :: "uuid \<Rightarrow> string \<Rightarrow> candle_point \<Rightarrow> uuid \<times> string \<times> datetime" where
  "point_key instrument_id timeframe p = (instrument_id, timeframe, the (cp_open_time p))"

definition same_candle :: "stored_candle \<Rightarrow> stored_candle \<Rightarrow> bool" where
  \<comment> \<open>equal but for the identifier and the time of correction\<close>
  "same_candle a b \<longleftrightarrow> a\<lparr>c_id := 0, sc_corrected_at := None\<rparr> = b\<lparr>c_id := 0, sc_corrected_at := None\<rparr>"

lemma proposed_key [simp]: "business_key (proposed_candle env iid tf source q cid p) = point_key iid tf p"
  by (simp add: business_key_def proposed_candle_def point_key_def)

lemma key_updates [simp]:
  "business_key (c\<lparr>c_id := i\<rparr>) = business_key c" "business_key (c\<lparr>sc_corrected_at := t\<rparr>) = business_key c"
  "candle_checks (c\<lparr>c_id := i\<rparr>) = candle_checks c" "candle_checks (c\<lparr>sc_corrected_at := t\<rparr>) = candle_checks c"
  by (simp_all add: business_key_def candle_checks_def)

lemma checked_candle_ok: "candle_checks c \<Longrightarrow> candle_ok (candle.truncate c)"
  by (auto simp: candle_checks_def candle_ok_def candle.truncate_def)

lemma find_candle_Some:
  assumes "find_candle db key = Some c"
  shows "c \<in> set (md_candles db)" "business_key c = key"
  using assms by (auto simp: find_candle_def find_Some_iff)

lemma find_candle_None: "find_candle db key = None \<longleftrightarrow> key \<notin> business_key ` set (md_candles db)"
  by (auto simp: find_candle_def find_None_iff)

lemma find_candle_store: "find_candle (store_candle c db) key =
    (if business_key c = key then map_option (\<lambda>_. c) (find_candle db key) else find_candle db key)"
proof -
  have "find (\<lambda>x. business_key x = key) (map (\<lambda>x. if business_key x = business_key c then c else x) cs) =
      (if business_key c = key then map_option (\<lambda>_. c) (find (\<lambda>x. business_key x = key) cs) else find (\<lambda>x. business_key x = key) cs)" for cs
    by (induction cs) auto
  then show ?thesis by (simp add: find_candle_def store_candle_def)
qed

lemma find_snoc: "find P (xs @ [x]) = (case find P xs of Some y \<Rightarrow> Some y | None \<Rightarrow> if P x then Some x else None)"
  by (induction xs) auto

lemma find_candle_simps [simp]:
  "find_candle (db\<lparr>md_trading := t\<rparr>) key = find_candle db key"
  "find_candle (snd (market_fresh_id db)) key = find_candle db key"
  by (simp_all add: find_candle_def fresh_token)

lemma store_candle_ok:
  assumes "candles_ok db" "candle_checks c"
  shows "candles_ok (store_candle c db)"
proof -
  have "map business_key (md_candles (store_candle c db)) = map business_key (md_candles db)"
    by (simp add: store_candle_def)
  moreover have "\<forall>x \<in> set (md_candles (store_candle c db)). candle_checks x"
    using assms by (auto simp: store_candle_def candles_ok_def)
  ultimately show ?thesis using assms(1) by (simp add: candles_ok_def)
qed

definition only_candles :: "market_db \<Rightarrow> market_db \<Rightarrow> bool" where
  \<comment> \<open>nothing but candles and the supply of identifiers changes\<close>
  "only_candles db db' \<longleftrightarrow> (\<exists>cs n. ids db \<le> n \<and> db' = db\<lparr>md_candles := cs, md_trading := md_trading db\<lparr>db_next_id := n\<rparr>\<rparr>)"

lemma only_candles_refl [simp]: "only_candles db db"
  unfolding only_candles_def by (rule exI [of _ "md_candles db"], rule exI [of _ "ids db"]) simp

lemma only_candles_trans: "only_candles a b \<Longrightarrow> only_candles b c \<Longrightarrow> only_candles a c"
proof -
  assume "only_candles a b" "only_candles b c"
  then obtain cs n cs' n' where "ids a \<le> n" "b = a\<lparr>md_candles := cs, md_trading := md_trading a\<lparr>db_next_id := n\<rparr>\<rparr>"
      "ids b \<le> n'" "c = b\<lparr>md_candles := cs', md_trading := md_trading b\<lparr>db_next_id := n'\<rparr>\<rparr>"
    unfolding only_candles_def by blast
  then have "ids a \<le> n' \<and> c = a\<lparr>md_candles := cs', md_trading := md_trading a\<lparr>db_next_id := n'\<rparr>\<rparr>" by simp
  then show "only_candles a c" unfolding only_candles_def by blast
qed

lemma upsert_point_cases:
  assumes "upsert_point env iid tf source q (flags, db) p = Inr (flags', db')"
  obtains row where "candle_checks row" "same_candle row (proposed_candle env iid tf source q 0 p)" "only_candles db db'"
    "find_candle db (point_key iid tf p) = None" "flags' = flags @ [True]" "md_candles db' = md_candles db @ [row]"
    "sc_corrected_at row = None"
  | c row where "candle_checks row" "same_candle row (proposed_candle env iid tf source q 0 p)" "only_candles db db'"
    "find_candle db (point_key iid tf p) = Some c" "sc_source c = source" "flags' = flags @ [False]"
    "md_candles db' = md_candles (store_candle row db)" "c_id row = c_id c" "sc_corrected_at row = Some (env_now env)"
  | c where "find_candle db (point_key iid tf p) = Some c" "sc_source c \<noteq> source" "flags' = flags" "only_candles db db'"
    "md_candles db' = md_candles db"
proof -
  let ?db1 = "db\<lparr>md_trading := md_trading db\<lparr>db_next_id := Suc (ids db)\<rparr>\<rparr>"
  let ?row = "proposed_candle env iid tf source q (ids db) p"
  have checks: "candle_checks ?row" using assms by (simp add: upsert_point_def fresh_token Let_def split: if_splits)
  have fresh: "only_candles db (?db1\<lparr>md_candles := cs\<rparr>)" for cs
    unfolding only_candles_def by (rule exI [of _ cs], rule exI [of _ "Suc (ids db)"]) simp
  have same: "same_candle ?row (proposed_candle env iid tf source q 0 p)"
    "same_candle (?row\<lparr>c_id := i, sc_corrected_at := t\<rparr>) (proposed_candle env iid tf source q 0 p)" for i t
    by (simp_all add: same_candle_def proposed_candle_def)
  show ?thesis
  proof (cases "find_candle db (point_key iid tf p)")
    case None
    then have "flags' = flags @ [True]" "db' = ?db1\<lparr>md_candles := md_candles db @ [?row]\<rparr>"
      using assms checks by (simp_all add: upsert_point_def fresh_token Let_def)
    then show ?thesis
      using that(1) [OF checks same(1) _ None] fresh [of "md_candles db @ [?row]"] by (simp add: proposed_candle_def)
  next
    case (Some c)
    show ?thesis
    proof (cases "sc_source c = source")
      case True
      let ?row' = "?row\<lparr>c_id := c_id c, sc_corrected_at := Some (env_now env)\<rparr>"
      have "flags' = flags @ [False]" "db' = store_candle ?row' ?db1"
        using assms checks Some True by (simp_all add: upsert_point_def fresh_token Let_def)
      then show ?thesis
        using that(2) [of ?row', OF _ same(2) _ Some True] checks fresh [of "md_candles (store_candle ?row' db)"]
        by (simp add: store_candle_def)
    next
      case False
      then have "flags' = flags" "db' = ?db1"
        using assms checks Some by (simp_all add: upsert_point_def fresh_token Let_def)
      then show ?thesis
        using that(3) [OF Some False] fresh [of "md_candles db"] by simp
    qed
  qed
qed

lemma same_candle_key: "same_candle row (proposed_candle env iid tf source q 0 p) \<Longrightarrow> business_key row = point_key iid tf p"
  using proposed_key [of env iid tf source q 0 p] by (metis key_updates(1,2) same_candle_def)

lemma same_candles: "md_candles a = md_candles b \<Longrightarrow> candles_ok a = candles_ok b"
  "md_candles a = md_candles b \<Longrightarrow> find_candle a k = find_candle b k"
  by (simp_all add: candles_ok_def find_candle_def)

lemma upsert_point_ok:
  assumes "upsert_point env iid tf source q (flags, db) p = Inr (flags', db')"
  shows "only_candles db db' \<and> (candles_ok db \<longrightarrow> candles_ok db')
    \<and> (\<forall>key. key \<noteq> point_key iid tf p \<longrightarrow> find_candle db' key = find_candle db key) \<and> length flags' \<le> Suc (length flags)"
  using assms
proof (cases rule: upsert_point_cases)
  case (1 row)
  note key = same_candle_key [OF 1(2)]
  have "candles_ok db \<longrightarrow> candles_ok db'"
    using 1(1,4,6) key by (auto simp: candles_ok_def find_candle_None)
  moreover have "find_candle db' k = find_candle db k" if "k \<noteq> point_key iid tf p" for k
    using that key by (simp add: find_candle_def 1(6) find_snoc split: option.split)
  ultimately show ?thesis using 1 by simp
next
  case (2 c row)
  note key = same_candle_key [OF 2(2)]
  have "candles_ok db \<longrightarrow> candles_ok db'"
    using store_candle_ok [OF _ 2(1)] same_candles(1) [OF 2(7)] by simp
  moreover have "find_candle db' k = find_candle db k" if "k \<noteq> point_key iid tf p" for k
    using that key by (simp add: same_candles(2) [OF 2(7)] find_candle_store)
  ultimately show ?thesis using 2 by simp
next
  case (3 c)
  then show ?thesis using same_candles [OF 3(5)] by simp
qed

text \<open>What an upsert leaves at the key of a point.\<close>

definition upserted :: "tx_env \<Rightarrow> uuid \<Rightarrow> string \<Rightarrow> string \<Rightarrow> string \<Rightarrow> market_db \<Rightarrow> market_db \<Rightarrow> candle_point \<Rightarrow> bool" where
  "upserted env iid tf source q db db' p \<longleftrightarrow>
     (case find_candle db (point_key iid tf p) of
        None \<Rightarrow> \<exists>row. find_candle db' (point_key iid tf p) = Some row
          \<and> same_candle row (proposed_candle env iid tf source q 0 p) \<and> sc_corrected_at row = None
      | Some c \<Rightarrow>
          if sc_source c = source
          then \<exists>row. find_candle db' (point_key iid tf p) = Some row
            \<and> same_candle row (proposed_candle env iid tf source q 0 p) \<and> c_id row = c_id c \<and> sc_corrected_at row = Some (env_now env)
          else find_candle db' (point_key iid tf p) = Some c)"

lemma upserted_frame:
  "find_candle db2 (point_key iid tf p) = find_candle db1 (point_key iid tf p) \<Longrightarrow>
     upserted env iid tf source q db db2 p = upserted env iid tf source q db db1 p"
  "find_candle db2 (point_key iid tf p) = find_candle db1 (point_key iid tf p) \<Longrightarrow>
     upserted env iid tf source q db2 db p = upserted env iid tf source q db1 db p"
  by (simp_all only: upserted_def)

lemma upsert_point_upserted:
  assumes "upsert_point env iid tf source q (flags, db) p = Inr (flags', db')"
  shows "upserted env iid tf source q db db' p"
  using assms
proof (cases rule: upsert_point_cases)
  case (1 row)
  then have "find_candle db' (point_key iid tf p) = Some row"
    using same_candle_key [OF 1(2)] by (simp add: find_candle_def find_snoc split: option.splits)
  then show ?thesis using 1 by (auto simp: upserted_def)
next
  case (2 c row)
  then have "find_candle db' (point_key iid tf p) = Some row"
    using same_candle_key [OF 2(2)] by (simp add: same_candles(2) [OF 2(7)] find_candle_store)
  then show ?thesis using 2 by (auto simp: upserted_def)
next
  case (3 c)
  then show ?thesis using same_candles(2) [OF 3(5)] by (simp add: upserted_def)
qed

lemma upsert_points_run:
  assumes "run_steps (upsert_point env iid tf source q) (flags, db) ps = Inr (flags', db')"
  shows "only_candles db db'" "candles_ok db \<Longrightarrow> candles_ok db'"
    "\<forall>key. key \<notin> point_key iid tf ` set ps \<longrightarrow> find_candle db' key = find_candle db key"
    "length flags' \<le> length flags + length ps"
    "distinct (map (point_key iid tf) ps) \<Longrightarrow> \<forall>p \<in> set ps. upserted env iid tf source q db db' p"
proof -
  have "only_candles db db' \<and> (candles_ok db \<longrightarrow> candles_ok db')
      \<and> (\<forall>key. key \<notin> point_key iid tf ` set ps \<longrightarrow> find_candle db' key = find_candle db key)
      \<and> length flags' \<le> length flags + length ps
      \<and> (distinct (map (point_key iid tf) ps) \<longrightarrow> (\<forall>p \<in> set ps. upserted env iid tf source q db db' p))"
    using assms
  proof (induction ps arbitrary: flags db)
    case (Cons p ps)
    then obtain flags1 db1 where step: "upsert_point env iid tf source q (flags, db) p = Inr (flags1, db1)"
        and rest: "run_steps (upsert_point env iid tf source q) (flags1, db1) ps = Inr (flags', db')"
      by (auto simp: result_simps)
    note s = upsert_point_ok [OF step] and r = Cons.IH [OF rest] and u = upsert_point_upserted [OF step]
    have "upserted env iid tf source q db db' x" if "distinct (map (point_key iid tf) (p # ps))" "x \<in> set (p # ps)" for x
    proof (cases "x = p")
      case True
      have "point_key iid tf p \<notin> point_key iid tf ` set ps" using that(1) by simp
      then have "find_candle db' (point_key iid tf p) = find_candle db1 (point_key iid tf p)" using r by blast
      then show ?thesis using u True upserted_frame(1) by blast
    next
      case False
      then have "x \<in> set ps" using that(2) by simp
      then have "point_key iid tf x \<noteq> point_key iid tf p" using that(1) by (metis distinct.simps(2) image_eqI list.set_map list.simps(9))
      then have "find_candle db1 (point_key iid tf x) = find_candle db (point_key iid tf x)" using s by blast
      moreover have "upserted env iid tf source q db1 db' x" using r that(1) \<open>x \<in> set ps\<close> by simp
      ultimately show ?thesis using upserted_frame(2) by blast
    qed
    moreover have "only_candles db db'" using s r only_candles_trans by blast
    moreover have "candles_ok db \<longrightarrow> candles_ok db'" using s r by blast
    moreover have "\<forall>key. key \<notin> point_key iid tf ` set (p # ps) \<longrightarrow> find_candle db' key = find_candle db key"
    proof (intro allI impI)
      fix key assume "key \<notin> point_key iid tf ` set (p # ps)"
      then have "key \<noteq> point_key iid tf p" "key \<notin> point_key iid tf ` set ps" by simp_all
      then show "find_candle db' key = find_candle db key" using s r by metis
    qed
    moreover have "length flags' \<le> length flags + length (p # ps)" using s r by simp
    ultimately show ?case by blast
  qed simp
  then show "only_candles db db'" "candles_ok db \<Longrightarrow> candles_ok db'"
    "\<forall>key. key \<notin> point_key iid tf ` set ps \<longrightarrow> find_candle db' key = find_candle db key"
    "length flags' \<le> length flags + length ps"
    "distinct (map (point_key iid tf) ps) \<Longrightarrow> \<forall>p \<in> set ps. upserted env iid tf source q db db' p"
    by blast+
qed


lemma upsert_only_candles: "upsert_candle_points env iid tf source q points db = Inr (counts, db') \<Longrightarrow> only_candles db db'"
  by (auto simp: upsert_candle_points_def result_simps Let_def dest: upsert_points_run(1))

lemma upsert_candles_ok: "upsert_candle_points env iid tf source q points db = Inr (counts, db') \<Longrightarrow> candles_ok db \<Longrightarrow> candles_ok db'"
  by (auto simp: upsert_candle_points_def result_simps Let_def dest: upsert_points_run(2))

definition only_gaps :: "market_db \<Rightarrow> market_db \<Rightarrow> bool" where
  \<comment> \<open>nothing but gaps and the supply of identifiers changes\<close>
  "only_gaps db db' \<longleftrightarrow> (\<exists>gs n. ids db \<le> n \<and> db' = db\<lparr>md_gaps := gs, md_trading := md_trading db\<lparr>db_next_id := n\<rparr>\<rparr>)"

lemma only_gaps_refl [simp]: "only_gaps db db"
  unfolding only_gaps_def by (rule exI [of _ "md_gaps db"], rule exI [of _ "ids db"]) simp

lemma only_gaps_trans: "only_gaps a b \<Longrightarrow> only_gaps b c \<Longrightarrow> only_gaps a c"
proof -
  assume "only_gaps a b" "only_gaps b c"
  then obtain gs n gs' n' where "ids a \<le> n" "b = a\<lparr>md_gaps := gs, md_trading := md_trading a\<lparr>db_next_id := n\<rparr>\<rparr>"
      "ids b \<le> n'" "c = b\<lparr>md_gaps := gs', md_trading := md_trading b\<lparr>db_next_id := n'\<rparr>\<rparr>"
    unfolding only_gaps_def by blast
  then have "ids a \<le> n' \<and> c = a\<lparr>md_gaps := gs', md_trading := md_trading a\<lparr>db_next_id := n'\<rparr>\<rparr>" by simp
  then show "only_gaps a c" unfolding only_gaps_def by blast
qed

lemma store_gap_only [simp]: "only_gaps db (store_gap g db)"
  unfolding only_gaps_def store_gap_def by (rule exI, rule exI [of _ "ids db"]) simp

lemma record_gap_only: "only_gaps db (record_gap iid tf existing db x)"
proof (cases "map_of existing (fst x)")
  case None
  then show ?thesis
    unfolding only_gaps_def record_gap_def fresh_token
    by (intro exI [of _ "md_gaps (record_gap iid tf existing db x)"] exI [of _ "Suc (ids db)"])
       (simp add: split_beta record_gap_def fresh_token)
qed (simp add: record_gap_def split_beta)

lemma resolve_gap_only: "only_gaps db (resolve_gap env ny gaps byk stored delta code db x)"
  by (simp add: resolve_gap_def split_beta)

lemma foldl_only_gaps: "(\<And>db x. only_gaps db (f db x)) \<Longrightarrow> only_gaps db (foldl f db xs)"
  by (induction xs arbitrary: db) (auto intro: only_gaps_trans)

lemma persist_only_gaps: "persist_internal_gaps env ny iid tf rf rt db = Inr (gaps, db') \<Longrightarrow> only_gaps db db'"
  by (auto simp: persist_internal_gaps_def result_simps Let_def
      intro!: only_gaps_trans [OF foldl_only_gaps [OF resolve_gap_only] foldl_only_gaps [OF record_gap_only]])

end
