(* ===== verification/Market_Pages.thy ===== *)
theory Market_Pages
  imports Candle_Store
begin

text \<open>
  The pages of a feed's work: \<open>app/market_data/infrastructure/pages.py\<close>, the classification of failures
  (\<open>page_errors.py\<close>) and the execution of one page (\<open>app/market_data/application/execute_page.py\<close>). What
  an exchange answers is a parameter, and so is what other transactions do meanwhile.
\<close>

subsection \<open>The points of a page\<close>

record prepared_page =
  pp_claim :: lease_claim
  pp_access :: access_snapshot
  pp_start :: datetime
  pp_end :: datetime
  pp_scan_end :: datetime
  pp_observed_at :: datetime

definition point_values_ok :: "datetime \<Rightarrow> datetime \<Rightarrow> candle_point \<Rightarrow> bool" where
  "point_values_ok open_time close_time p \<longleftrightarrow>
     open_time < close_time
     \<and> (case (cp_open p, cp_high p, cp_low p, cp_close p) of
          (Some o', Some h, Some l, Some c) \<Rightarrow> 0 < o' \<and> 0 < h \<and> 0 < l \<and> 0 < c
            \<and> l \<le> min o' c \<and> min o' c \<le> max o' c \<and> max o' c \<le> h
        | _ \<Rightarrow> False)
     \<and> (case cp_volume p of None \<Rightarrow> True | Some None \<Rightarrow> False | Some (Some v) \<Rightarrow> 0 \<le> v)
     \<and> (case cp_trade_count p of None \<Rightarrow> True | Some n \<Rightarrow> 0 \<le> n)"

definition point_step ::
  "prepared_page \<Rightarrow> (datetime \<times> candle_point) list \<Rightarrow> candle_point \<Rightarrow> (string, (datetime \<times> candle_point) list) result" where
  "point_step page unique p =
     (case (cp_open_time p, cp_close_time p) of
        (Some open_time, Some close_time) \<Rightarrow>
          if \<not> (pp_start page \<le> open_time \<and> open_time < pp_end page) then Inr unique
          else if \<not> cp_final p \<or> min (pp_end page) (pp_observed_at page) < close_time then Inr unique
          else if \<not> point_values_ok open_time close_time p
             \<or> (case map_of unique open_time of None \<Rightarrow> False | Some q \<Rightarrow> q \<noteq> p) then Inl ''invalid_candles''
          else Inr (AList.update open_time p unique)
      | _ \<Rightarrow> Inl ''invalid_candles'')"

definition final_points :: "prepared_page \<Rightarrow> candle_point list \<Rightarrow> (string, candle_point list) result" where
  "final_points page points =
     res_bind (run_steps (point_step page) [] points) (\<lambda>unique. Inr (map snd (sort_key fst unique)))"

subsection \<open>Preparing a page\<close>

record page_config =
  pc_urlparse :: "string \<Rightarrow> parsed_url"
  pc_page_size :: "nat option"
  pc_new_york :: "datetime \<Rightarrow> datetime"

definition page_config_ok :: "page_config \<Rightarrow> bool" where
  \<comment> \<open>the constructor of \<open>PageStore\<close>\<close>
  "page_config_ok cfg \<longleftrightarrow> (case pc_page_size cfg of None \<Rightarrow> True | Some n \<Rightarrow> 2 \<le> n \<and> n \<le> 950)"

definition resolve_feed :: "page_config \<Rightarrow> market_db \<Rightarrow> feed_key \<Rightarrow> (string, access_snapshot) result" where
  "resolve_feed cfg db feed = resolve_access (pc_urlparse cfg) (md_access db) (fk_workspace feed) (fk_instrument feed)"

definition latest_close :: "market_db \<Rightarrow> feed_key \<Rightarrow> datetime option" where
  "latest_close db feed =
     (let closes = map c_close_time (filter (\<lambda>c. c_instrument c = fk_instrument feed \<and> c_timeframe c = fk_timeframe feed \<and> c_final c)
        (md_candles db))
      in if closes = [] then None else Some (Max (set closes)))"

fun scan_window :: "tx_env \<Rightarrow> timedelta \<Rightarrow> market_db \<Rightarrow> work_row \<Rightarrow> (string, work_row \<times> datetime \<times> datetime \<times> bool) result" where
  \<comment> \<open>the target with its checkpoint, where to start, where to end, and whether to reread the last candle\<close>
  "scan_window env delta db (Feed s) =
     (let (s', overlap) =
        (if sb_scan_to s = None \<and> wf_next_fetch s = None
         then let latest = latest_close db (wf_feed s)
              in (s\<lparr>sb_scan_to := Some (env_now env),
                    wf_next_fetch := Some (case latest of Some l \<Rightarrow> min l (env_now env) | None \<Rightarrow> env_now env - 2 * delta)\<rparr>,
                  latest \<noteq> None)
         else (s, True))
      in case (sb_scan_to s', wf_next_fetch s') of
           (Some scan_end, Some start) \<Rightarrow> Inr (Feed s', start, scan_end, overlap)
         | _ \<Rightarrow> Inl ''invalid_checkpoint'')"
| "scan_window env delta db (Job b) =
     (let start = (case wf_next_fetch b of Some t \<Rightarrow> t | None \<Rightarrow> bf_from b);
          scan_end = bf_to b
      in if bf_from b \<le> start \<and> start \<le> scan_end
         then Inr (Job b, start, scan_end, bf_from b < start \<and> start < scan_end)
         else Inl ''invalid_checkpoint'')"

definition page_start :: "timedelta \<Rightarrow> work_row \<Rightarrow> datetime \<Rightarrow> bool \<Rightarrow> datetime" where
  "page_start delta target start overlap =
     (if overlap then (case target of Job b \<Rightarrow> max (start - delta) (bf_from b) | Feed _ \<Rightarrow> start - delta) else start)"

definition page_width :: "page_config \<Rightarrow> access_snapshot \<Rightarrow> nat" where
  "page_width cfg access = (case pc_page_size cfg of Some n \<Rightarrow> if n = 0 then (if ap_exchange access = ''oanda'' then 4900 else 950) else n
     | None \<Rightarrow> if ap_exchange access = ''oanda'' then 4900 else 950)"

definition prepare_body ::
  "page_config \<Rightarrow> tx_env \<Rightarrow> lease_claim \<Rightarrow> work_row \<Rightarrow> market_db \<Rightarrow> (string, prepared_page \<times> market_db) result" where
  "prepare_body cfg env cl target db =
     res_bind (resolve_feed cfg db (wr_feed (lc_work cl))) (\<lambda>access.
     res_bind (timeframe_delta (fk_timeframe (wr_feed (lc_work cl)))) (\<lambda>delta.
     res_bind (scan_window env delta db target) (\<lambda>(target', start, scan_end, overlap).
       let request_start = page_start delta target' start overlap;
           end_time = min scan_end (request_start + int (page_width cfg access) * delta)
       in Inr (\<lparr>pp_claim = cl\<lparr>lc_next_fetch := row_next_fetch target'\<rparr>, pp_access = access, pp_start = request_start,
                pp_end = end_time, pp_scan_end = scan_end, pp_observed_at = env_now env\<rparr>,
               store_target target' db))))"

definition prepare_page :: "page_config \<Rightarrow> tx_env \<Rightarrow> lease_claim \<Rightarrow> market_db \<Rightarrow> (string, prepared_page \<times> market_db) result" where
  "prepare_page cfg env cl db = guarded_write env cl False (prepare_body cfg env cl) db"

subsection \<open>Saving a page\<close>

definition recheck :: "page_config \<Rightarrow> market_db \<Rightarrow> prepared_page \<Rightarrow> (string, unit) result" where
  "recheck cfg db page =
     res_bind (resolve_feed cfg db (wr_feed (lc_work (pp_claim page)))) (\<lambda>access.
       raise_if (access \<noteq> pp_access page) ''access_changed'')"

definition store_accepted ::
  "tx_env \<Rightarrow> prepared_page \<Rightarrow> work_row \<Rightarrow> candle_point list \<Rightarrow> market_db \<Rightarrow> (string, (nat \<times> nat) \<times> market_db) result" where
  "store_accepted env page target accepted db =
     (if accepted = [] then Inr ((0, 0), db)
      else res_bind (upsert_candle_points env (fk_instrument (row_feed target)) (fk_timeframe (row_feed target))
             (ap_exchange (pp_access page)) (if row_kind target = Backfill then ''backfilled'' else ''complete'') accepted db)
           (\<lambda>(counts, db1). Inr ((uc_inserted counts, uc_updated counts), db1)))"

definition page_report ::
  "prepared_page \<Rightarrow> candle_point list \<Rightarrow> candle_point list \<Rightarrow> nat \<Rightarrow> nat \<Rightarrow> ingestion_report \<Rightarrow> ingestion_report" where
  "page_report page points accepted inserted updated r =
     (let r1 = r\<lparr>ir_received := ir_received r + int (length points), ir_inserted := ir_inserted r + int inserted,
           ir_updated := ir_updated r + int updated\<rparr>;
          r2 = record_candles (map (\<lambda>p. the (cp_open_time p)) accepted) r1
      in if points = [] then record_empty_window (pp_start page) (pp_end page) r2 else r2)"

fun saved_target ::
  "tx_env \<Rightarrow> prepared_page \<Rightarrow> candle_point list \<Rightarrow> candle_point list \<Rightarrow> nat \<Rightarrow> nat \<Rightarrow> work_row \<Rightarrow> (string, work_row) result" where
  "saved_target env page points accepted inserted updated (Job b) =
     res_bind (restore_report (bf_from b) (bf_to b) (bf_progress b)) (\<lambda>r.
       let r' = page_report page points accepted inserted updated r
       in Inr (Job (b\<lparr>wf_next_fetch := Some (pp_end page), wf_failures := 0, wf_next_run := env_now env,
            bf_progress := JObj (as_validation_result r' [] []), bf_rows_written := ir_rows_written r', bf_error := None\<rparr>)))"
| "saved_target env page points accepted inserted updated (Feed s) =
     (let s1 = s\<lparr>wf_next_fetch := Some (pp_end page), wf_failures := 0, wf_next_run := env_now env,
            sb_last_polled := Some (env_now env), sb_last_error := None\<rparr>
      in Inr (Feed (if pp_end page = pp_scan_end page
           then s1\<lparr>wf_next_fetch := None, sb_scan_to := None, sb_last_success := Some (env_now env),
             wf_next_run := env_now env + seconds (sb_poll_interval s)\<rparr>
           else s1)))"

definition save_body ::
  "page_config \<Rightarrow> tx_env \<Rightarrow> prepared_page \<Rightarrow> candle_point list \<Rightarrow> candle_point list \<Rightarrow> work_row \<Rightarrow> market_db \<Rightarrow>
     (string, unit \<times> market_db) result" where
  "save_body cfg env page points accepted target db =
     res_bind (recheck cfg db page) (\<lambda>_.
     res_bind (store_accepted env page target accepted db) (\<lambda>((inserted, updated), db1).
     res_bind (saved_target env page points accepted inserted updated target) (\<lambda>target'.
       Inr ((), store_target target' db1))))"

definition save_page ::
  "page_config \<Rightarrow> tx_env \<Rightarrow> prepared_page \<Rightarrow> candle_point list \<Rightarrow> market_db \<Rightarrow> (string, unit \<times> market_db) result" where
  "save_page cfg env page points db =
     res_bind (final_points page points) (\<lambda>accepted.
       guarded_write env (pp_claim page) True (save_body cfg env page points accepted) db)"

subsection \<open>Completing a backfill\<close>

fun complete_body ::
  "page_config \<Rightarrow> tx_env \<Rightarrow> prepared_page \<Rightarrow> work_row \<Rightarrow> market_db \<Rightarrow> (string, unit \<times> market_db) result" where
  "complete_body cfg env page (Job b) db =
     res_bind (recheck cfg db page) (\<lambda>_.
     let instrument_id = fk_instrument (wf_feed b); timeframe = fk_timeframe (wf_feed b)
     in res_bind (persist_internal_gaps env (pc_new_york cfg) instrument_id timeframe (bf_from b) (bf_to b) db) (\<lambda>(gaps, db1).
        res_bind (build_candle_coverage (pc_new_york cfg) db1 instrument_id timeframe (Some (bf_from b)) (Some (bf_to b))) (\<lambda>coverage.
        res_bind (restore_report (bf_from b) (bf_to b) (bf_progress b)) (\<lambda>r.
          let b' = b\<lparr>bf_validation := JObj (as_validation_result r (coverage_dict coverage) gaps), bf_status := ''succeeded'',
                bf_error := None, wf_failures := 0, bf_finished := Some (env_now env)\<rparr>
          in Inr ((), lease_audit (lc_work (pp_claim page)) ''market_data.work_completed'' (target_state (Job b'))
               (target_state (Job b)) (store_target (Job b') db1))))))"
| "complete_body cfg env page (Feed s) db = res_bind (recheck cfg db page) (\<lambda>_. Inl ''invalid_checkpoint'')"

definition complete_page :: "page_config \<Rightarrow> tx_env \<Rightarrow> prepared_page \<Rightarrow> market_db \<Rightarrow> (string, unit \<times> market_db) result" where
  "complete_page cfg env page db = guarded_write env (pp_claim page) True (complete_body cfg env page) db"

subsection \<open>Failures\<close>

record page_failure =
  pf_code :: string
  pf_retryable :: bool
  pf_retry_after :: rat

datatype retry_after =
    Retry_seconds rat      \<comment> \<open>a finite number\<close>
  | Retry_not_finite       \<comment> \<open>a number, infinite or not a number\<close>
  | Retry_date datetime    \<comment> \<open>an HTTP date\<close>
  | Retry_unreadable

record cause =
  \<comment> \<open>one exception of the chain of causes\<close>
  cs_network :: bool
  cs_status :: "int option"
  cs_retry :: retry_after

datatype page_exn = Lease_lost | Database_error | Authentication_error | Access_error string | Caused_by "cause list"

definition plain_failure :: "string \<Rightarrow> page_failure" where
  "plain_failure code = \<lparr>pf_code = code, pf_retryable = False, pf_retry_after = 0\<rparr>"

definition rate_limit_delay :: "datetime \<Rightarrow> retry_after \<Rightarrow> rat" where
  "rate_limit_delay now raw =
     (case raw of
        Retry_seconds x \<Rightarrow> if 0 \<le> x then x else 0
      | Retry_not_finite \<Rightarrow> 0
      | Retry_date t \<Rightarrow> max 0 (total_seconds (t - now))
      | Retry_unreadable \<Rightarrow> 0)"

fun classify_chain :: "datetime \<Rightarrow> nat \<Rightarrow> cause list \<Rightarrow> page_failure" where
  \<comment> \<open>the loop over at most five exceptions\<close>
  "classify_chain now 0 causes = plain_failure ''internal_error''"
| "classify_chain now (Suc n) [] = plain_failure ''internal_error''"
| "classify_chain now (Suc n) (c # causes) =
     (if cs_network c then \<lparr>pf_code = ''communication_failed'', pf_retryable = True, pf_retry_after = 0\<rparr>
      else case cs_status c of
        None \<Rightarrow> classify_chain now n causes
      | Some status \<Rightarrow>
          if status = 401 \<or> status = 403 then plain_failure ''authentication_failed''
          else if status = 429
          then let delay = rate_limit_delay now (cs_retry c)
               in if 365 * 86400 < delay then plain_failure ''rate_limited''
                  else \<lparr>pf_code = ''rate_limited'', pf_retryable = True, pf_retry_after = delay\<rparr>
          else if 500 \<le> status \<and> status \<le> 599
          then \<lparr>pf_code = ''communication_failed'', pf_retryable = True, pf_retry_after = 0\<rparr>
          else classify_chain now n causes)"

definition allowed_codes :: "string set" where
  "allowed_codes = {''access_unavailable'', ''credentials_missing'', ''credentials_unreadable'', ''invalid_candles'',
     ''access_changed'', ''invalid_checkpoint''}"

definition classify_failure :: "datetime \<Rightarrow> page_exn \<Rightarrow> page_failure" where
  "classify_failure now e =
     (case e of
        Authentication_error \<Rightarrow> plain_failure ''authentication_failed''
      | Access_error code \<Rightarrow> plain_failure (if code \<in> allowed_codes then code else ''configuration_error'')
      | Caused_by causes \<Rightarrow> classify_chain now 5 causes
      | _ \<Rightarrow> plain_failure ''internal_error'')"

definition failure_delay :: "nat \<Rightarrow> rat \<Rightarrow> uuid \<Rightarrow> timedelta" where
  \<comment> \<open>a number of seconds, rounded to microseconds\<close>
  "failure_delay failures after wid =
     rhe (fround (max (if failures = 1 then 30 else 120) after + of_nat (wid mod 6)) * 1000000)"

definition retried :: "page_failure \<Rightarrow> work_row \<Rightarrow> bool" where
  "retried f t \<longleftrightarrow> pf_retryable f \<and> row_failures t + 1 < 3"

fun failed_target :: "tx_env \<Rightarrow> page_failure \<Rightarrow> uuid \<Rightarrow> work_row \<Rightarrow> work_row" where
  "failed_target env f wid (Job b) =
     (let failures = wf_failures b + 1; retry = retried f (Job b)
      in Job (b\<lparr>wf_failures := failures, wf_next_run := env_now env + failure_delay failures (pf_retry_after f) wid,
           bf_error := Some (pf_code f), bf_status := (if retry then ''queued'' else ''failed''),
           bf_finished := (if retry then None else Some (env_now env))\<rparr>))"
| "failed_target env f wid (Feed s) =
     (let failures = wf_failures s + 1; retry = retried f (Feed s)
      in Feed (s\<lparr>wf_failures := failures, wf_next_run := env_now env + failure_delay failures (pf_retry_after f) wid,
           sb_last_error := Some (pf_code f), sb_last_polled := Some (env_now env),
           sb_blocked := (if retry then sb_blocked s else Some (pf_code f))\<rparr>))"

definition fail_body ::
  "tx_env \<Rightarrow> lease_claim \<Rightarrow> page_failure \<Rightarrow> work_row \<Rightarrow> market_db \<Rightarrow> (string, unit \<times> market_db) result" where
  "fail_body env cl f target db =
     (let retry = retried f target;
          target' = failed_target env f (wr_id (lc_work cl)) target;
          db1 = store_target target' db;
          db2 = (if retry then db1 else announce_stopped env target' (pf_code f) db1)
      in Inr ((), lease_audit (lc_work cl) (if retry then ''market_data.work_retry'' else ''market_data.work_blocked'')
           (target_state target' @ [(''error_code'', D_text (pf_code f))]) (target_state target) db2))"

definition fail_page :: "tx_env \<Rightarrow> lease_claim \<Rightarrow> page_failure \<Rightarrow> market_db \<Rightarrow> (string, unit \<times> market_db) result" where
  "fail_page env cl f db = guarded_write env cl True (fail_body env cl f) db"

subsection \<open>Executing a page\<close>

datatype fetched = Fetched "candle_point list" | Fetch_raised page_exn | Fetch_cancelled

datatype page_outcome = Saved | Completed | Failed | Discarded

datatype page_result = Outcome page_outcome | Raised page_exn | Cancelled

type_synonym exchange_client =
  \<comment> \<open>the answer within the timeout, a timeout being a network failure\<close>
  "(string \<rightharpoonup> string) \<Rightarrow> access_snapshot \<Rightarrow> string \<Rightarrow> datetime \<Rightarrow> datetime \<Rightarrow> fetched"

definition fetch_points :: "secrets \<Rightarrow> exchange_client \<Rightarrow> access_snapshot \<Rightarrow> string \<Rightarrow> datetime \<Rightarrow> datetime \<Rightarrow> fetched" where
  "fetch_points secrets client access timeframe start end_time =
     (case load_credentials secrets (Some (ap_secret_ref access)) (ap_exchange access) of
        Inl code \<Rightarrow> Fetch_raised (Access_error code)
      | Inr credentials \<Rightarrow> client credentials access timeframe start end_time)"

definition exn_of :: "string \<Rightarrow> page_exn" where
  \<comment> \<open>the exceptions the store raises, by the name or code the model gives them\<close>
  "exn_of e = (if e = ''LeaseLost'' then Lease_lost
     else if e = ''IntegrityError'' \<or> e = ''MultipleResultsFound'' then Database_error
     else if e \<in> allowed_codes then Access_error e
     else Caused_by [\<lparr>cs_network = False, cs_status = None, cs_retry = Retry_unreadable\<rparr>])"

definition give_back :: "tx_env \<Rightarrow> lease_claim \<Rightarrow> page_result \<Rightarrow> market_db \<Rightarrow> page_result \<times> market_db" where
  "give_back env cl result db = (result, snd (release_lease env cl db))"

definition handle_page_exn :: "tx_env \<Rightarrow> lease_claim \<Rightarrow> page_exn \<Rightarrow> market_db \<Rightarrow> page_result \<times> market_db" where
  "handle_page_exn env cl e db =
     (case e of
        Database_error \<Rightarrow> (Raised Database_error, db)
      | Lease_lost \<Rightarrow> give_back env cl (Outcome Discarded) db
      | _ \<Rightarrow> (case fail_page env cl (classify_failure (env_now env) e) db of
          Inr (_, db1) \<Rightarrow> (Outcome Failed, db1)
        | Inl code \<Rightarrow> if code = ''LeaseLost'' then give_back env cl (Outcome Discarded) db else (Raised (exn_of code), db)))"

definition execute_page ::
  "page_config \<Rightarrow> secrets \<Rightarrow> exchange_client \<Rightarrow> tx_env \<Rightarrow> tx_env \<Rightarrow> tx_env \<Rightarrow> (market_db \<Rightarrow> market_db) \<Rightarrow> lease_claim \<Rightarrow> market_db \<Rightarrow>
     page_result \<times> market_db" where
  \<comment> \<open>three transactions, each with its clock; \<open>others\<close> is what committed while the page was fetched\<close>
  "execute_page cfg secrets client env1 env2 env3 others cl db =
     (case prepare_page cfg env1 cl db of
        Inl e \<Rightarrow> handle_page_exn env3 cl (exn_of e) db
      | Inr (page, db1) \<Rightarrow>
          let cl' = pp_claim page; db2 = others db1
          in if wr_kind (lc_work cl') = Backfill \<and> pp_start page = pp_scan_end page
             then (case complete_page cfg env2 page db2 of
                 Inl e \<Rightarrow> handle_page_exn env3 cl' (exn_of e) db2
               | Inr (_, db3) \<Rightarrow> (Outcome Completed, db3))
             else (case fetch_points secrets client (pp_access page) (fk_timeframe (wr_feed (lc_work cl'))) (pp_start page) (pp_end page) of
                 Fetch_cancelled \<Rightarrow> give_back env3 cl' Cancelled db2
               | Fetch_raised e \<Rightarrow> handle_page_exn env3 cl' e db2
               | Fetched points \<Rightarrow>
                   (case save_page cfg env2 page points db2 of
                      Inl e \<Rightarrow> handle_page_exn env3 cl' (exn_of e) db2
                    | Inr (_, db3) \<Rightarrow> (Outcome Saved, db3))))"

definition process_work ::
  "page_config \<Rightarrow> secrets \<Rightarrow> exchange_client \<Rightarrow> timedelta \<Rightarrow> bool \<Rightarrow> uuid \<Rightarrow> (nat \<Rightarrow> tx_env) \<Rightarrow> (market_db \<Rightarrow> market_db) \<Rightarrow> work_ref \<Rightarrow>
     market_db \<Rightarrow> market_db" where
  \<comment> \<open>the runner claims and executes; an exception ends this work only\<close>
  "process_work cfg secrets client duration busy owner env others work db =
     (case claim_work (env 0) duration busy work owner db of
        Inl _ \<Rightarrow> db
      | Inr (None, db1) \<Rightarrow> db1
      | Inr (Some cl, db1) \<Rightarrow> snd (execute_page cfg secrets client (env 1) (env 2) (env 3) others cl db1))"

subsection \<open>Lemmas: the points of a page\<close>

definition accepted_ok :: "prepared_page \<Rightarrow> datetime \<Rightarrow> candle_point \<Rightarrow> bool" where
  "accepted_ok page t p \<longleftrightarrow> cp_open_time p = Some t \<and> pp_start page \<le> t \<and> t < pp_end page \<and> cp_final p
     \<and> (\<exists>c. cp_close_time p = Some c \<and> c \<le> min (pp_end page) (pp_observed_at page) \<and> point_values_ok t c p)"

lemma point_step_ok:
  assumes "point_step page unique p = Inr unique'" "distinct (map fst unique)" "\<forall>(t, q) \<in> set unique. accepted_ok page t q"
  shows "distinct (map fst unique') \<and> (\<forall>(t, q) \<in> set unique'. accepted_ok page t q)"
proof (cases "unique' = unique")
  case False
  then obtain t c where t: "cp_open_time p = Some t" "cp_close_time p = Some c" "unique' = AList.update t p unique"
      and ok: "pp_start page \<le> t" "t < pp_end page" "cp_final p" "c \<le> min (pp_end page) (pp_observed_at page)" "point_values_ok t c p"
    using assms(1) by (auto simp: point_step_def not_less split: option.splits if_splits)
  have "accepted_ok page t p" using t ok by (simp add: accepted_ok_def)
  moreover have "set (AList.update t p unique) \<subseteq> insert (t, p) (set unique)"
    by (induction unique) auto
  ultimately show ?thesis
    using assms(2,3) t(3) distinct_update [of unique t p] by auto
qed (use assms in simp)

lemma points_run_ok:
  "run_steps (point_step page) unique ps = Inr unique' \<Longrightarrow> distinct (map fst unique) \<Longrightarrow> \<forall>(t, q) \<in> set unique. accepted_ok page t q \<Longrightarrow>
     distinct (map fst unique') \<and> (\<forall>(t, q) \<in> set unique'. accepted_ok page t q)"
proof (induction ps arbitrary: unique)
  case (Cons p ps)
  then obtain u where "point_step page unique p = Inr u" "run_steps (point_step page) u ps = Inr unique'"
    by (auto simp: result_simps)
  then show ?case using Cons point_step_ok by metis
qed simp

definition in_page :: "prepared_page \<Rightarrow> candle_point \<Rightarrow> bool" where
  "in_page page p \<longleftrightarrow> cp_final p \<and> (\<exists>t c. cp_open_time p = Some t \<and> cp_close_time p = Some c
     \<and> pp_start page \<le> t \<and> t < pp_end page \<and> c \<le> min (pp_end page) (pp_observed_at page))"

lemma update_same: "map_of d k = Some v \<Longrightarrow> snd ` set (AList.update k v d) = snd ` set d"
  by (induction d) (auto split: if_splits)

lemma update_new: "map_of d k = None \<Longrightarrow> AList.update k v d = d @ [(k, v)]"
  by (induction d) (auto split: if_splits)

lemma point_step_values:
  assumes "point_step page unique p = Inr unique'"
  shows "snd ` set unique' = snd ` set unique \<union> (if in_page page p then {p} else {})"
proof -
  obtain t c where t: "cp_open_time p = Some t" "cp_close_time p = Some c"
    using assms by (auto simp: point_step_def split: option.splits)
  show ?thesis
  proof (cases "in_page page p")
    case True
    then have kept: "unique' = AList.update t p unique"
        and same: "\<And>q. map_of unique t = Some q \<Longrightarrow> q = p"
      using assms t by (auto simp: point_step_def in_page_def not_less split: if_splits option.splits)
    show ?thesis
    proof (cases "map_of unique t")
      case None
      then show ?thesis using True by (simp add: kept update_new)
    next
      case (Some q)
      then have "map_of unique t = Some p" using same by simp
      moreover from this have "p \<in> snd ` set unique" by (force dest: map_of_SomeD)
      ultimately show ?thesis using True update_same [of unique t p] by (auto simp: kept)
    qed
  next
    case False
    then have "unique' = unique" using assms t by (auto simp: point_step_def in_page_def not_less split: if_splits option.splits)
    then show ?thesis using False by simp
  qed
qed

lemma points_run_values:
  "run_steps (point_step page) unique ps = Inr unique' \<Longrightarrow>
     snd ` set unique' = snd ` set unique \<union> {p \<in> set ps. in_page page p}"
proof (induction ps arbitrary: unique)
  case (Cons p ps)
  then obtain u where step: "point_step page unique p = Inr u" "run_steps (point_step page) u ps = Inr unique'"
    by (auto simp: result_simps)
  show ?case using Cons.IH [OF step(2)] point_step_values [OF step(1)] by auto
qed simp

text \<open>
  A page keeps exactly its final points: those that opened inside the window, are final and closed
  before the window's end and before they were observed. They come once per opening time, in order, with
  positive prices, the low and the high around open and close, and no negative volume or count.
\<close>

theorem final_points_sound:
  assumes "final_points page points = Inr accepted"
  shows "set accepted = {p \<in> set points. in_page page p}
    \<and> sorted_wrt (<) (map (\<lambda>p. the (cp_open_time p)) accepted) \<and> (\<forall>p \<in> set accepted. accepted_ok page (the (cp_open_time p)) p)"
proof (intro conjI)
  obtain u where run: "run_steps (point_step page) [] points = Inr u" and acc: "accepted = map snd (sort_key fst u)"
    using assms by (auto simp: final_points_def result_simps)
  have ok: "distinct (map fst u)" "\<forall>(t, q) \<in> set u. accepted_ok page t q"
    using points_run_ok [OF run] by simp_all
  show "set accepted = {p \<in> set points. in_page page p}"
    using points_run_values [OF run] by (simp add: acc)
  have times: "map (\<lambda>p. the (cp_open_time p)) accepted = map fst (sort_key fst u)"
    unfolding acc using ok(2) by (auto simp: accepted_ok_def)
  have "distinct (map fst (sort_key fst u))"
    using ok(1) by (simp add: distinct_map)
  then show "sorted_wrt (<) (map (\<lambda>p. the (cp_open_time p)) accepted)"
    unfolding times by (simp add: strict_sorted_iff)
  show "\<forall>p \<in> set accepted. accepted_ok page (the (cp_open_time p)) p"
    using ok(2) by (auto simp: acc accepted_ok_def)
qed

subsection \<open>Lemmas: what a page transaction changes\<close>

lemma guarded_write_cases:
  assumes "guarded_write env cl release body db = Inr (x, db')"
  obtains lease target db1 where "find_lease db (wr_feed (lc_work cl)) = Some lease" "owned lease cl (env_now env)"
    "find_target db (lc_work cl) = Some target" "active_target target" "row_next_fetch target = lc_next_fetch cl"
    "body target db = Inr (x, db1)" "db' = (if release then store_lease (cleared lease) db1 else db1)"
  using assms by (auto simp: guarded_write_def result_simps split: option.splits if_splits)

lemma only_candles_simps:
  assumes "only_candles db db'"
  shows "same_leases db db'" "find_target db' w = find_target db w" "md_gaps db' = md_gaps db" "md_access db' = md_access db"
    "md_backfills db' = md_backfills db" "md_subscriptions db' = md_subscriptions db"
  using assms by (auto simp: only_candles_def same_leases_def find_target_def cong: work_kind.case_cong)

lemma only_gaps_simps:
  assumes "only_gaps db db'"
  shows "same_leases db db'" "find_target db' w = find_target db w" "md_candles db' = md_candles db" "md_access db' = md_access db"
    "md_backfills db' = md_backfills db" "md_subscriptions db' = md_subscriptions db"
  using assms by (auto simp: only_gaps_def same_leases_def find_target_def cong: work_kind.case_cong)

lemma store_accepted_only: "store_accepted env page target accepted db = Inr (n, db') \<Longrightarrow> only_candles db db'"
  by (auto simp: store_accepted_def result_simps split: if_splits dest: upsert_only_candles)

lemma scan_window_target:
  assumes "scan_window env delta db t = Inr (t', start, scan_end, overlap)"
  shows "row_id t' = row_id t \<and> row_feed t' = row_feed t \<and> row_kind t' = row_kind t \<and> row_failures t' = row_failures t
    \<and> (active_target t' \<longleftrightarrow> active_target t)"
  using assms by (cases t) (auto simp: Let_def split: if_splits option.splits prod.splits)

lemma saved_target_row:
  assumes "saved_target env page points accepted i u t = Inr t'"
  shows "row_id t' = row_id t \<and> row_feed t' = row_feed t \<and> row_kind t' = row_kind t \<and> row_failures t' = 0
    \<and> (active_target t' \<longleftrightarrow> active_target t)"
  using assms by (cases t; cases "pp_end page = pp_scan_end page") (auto simp: Let_def result_simps)

lemma failed_target_row:
  "row_id (failed_target env f w t) = row_id t" "row_feed (failed_target env f w t) = row_feed t"
  "row_kind (failed_target env f w t) = row_kind t" "row_failures (failed_target env f w t) = Suc (row_failures t)"
  by (cases t; simp add: Let_def)+

lemma prepare_body_same: "prepare_body cfg env cl target db = Inr (page, db') \<Longrightarrow> same_leases db db'"
  by (auto simp: prepare_body_def result_simps Let_def)

lemma save_body_same: "save_body cfg env page points accepted target db = Inr (x, db') \<Longrightarrow> same_leases db db'"
  by (auto simp: save_body_def result_simps
      intro: same_leases_trans [OF only_candles_simps(1) [OF store_accepted_only] store_target_same])

lemma complete_body_same: "complete_body cfg env page target db = Inr (x, db') \<Longrightarrow> same_leases db db'"
  by (cases target)
     (auto simp: result_simps Let_def
      intro: same_leases_trans [OF only_gaps_simps(1) [OF persist_only_gaps] same_leases_trans [OF store_target_same lease_audit_same]])

lemma fail_body_same: "fail_body env cl f target db = Inr (x, db') \<Longrightarrow> same_leases db db'"
  by (auto simp: fail_body_def Let_def
      intro: same_leases_trans [OF store_target_same lease_audit_same]
        same_leases_trans [OF same_leases_trans [OF store_target_same announce_same] lease_audit_same])

lemma prepare_move: "prepare_page cfg env cl db = Inr (page, db') \<Longrightarrow> lease_move db db'"
  unfolding prepare_page_def by (erule guarded_write_move) (rule prepare_body_same)

lemma save_move: "save_page cfg env page points db = Inr (x, db') \<Longrightarrow> lease_move db db'"
  unfolding save_page_def by (auto simp: result_simps elim!: guarded_write_move dest: save_body_same)

lemma complete_move: "complete_page cfg env page db = Inr (x, db') \<Longrightarrow> lease_move db db'"
  unfolding complete_page_def by (erule guarded_write_move) (rule complete_body_same)

lemma fail_move: "fail_page env cl f db = Inr (x, db') \<Longrightarrow> lease_move db db'"
  unfolding fail_page_def by (erule guarded_write_move) (rule fail_body_same)

subsection \<open>Lemmas: a backfill advances\<close>

definition checkpoint :: "worker_backfill \<Rightarrow> datetime" where
  "checkpoint b = (case wf_next_fetch b of Some t \<Rightarrow> t | None \<Rightarrow> bf_from b)"

definition next_checkpoint :: "timedelta \<Rightarrow> nat \<Rightarrow> datetime \<Rightarrow> datetime \<Rightarrow> datetime \<Rightarrow> datetime" where
  "next_checkpoint delta width from_time to_time ck =
     min to_time ((if from_time < ck \<and> ck < to_time then max (ck - delta) from_time else ck) + int width * delta)"

lemma next_checkpoint_advances:
  assumes "0 < delta" "2 \<le> width" "from_time \<le> ck" "ck < to_time"
  shows "min to_time (ck + int (width - 1) * delta) \<le> next_checkpoint delta width from_time to_time ck"
    "ck < next_checkpoint delta width from_time to_time ck" "next_checkpoint delta width from_time to_time ck \<le> to_time"
proof -
  define s where "s = int (width - 1) * delta"
  have width: "int width * delta = s + delta"
    using assms(2) by (simp add: s_def of_nat_diff algebra_simps)
  have "delta \<le> s" using assms(1,2) by (simp add: s_def)
  then show "min to_time (ck + int (width - 1) * delta) \<le> next_checkpoint delta width from_time to_time ck"
    "ck < next_checkpoint delta width from_time to_time ck" "next_checkpoint delta width from_time to_time ck \<le> to_time"
    using assms unfolding s_def [symmetric] next_checkpoint_def width by (auto simp: min_def max_def)
qed

lemma prepare_job:
  assumes "prepare_page cfg env cl db = Inr (page, db1)" "find_target db (lc_work cl) = Some (Job b)"
  obtains delta where "timeframe_delta (fk_timeframe (wr_feed (lc_work cl))) = Inr delta"
    "bf_from b \<le> checkpoint b" "checkpoint b \<le> bf_to b" "pp_claim page = cl" "pp_scan_end page = bf_to b"
    "pp_end page = next_checkpoint delta (page_width cfg (pp_access page)) (bf_from b) (bf_to b) (checkpoint b)"
    "pp_start page = pp_scan_end page \<longleftrightarrow> checkpoint b = bf_to b" "bf_from b \<le> pp_start page"
    "find_target db1 (lc_work cl) = Some (Job b)" "md_access db1 = md_access db" "md_leases db1 = md_leases db"
    "resolve_feed cfg db (wr_feed (lc_work cl)) = Inr (pp_access page)" "active_target (Job b)"
proof -
  obtain target where target: "find_target db (lc_work cl) = Some target" "row_next_fetch target = lc_next_fetch cl" "active_target target"
      and body: "prepare_body cfg env cl target db = Inr (page, db1)"
    using assms(1) unfolding prepare_page_def by (rule guarded_write_cases) simp
  have t: "target = Job b" using target(1) assms(2) by simp
  obtain access delta where access: "resolve_feed cfg db (wr_feed (lc_work cl)) = Inr access"
      and delta: "timeframe_delta (fk_timeframe (wr_feed (lc_work cl))) = Inr delta"
      and range: "bf_from b \<le> checkpoint b" "checkpoint b \<le> bf_to b"
      and page: "page = \<lparr>pp_claim = cl\<lparr>lc_next_fetch := wf_next_fetch b\<rparr>, pp_access = access,
          pp_start = page_start delta (Job b) (checkpoint b) (bf_from b < checkpoint b \<and> checkpoint b < bf_to b),
          pp_end = min (bf_to b) (page_start delta (Job b) (checkpoint b) (bf_from b < checkpoint b \<and> checkpoint b < bf_to b)
             + int (page_width cfg access) * delta),
          pp_scan_end = bf_to b, pp_observed_at = env_now env\<rparr>"
      and db1: "db1 = store_target (Job b) db"
    using body unfolding t by (auto simp: prepare_body_def result_simps Let_def checkpoint_def split: if_splits)
  have pos: "0 < delta" using delta by (rule timeframe_delta_pos)
  show ?thesis
  proof (rule that [OF delta range])
    show "pp_claim page = cl" using target(2) by (simp add: page t)
    show "pp_scan_end page = bf_to b" "resolve_feed cfg db (wr_feed (lc_work cl)) = Inr (pp_access page)" "active_target (Job b)"
      using access target(3) by (simp_all add: page t)
    show "pp_end page = next_checkpoint delta (page_width cfg (pp_access page)) (bf_from b) (bf_to b) (checkpoint b)"
      by (simp add: page next_checkpoint_def page_start_def)
    show "pp_start page = pp_scan_end page \<longleftrightarrow> checkpoint b = bf_to b" "bf_from b \<le> pp_start page"
      using pos range by (auto simp: page page_start_def)
    show "find_target db1 (lc_work cl) = Some (Job b)"
      unfolding db1 by (rule find_target_store [OF assms(2)]) simp_all
    show "md_access db1 = md_access db" "md_leases db1 = md_leases db" by (simp_all add: db1)
  qed
qed

definition job_ok :: "worker_backfill \<Rightarrow> bool" where
  \<comment> \<open>a range the calendar holds, a checkpoint inside it, and a stored report that reads back\<close>
  "job_ok b \<longleftrightarrow> time_ok (bf_from b) \<and> time_ok (bf_to b) \<and> bf_from b \<le> checkpoint b \<and> checkpoint b \<le> bf_to b
     \<and> (\<exists>r. restore_report (bf_from b) (bf_to b) (bf_progress b) = Inr r \<and> report_ok r \<and> ir_from r = bf_from b \<and> ir_to r = bf_to b
          \<and> bf_rows_written b = ir_rows_written r)"

definition report_of :: "worker_backfill \<Rightarrow> ingestion_report" where
  "report_of b = (case restore_report (bf_from b) (bf_to b) (bf_progress b) of Inr r \<Rightarrow> r | Inl _ \<Rightarrow> new_report (bf_from b) (bf_to b))"

lemma time_ok_between: "time_ok a \<Longrightarrow> time_ok b \<Longrightarrow> a \<le> t \<Longrightarrow> t \<le> b \<Longrightarrow> time_ok t"
  unfolding time_ok_def using date_of_mono [of a t] date_of_mono [of t b] by linarith

lemma page_report_ok:
  assumes "report_ok r" "\<forall>p \<in> set accepted. time_ok (the (cp_open_time p))"
  shows "report_ok (page_report page points accepted i u r)"
proof -
  let ?r1 = "r\<lparr>ir_received := ir_received r + int (length points), ir_inserted := ir_inserted r + int i,
           ir_updated := ir_updated r + int u\<rparr>"
  have "report_ok ?r1" using assms(1) by (simp add: report_ok_def)
  then have "report_ok (record_candles (map (\<lambda>p. the (cp_open_time p)) accepted) ?r1)"
    using assms(2) by (intro record_keeps_report(2)) simp_all
  then show ?thesis
    unfolding page_report_def Let_def using record_keeps_report(1) by (simp only: split: if_split) blast
qed

lemma record_counts [simp]:
  "ir_from (record_candles ts r) = ir_from r" "ir_to (record_candles ts r) = ir_to r" "ir_received (record_candles ts r) = ir_received r"
  "ir_inserted (record_candles ts r) = ir_inserted r" "ir_updated (record_candles ts r) = ir_updated r"
  "ir_from (record_empty_window s e r) = ir_from r" "ir_to (record_empty_window s e r) = ir_to r"
  "ir_received (record_empty_window s e r) = ir_received r" "ir_inserted (record_empty_window s e r) = ir_inserted r"
  "ir_updated (record_empty_window s e r) = ir_updated r"
  by (simp_all add: record_candles_def record_empty_window_def Let_def split: option.split)

lemma page_report_counts:
  "ir_from (page_report page points accepted i u r) = ir_from r" "ir_to (page_report page points accepted i u r) = ir_to r"
  "ir_received (page_report page points accepted i u r) = ir_received r + int (length points)"
  "ir_inserted (page_report page points accepted i u r) = ir_inserted r + int i"
  "ir_updated (page_report page points accepted i u r) = ir_updated r + int u"
  by (simp_all add: page_report_def Let_def)

lemma page_width_ok: "page_config_ok cfg \<Longrightarrow> 2 \<le> page_width cfg access"
  by (auto simp: page_config_ok_def page_width_def split: option.splits)

lemma save_job:
  assumes "save_page cfg env page points db = Inr ((), db')" "find_target db (lc_work (pp_claim page)) = Some (Job b)" "job_ok b"
    and "bf_from b \<le> pp_start page" "pp_end page \<le> bf_to b" "bf_from b \<le> pp_end page"
  obtains b' where "find_target db' (lc_work (pp_claim page)) = Some (Job b')" "job_ok b'" "checkpoint b' = pp_end page"
    "bf_from b' = bf_from b" "bf_to b' = bf_to b" "bf_status b' = bf_status b"
    "ir_received (report_of b') = ir_received (report_of b) + int (length points)"
proof -
  obtain accepted where acc: "final_points page points = Inr accepted"
      and guarded: "guarded_write env (pp_claim page) True (save_body cfg env page points accepted) db = Inr ((), db')"
    using assms(1) by (auto simp: save_page_def result_simps)
  obtain lease target db1 where "find_target db (lc_work (pp_claim page)) = Some target"
      and body: "save_body cfg env page points accepted target db = Inr ((), db1)" and db': "db' = store_lease (cleared lease) db1"
    using guarded by (rule guarded_write_cases) simp
  then have target: "target = Job b" using assms(2) by simp
  obtain i u db2 target' where stored: "store_accepted env page (Job b) accepted db = Inr ((i, u), db2)"
      and saved: "saved_target env page points accepted i u (Job b) = Inr target'" and db1: "db1 = store_target target' db2"
    using body unfolding target by (auto simp: save_body_def result_simps)
  obtain r where r: "restore_report (bf_from b) (bf_to b) (bf_progress b) = Inr r" "report_ok r" "ir_from r = bf_from b" "ir_to r = bf_to b"
    using assms(3) by (auto simp: job_ok_def)
  let ?r = "page_report page points accepted i u r"
  let ?b = "b\<lparr>wf_next_fetch := Some (pp_end page), wf_failures := 0, wf_next_run := env_now env,
            bf_progress := JObj (as_validation_result ?r [] []), bf_rows_written := ir_rows_written ?r, bf_error := None\<rparr>"
  have target': "target' = Job ?b" using saved r(1) by (simp add: Let_def)
  have "\<forall>p \<in> set accepted. time_ok (the (cp_open_time p))"
  proof
    fix p assume "p \<in> set accepted"
    then have "pp_start page \<le> the (cp_open_time p)" "the (cp_open_time p) < pp_end page"
      using final_points_sound [OF acc] by (auto simp: accepted_ok_def)
    then show "time_ok (the (cp_open_time p))"
      using time_ok_between [of "bf_from b" "bf_to b"] assms(3-5) by (simp add: job_ok_def)
  qed
  then have ok: "report_ok ?r" by (rule page_report_ok [OF r(2)])
  have restored: "restore_report (bf_from b) (bf_to b) (JObj (as_validation_result ?r [] [])) = Inr ?r"
    using restore_report_roundtrip [OF ok] by (simp add: page_report_counts r(3,4))
  show ?thesis
  proof (rule that [of ?b])
    have "find_target db2 (lc_work (pp_claim page)) = Some (Job b)"
      using only_candles_simps(2) [OF store_accepted_only [OF stored]] assms(2) by simp
    then show "find_target db' (lc_work (pp_claim page)) = Some (Job ?b)"
      unfolding db' db1 target' find_target_simps by (rule find_target_store) simp_all
    show "job_ok ?b"
      using assms(3,5,6) restored ok by (auto simp: job_ok_def checkpoint_def page_report_counts r(3,4))
    show "ir_received (report_of ?b) = ir_received (report_of b) + int (length points)"
      using restored r(1) by (simp add: report_of_def page_report_counts)
  qed (simp_all add: checkpoint_def)
qed


lemma classify_answers: "timeframe_delta tf = Inr d \<Longrightarrow> \<exists>c. classify_candle_coverage code tf f t n first_open last_close m = Inr c"
  by (simp add: classify_candle_coverage_def split_beta Let_def)

lemma gaps_answer: "timeframe_delta tf = Inr d \<Longrightarrow> \<exists>gs. find_internal_gaps ny ts tf code = Inr gs"
  by (simp add: find_internal_gaps_def Let_def)

lemma persist_answers:
  assumes "timeframe_delta tf = Inr d"
  shows "\<exists>gaps db'. persist_internal_gaps env ny iid tf f t db = Inr (gaps, db')"
proof -
  obtain gs where "find_internal_gaps ny (stored_open_times db iid tf (Some f) (Some t)) tf
      (or_unknown (exchange_code_of (md_access db) iid)) = Inr gs"
    using gaps_answer [OF assms] by blast
  then show ?thesis using assms by (simp add: persist_internal_gaps_def Let_def)
qed

lemma coverage_answers:
  assumes "timeframe_delta tf = Inr d"
  shows "\<exists>c. build_candle_coverage ny db iid tf f t = Inr c"
proof -
  obtain gs where "find_internal_gaps ny (stored_open_times db iid tf f t) tf
      (or_unknown (exchange_code_of (md_access db) iid)) = Inr gs"
    using gaps_answer [OF assms] by blast
  then show ?thesis using classify_answers [OF assms] by (simp add: build_candle_coverage_def Let_def)
qed


end
