(* ===== verification/Market_Collection.thy ===== *)
theory Market_Collection
  imports Market_Pages
begin

text \<open>
  The commands of the API on market data: \<open>app/market_data/application/use_cases.py\<close>, the overlap check
  of \<open>backfill_locks.py\<close> and \<open>normalize.py\<close>. Commands on one feed run one after the other, under the
  advisory locks the code takes. The last part puts commands and worker transactions together; the candle
  imports of the public research and price refresh jobs, which use the same upsert, are not among its steps.
\<close>

subsection \<open>Checks\<close>

definition supported_timeframes :: "string list" where
  "supported_timeframes = [''1m'', ''5m'', ''15m'', ''30m'', ''1h'', ''4h'', ''1d'']"

record collection_config =
  co_urlparse :: "string \<Rightarrow> parsed_url"
  co_secrets :: secrets
  co_new_york :: "datetime \<Rightarrow> datetime"

definition check_access :: "collection_config \<Rightarrow> market_db \<Rightarrow> uuid \<Rightarrow> uuid \<Rightarrow> (string, unit) result" where
  "check_access cfg db workspace_id instrument_id =
     check_collection_access (co_urlparse cfg) (co_secrets cfg) (md_access db) workspace_id instrument_id"

definition validate_timeframe :: "string \<Rightarrow> (string, unit) result" where
  "validate_timeframe timeframe = raise_if (timeframe \<notin> set supported_timeframes) ''invalid_input''"

definition require_workspace :: "market_db \<Rightarrow> uuid \<Rightarrow> (string, unit) result" where
  "require_workspace db workspace_id =
     raise_if (find (\<lambda>w. ws_id w = workspace_id) (at_workspaces (md_access db)) = None) ''workspace_not_found''"

definition require_instrument_access :: "market_db \<Rightarrow> uuid \<Rightarrow> uuid \<Rightarrow> (string, unit) result" where
  "require_instrument_access db workspace_id instrument_id =
     raise_if (\<not> instrument_is_readable (md_access db) workspace_id instrument_id) ''instrument_unavailable''"

definition is_research_instrument :: "market_db \<Rightarrow> uuid \<Rightarrow> bool" where
  "is_research_instrument db instrument_id \<longleftrightarrow> exchange_code_of (md_access db) instrument_id = Some ''binance_public''"

definition require_instrument_readable :: "market_db \<Rightarrow> uuid \<Rightarrow> uuid \<Rightarrow> (string, unit) result" where
  "require_instrument_readable db workspace_id instrument_id =
     (if is_research_instrument db instrument_id then Inr () else require_instrument_access db workspace_id instrument_id)"

definition overlapping_backfill :: "market_db \<Rightarrow> feed_key \<Rightarrow> datetime \<Rightarrow> datetime \<Rightarrow> bool" where
  "overlapping_backfill db feed requested_from requested_to \<longleftrightarrow>
     (\<exists>b \<in> set (md_backfills db). wf_feed b = feed \<and> bf_status b \<in> {''queued'', ''running''}
        \<and> bf_from b < requested_to \<and> requested_from < bf_to b)"

definition ensure_no_overlapping_backfill :: "market_db \<Rightarrow> feed_key \<Rightarrow> datetime \<Rightarrow> datetime \<Rightarrow> (string, unit) result" where
  "ensure_no_overlapping_backfill db feed requested_from requested_to =
     raise_if (overlapping_backfill db feed requested_from requested_to) ''overlapping_backfill''"

definition collection_audit :: "uuid \<Rightarrow> string \<Rightarrow> string \<Rightarrow> uuid \<Rightarrow> payload \<Rightarrow> market_db \<Rightarrow> market_db" where
  \<comment> \<open>there is no state before\<close>
  "collection_audit workspace_id action resource_type resource_id after_data db =
     (let (cid, db1) = market_fresh_id db
      in db1\<lparr>md_audit := md_audit db1 @ [\<lparr>al_workspace = workspace_id, al_actor = None, al_action = action,
           al_resource_type = resource_type, al_resource_id = resource_id, al_after = after_data, al_correlation = cid,
           ma_before = []\<rparr>]\<rparr>)"

subsection \<open>Backfills\<close>

record backfill_command =
  bc_instrument :: uuid
  bc_timeframe :: string
  bc_days :: int

definition days :: "int \<Rightarrow> timedelta" where
  "days n = n * day_length"

definition new_backfill ::
  "tx_env \<Rightarrow> uuid \<Rightarrow> feed_key \<Rightarrow> datetime \<Rightarrow> datetime \<Rightarrow> uuid option \<Rightarrow> string \<Rightarrow> worker_backfill" where
  \<comment> \<open>the columns left out take the table's defaults\<close>
  "new_backfill env jid feed from_time to_time gap trigger_type =
     \<lparr>wf_id = jid, wf_feed = feed, wf_next_fetch = None, wf_next_run = env_now env, wf_failures = 0, bf_from = from_time,
      bf_to = to_time, bf_status = ''queued'', bf_attempts = 0, bf_rows_written = 0, bf_progress = JObj [], bf_validation = JObj [],
      bf_error = None, bf_started = None, bf_finished = None, bf_gap = gap, bf_trigger = trigger_type, bf_created = env_now env\<rparr>"

definition enqueue_backfill ::
  "collection_config \<Rightarrow> tx_env \<Rightarrow> uuid \<Rightarrow> backfill_command \<Rightarrow> string \<Rightarrow> market_db \<Rightarrow> (string, worker_backfill \<times> market_db) result" where
  "enqueue_backfill cfg env workspace_id cmd trigger_type db =
     res_bind (validate_timeframe (bc_timeframe cmd)) (\<lambda>_.
     res_bind (raise_if (\<not> (1 \<le> bc_days cmd \<and> bc_days cmd \<le> 365)) ''invalid_input'') (\<lambda>_.
     res_bind (require_workspace db workspace_id) (\<lambda>_.
     res_bind (require_instrument_access db workspace_id (bc_instrument cmd)) (\<lambda>_.
     let now = env_now env;
         requested_from = now - days (bc_days cmd);
         feed = \<lparr>fk_workspace = workspace_id, fk_instrument = bc_instrument cmd, fk_timeframe = bc_timeframe cmd\<rparr>
     in res_bind (ensure_no_overlapping_backfill db feed requested_from now) (\<lambda>_.
        res_bind (check_access cfg db workspace_id (bc_instrument cmd)) (\<lambda>_.
          let (jid, db1) = market_fresh_id db;
              job = new_backfill env jid feed requested_from now None trigger_type
          in Inr (job, collection_audit workspace_id ''candle.backfill_queued'' ''backfill_job'' jid
               [(''instrument_id'', D_id (bc_instrument cmd)), (''timeframe'', D_text (bc_timeframe cmd)), (''days'', D_int (bc_days cmd))]
               (db1\<lparr>md_backfills := md_backfills db1 @ [job]\<rparr>))))))))"

definition enqueue_gap_backfill ::
  "collection_config \<Rightarrow> tx_env \<Rightarrow> uuid \<Rightarrow> uuid \<Rightarrow> market_db \<Rightarrow> (string, worker_backfill \<times> market_db) result" where
  "enqueue_gap_backfill cfg env workspace_id gap_id db =
     res_bind (require_workspace db workspace_id) (\<lambda>_.
     case find (\<lambda>g. gr_id g = gap_id) (md_gaps db) of
       None \<Rightarrow> Inl ''gap_not_found''
     | Some gap \<Rightarrow>
         res_bind (raise_if (is_research_instrument db (gr_instrument gap)) ''research_instrument'') (\<lambda>_.
         res_bind (require_instrument_access db workspace_id (gr_instrument gap)) (\<lambda>_.
         res_bind (raise_if (gr_status gap \<noteq> ''open'') ''gap_not_open'') (\<lambda>_.
         res_bind (timeframe_delta (gr_timeframe gap)) (\<lambda>delta.
         let requested_from = gr_from gap - delta;
             requested_to = gr_to gap + delta;
             feed = \<lparr>fk_workspace = workspace_id, fk_instrument = gr_instrument gap, fk_timeframe = gr_timeframe gap\<rparr>
         in res_bind (raise_if (days 365 < requested_to - requested_from) ''invalid_input'') (\<lambda>_.
            res_bind (ensure_no_overlapping_backfill db feed requested_from requested_to) (\<lambda>_.
            res_bind (check_access cfg db workspace_id (gr_instrument gap)) (\<lambda>_.
              let (jid, db1) = market_fresh_id db;
                  job = new_backfill env jid feed requested_from requested_to (Some gap_id) ''manual''
              in Inr (job, collection_audit workspace_id ''candle.gap_backfill_queued'' ''backfill_job'' jid
                   [(''gap_id'', D_id gap_id), (''instrument_id'', D_id (gr_instrument gap)), (''timeframe'', D_text (gr_timeframe gap)),
                    (''from_time'', D_text (isoformat requested_from)), (''to_time'', D_text (isoformat requested_to))]
                   (db1\<lparr>md_backfills := md_backfills db1 @ [job]\<rparr>))))))))))"

definition normalize_job :: "tx_env \<Rightarrow> nat \<times> nat \<times> market_db \<Rightarrow> worker_backfill \<Rightarrow> nat \<times> nat \<times> market_db" where
  "normalize_job env = (\<lambda>(reset, skipped, db) job.
     if wf_next_fetch job \<noteq> None then (reset, skipped + 1, db)
     else (reset + 1, skipped,
       lease_audit \<lparr>wr_feed = wf_feed job, wr_kind = Backfill, wr_id = wf_id job\<rparr> ''market_data.legacy_job_normalized''
         [(''status'', D_text ''queued'')] [(''status'', D_text (bf_status job))]
         (store_target (Job (job\<lparr>bf_status := ''queued'', bf_finished := None, wf_next_run := env_now env\<rparr>)) db)))"

definition normalize_legacy_jobs :: "tx_env \<Rightarrow> market_db \<Rightarrow> nat \<times> nat \<times> market_db" where
  \<comment> \<open>how many jobs were reset, how many were left\<close>
  "normalize_legacy_jobs env db =
     foldl (normalize_job env) (0, 0, db) (filter (\<lambda>b. bf_status b \<in> {''running'', ''validating''}) (md_backfills db))"

subsection \<open>Coverage\<close>

definition coverage_range ::
  "market_db \<Rightarrow> feed_key \<Rightarrow> bool \<Rightarrow> (datetime option \<times> datetime option) \<Rightarrow> (string, datetime option \<times> datetime option) result" where
  \<comment> \<open>whether both times have an offset, then the times in UTC; without any, the range of the newest job\<close>
  "coverage_range db feed aware requested =
     (case requested of
        (Some f, Some t) \<Rightarrow> if \<not> aware \<or> t \<le> f then Inl ''invalid_input'' else Inr (Some f, Some t)
      | (None, None) \<Rightarrow>
          let jobs = filter (\<lambda>b. wf_feed b = feed) (md_backfills db)
          in (case sort_key (\<lambda>b. - bf_created b) jobs of [] \<Rightarrow> Inr (None, None) | b # _ \<Rightarrow> Inr (Some (bf_from b), Some (bf_to b)))
      | _ \<Rightarrow> Inl ''invalid_input'')"

definition get_coverage ::
  "collection_config \<Rightarrow> uuid \<Rightarrow> uuid \<Rightarrow> string \<Rightarrow> bool \<Rightarrow> (datetime option \<times> datetime option) \<Rightarrow> market_db \<Rightarrow>
     (string, coverage_result) result" where
  "get_coverage cfg workspace_id instrument_id timeframe aware requested db =
     res_bind (validate_timeframe timeframe) (\<lambda>_.
     res_bind (require_workspace db workspace_id) (\<lambda>_.
     res_bind (require_instrument_readable db workspace_id instrument_id) (\<lambda>_.
     res_bind (coverage_range db \<lparr>fk_workspace = workspace_id, fk_instrument = instrument_id, fk_timeframe = timeframe\<rparr> aware requested)
       (\<lambda>(f, t). build_candle_coverage (co_new_york cfg) db instrument_id timeframe f t))))"

subsection \<open>Subscriptions\<close>

definition set_subscription ::
  "tx_env \<Rightarrow> uuid \<Rightarrow> uuid \<Rightarrow> bool \<Rightarrow> market_db \<Rightarrow> string \<Rightarrow> market_db" where
  "set_subscription env workspace_id instrument_id enabled db timeframe =
     (let feed = \<lparr>fk_workspace = workspace_id, fk_instrument = instrument_id, fk_timeframe = timeframe\<rparr>;
          (s, db1) = (case find (\<lambda>s. wf_feed s = feed) (md_subscriptions db) of
            Some s \<Rightarrow> (s, db)
          | None \<Rightarrow>
              let (sid, db0) = market_fresh_id db;
                  s = \<lparr>wf_id = sid, wf_feed = feed, wf_next_fetch = None, wf_next_run = env_now env, wf_failures = 0,
                    sb_enabled = False, sb_poll_interval = 60, sb_last_success = None, sb_blocked = None, sb_scan_to = None,
                    sb_last_error = None, sb_last_polled = None\<rparr>
              in (s, db0\<lparr>md_subscriptions := md_subscriptions db0 @ [s]\<rparr>))
      in collection_audit workspace_id ''market_data.subscription_updated'' ''market_data_subscription'' (wf_id s)
           [(''instrument_id'', D_id instrument_id), (''timeframe'', D_text timeframe), (''enabled'', D_bool enabled),
            (''poll_interval_seconds'', D_int 60), (''before'', D_bool (sb_enabled s))]
           (store_target (Feed (s\<lparr>sb_enabled := enabled, sb_poll_interval := 60\<rparr>)) db1))"

definition update_subscriptions ::
  "collection_config \<Rightarrow> tx_env \<Rightarrow> uuid \<Rightarrow> uuid \<Rightarrow> bool \<Rightarrow> string option \<Rightarrow> market_db \<Rightarrow> (string, market_db) result" where
  "update_subscriptions cfg env workspace_id instrument_id enabled timeframe db =
     (let frames = (case timeframe of None \<Rightarrow> supported_timeframes | Some tf \<Rightarrow> [tf])
      in res_bind (raise_if (\<not> list_all (\<lambda>tf. tf \<in> set supported_timeframes) frames) ''invalid_input'') (\<lambda>_.
         res_bind (require_workspace db workspace_id) (\<lambda>_.
         res_bind (require_instrument_access db workspace_id instrument_id) (\<lambda>_.
         res_bind (if enabled then check_access cfg db workspace_id instrument_id else Inr ()) (\<lambda>_.
           Inr (foldl (set_subscription env workspace_id instrument_id enabled) db frames))))))"

subsection \<open>How rows may change\<close>

definition job_row_move :: "worker_backfill \<Rightarrow> worker_backfill \<Rightarrow> bool" where
  "job_row_move b b' \<longleftrightarrow> wf_id b' = wf_id b \<and> wf_feed b' = wf_feed b \<and> bf_from b' = bf_from b \<and> bf_to b' = bf_to b
     \<and> (bf_status b' = ''validating'' \<longrightarrow> bf_status b = ''validating'')"

fun row_move :: "work_row \<Rightarrow> work_row \<Rightarrow> bool" where
  "row_move (Job b) (Job b') = job_row_move b b'"
| "row_move (Feed s) (Feed s') = (wf_id s' = wf_id s \<and> wf_feed s' = wf_feed s)"
| "row_move _ _ = False"

definition rows_move :: "market_db \<Rightarrow> market_db \<Rightarrow> bool" where
  \<comment> \<open>what the worker does to rows: only active work changes\<close>
  "rows_move db db' \<longleftrightarrow> map wf_id (md_backfills db') = map wf_id (md_backfills db)
     \<and> map wf_id (md_subscriptions db') = map wf_id (md_subscriptions db)
     \<and> (\<forall>b' \<in> set (md_backfills db'). b' \<in> set (md_backfills db)
          \<or> (\<exists>b \<in> set (md_backfills db). active_target (Job b) \<and> job_row_move b b'))
     \<and> (\<forall>s' \<in> set (md_subscriptions db'). s' \<in> set (md_subscriptions db)
          \<or> (\<exists>s \<in> set (md_subscriptions db). active_target (Feed s) \<and> row_move (Feed s) (Feed s')))"

lemma rows_move_refl [simp]: "rows_move db db"
  by (simp add: rows_move_def)

lemma rows_move_same: "md_backfills db' = md_backfills db \<Longrightarrow> md_subscriptions db' = md_subscriptions db \<Longrightarrow> rows_move db db'"
  by (simp add: rows_move_def)

lemma rows_move_cong: "md_backfills b = md_backfills c \<Longrightarrow> md_subscriptions b = md_subscriptions c \<Longrightarrow> rows_move a b = rows_move a c"
  by (simp add: rows_move_def)

lemma rows_move_trans:
  assumes "rows_move a b" "rows_move b c"
  shows "rows_move a c"
proof -
  have jobs: "x \<in> set (md_backfills a) \<or> (\<exists>y \<in> set (md_backfills a). active_target (Job y) \<and> job_row_move y x)"
    if "x \<in> set (md_backfills b)" for x
    using assms(1) that by (simp add: rows_move_def)
  have subs: "x \<in> set (md_subscriptions a) \<or> (\<exists>y \<in> set (md_subscriptions a). active_target (Feed y) \<and> row_move (Feed y) (Feed x))"
    if "x \<in> set (md_subscriptions b)" for x
    using assms(1) that by (simp add: rows_move_def)
  have "x \<in> set (md_backfills a) \<or> (\<exists>y \<in> set (md_backfills a). active_target (Job y) \<and> job_row_move y x)"
    if x: "x \<in> set (md_backfills c)" for x
  proof -
    consider "x \<in> set (md_backfills b)" | y where "y \<in> set (md_backfills b)" "active_target (Job y)" "job_row_move y x"
      using assms(2) x unfolding rows_move_def by blast
    then show ?thesis
    proof cases
      case 2
      have "job_row_move z x" if "job_row_move z y" for z
        using that 2(3) by (auto simp: job_row_move_def)
      then show ?thesis using jobs [OF 2(1)] 2(2,3) by blast
    qed (rule jobs)
  qed
  moreover have "x \<in> set (md_subscriptions a) \<or> (\<exists>y \<in> set (md_subscriptions a). active_target (Feed y) \<and> row_move (Feed y) (Feed x))"
    if x: "x \<in> set (md_subscriptions c)" for x
  proof -
    consider "x \<in> set (md_subscriptions b)" | y where "y \<in> set (md_subscriptions b)" "active_target (Feed y)" "row_move (Feed y) (Feed x)"
      using assms(2) x unfolding rows_move_def by blast
    then show ?thesis
    proof cases
      case 2
      then show ?thesis using subs [OF 2(1)] by fastforce
    qed (rule subs)
  qed
  ultimately show ?thesis using assms by (simp add: rows_move_def)
qed

lemma store_target_rows:
  assumes "find_target db w = Some t" "active_target t" "row_move t t'"
  shows "rows_move db (store_target t' db)"
proof (cases t)
  case (Job b)
  then obtain b' where t': "t' = Job b'" "job_row_move b b'" using assms(3) by (cases t') auto
  have "b \<in> set (md_backfills db)" using assms(1) Job by (auto simp: find_target_def find_Some_iff split: work_kind.splits)
  then show ?thesis
    using t' assms(2) Job by (auto simp: rows_move_def store_target.simps set_update_row)
next
  case (Feed s)
  then obtain s' where t': "t' = Feed s'" "row_move (Feed s) (Feed s')" using assms(3) by (cases t') auto
  have "s \<in> set (md_subscriptions db)" using assms(1) Feed by (auto simp: find_target_def find_Some_iff split: work_kind.splits)
  then show ?thesis
    using t' assms(2) Feed by (auto simp: rows_move_def store_target.simps set_update_row)
qed

lemma lease_rows [simp]:
  "md_backfills (store_lease l db) = md_backfills db" "md_subscriptions (store_lease l db) = md_subscriptions db"
  "md_backfills (ensure_lease f db) = md_backfills db" "md_subscriptions (ensure_lease f db) = md_subscriptions db"
  by (simp_all add: store_lease_def ensure_lease_def)

lemma rows_move_lease [simp]:
  "rows_move db (store_lease l db1) = rows_move db db1" "rows_move db (lease_audit w a d b db1) = rows_move db db1"
  "rows_move db (announce_stopped env t e db1) = rows_move db db1"
  by (rule rows_move_cong; simp)+

lemma row_moves:
  "row_move t (interrupted now t)" "row_move t (started now t)" "row_move t (failed_target env f w t)"
  "saved_target env page points accepted i u t = Inr t' \<Longrightarrow> row_move t t'"
  "scan_window env delta db t = Inr (t', start, scan_end, overlap) \<Longrightarrow> row_move t t'"
proof -
  show "row_move t (interrupted now t)" "row_move t (started now t)" "row_move t (failed_target env f w t)"
    by (cases t; simp add: Let_def job_row_move_def)+
  show "saved_target env page points accepted i u t = Inr t' \<Longrightarrow> row_move t t'"
    by (cases t) (auto simp: Let_def result_simps job_row_move_def split: if_splits)
  show "scan_window env delta db t = Inr (t', start, scan_end, overlap) \<Longrightarrow> row_move t t'"
    by (cases t) (auto simp: Let_def job_row_move_def split: if_splits option.splits prod.splits)
qed

lemma recover_target_rows:
  assumes "find_target db w = target" "recover_target env w target db = (r, db')"
  shows "rows_move db db'"
proof (cases target)
  case (Some t)
  then show ?thesis
    using assms store_target_rows [of db w t, OF _ _ row_moves(1)]
    by (auto simp: recover_target_def Let_def split: if_splits)
qed (use assms in \<open>simp add: recover_target_def\<close>)

lemma recover_rows:
  assumes "recover env l db = Inr db'"
  shows "rows_move db db'"
  using assms
  by (auto simp: recover_def Let_def split: option.splits prod.splits intro: recover_target_rows)

lemma recover_all_rows: "run_steps (\<lambda>db l. recover env l db) db ls = Inr db' \<Longrightarrow> rows_move db db'"
  by (induction ls arbitrary: db) (auto simp: result_simps dest!: recover_rows intro: rows_move_trans)

lemma recover_expired_rows: "recover_expired env locked limit db = Inr (n, db') \<Longrightarrow> rows_move db db'"
  by (auto simp: recover_expired_def Let_def result_simps split: if_splits dest: recover_all_rows)

lemma only_rows: "only_candles db db' \<Longrightarrow> rows_move db db'" "only_gaps db db' \<Longrightarrow> rows_move db db'"
  by (rule rows_move_same; simp add: only_candles_simps only_gaps_simps)+

lemma prepare_rows: "prepare_page cfg env cl db = Inr (page, db') \<Longrightarrow> rows_move db db'"
  unfolding prepare_page_def
  by (erule guarded_write_cases)
     (auto simp: prepare_body_def result_simps Let_def intro: store_target_rows row_moves(5))

lemma save_rows:
  assumes "save_page cfg env page points db = Inr (x, db')"
  shows "rows_move db db'"
proof -
  obtain accepted where guarded: "guarded_write env (pp_claim page) True (save_body cfg env page points accepted) db = Inr (x, db')"
    using assms by (auto simp: save_page_def result_simps)
  obtain lease t db1 where t: "find_target db (lc_work (pp_claim page)) = Some t" "active_target t"
      and body: "save_body cfg env page points accepted t db = Inr (x, db1)" and db': "db' = store_lease (cleared lease) db1"
    using guarded by (rule guarded_write_cases) simp
  obtain i u db2 t' where stored: "store_accepted env page t accepted db = Inr ((i, u), db2)"
      and saved: "saved_target env page points accepted i u t = Inr t'" and db1: "db1 = store_target t' db2"
    using body by (auto simp: save_body_def result_simps)
  have "find_target db2 (lc_work (pp_claim page)) = Some t"
    using only_candles_simps(2) [OF store_accepted_only [OF stored]] t(1) by simp
  then have "rows_move db2 db1" unfolding db1 by (rule store_target_rows [OF _ t(2) row_moves(4) [OF saved]])
  then show ?thesis
    using only_rows(1) [OF store_accepted_only [OF stored]] by (simp add: db' rows_move_trans)
qed

lemma complete_rows:
  assumes "complete_page cfg env page db = Inr (x, db')"
  shows "rows_move db db'"
proof -
  obtain lease t db1 where t: "find_target db (lc_work (pp_claim page)) = Some t" "active_target t"
      and body: "complete_body cfg env page t db = Inr (x, db1)" and db': "db' = store_lease (cleared lease) db1"
    using assms unfolding complete_page_def by (rule guarded_write_cases) simp
  obtain b where b: "t = Job b" using body by (cases t) (auto simp: result_simps)
  obtain gaps db2 coverage r where persist: "persist_internal_gaps env (pc_new_york cfg) (fk_instrument (wf_feed b)) (fk_timeframe (wf_feed b))
      (bf_from b) (bf_to b) db = Inr (gaps, db2)"
      and db1: "db1 = (let b' = b\<lparr>bf_validation := JObj (as_validation_result r (coverage_dict coverage) gaps), bf_status := ''succeeded'',
              bf_error := None, wf_failures := 0, bf_finished := Some (env_now env)\<rparr>
        in lease_audit (lc_work (pp_claim page)) ''market_data.work_completed'' (target_state (Job b')) (target_state (Job b))
             (store_target (Job b') db2))"
    using body unfolding b by (auto simp: result_simps Let_def)
  let ?b = "b\<lparr>bf_validation := JObj (as_validation_result r (coverage_dict coverage) gaps), bf_status := ''succeeded'',
              bf_error := None, wf_failures := 0, bf_finished := Some (env_now env)\<rparr>"
  have "find_target db2 (lc_work (pp_claim page)) = Some t"
    using only_gaps_simps(2) [OF persist_only_gaps [OF persist]] t(1) by simp
  then have "rows_move db2 (store_target (Job ?b) db2)"
    by (rule store_target_rows [OF _ t(2)]) (simp add: b job_row_move_def)
  then show ?thesis
    using only_rows(2) [OF persist_only_gaps [OF persist]] rows_move_trans by (simp add: db' db1 Let_def)
qed

lemma fail_rows:
  assumes "fail_page env cl f db = Inr (x, db')"
  shows "rows_move db db'"
proof -
  obtain lease t db1 where t: "find_target db (lc_work cl) = Some t" "active_target t"
      and body: "fail_body env cl f t db = Inr (x, db1)" and db': "db' = store_lease (cleared lease) db1"
    using assms unfolding fail_page_def by (rule guarded_write_cases) simp
  have "rows_move db (store_target (failed_target env f (wr_id (lc_work cl)) t) db)"
    by (rule store_target_rows [OF t row_moves(3)])
  then show ?thesis using body by (cases "retried f t") (auto simp: db' fail_body_def Let_def)
qed

lemma claim_rows:
  assumes "claim_work env duration busy work owner db = Inr (c, db')"
  shows "rows_move db db'"
proof -
  have granted: "rows_move a d" if give: "grant env duration work owner l t a = (cl, d)" and "find_target a work = Some t" "active_target t" for a d l t cl
  proof -
    let ?l = "l\<lparr>ml_owner := Some owner, ml_token := Some (ids a), ml_until := Some (env_now env + duration),
        ml_heartbeat := Some (env_now env), ml_kind := Some (wr_kind work), ml_work := Some (wr_id work)\<rparr>"
    let ?a = "store_lease ?l (a\<lparr>md_trading := md_trading a\<lparr>db_next_id := Suc (ids a)\<rparr>\<rparr>)"
    obtain x y z where "d = lease_audit work x y z (store_target (started (env_now env) t) ?a)"
      using give unfolding grant_def fresh_token Let_def prod.case prod.inject by metis
    moreover have "find_target ?a work = Some t" using that(2) by simp
    then have "rows_move ?a (store_target (started (env_now env) t) ?a)" using that(3) row_moves(2) by (rule store_target_rows)
    moreover have "rows_move a ?a" by (rule rows_move_same) simp_all
    ultimately show ?thesis using rows_move_trans rows_move_lease(2) by blast
  qed
  show ?thesis
  proof (cases busy)
    case False
    let ?db1 = "ensure_lease (wr_feed work) db"
    have ensured: "rows_move db ?db1" by (rule rows_move_same) simp_all
    obtain l where l: "find_lease ?db1 (wr_feed work) = Some l" by (simp add: find_lease_ensure)
    consider "db' = ?db1" | db2 where "(if ml_token l \<noteq> None then recover env l ?db1 else Inr ?db1) = Inr db2"
        "db' = db2 \<or> (\<exists>t cl. find_target db2 work = Some t \<and> active_target t
           \<and> grant env duration work owner (cleared l) t db2 = (cl, db'))"
      using assms False by (auto simp: claim_work_def Let_def l result_simps split: if_splits option.splits prod.splits)
    then show ?thesis
    proof cases
      case 2
      then have "rows_move ?db1 db2" by (auto split: if_splits dest: recover_rows)
      moreover have "rows_move db2 db'" using 2(2) granted by auto
      ultimately show ?thesis using ensured rows_move_trans by blast
    qed (simp add: ensured)
  qed (use assms in \<open>simp add: claim_work_def\<close>)
qed

lemma heartbeat_rows: "heartbeat env duration cl db = (b, db') \<Longrightarrow> rows_move db db'"
  by (auto simp: heartbeat_def split: option.splits if_splits)

lemma release_rows: "release_lease env cl db = (b, db') \<Longrightarrow> rows_move db db'"
  by (auto simp: release_lease_def split: option.splits if_splits)

subsection \<open>Candles stay well formed\<close>

definition candles_move :: "market_db \<Rightarrow> market_db \<Rightarrow> bool" where
  "candles_move db db' \<longleftrightarrow> (candles_ok db \<longrightarrow> candles_ok db')"

lemma candles_same: "md_candles db' = md_candles db \<Longrightarrow> candles_move db db'"
  by (simp add: candles_move_def candles_ok_def)

lemma candles_rows [simp]:
  "md_candles (store_lease l db) = md_candles db" "md_candles (ensure_lease f db) = md_candles db"
  by (simp_all add: store_lease_def ensure_lease_def)

lemma recover_candles: "recover env l db = Inr db' \<Longrightarrow> md_candles db' = md_candles db"
  by (auto simp: recover_def recover_target_def Let_def split: option.splits prod.splits if_splits)

lemma recover_all_candles: "run_steps (\<lambda>db l. recover env l db) db ls = Inr db' \<Longrightarrow> md_candles db' = md_candles db"
  by (induction ls arbitrary: db) (auto simp: result_simps dest!: recover_candles)

lemma claim_candles: "claim_work env duration busy work owner db = Inr (c, db') \<Longrightarrow> md_candles db' = md_candles db"
  by (auto simp: claim_work_def grant_def fresh_token Let_def result_simps
      split: if_splits option.splits prod.splits dest!: recover_candles)

lemma save_candles:
  assumes "save_page cfg env page points db = Inr (x, db')"
  shows "candles_move db db'"
proof -
  obtain accepted where guarded: "guarded_write env (pp_claim page) True (save_body cfg env page points accepted) db = Inr (x, db')"
    using assms by (auto simp: save_page_def result_simps)
  obtain lease t db1 where body: "save_body cfg env page points accepted t db = Inr (x, db1)" and db': "db' = store_lease (cleared lease) db1"
    using guarded by (rule guarded_write_cases) simp
  obtain n db2 t' where stored: "store_accepted env page t accepted db = Inr (n, db2)" and db1: "db1 = store_target t' db2"
    using body by (auto simp: save_body_def result_simps)
  have "candles_ok db \<Longrightarrow> candles_ok db2"
    using stored by (auto simp: store_accepted_def result_simps split: if_splits dest: upsert_candles_ok)
  moreover have "candles_ok db' = candles_ok db2" by (rule same_candles(1)) (simp add: db' db1)
  ultimately show ?thesis by (simp add: candles_move_def)
qed

lemma other_page_candles:
  "prepare_page cfg env cl db = Inr (page, db') \<Longrightarrow> md_candles db' = md_candles db"
  "complete_page cfg env page db = Inr (x, db') \<Longrightarrow> md_candles db' = md_candles db"
  "fail_page env cl f db = Inr (x, db') \<Longrightarrow> md_candles db' = md_candles db"
proof -
  show "prepare_page cfg env cl db = Inr (page, db') \<Longrightarrow> md_candles db' = md_candles db"
    unfolding prepare_page_def by (erule guarded_write_cases) (auto simp: prepare_body_def result_simps Let_def)
  show "fail_page env cl f db = Inr (x, db') \<Longrightarrow> md_candles db' = md_candles db"
    unfolding fail_page_def by (erule guarded_write_cases) (auto simp: fail_body_def Let_def split: if_splits)
  assume "complete_page cfg env page db = Inr (x, db')"
  then obtain lease t db1 where body: "complete_body cfg env page t db = Inr (x, db1)" and db': "db' = store_lease (cleared lease) db1"
    unfolding complete_page_def by (rule guarded_write_cases) simp
  then show "md_candles db' = md_candles db"
    by (cases t) (auto simp: result_simps Let_def only_gaps_simps(3) [OF persist_only_gaps])
qed

subsection \<open>The system of commands and workers\<close>

inductive market_step :: "page_config \<Rightarrow> collection_config \<Rightarrow> market_db \<Rightarrow> market_db \<Rightarrow> bool" for pages commands where
  Claimed: "claim_work env duration busy work owner db = Inr (c, db') \<Longrightarrow> market_step pages commands db db'"
| Heartbeat: "heartbeat env duration cl db = (kept, db') \<Longrightarrow> market_step pages commands db db'"
| Released: "release_lease env cl db = (given, db') \<Longrightarrow> market_step pages commands db db'"
| Recovered: "recover_expired env locked limit db = Inr (n, db') \<Longrightarrow> market_step pages commands db db'"
| Prepared: "prepare_page pages env cl db = Inr (page, db') \<Longrightarrow> market_step pages commands db db'"
| Page_saved: "save_page pages env page points db = Inr ((), db') \<Longrightarrow> market_step pages commands db db'"
| Job_completed: "complete_page pages env page db = Inr ((), db') \<Longrightarrow> market_step pages commands db db'"
| Page_failed: "fail_page env cl f db = Inr ((), db') \<Longrightarrow> market_step pages commands db db'"
| Enqueued: "enqueue_backfill commands env ws cmd trigger db = Inr (job, db') \<Longrightarrow> market_step pages commands db db'"
| Gap_enqueued: "enqueue_gap_backfill commands env ws gap db = Inr (job, db') \<Longrightarrow> market_step pages commands db db'"
| Subscribed: "update_subscriptions commands env ws iid enabled tf db = Inr db' \<Longrightarrow> market_step pages commands db db'"
| Elsewhere: "ids db \<le> ids db' \<Longrightarrow> db' = db\<lparr>md_access := access, md_trading := trading, md_gaps := gaps, md_audit := audit\<rparr> \<Longrightarrow>
    market_step pages commands db db'"

definition disjoint_jobs :: "worker_backfill \<Rightarrow> worker_backfill \<Rightarrow> bool" where
  "disjoint_jobs a b \<longleftrightarrow> bf_to a \<le> bf_from b \<or> bf_to b \<le> bf_from a"

definition rows_ok :: "market_db \<Rightarrow> bool" where
  "rows_ok db \<longleftrightarrow> distinct (map wf_id (md_backfills db)) \<and> distinct (map wf_id (md_subscriptions db))
     \<and> (\<forall>b \<in> set (md_backfills db). wf_id b < ids db \<and> bf_status b \<noteq> ''validating'')
     \<and> (\<forall>s \<in> set (md_subscriptions db). wf_id s < ids db)
     \<and> (\<forall>a \<in> set (md_backfills db). \<forall>b \<in> set (md_backfills db).
          wf_id a \<noteq> wf_id b \<and> wf_feed a = wf_feed b \<and> active_target (Job a) \<and> active_target (Job b) \<longrightarrow> disjoint_jobs a b)"

definition market_ok :: "market_db \<Rightarrow> bool" where
  "market_ok db \<longleftrightarrow> leases_ok db \<and> candles_ok db \<and> rows_ok db"

lemma rows_move_job:
  assumes "rows_move db db'" "b' \<in> set (md_backfills db')"
  obtains b where "b \<in> set (md_backfills db)" "wf_id b' = wf_id b" "wf_feed b' = wf_feed b" "bf_from b' = bf_from b" "bf_to b' = bf_to b"
    "active_target (Job b') \<longrightarrow> active_target (Job b)" "bf_status b' = ''validating'' \<longrightarrow> bf_status b = ''validating''"
  using assms unfolding rows_move_def job_row_move_def by blast

lemma rows_move_ok:
  assumes "rows_move db db'" "ids db \<le> ids db'" "rows_ok db"
  shows "rows_ok db'"
proof -
  have bounds: "wf_id b' < ids db' \<and> bf_status b' \<noteq> ''validating''" if mem: "b' \<in> set (md_backfills db')" for b'
  proof -
    obtain b where "b \<in> set (md_backfills db)" "wf_id b' = wf_id b" "bf_status b' = ''validating'' \<longrightarrow> bf_status b = ''validating''"
      using rows_move_job [OF assms(1) mem] by blast
    then show ?thesis using assms(2,3) by (auto simp: rows_ok_def)
  qed
  have sub_bounds: "wf_id s < ids db'" if "s \<in> set (md_subscriptions db')" for s
  proof -
    have "wf_id s \<in> set (map wf_id (md_subscriptions db))" using assms(1) that by (metis imageI list.set_map rows_move_def)
    then show ?thesis using assms(2,3) by (auto simp: rows_ok_def)
  qed
  have disj: "disjoint_jobs a' b'"
    if a': "a' \<in> set (md_backfills db')" and b': "b' \<in> set (md_backfills db')" and diff: "wf_id a' \<noteq> wf_id b'" "wf_feed a' = wf_feed b'"
      "active_target (Job a')" "active_target (Job b')" for a' b'
  proof -
    obtain a where a: "a \<in> set (md_backfills db)" "wf_id a' = wf_id a" "wf_feed a' = wf_feed a" "bf_from a' = bf_from a" "bf_to a' = bf_to a"
        "active_target (Job a') \<longrightarrow> active_target (Job a)"
      using rows_move_job [OF assms(1) a'] by blast
    obtain b where b: "b \<in> set (md_backfills db)" "wf_id b' = wf_id b" "wf_feed b' = wf_feed b" "bf_from b' = bf_from b" "bf_to b' = bf_to b"
        "active_target (Job b') \<longrightarrow> active_target (Job b)"
      using rows_move_job [OF assms(1) b'] by blast
    have "disjoint_jobs a b" using assms(3) a b diff by (auto simp: rows_ok_def)
    then show ?thesis using a b by (simp add: disjoint_jobs_def)
  qed
  show ?thesis
    using assms(1,3) bounds sub_bounds disj unfolding rows_ok_def rows_move_def by auto
qed

subsection \<open>What the commands change\<close>

lemma collection_audit_simps [simp]:
  "md_backfills (collection_audit w a t r p db) = md_backfills db" "md_subscriptions (collection_audit w a t r p db) = md_subscriptions db"
  "md_candles (collection_audit w a t r p db) = md_candles db" "md_leases (collection_audit w a t r p db) = md_leases db"
  "ids (collection_audit w a t r p db) = Suc (ids db)"
  by (simp_all add: collection_audit_def fresh_token)

lemma enqueued:
  assumes "enqueue_backfill cfg env ws cmd trigger db = Inr (job, db')"
  shows "md_backfills db' = md_backfills db @ [job]" "md_subscriptions db' = md_subscriptions db" "md_candles db' = md_candles db"
    "same_leases db db'" "wf_id job = ids db" "ids db < ids db'" "bf_status job = ''queued''" "bf_from job < bf_to job" "job_ok job \<or> \<not> time_ok (bf_from job) \<or> \<not> time_ok (bf_to job)"
    "\<not> overlapping_backfill db (wf_feed job) (bf_from job) (bf_to job)"
proof -
  have report: "restore_report f t (JObj []) = Inr (new_report f t)" for f t
    by (simp add: restore_report_def counter_of_def time_of_def json_get_def samples_of_def new_report_def)
  note facts = assms [unfolded enqueue_backfill_def Let_def fresh_token ensure_no_overlapping_backfill_def prod.case]
  show "md_backfills db' = md_backfills db @ [job]" "md_subscriptions db' = md_subscriptions db" "md_candles db' = md_candles db"
    "same_leases db db'" "wf_id job = ids db" "ids db < ids db'" "bf_status job = ''queued''" "bf_from job < bf_to job"
    "\<not> overlapping_backfill db (wf_feed job) (bf_from job) (bf_to job)"
    using facts by (auto simp: result_simps new_backfill_def same_leases_def days_def day_length_def)
  show "job_ok job \<or> \<not> time_ok (bf_from job) \<or> \<not> time_ok (bf_to job)"
    using facts report
    by (auto simp: result_simps new_backfill_def days_def day_length_def job_ok_def checkpoint_def report_ok_def new_report_def ir_rows_written_def)
qed

lemma gap_enqueued:
  assumes "enqueue_gap_backfill cfg env ws gap db = Inr (job, db')"
  shows "md_backfills db' = md_backfills db @ [job]" "md_subscriptions db' = md_subscriptions db" "md_candles db' = md_candles db"
    "same_leases db db'" "wf_id job = ids db" "ids db < ids db'" "bf_status job = ''queued''"
    "\<not> overlapping_backfill db (wf_feed job) (bf_from job) (bf_to job)"
  using assms unfolding enqueue_gap_backfill_def Let_def fresh_token ensure_no_overlapping_backfill_def prod.case
  by (auto simp: result_simps new_backfill_def same_leases_def split: option.splits)

lemma new_job_rows:
  assumes "rows_ok db" "md_backfills db' = md_backfills db @ [job]" "md_subscriptions db' = md_subscriptions db"
    and "wf_id job = ids db" "ids db < ids db'" "bf_status job = ''queued''"
    and "\<not> overlapping_backfill db (wf_feed job) (bf_from job) (bf_to job)"
  shows "rows_ok db'"
proof -
  have free: "disjoint_jobs b job \<and> disjoint_jobs job b" if b: "b \<in> set (md_backfills db)" "wf_feed b = wf_feed job" "active_target (Job b)" for b
  proof -
    have "bf_status b \<in> {''queued'', ''running''}"
      using b(1,3) assms(1) by (auto simp: rows_ok_def active_jobs_def)
    then show ?thesis
      using b(1,2) assms(7) by (auto simp: overlapping_backfill_def disjoint_jobs_def not_less)
  qed
  have old: "wf_id b < ids db" if "b \<in> set (md_backfills db)" for b using that assms(1) by (simp add: rows_ok_def)
  have "disjoint_jobs a b" if "a \<in> set (md_backfills db')" "b \<in> set (md_backfills db')" "wf_id a \<noteq> wf_id b" "wf_feed a = wf_feed b"
      "active_target (Job a)" "active_target (Job b)" for a b
    using that free [of a] free [of b] assms(1,2) by (auto simp: rows_ok_def simp del: active_target.simps)
  moreover have "distinct (map wf_id (md_backfills db'))" using assms(1,2,4) old by (fastforce simp: rows_ok_def)
  moreover have "wf_id b < ids db' \<and> bf_status b \<noteq> ''validating''" if "b \<in> set (md_backfills db')" for b
    using that assms(1,2,4-6) by (auto simp: rows_ok_def)
  moreover have "wf_id s < ids db'" if "s \<in> set (md_subscriptions db')" for s
    using that assms(1,3,5) by (auto simp: rows_ok_def)
  ultimately show ?thesis using assms(1,3) by (simp add: rows_ok_def)
qed

definition blocked_row :: "uuid \<Rightarrow> string \<Rightarrow> market_db \<Rightarrow> bool" where
  "blocked_row sid why db \<longleftrightarrow> sid < ids db \<and> (\<exists>s \<in> set (md_subscriptions db). wf_id s = sid)
     \<and> (\<forall>s \<in> set (md_subscriptions db). wf_id s = sid \<longrightarrow> sb_blocked s = Some why)"

lemma set_subscription_cases:
  obtains s where "s \<in> set (md_subscriptions db)" "md_subscriptions (set_subscription env ws iid enabled db tf) =
      update_row wf_id (s\<lparr>sb_enabled := enabled, sb_poll_interval := 60\<rparr>) (md_subscriptions db)"
    "md_backfills (set_subscription env ws iid enabled db tf) = md_backfills db"
    "md_candles (set_subscription env ws iid enabled db tf) = md_candles db"
    "same_leases db (set_subscription env ws iid enabled db tf)"
  | s where "wf_id s = ids db" "md_subscriptions (set_subscription env ws iid enabled db tf) =
      update_row wf_id (s\<lparr>sb_enabled := enabled, sb_poll_interval := 60\<rparr>) (md_subscriptions db @ [s])"
    "md_backfills (set_subscription env ws iid enabled db tf) = md_backfills db"
    "md_candles (set_subscription env ws iid enabled db tf) = md_candles db"
    "same_leases db (set_subscription env ws iid enabled db tf)" "ids db < ids (set_subscription env ws iid enabled db tf)"
proof (cases "find (\<lambda>s. wf_feed s = \<lparr>fk_workspace = ws, fk_instrument = iid, fk_timeframe = tf\<rparr>) (md_subscriptions db)")
  case None
  let ?s = "\<lparr>wf_id = ids db, wf_feed = \<lparr>fk_workspace = ws, fk_instrument = iid, fk_timeframe = tf\<rparr>, wf_next_fetch = None,
      wf_next_run = env_now env, wf_failures = 0, sb_enabled = False, sb_poll_interval = 60, sb_last_success = None, sb_blocked = None,
      sb_scan_to = None, sb_last_error = None, sb_last_polled = None\<rparr>"
  show ?thesis using that(2) [of ?s] None
    by (simp add: set_subscription_def Let_def fresh_token store_target.simps same_leases_def)
next
  case (Some s)
  then have "s \<in> set (md_subscriptions db)" by (auto simp: find_Some_iff)
  then show ?thesis using that(1) [of s] Some
    by (simp add: set_subscription_def Let_def store_target.simps same_leases_def)
qed

lemma set_subscription_rows:
  assumes "rows_ok db"
  shows "rows_ok (set_subscription env ws iid enabled db tf)"
proof (cases rule: set_subscription_cases [of db env ws iid enabled tf])
  case (1 s)
  then have "ids db \<le> ids (set_subscription env ws iid enabled db tf)" by (simp add: same_leases_def)
  then show ?thesis using assms 1 by (fastforce simp: rows_ok_def set_update_row)
next
  case (2 s)
  have old: "wf_id x < ids db" if "x \<in> set (md_subscriptions db)" for x using that assms by (simp add: rows_ok_def)
  then have "distinct (map wf_id (md_subscriptions db @ [s]))" using assms 2(1) by (fastforce simp: rows_ok_def)
  moreover have "wf_id x < ids (set_subscription env ws iid enabled db tf)"
    if "x \<in> set (update_row wf_id (s\<lparr>sb_enabled := enabled, sb_poll_interval := 60\<rparr>) (md_subscriptions db @ [s]))" for x
    using that old 2(1,6) by (fastforce simp: set_update_row)
  ultimately show ?thesis using assms 2(2,3,6) by (fastforce simp: rows_ok_def)
qed

lemma blocked_rowI:
  "sid < ids db \<Longrightarrow> sid \<in> set (map wf_id (md_subscriptions db)) \<Longrightarrow>
     (\<And>s. s \<in> set (md_subscriptions db) \<Longrightarrow> wf_id s = sid \<Longrightarrow> sb_blocked s = Some why) \<Longrightarrow> blocked_row sid why db"
  by (auto simp: blocked_row_def)

lemma blocked_rowD:
  assumes "blocked_row sid why db"
  shows "sid < ids db" "sid \<in> set (map wf_id (md_subscriptions db))"
    "s \<in> set (md_subscriptions db) \<Longrightarrow> wf_id s = sid \<Longrightarrow> sb_blocked s = Some why"
  using assms by (auto simp: blocked_row_def)

lemma set_subscription_blocked:
  assumes "blocked_row sid why db"
  shows "blocked_row sid why (set_subscription env ws iid enabled db tf)"
proof (cases rule: set_subscription_cases [of db env ws iid enabled tf])
  case (1 s)
  show ?thesis
  proof (rule blocked_rowI)
    show "sid < ids (set_subscription env ws iid enabled db tf)"
      using blocked_rowD(1) [OF assms] 1(5) by (simp add: same_leases_def)
    show "sid \<in> set (map wf_id (md_subscriptions (set_subscription env ws iid enabled db tf)))"
      using blocked_rowD(2) [OF assms] by (simp only: 1(2) map_key_update_row)
    fix x assume "x \<in> set (md_subscriptions (set_subscription env ws iid enabled db tf))" "wf_id x = sid"
    then show "sb_blocked x = Some why"
      using blocked_rowD(3) [OF assms] 1(1) unfolding 1(2) set_update_row by auto
  qed
next
  case (2 s)
  show ?thesis
  proof (rule blocked_rowI)
    show "sid < ids (set_subscription env ws iid enabled db tf)"
      using blocked_rowD(1) [OF assms] 2(6) by simp
    show "sid \<in> set (map wf_id (md_subscriptions (set_subscription env ws iid enabled db tf)))"
      using blocked_rowD(2) [OF assms] unfolding 2(2) map_key_update_row by simp
    fix x assume "x \<in> set (md_subscriptions (set_subscription env ws iid enabled db tf))" "wf_id x = sid"
    then show "sb_blocked x = Some why"
      using blocked_rowD(1,3) [OF assms] 2(1) unfolding 2(2) set_update_row by auto
  qed
qed

lemma set_subscription_frame:
  "same_leases db (set_subscription env ws iid enabled db tf)"
  "md_candles (set_subscription env ws iid enabled db tf) = md_candles db"
  by (rule set_subscription_cases [of db env ws iid enabled tf]; assumption)+

lemma subscribed:
  assumes "update_subscriptions cfg env ws iid enabled tf db = Inr db'"
  shows "same_leases db db'" "md_candles db' = md_candles db" "rows_ok db \<Longrightarrow> rows_ok db'"
    "blocked_row sid why db \<Longrightarrow> blocked_row sid why db'"
proof -
  obtain frames where db': "db' = foldl (set_subscription env ws iid enabled) db frames"
    using assms by (auto simp: update_subscriptions_def Let_def result_simps)
  have "same_leases db (foldl (set_subscription env ws iid enabled) db frames)
      \<and> md_candles (foldl (set_subscription env ws iid enabled) db frames) = md_candles db
      \<and> (rows_ok db \<longrightarrow> rows_ok (foldl (set_subscription env ws iid enabled) db frames))
      \<and> (blocked_row sid why db \<longrightarrow> blocked_row sid why (foldl (set_subscription env ws iid enabled) db frames))" for frames db
  proof (induction frames arbitrary: db)
    case (Cons tf frames)
    show ?case
      using Cons.IH [of "set_subscription env ws iid enabled db tf"] set_subscription_frame(1) [of db env ws iid enabled tf] set_subscription_frame(2) [of env ws iid enabled db tf]
        set_subscription_rows [of db env ws iid enabled tf] set_subscription_blocked [of sid why db env ws iid enabled tf]
        same_leases_trans
      by auto
  qed simp
  then show "same_leases db db'" "md_candles db' = md_candles db" "rows_ok db \<Longrightarrow> rows_ok db'"
    "blocked_row sid why db \<Longrightarrow> blocked_row sid why db'"
    by (auto simp: db')
qed

lemma rows_move_blocked:
  assumes "rows_move db db'" "ids db \<le> ids db'" "blocked_row sid why db"
  shows "blocked_row sid why db'"
proof (rule blocked_rowI)
  show "sid < ids db'" using blocked_rowD(1) [OF assms(3)] assms(2) by simp
  show "sid \<in> set (map wf_id (md_subscriptions db'))"
    using blocked_rowD(2) [OF assms(3)] assms(1) by (simp only: rows_move_def)
  fix s' assume s': "s' \<in> set (md_subscriptions db')" "wf_id s' = sid"
  then consider "s' \<in> set (md_subscriptions db)" | s where "s \<in> set (md_subscriptions db)" "active_target (Feed s)" "row_move (Feed s) (Feed s')"
    using assms(1) unfolding rows_move_def by blast
  then show "sb_blocked s' = Some why"
    using blocked_rowD(3) [OF assms(3)] s'(2) by cases auto
qed

subsection \<open>Every step\<close>

lemma market_step_moves:
  assumes "market_step pages commands db db'"
  shows "lease_move db db' \<and> candles_move db db' \<and> (rows_ok db \<longrightarrow> rows_ok db') \<and> (blocked_row sid why db \<longrightarrow> blocked_row sid why db')"
proof -
  have worker: "lease_move db db' \<and> candles_move db db' \<and> (rows_ok db \<longrightarrow> rows_ok db') \<and> (blocked_row sid why db \<longrightarrow> blocked_row sid why db')"
    if "lease_move db db'" "rows_move db db'" "candles_move db db'"
    using that rows_move_ok rows_move_blocked by (auto simp: lease_move_def)
  have added: "blocked_row sid why db \<longrightarrow> blocked_row sid why db'"
    if "md_subscriptions db' = md_subscriptions db" "same_leases db db'"
    using that by (auto simp: blocked_row_def same_leases_def)
  show ?thesis
    using assms
  proof cases
    case (Claimed env duration busy work owner c)
    then show ?thesis by (intro worker claim_move claim_rows candles_same claim_candles)
  next
    case (Heartbeat env duration cl kept)
    moreover have "md_candles db' = md_candles db"
      using Heartbeat by (auto simp: heartbeat_def split: option.splits if_splits)
    ultimately show ?thesis by (intro worker heartbeat_move heartbeat_rows candles_same)
  next
    case (Released env cl given)
    moreover have "md_candles db' = md_candles db"
      using Released by (auto simp: release_lease_def split: option.splits if_splits)
    ultimately show ?thesis by (intro worker release_move release_rows candles_same)
  next
    case (Recovered env locked limit n)
    moreover have "md_candles db' = md_candles db"
      using Recovered by (auto simp: recover_expired_def Let_def result_simps split: if_splits dest: recover_all_candles)
    ultimately show ?thesis by (intro worker recover_expired_move recover_expired_rows candles_same)
  next
    case (Prepared env cl page)
    then show ?thesis by (intro worker prepare_move prepare_rows candles_same other_page_candles(1))
  next
    case (Page_saved env page points)
    then show ?thesis by (intro worker save_move save_rows save_candles)
  next
    case (Job_completed env page)
    then show ?thesis by (intro worker complete_move complete_rows candles_same other_page_candles(2))
  next
    case (Page_failed env cl f)
    then show ?thesis by (intro worker fail_move fail_rows candles_same other_page_candles(3))
  next
    case (Enqueued env ws cmd trigger job)
    note e = enqueued [OF Enqueued]
    have "rows_ok db \<longrightarrow> rows_ok db'" using new_job_rows [OF _ e(1,2,5,6,7,10)] by blast
    then show ?thesis using same_leases_move [OF e(4)] candles_same [OF e(3)] added [OF e(2,4)] by blast
  next
    case (Gap_enqueued env ws gap job)
    note e = gap_enqueued [OF Gap_enqueued]
    have "rows_ok db \<longrightarrow> rows_ok db'" using new_job_rows [OF _ e(1,2,5,6,7,8)] by blast
    then show ?thesis using same_leases_move [OF e(4)] candles_same [OF e(3)] added [OF e(2,4)] by blast
  next
    case (Subscribed env ws iid enabled tf)
    note e = subscribed [OF Subscribed]
    show ?thesis using same_leases_move [OF e(1)] candles_same [OF e(2)] e(3,4) by blast
  next
    case (Elsewhere access trading gaps audit)
    then have "same_leases db db'" "rows_move db db'" "candles_move db db'"
      by (simp_all add: same_leases_def rows_move_same candles_same)
    then show ?thesis by (intro worker same_leases_move)
  qed
qed

interpretation market_life: state_machine "market_step pages commands" market_ok for pages commands
proof
  fix db db' assume "market_ok db" "market_step pages commands db db'"
  then show "market_ok db'"
    using market_step_moves [of pages commands db db'] by (auto simp: market_ok_def lease_move_def candles_move_def)
qed

interpretation fencing: state_machine "market_step pages commands" "superseded cl" for pages commands cl
  by unfold_locales (use market_step_moves superseded_move in blast)

interpretation blocking: state_machine "market_step pages commands" "blocked_row sid why" for pages commands sid why
  by unfold_locales (use market_step_moves in blast)

text \<open>
  C27 (invariant). However the commands of the API and the transactions of any number of workers interleave, with
  whatever answers the exchanges give: every feed has at most one lease and a held lease is whole; every stored
  candle passes the table's checks and is the only one at its key; and no two active backfills of a feed overlap.
\<close>

theorem market_data_stays_consistent:
  assumes "market_ok db" "(market_step pages commands)\<^sup>*\<^sup>* db db'"
  shows "leases_ok db' \<and> candles_ok db' \<and> distinct (map wf_id (md_backfills db')) \<and> distinct (map wf_id (md_subscriptions db'))
    \<and> (\<forall>a \<in> set (md_backfills db'). \<forall>b \<in> set (md_backfills db').
         wf_id a \<noteq> wf_id b \<and> wf_feed a = wf_feed b \<and> active_target (Job a) \<and> active_target (Job b) \<longrightarrow>
           bf_to a \<le> bf_from b \<or> bf_to b \<le> bf_from a)"
proof -
  have "market_ok db'" by (rule market_life.reachable_keeps [OF assms(2,1)])
  then show ?thesis unfolding market_ok_def rows_ok_def disjoint_jobs_def by blast
qed

text \<open>
  C28 (safety). A worker that lost its feed cannot write to it any more. Once another claim on the feed was
  granted, every later write under the old claim raises \<open>LeaseLost\<close>, and its heartbeats and releases do
  nothing, whatever happens in between: a page fetched late is never stored.
\<close>

theorem superseded_claims_never_write:
  assumes "leases_ok db" "lc_token old < ids db"
    and "claim_work env duration busy work owner db = Inr (Some cl, db1)" "wr_feed (lc_work old) = wr_feed work"
    and "(market_step pages commands)\<^sup>*\<^sup>* db1 db2"
  shows "guarded_write env2 old release body db2 = Inl ''LeaseLost''
    \<and> heartbeat env2 duration2 old db2 = (False, db2) \<and> release_lease env2 old db2 = (False, db2)"
proof -
  have "superseded old db1" by (rule claim_supersedes [OF assms(1,3,4,2)])
  then have "superseded old db2" by (rule fencing.reachable_keeps [OF assms(5)])
  then show ?thesis by (intro conjI superseded_refused)
qed

lemma claim_target:
  assumes "claim_work env duration busy work owner db = Inr (Some cl, db')"
  obtains db2 target where "rows_move db db2" "ids db \<le> ids db2" "find_target db2 work = Some target" "active_target target"
proof -
  let ?db1 = "ensure_lease (wr_feed work) db"
  obtain l where l: "find_lease ?db1 (wr_feed work) = Some l" by (simp add: find_lease_ensure)
  obtain db2 target where db2: "(if ml_token l \<noteq> None then recover env l ?db1 else Inr ?db1) = Inr db2"
      and target: "find_target db2 work = Some target" "active_target target"
    using assms by (auto simp: claim_work_def Let_def l result_simps not_less split: if_splits option.splits prod.splits)
  have "rows_move db ?db1" by (rule rows_move_same) simp_all
  moreover have "rows_move ?db1 db2" "lease_move ?db1 db2"
    using db2 by (auto split: if_splits intro: recover_rows recover_move lease_move_refl)
  ultimately have "rows_move db db2" "lease_move db db2"
    using rows_move_trans lease_move_trans [OF ensure_lease_move] by blast+
  then show thesis using target by (intro that) (simp_all add: lease_move_def)
qed

lemma blocked_target:
  assumes "blocked_row (wr_id work) why db" "find_target db work = Some target" "wr_kind work = Polling"
  shows "\<not> active_target target"
proof -
  obtain s where "target = Feed s" "s \<in> set (md_subscriptions db)" "wf_id s = wr_id work"
    using assms(2,3) by (auto simp: find_target_def find_Some_iff)
  then show ?thesis using blocked_rowD(3) [OF assms(1)] by auto
qed

lemma blocked_unclaimed:
  assumes "blocked_row (wr_id work) why db" "wr_kind work = Polling"
  shows "claim_work env duration busy work owner db \<noteq> Inr (Some cl, db')"
proof
  assume "claim_work env duration busy work owner db = Inr (Some cl, db')"
  then obtain db2 target where "rows_move db db2" "ids db \<le> ids db2" "find_target db2 work = Some target" "active_target target"
    by (rule claim_target)
  then show False using blocked_target [OF rows_move_blocked [OF _ _ assms(1)] _ assms(2)] by blast
qed

lemma blocked_unwritten:
  assumes "blocked_row (wr_id (lc_work cl)) why db" "wr_kind (lc_work cl) = Polling"
  shows "guarded_write env cl release body db = Inl ''LeaseLost''"
  using blocked_target [OF assms(1) _ assms(2)] by (auto simp: guarded_write_def split: option.split)

lemma blocked_not_due:
  assumes "blocked_row (wr_id work) why db" "wr_kind work = Polling" "due_work now limit db = Inr works"
  shows "work \<notin> set works"
proof
  assume "work \<in> set works"
  then obtain r where r: "active_target r" "row_kind r = Polling" "row_id r = wr_id work"
      "r \<in> Job ` set (md_backfills db) \<union> Feed ` set (md_subscriptions db)"
    using assms(2,3)
    by (fastforce simp: due_work_def Let_def due_rows_def split: if_splits dest!: in_set_takeD)
  then show False using blocked_rowD(3) [OF assms(1)] by auto
qed

text \<open>
  C37 (safety). Nothing unblocks a subscription. Once its automatic retries were stopped, whatever sequence of
  API commands and worker transactions follows, a user's stop and start of its collection included, the
  reason stays: the subscription is never listed as due, no worker is granted a claim on it, and a write
  under a claim on it raises \<open>LeaseLost\<close>. The design document (durable-market-data-worker, on the blocked state) promises
  that the user's start clears the block.
\<close>

theorem blocked_subscriptions_stay_blocked:
  assumes "rows_ok db" "s \<in> set (md_subscriptions db)" "sb_blocked s = Some why" "(market_step pages commands)\<^sup>*\<^sup>* db db'"
    and "wr_kind work = Polling" "wr_id work = wf_id s"
  shows "(\<exists>s' \<in> set (md_subscriptions db'). wf_id s' = wf_id s)
    \<and> (\<forall>s' \<in> set (md_subscriptions db'). wf_id s' = wf_id s \<longrightarrow> sb_blocked s' = Some why \<and> \<not> active_target (Feed s'))
    \<and> (due_work now limit db' = Inr works \<longrightarrow> work \<notin> set works)
    \<and> claim_work env duration busy work owner db' \<noteq> Inr (Some new, db2)
    \<and> (lc_work old = work \<longrightarrow> guarded_write env old release body db' = Inl ''LeaseLost'')"
proof -
  have "x = s" if "x \<in> set (md_subscriptions db)" "wf_id x = wf_id s" for x
    using that assms(1,2) by (auto simp: rows_ok_def distinct_map inj_on_def)
  then have "blocked_row (wf_id s) why db"
    using assms(1-3) by (auto simp: blocked_row_def rows_ok_def)
  then have blocked: "blocked_row (wr_id work) why db'"
    using blocking.reachable_keeps [OF assms(4)] assms(6) by simp
  show ?thesis
  proof (intro conjI)
    show "\<exists>s' \<in> set (md_subscriptions db'). wf_id s' = wf_id s"
      and "\<forall>s' \<in> set (md_subscriptions db'). wf_id s' = wf_id s \<longrightarrow> sb_blocked s' = Some why \<and> \<not> active_target (Feed s')"
      using blocked assms(6) by (auto simp: blocked_row_def)
    show "due_work now limit db' = Inr works \<longrightarrow> work \<notin> set works"
      using blocked_not_due [OF blocked assms(5)] by blast
    show "claim_work env duration busy work owner db' \<noteq> Inr (Some new, db2)"
      by (rule blocked_unclaimed [OF blocked assms(5)])
    show "lc_work old = work \<longrightarrow> guarded_write env old release body db' = Inl ''LeaseLost''"
      using blocked assms(5) by (auto intro: blocked_unwritten)
  qed
qed

end
