(* ===== verification/Market_Examples.thy ===== *)
theory Market_Examples
  imports Database_Examples Market_Collection
begin

text \<open>
  A concrete feed: an Oanda practice account, one queued backfill of three hourly candles, one
  blocked subscription. The properties of the market data theories are applied to it.
\<close>

declare One_nat_def [simp del]

subsection \<open>The database\<close>

definition demo_urlparse :: "string \<Rightarrow> parsed_url" where
  "demo_urlparse url = (if url = ''https://api-fxpractice.oanda.com''
     then \<lparr>pu_scheme = ''https'', pu_hostname = Some ''api-fxpractice.oanda.com'', pu_port = Inr None\<rparr>
     else \<lparr>pu_scheme = '''', pu_hostname = None, pu_port = Inr None\<rparr>)"

definition demo_access :: access_tables where
  "demo_access = \<lparr>at_exchanges = [\<lparr>xs_id = 1, xs_code = ''oanda'', xs_status = ''active''\<rparr>],
     at_workspaces = [\<lparr>ws_id = 1, ws_status = ''active''\<rparr>],
     at_connections = [\<lparr>cn_id = 1, cn_exchange = 1, cn_secret_ref = Some ''ref'', cn_status = ''verified'', cx_workspace = 1,
       cx_environment = ''practice'', cx_base_url = ''https://api-fxpractice.oanda.com'', cx_credentials_updated = None\<rparr>],
     at_accounts = [\<lparr>xa_id = 1, xa_connection = 1, xa_environment = ''practice'', xa_status = ''active''\<rparr>],
     at_selections = [\<lparr>as_workspace = 1, as_exchange = 1, as_account = 1, as_updated = 0\<rparr>],
     at_instruments = [\<lparr>i_id = 1, i_exchange = 1, i_symbol = ''USD_JPY'', i_quote_asset = ''JPY'', i_tick_size = 1, i_step_size = 1,
       i_min_quantity = None, i_max_quantity = None, mi_status = ''active''\<rparr>]\<rparr>"

definition demo_feed :: feed_key where
  "demo_feed = \<lparr>fk_workspace = 1, fk_instrument = 1, fk_timeframe = ''1h''\<rparr>"

definition demo_job :: "string \<Rightarrow> datetime option \<Rightarrow> worker_backfill" where
  "demo_job job_status fetch = \<lparr>wf_id = 5, wf_feed = demo_feed, wf_next_fetch = fetch, wf_next_run = 0, wf_failures = 0, bf_from = 0,
     bf_to = 10800000000, bf_status = job_status, bf_attempts = 0, bf_rows_written = 0, bf_progress = JObj [], bf_validation = JObj [],
     bf_error = None, bf_started = None, bf_finished = None, bf_gap = None, bf_trigger = ''manual'', bf_created = 0\<rparr>"

definition demo_subscription :: worker_subscription where
  "demo_subscription = \<lparr>wf_id = 6, wf_feed = demo_feed, wf_next_fetch = None, wf_next_run = 0, wf_failures = 3, sb_enabled = True,
     sb_poll_interval = 60, sb_last_success = None, sb_blocked = Some ''rate_limited'', sb_scan_to = None, sb_last_error = None,
     sb_last_polled = None\<rparr>"

definition market_db_of :: "market_lease list \<Rightarrow> worker_backfill \<Rightarrow> market_db" where
  "market_db_of leases job = \<lparr>md_access = demo_access, md_trading = demo_db, md_leases = leases, md_backfills = [job],
     md_subscriptions = [demo_subscription], md_candles = [], md_gaps = [], md_audit = []\<rparr>"

definition demo_work :: work_ref where
  "demo_work = \<lparr>wr_feed = demo_feed, wr_kind = Backfill, wr_id = 5\<rparr>"

definition at_time :: "datetime \<Rightarrow> tx_env" where
  "at_time t = \<lparr>env_now = t, env_column = pg_numeric18\<rparr>"

definition demo_claim :: "datetime option \<Rightarrow> lease_claim" where
  "demo_claim fetch = \<lparr>lc_work = demo_work, lc_owner = 7, lc_token = 4, lc_next_fetch = fetch\<rparr>"

definition held_lease :: "datetime \<Rightarrow> market_lease" where
  "held_lease until = \<lparr>ml_feed = demo_feed, ml_owner = Some 7, ml_token = Some 4, ml_until = Some until, ml_heartbeat = Some 0,
     ml_kind = Some Backfill, ml_work = Some 5\<rparr>"

abbreviation free_db :: market_db where
  "free_db \<equiv> market_db_of [] (demo_job ''queued'' None)"

abbreviation held_db :: "datetime option \<Rightarrow> market_db" where
  "held_db fetch \<equiv> market_db_of [held_lease 90000000000] (demo_job ''running'' fetch)"

lemmas market_demo = demo_access_def demo_feed_def demo_job_def demo_subscription_def market_db_of_def demo_work_def at_time_def
  demo_claim_def held_lease_def demo_urlparse_def demo_db_def

subsection \<open>Access\<close>

definition demo_snapshot :: access_snapshot where
  "demo_snapshot = \<lparr>ap_exchange = ''oanda'', ap_symbol = ''USD_JPY'', ap_base_url = ''https://api-fxpractice.oanda.com'',
     ap_connection = 1, ap_account = 1, ap_secret_ref = ''ref'', ap_credentials_updated = None, ap_selection_updated = 0\<rparr>"

lemma demo_resolve: "resolve_access demo_urlparse demo_access 1 1 = Inr demo_snapshot"
  by code_simp

theorem access_is_sandbox_only_witness:
  "pu_hostname (demo_urlparse (ap_base_url demo_snapshot)) = Some ''api-fxpractice.oanda.com'' \<and> instrument_is_readable demo_access 1 1"
  using access_is_sandbox_only [OF demo_resolve] by (simp add: demo_snapshot_def)

subsection \<open>Leases\<close>

lemma held_ok: "leases_ok (held_db fetch)"
  by (simp add: leases_ok_def lease_ok_def market_demo)

lemma held_find: "find_lease (held_db fetch) demo_feed = Some (held_lease 90000000000)"
  by (simp add: find_lease_def market_demo)

lemma held_owned: "owned (held_lease 90000000000) (demo_claim fetch) 14400000000"
  by (simp add: owned_def market_demo)

theorem held_feed_is_exclusive_witness:
  "claim_work (at_time 14400000000) 90 False demo_work 8 (held_db None) = Inr (None, held_db None)"
proof -
  have work: "wr_feed (lc_work (demo_claim None)) = demo_feed" "wr_feed demo_work = demo_feed"
    "env_now (at_time 14400000000) = 14400000000"
    by (simp_all add: demo_claim_def demo_work_def at_time_def)
  then have "\<forall>duration busy work owner. wr_feed work = demo_feed \<longrightarrow>
      claim_work (at_time 14400000000) duration busy work owner (held_db None) = Inr (None, held_db None)"
    using held_feed_is_exclusive [of "held_db None" "demo_claim None" "held_lease 90000000000" "at_time 14400000000", THEN conjunct1]
      held_ok held_find held_owned by simp
  then show ?thesis using work(2) by blast
qed


lemma free_ok: "market_ok free_db"
  by (simp add: market_ok_def leases_ok_def candles_ok_def rows_ok_def market_demo)

lemma free_target: "find_target free_db demo_work = Some (Job (demo_job ''queued'' None))"
  by (simp add: find_target_def market_demo)

theorem claims_always_answer_witness:
  "\<exists>cl db'. claim_work (at_time 14400000000) 90 False demo_work 8 free_db = Inr (Some cl, db')"
proof -
  have "active_target (Job (demo_job ''queued'' None))" "row_next_run (Job (demo_job ''queued'' None)) \<le> env_now (at_time 14400000000)"
    "find_lease free_db (wr_feed demo_work) = None" "leases_ok free_db"
    using free_ok by (simp_all add: market_ok_def active_jobs_def find_lease_def market_demo)
  then show ?thesis
    using claims_always_answer [of free_db "at_time 14400000000" 90 False demo_work 8 "Job (demo_job ''queued'' None)"] free_target by auto
qed

theorem due_work_is_the_earliest_witness: "due_work 100 10 free_db = Inr [demo_work]"
  using due_work_is_the_earliest [of free_db 10 100]
  by (simp add: market_demo active_jobs_def)

subsection \<open>Pages\<close>

definition demo_pages :: page_config where
  "demo_pages = \<lparr>pc_urlparse = demo_urlparse, pc_page_size = Some 2, pc_new_york = (\<lambda>t. t)\<rparr>"

definition demo_commands :: collection_config where
  "demo_commands = \<lparr>co_urlparse = demo_urlparse, co_secrets = (\<lambda>_. Some [''token'' \<mapsto> ''t'']), co_new_york = (\<lambda>t. t)\<rparr>"

definition page_from :: "datetime \<Rightarrow> datetime \<Rightarrow> datetime option \<Rightarrow> prepared_page" where
  "page_from start end_time fetch = \<lparr>pp_claim = demo_claim fetch, pp_access = demo_snapshot, pp_start = start, pp_end = end_time,
     pp_scan_end = 10800000000, pp_observed_at = 14400000000\<rparr>"

definition demo_point :: candle_point where
  "demo_point = \<lparr>cp_open_time = Some 0, cp_close_time = Some 3600000000, cp_open = Some 150, cp_high = Some 152, cp_low = Some 149,
     cp_close = Some 151, cp_volume = Some (Some 10), cp_trade_count = None, cp_final = True\<rparr>"

lemma demo_final_points: "final_points (page_from 0 7200000000 None) [demo_point] = Inr [demo_point]"
  by (simp add: final_points_def point_step_def point_values_ok_def page_from_def demo_point_def)

theorem final_points_sound_witness: "in_page (page_from 0 7200000000 None) demo_point"
  using final_points_sound [OF demo_final_points] by auto

lemma demo_upsert:
  "upsert_candle_points (at_time 0) 1 ''1h'' ''oanda'' ''complete'' [demo_point] free_db =
     Inr (\<lparr>uc_inserted = 1, uc_updated = 0, uc_rejected = 0\<rparr>,
       free_db\<lparr>md_trading := demo_db\<lparr>db_next_id := 11\<rparr>,
         md_candles := [proposed_candle (at_time 0) 1 ''1h'' ''oanda'' ''complete'' 10 demo_point]\<rparr>)"
  by (simp add: upsert_candle_points_def upsert_point_def fresh_token candle_checks_def proposed_candle_def demo_point_def
      find_candle_def timeframe_seconds.simps market_demo One_nat_def)


theorem restore_report_roundtrip_witness:
  "restore_report 0 10800000000 (JObj (as_validation_result (new_report 0 10800000000) [] [])) = Inr (new_report 0 10800000000)"
  using restore_report_roundtrip [of "new_report 0 10800000000"]
  by (simp add: report_ok_def new_report_def)

lemma demo_times: "time_ok 0" "time_ok 10800000000"
  by (simp_all add: time_ok_def date_of_def day_length_def epoch_days_def)

lemma demo_job_ok: "fetch = None \<or> fetch = Some 10800000000 \<Longrightarrow> job_ok (demo_job s fetch)"
  using demo_times
  by (auto simp: job_ok_def demo_job_def checkpoint_def restore_report_def counter_of_def time_of_def json_get_def samples_of_def
      report_ok_def ir_rows_written_def)

lemma demo_delta: "timeframe_delta ''1h'' = Inr 3600000000"
  by (simp add: timeframe_delta_def timeframe_seconds.simps seconds_def)

lemma held_target: "find_target (held_db fetch) demo_work = Some (Job (demo_job ''running'' fetch))"
  by (simp add: find_target_def market_demo)

lemma held_resolve: "resolve_feed demo_pages (held_db fetch) demo_feed = Inr demo_snapshot"
  using demo_resolve by (simp add: resolve_feed_def demo_pages_def demo_feed_def market_db_of_def)

lemma claim_parts [simp]:
  "lc_work (demo_claim fetch) = demo_work" "wr_feed demo_work = demo_feed" "lc_next_fetch (demo_claim fetch) = fetch"
  "demo_claim fetch\<lparr>lc_next_fetch := fetch'\<rparr> = demo_claim fetch'"
  by (simp_all add: demo_claim_def demo_work_def)

lemma held_store: "store_target (Job (demo_job ''running'' fetch)) (held_db fetch) = held_db fetch"
  by (simp add: store_target.simps market_db_of_def update_row_def demo_job_def)

lemma demo_prepared:
  "prepare_page demo_pages (at_time 14400000000) (demo_claim None) (held_db None) = Inr (page_from 0 7200000000 None, held_db None)"
  "prepare_page demo_pages (at_time 14400000000) (demo_claim (Some 10800000000)) (held_db (Some 10800000000)) =
     Inr (page_from 10800000000 10800000000 (Some 10800000000), held_db (Some 10800000000))"
proof -
  have guard: "guarded_write (at_time 14400000000) (demo_claim fetch) False body (held_db fetch) = body (Job (demo_job ''running'' fetch)) (held_db fetch)"
    for fetch and body :: "work_row \<Rightarrow> market_db \<Rightarrow> (string, prepared_page \<times> market_db) result"
  proof -
    have "active_target (Job (demo_job ''running'' fetch))" "row_next_fetch (Job (demo_job ''running'' fetch)) = fetch"
      by (simp_all add: demo_job_def active_jobs_def)
    then show ?thesis
      by (cases "body (Job (demo_job ''running'' fetch)) (held_db fetch)")
         (simp_all add: guarded_write_def held_find held_target held_owned [of fetch, folded at_time_def] at_time_def del: active_target.simps)
  qed
  have rows: "fk_timeframe demo_feed = ''1h''" "env_now (at_time 14400000000) = 14400000000" "page_width demo_pages demo_snapshot = 2"
    by (simp_all add: demo_feed_def at_time_def page_width_def demo_pages_def)
  have "scan_window (at_time 14400000000) 3600000000 d (Job (demo_job ''running'' None)) = Inr (Job (demo_job ''running'' None), 0, 10800000000, False)"
    "scan_window (at_time 14400000000) 3600000000 d (Job (demo_job ''running'' (Some 10800000000))) =
       Inr (Job (demo_job ''running'' (Some 10800000000)), 10800000000, 10800000000, False)" for d
    by (simp_all add: demo_job_def)
  then show "prepare_page demo_pages (at_time 14400000000) (demo_claim None) (held_db None) = Inr (page_from 0 7200000000 None, held_db None)"
    "prepare_page demo_pages (at_time 14400000000) (demo_claim (Some 10800000000)) (held_db (Some 10800000000)) =
       Inr (page_from 10800000000 10800000000 (Some 10800000000), held_db (Some 10800000000))"
    unfolding prepare_page_def guard
    by (simp_all add: prepare_body_def held_resolve rows demo_delta held_store page_start_def page_from_def Let_def)
       (simp_all add: demo_job_def)
qed

lemma held_guard:
  "guarded_write (at_time 14400000000) (demo_claim fetch) True body (held_db fetch) =
     res_bind (body (Job (demo_job ''running'' fetch)) (held_db fetch)) (\<lambda>(x, db). Inr (x, store_lease (cleared (held_lease 90000000000)) db))"
proof -
  have "active_target (Job (demo_job ''running'' fetch))" "row_next_fetch (Job (demo_job ''running'' fetch)) = fetch"
    "owned (held_lease 90000000000) (demo_claim fetch) (env_now (at_time 14400000000))"
    using held_owned [of fetch] by (simp_all add: demo_job_def active_jobs_def at_time_def)
  then show ?thesis by (simp add: guarded_write_def held_find held_target del: active_target.simps)
qed

lemma demo_recheck: "recheck demo_pages (held_db fetch) (page_from a b fetch) = Inr ()"
  by (simp add: recheck_def page_from_def held_resolve raise_if_def)

lemma demo_saved: "\<exists>db2. save_page demo_pages (at_time 14400000000) (page_from 0 7200000000 None) [demo_point\<lparr>cp_final := False\<rparr>] (held_db None) = Inr ((), db2)"
proof -
  have "final_points (page_from 0 7200000000 None) [demo_point\<lparr>cp_final := False\<rparr>] = Inr []"
    by (simp add: final_points_def point_step_def page_from_def demo_point_def)
  moreover have "restore_report f t (JObj []) = Inr (new_report f t)" for f t
    by (simp add: restore_report_def counter_of_def time_of_def json_get_def samples_of_def new_report_def)
  then have "\<exists>t'. saved_target (at_time 14400000000) (page_from 0 7200000000 None) [demo_point\<lparr>cp_final := False\<rparr>] [] 0 0
      (Job (demo_job ''running'' None)) = Inr t'"
    by (simp add: demo_job_def Let_def)
  moreover have "pp_claim (page_from 0 7200000000 None) = demo_claim None" by (simp add: page_from_def)
  ultimately show ?thesis
    by (auto simp: save_page_def held_guard save_body_def demo_recheck store_accepted_def simp del: saved_target.simps)
qed



subsection \<open>The whole system\<close>

lemma free_claim: "\<exists>cl db1. claim_work (at_time 14400000000) 90 False demo_work 8 free_db = Inr (Some cl, db1)"
proof -
  have "find_target (ensure_lease demo_feed free_db) demo_work = Some (Job (demo_job ''queued'' None))" using free_target by simp
  moreover have "find_lease (ensure_lease demo_feed free_db) demo_feed = Some (new_lease demo_feed)"
    using find_lease_ensure [of demo_feed free_db] by (simp add: find_lease_def market_db_of_def)
  moreover have "active_target (Job (demo_job ''queued'' None))" "\<not> env_now (at_time 14400000000) < row_next_run (Job (demo_job ''queued'' None))"
    by (simp_all add: market_demo active_jobs_def)
  moreover have "ml_token (new_lease demo_feed) = None" by (simp add: new_lease_def)
  ultimately show ?thesis
    by (simp add: claim_work_def Let_def split_beta del: active_target.simps row_next_run.simps)
qed

theorem market_data_stays_consistent_witness:
  "\<exists>db'. (market_step demo_pages demo_commands)\<^sup>*\<^sup>* free_db db' \<and> db' \<noteq> free_db \<and> leases_ok db' \<and> candles_ok db'"
proof -
  obtain cl db1 where claim: "claim_work (at_time 14400000000) 90 False demo_work 8 free_db = Inr (Some cl, db1)" using free_claim by blast
  then have steps: "(market_step demo_pages demo_commands)\<^sup>*\<^sup>* free_db db1" by (intro r_into_rtranclp Claimed)
  moreover have "db1 \<noteq> free_db" using claim_granted(5) [OF claim] by (auto simp: find_lease_def market_db_of_def)
  ultimately show ?thesis using market_data_stays_consistent [OF free_ok steps] by blast
qed

theorem superseded_claims_never_write_witness:
  "\<exists>cl db1. claim_work (at_time 14400000000) 90 False demo_work 8 free_db = Inr (Some cl, db1)
     \<and> heartbeat (at_time 14400000000) 90 (demo_claim None) db1 = (False, db1)"
proof -
  obtain cl db1 where claim: "claim_work (at_time 14400000000) 90 False demo_work 8 free_db = Inr (Some cl, db1)" using free_claim by blast
  have "leases_ok free_db" "lc_token (demo_claim None) < ids free_db"
    using free_ok by (simp_all add: market_ok_def demo_claim_def market_db_of_def demo_db_def)
  have "heartbeat (at_time 14400000000) 90 (demo_claim None) db1 = (False, db1)"
    by (rule superseded_claims_never_write [OF \<open>leases_ok free_db\<close> \<open>lc_token (demo_claim None) < ids free_db\<close> claim _
      rtranclp.rtrancl_refl [of "market_step demo_pages demo_commands" db1], THEN conjunct2, THEN conjunct1]) simp
  then show ?thesis using claim by blast
qed

lemma free_restarted: "\<exists>db'. update_subscriptions demo_commands (at_time 14400000000) 1 1 True (Some ''1h'') free_db = Inr db'"
proof -
  have "check_collection_access demo_urlparse (\<lambda>_. Some [''token'' \<mapsto> ''t'']) demo_access 1 1 = Inr ()"
    by code_simp
  moreover have "instrument_is_readable demo_access 1 1" by code_simp
  ultimately show ?thesis
    by (simp add: update_subscriptions_def require_workspace_def require_instrument_access_def check_access_def demo_commands_def
        market_db_of_def raise_if_def supported_timeframes_def) (simp add: demo_access_def)
qed

definition blocked_work :: work_ref where
  "blocked_work = \<lparr>wr_feed = wf_feed demo_subscription, wr_kind = Polling, wr_id = 6\<rparr>"

theorem blocked_subscriptions_stay_blocked_witness:
  "\<exists>db'. update_subscriptions demo_commands (at_time 14400000000) 1 1 True (Some ''1h'') free_db = Inr db'
     \<and> (\<forall>s \<in> set (md_subscriptions db'). wf_id s \<noteq> 6 \<or> sb_blocked s = Some ''rate_limited'')
     \<and> (\<forall>cl db2. claim_work (at_time 18000000000) 90000000 False blocked_work 1 db' \<noteq> Inr (Some cl, db2))"
proof -
  obtain db' where db': "update_subscriptions demo_commands (at_time 14400000000) 1 1 True (Some ''1h'') free_db = Inr db'"
    using free_restarted by blast
  then have steps: "(market_step demo_pages demo_commands)\<^sup>*\<^sup>* free_db db'" by (intro r_into_rtranclp Subscribed)
  have row: "rows_ok free_db" "demo_subscription \<in> set (md_subscriptions free_db)" "sb_blocked demo_subscription = Some ''rate_limited''"
    using free_ok by (simp_all add: market_db_of_def demo_subscription_def market_ok_def)
  have work: "wr_kind blocked_work = Polling" "wr_id blocked_work = wf_id demo_subscription" "wf_id demo_subscription = 6"
    by (simp_all add: blocked_work_def demo_subscription_def)
  note stays = blocked_subscriptions_stay_blocked [OF row steps work(1,2)]
  have "\<forall>s \<in> set (md_subscriptions db'). wf_id s \<noteq> 6 \<or> sb_blocked s = Some ''rate_limited''"
    using stays [THEN conjunct2, THEN conjunct1] work(3) by auto
  moreover have "claim_work (at_time 18000000000) 90000000 False blocked_work 1 db' \<noteq> Inr (Some cl, db2)" for cl db2
    using stays by blast
  ultimately show ?thesis using db' by blast
qed

theorem gaps_are_the_missing_candles_witness:
  "\<exists>gaps. find_internal_gaps (\<lambda>t. t) [0, 3600000000, 14400000000] ''1h'' ''binance'' = Inr gaps
     \<and> (\<exists>g \<in> set gaps. 7200000000 \<in> window_times 3600000000 g)"
proof -
  obtain gaps where gaps: "find_internal_gaps (\<lambda>t. t) [0, 3600000000, 14400000000] ''1h'' ''binance'' = Inr gaps"
    using gaps_answer [OF demo_delta] by blast
  then show ?thesis
    using gaps_are_the_missing_candles [OF gaps demo_delta, of 7200000000] by (simp add: is_expected_market_time_def)
qed

end
