(* ===== verification/Access_Control.thy ===== *)
theory Access_Control
  imports Market_Access
begin

text \<open>
  Who may do what: signing in (\<open>callback\<close> of \<open>app/api/routes/auth.py\<close>, after the identity provider has
  answered), sessions and their revocation (\<open>app/security/session.py\<close>), roles (\<open>app/security/rbac.py\<close>),
  the creation of a workspace (\<open>app/api/routes/workspaces.py\<close>), and the one-time tickets of a market
  stream (\<open>stream_tickets.py\<close>). The library that signs tokens is a parameter.
\<close>

subsection \<open>Rows\<close>

record app_user =
  au_id :: uuid
  au_email :: string
  au_display_name :: string
  au_status :: string
  au_subject :: "string option"

record user_membership =
  um_workspace :: uuid
  um_user :: uuid
  um_role :: string

record session_revocation =
  sv_user :: uuid
  sv_before :: datetime
  sv_by :: uuid

record account_db =
  ac_next_id :: uuid
  ac_users :: "app_user list"
  ac_memberships :: "user_membership list"
  ac_revocations :: "session_revocation list"
  ac_workspaces :: "(uuid \<times> string) list" \<comment> \<open>id and name\<close>

type_synonym http_error = "nat \<times> string"

subsection \<open>Session tokens\<close>

definition second_ticks :: int where
  "second_ticks = 1000000"

definition whole_second :: "datetime \<Rightarrow> datetime" where
  \<comment> \<open>\<open>replace(microsecond=0)\<close>\<close>
  "whole_second t = t - t mod second_ticks"

record session_payload =
  \<comment> \<open>what the keys of a signed payload read as: a missing or unreadable one is None; times in seconds\<close>
  sp_sub :: "uuid option"
  sp_iat :: "int option"
  sp_exp :: "int option"

datatype jwt_error = Expired_signature | Invalid_token

record ('p, 't) jwt_library =
  jw_encode :: "string \<Rightarrow> 'p \<Rightarrow> 't"
  jw_decode :: "datetime \<Rightarrow> string \<Rightarrow> 't \<Rightarrow> (jwt_error, 'p) result"

definition jwt_ok :: "('p \<Rightarrow> int option) \<Rightarrow> ('p \<Rightarrow> int option) \<Rightarrow> ('p, 't) jwt_library \<Rightarrow> bool" where
  \<comment> \<open>documented: a token signed with the same secret decodes to its payload from \<open>iat\<close> until \<open>exp\<close>\<close>
  "jwt_ok iat_of exp_of jwt \<longleftrightarrow> (\<forall>secret p now iat expiry. iat_of p = Some iat \<and> exp_of p = Some expiry \<and> iat * second_ticks \<le> now \<longrightarrow>
     jw_decode jwt now secret (jw_encode jwt secret p) = (if expiry * second_ticks \<le> now then Inl Expired_signature else Inr p))"

definition issue_session_token :: "(session_payload, 't) jwt_library \<Rightarrow> datetime \<Rightarrow> uuid \<Rightarrow> string \<Rightarrow> int \<Rightarrow> 't \<times> datetime" where
  "issue_session_token jwt clock user secret ttl_seconds =
     (let now = whole_second clock;
          expires_at = now + ttl_seconds * second_ticks
      in (jw_encode jwt secret \<lparr>sp_sub = Some user, sp_iat = Some (now div second_ticks), sp_exp = Some (expires_at div second_ticks)\<rparr>,
          expires_at))"

record session_claims =
  sc_user :: uuid
  sc_issued_at :: datetime

definition verify_session_token :: "(session_payload, 't) jwt_library \<Rightarrow> datetime \<Rightarrow> string \<Rightarrow> 't \<Rightarrow> (string, session_claims) result" where
  "verify_session_token jwt clock secret token =
     (case jw_decode jwt clock secret token of
        Inl Expired_signature \<Rightarrow> Inl ''session_expired''
      | Inl Invalid_token \<Rightarrow> Inl ''session_invalid''
      | Inr p \<Rightarrow> (case (sp_sub p, sp_iat p) of
          (Some user, Some iat) \<Rightarrow> Inr \<lparr>sc_user = user, sc_issued_at = iat * second_ticks\<rparr>
        | _ \<Rightarrow> Inl ''session_invalid''))"

definition find_revocation :: "account_db \<Rightarrow> uuid \<Rightarrow> session_revocation option" where
  "find_revocation db user = find (\<lambda>r. sv_user r = user) (ac_revocations db)"

definition revoke_sessions :: "datetime \<Rightarrow> uuid \<Rightarrow> uuid \<Rightarrow> account_db \<Rightarrow> account_db" where
  "revoke_sessions clock user by db =
     (let now = whole_second clock
      in case find_revocation db user of
        None \<Rightarrow> db\<lparr>ac_revocations := ac_revocations db @ [\<lparr>sv_user = user, sv_before = now, sv_by = by\<rparr>]\<rparr>
      | Some _ \<Rightarrow> db\<lparr>ac_revocations :=
          map (\<lambda>r. if sv_user r = user then r\<lparr>sv_before := now, sv_by := by\<rparr> else r) (ac_revocations db)\<rparr>)"

definition is_session_revoked :: "account_db \<Rightarrow> uuid \<Rightarrow> datetime \<Rightarrow> bool" where
  "is_session_revoked db user issued_at =
     (case find_revocation db user of None \<Rightarrow> False | Some r \<Rightarrow> issued_at < sv_before r)"

subsection \<open>Authentication and roles\<close>

definition find_user :: "account_db \<Rightarrow> uuid \<Rightarrow> app_user option" where
  "find_user db user = find (\<lambda>u. au_id u = user) (ac_users db)"

definition require_authenticated_user ::
  "(session_payload, 't) jwt_library \<Rightarrow> string option \<Rightarrow> datetime \<Rightarrow> 't option \<Rightarrow> account_db \<Rightarrow> (http_error, app_user) result" where
  \<comment> \<open>the secret of the settings, the clock, the cookie\<close>
  "require_authenticated_user jwt signing_secret clock session db =
     (case (session, signing_secret) of
        (Some token, Some secret) \<Rightarrow>
          (case verify_session_token jwt clock secret token of
             Inl _ \<Rightarrow> Inl (401, ''Not authenticated'')
           | Inr claims \<Rightarrow>
               (case find_user db (sc_user claims) of
                  None \<Rightarrow> Inl (401, ''Not authenticated'')
                | Some user \<Rightarrow>
                    if au_status user \<noteq> ''active'' then Inl (401, ''Not authenticated'')
                    else if is_session_revoked db (au_id user) (sc_issued_at claims) then Inl (401, ''Session revoked'')
                    else Inr user))
      | _ \<Rightarrow> Inl (401, ''Not authenticated''))"

definition role_severity :: "string \<Rightarrow> nat option" where
  "role_severity role =
     (if role = ''viewer'' then Some 1 else if role = ''operator'' then Some 2 else if role = ''owner'' then Some 3 else None)"

definition find_membership :: "account_db \<Rightarrow> uuid \<Rightarrow> uuid \<Rightarrow> user_membership option" where
  "find_membership db workspace user = find (\<lambda>m. um_workspace m = workspace \<and> um_user m = user) (ac_memberships db)"

definition require_workspace_role :: "string \<Rightarrow> uuid \<Rightarrow> account_db \<Rightarrow> app_user \<Rightarrow> (http_error, app_user) result" where
  \<comment> \<open>for the user \<open>require_authenticated_user\<close> answers; a role that is not in the table raises\<close>
  "require_workspace_role minimum_role workspace db current_user =
     (case find_membership db workspace (au_id current_user) of
        None \<Rightarrow> Inl (404, ''Workspace not found'')
      | Some membership \<Rightarrow>
          (case (role_severity (um_role membership), role_severity minimum_role) of
             (Some has, Some needs) \<Rightarrow> if has < needs then Inl (403, ''Insufficient workspace role'') else Inr current_user
           | _ \<Rightarrow> Inl (500, ''KeyError'')))"

definition owned_workspaces :: "account_db \<Rightarrow> uuid \<Rightarrow> uuid list" where
  "owned_workspaces db user = map um_workspace (filter (\<lambda>m. um_user m = user \<and> um_role m = ''owner'') (ac_memberships db))"

definition require_any_workspace_owner :: "account_db \<Rightarrow> app_user \<Rightarrow> (http_error, app_user) result" where
  "require_any_workspace_owner db current_user =
     (if owned_workspaces db (au_id current_user) = [] then Inl (403, ''Workspace owner role required'') else Inr current_user)"

subsection \<open>The routes\<close>

definition resolve_or_create_app_user :: "string \<Rightarrow> string \<Rightarrow> string \<Rightarrow> account_db \<Rightarrow> app_user \<times> account_db" where
  "resolve_or_create_app_user oidc_subject email display_name db =
     (case find (\<lambda>u. au_subject u = Some oidc_subject) (ac_users db) of
        Some user \<Rightarrow> (user, db)
      | None \<Rightarrow>
          (case find (\<lambda>u. au_email u = email) (ac_users db) of
             Some user \<Rightarrow>
               if au_status user = ''disabled'' then (user, db)
               else let user' = user\<lparr>au_subject := Some oidc_subject, au_status := ''active''\<rparr>
                    in (user', db\<lparr>ac_users := map (\<lambda>u. if au_id u = au_id user then user' else u) (ac_users db)\<rparr>)
           | None \<Rightarrow>
               let user = \<lparr>au_id = ac_next_id db, au_email = email, au_display_name = display_name,
                     au_status = ''active'', au_subject = Some oidc_subject\<rparr>
               in (user, db\<lparr>ac_next_id := ac_next_id db + 1, ac_users := ac_users db @ [user]\<rparr>)))"

definition sign_in ::
  "(session_payload, 't) jwt_library \<Rightarrow> datetime \<Rightarrow> string \<Rightarrow> int \<Rightarrow> string \<Rightarrow> string \<Rightarrow> string \<Rightarrow> account_db \<Rightarrow> (http_error, 't \<times> account_db) result" where
  \<comment> \<open>\<open>callback\<close> from the claims of the verified id token to the session cookie\<close>
  "sign_in jwt clock secret ttl_seconds oidc_subject email display_name db =
     (let (user, db1) = resolve_or_create_app_user oidc_subject email display_name db
      in if au_status user = ''disabled'' then Inl (403, ''Account is disabled'')
         else Inr (fst (issue_session_token jwt clock (au_id user) secret ttl_seconds), db1))"

definition revoke_user_sessions :: "datetime \<Rightarrow> app_user \<Rightarrow> uuid \<Rightarrow> account_db \<Rightarrow> (http_error, account_db) result" where
  "revoke_user_sessions clock current_user user db =
     res_bind (require_any_workspace_owner db current_user) (\<lambda>_.
     if find_user db user = None then Inl (404, ''User not found'')
     else if \<not> list_ex (\<lambda>m. um_user m = user \<and> um_workspace m \<in> set (owned_workspaces db (au_id current_user))) (ac_memberships db)
     then Inl (403, ''Target user is not a member of a workspace you own'')
     else Inr (revoke_sessions clock user (au_id current_user) db))"

definition revoke_own_sessions :: "datetime \<Rightarrow> app_user \<Rightarrow> account_db \<Rightarrow> account_db" where
  "revoke_own_sessions clock current_user db = revoke_sessions clock (au_id current_user) (au_id current_user) db"

definition create_workspace :: "string \<Rightarrow> app_user \<Rightarrow> account_db \<Rightarrow> uuid \<times> account_db" where
  "create_workspace name current_user db =
     (let wid = ac_next_id db
      in (wid, db\<lparr>ac_next_id := wid + 1, ac_workspaces := ac_workspaces db @ [(wid, name)],
           ac_memberships := ac_memberships db @ [\<lparr>um_workspace = wid, um_user = au_id current_user, um_role = ''owner''\<rparr>]\<rparr>))"

subsection \<open>Stream tickets\<close>

record ticket_payload =
  tp_jti :: "uuid option"
  tp_workspace :: "uuid option"
  tp_exchange :: "string option"
  tp_symbol :: "string option"
  tp_timeframe :: "string option"
  tp_iat :: "int option"
  tp_exp :: "int option"

record ticket_claims =
  tc_jti :: uuid
  tc_workspace :: uuid
  tc_exchange :: string
  tc_symbol :: string
  tc_timeframe :: string
  tc_expires_at :: datetime

definition issue_ticket ::
  "(ticket_payload, 't) jwt_library \<Rightarrow> datetime \<Rightarrow> uuid \<Rightarrow> string \<Rightarrow> uuid \<Rightarrow> string \<Rightarrow> string \<Rightarrow> string \<Rightarrow> int \<Rightarrow> 't \<times> datetime" where
  \<comment> \<open>the fresh \<open>uuid4\<close> is an argument\<close>
  "issue_ticket jwt clock jti secret workspace exchange symbol timeframe ttl_seconds =
     (let now = whole_second clock;
          expires_at = now + ttl_seconds * second_ticks
      in (jw_encode jwt secret \<lparr>tp_jti = Some jti, tp_workspace = Some workspace, tp_exchange = Some exchange, tp_symbol = Some symbol,
            tp_timeframe = Some timeframe, tp_iat = Some (now div second_ticks), tp_exp = Some (expires_at div second_ticks)\<rparr>,
          expires_at))"

type_synonym used_tickets = "(uuid \<times> datetime) list" \<comment> \<open>a dictionary in insertion order\<close>

definition purge_expired :: "datetime \<Rightarrow> used_tickets \<Rightarrow> used_tickets" where
  "purge_expired now used = filter (\<lambda>(_, expires_at). now < expires_at) used"

definition consume :: "datetime \<Rightarrow> uuid \<Rightarrow> datetime \<Rightarrow> used_tickets \<Rightarrow> bool \<times> used_tickets" where
  "consume now jti expires_at used =
     (let used1 = purge_expired now used
      in if expires_at \<le> now then (False, used1)
         else if jti \<in> fst ` set used1 then (False, used1)
         else (True, used1 @ [(jti, expires_at)]))"

definition claims_of :: "ticket_payload \<Rightarrow> ticket_claims option" where
  "claims_of p =
     (case (tp_jti p, tp_workspace p, tp_exchange p, tp_symbol p, tp_timeframe p, tp_exp p) of
        (Some jti, Some workspace, Some exchange, Some symbol, Some timeframe, Some expiry) \<Rightarrow>
          Some \<lparr>tc_jti = jti, tc_workspace = workspace, tc_exchange = exchange, tc_symbol = symbol, tc_timeframe = timeframe,
            tc_expires_at = expiry * second_ticks\<rparr>
      | _ \<Rightarrow> None)"

definition verify_and_consume_ticket ::
  "(ticket_payload, 't) jwt_library \<Rightarrow> datetime \<Rightarrow> string \<Rightarrow> 't \<Rightarrow> used_tickets \<Rightarrow> (string, ticket_claims) result \<times> used_tickets" where
  "verify_and_consume_ticket jwt now secret token used =
     (case jw_decode jwt now secret token of
        Inl Expired_signature \<Rightarrow> (Inl ''ticket_expired'', used)
      | Inl Invalid_token \<Rightarrow> (Inl ''ticket_invalid'', used)
      | Inr p \<Rightarrow>
          (case claims_of p of
             None \<Rightarrow> (Inl ''ticket_invalid'', used)
           | Some claims \<Rightarrow>
               (case consume now (tc_jti claims) (tc_expires_at claims) used of
                  (True, used1) \<Rightarrow> (Inr claims, used1)
                | (False, used1) \<Rightarrow> (Inl ''ticket_already_used'', used1))))"

subsection \<open>Steps\<close>

inductive route_step :: "(session_payload, 't) jwt_library \<Rightarrow> datetime \<times> account_db \<Rightarrow> datetime \<times> account_db \<Rightarrow> bool" for jwt where
  Ticked: "t \<le> t' \<Longrightarrow> route_step jwt (t, db) (t', db)"
| Signed_in: "sign_in jwt t secret ttl subject email name db = Inr (token, db') \<Longrightarrow> route_step jwt (t, db) (t, db')"
| Revoked_user: "revoke_user_sessions t who user db = Inr db' \<Longrightarrow> route_step jwt (t, db) (t, db')"
| Revoked_own: "route_step jwt (t, db) (t, revoke_own_sessions t who db)"
| Created: "route_step jwt (t, db) (t, snd (create_workspace name who db))"

inductive account_step :: "(session_payload, 't) jwt_library \<Rightarrow> datetime \<times> account_db \<Rightarrow> datetime \<times> account_db \<Rightarrow> bool" for jwt where
  Routed: "route_step jwt s s' \<Longrightarrow> account_step jwt s s'"
| Administered: "account_step jwt (t, db) (t, db\<lparr>ac_users := users, ac_memberships := memberships\<rparr>)"
    \<comment> \<open>rows edited outside the modelled routes\<close>

inductive ticket_step :: "datetime \<times> used_tickets \<Rightarrow> datetime \<times> used_tickets \<Rightarrow> bool" where
  Waited: "t \<le> t' \<Longrightarrow> ticket_step (t, used) (t', used)"
| Consumed: "consume t jti expires_at used = (b, used') \<Longrightarrow> ticket_step (t, used) (t, used')"

inductive_cases route_stepE: "route_step jwt s s'"
inductive_cases account_stepE: "account_step jwt s s'"
inductive_cases ticket_stepE: "ticket_step s s'"

subsection \<open>Lemmas: tokens\<close>

lemma whole_second_div: "whole_second t div second_ticks * second_ticks = whole_second t"
  by (simp add: whole_second_def minus_mod_eq_mult_div)

lemma whole_second_le: "whole_second t \<le> t" by (simp add: whole_second_def second_ticks_def)

lemma whole_second_mono: "t \<le> t' \<Longrightarrow> whole_second t \<le> whole_second t'"
  by (simp add: whole_second_def minus_mod_eq_mult_div second_ticks_def zdiv_mono1)

lemma expiry_div: "(whole_second t + ttl * second_ticks) div second_ticks * second_ticks = whole_second t + ttl * second_ticks"
proof -
  have "(whole_second t + ttl * second_ticks) mod second_ticks = 0" by (simp add: whole_second_def mod_diff_left_eq)
  then show ?thesis using minus_mod_eq_div_mult [of "whole_second t + ttl * second_ticks" second_ticks] by linarith
qed

lemma issued_token:
  assumes "jwt_ok sp_iat sp_exp jwt" "t0 \<le> now"
  shows "verify_session_token jwt now secret (fst (issue_session_token jwt t0 user secret ttl)) =
     (if whole_second t0 + ttl * second_ticks \<le> now then Inl ''session_expired''
      else Inr \<lparr>sc_user = user, sc_issued_at = whole_second t0\<rparr>)"
proof -
  let ?p = "\<lparr>sp_sub = Some user, sp_iat = Some (whole_second t0 div second_ticks),
    sp_exp = Some ((whole_second t0 + ttl * second_ticks) div second_ticks)\<rparr>"
  have "whole_second t0 div second_ticks * second_ticks \<le> now"
    using whole_second_le [of t0] assms(2) by (simp add: whole_second_div)
  then have "jw_decode jwt now secret (jw_encode jwt secret ?p) =
      (if whole_second t0 + ttl * second_ticks \<le> now then Inl Expired_signature else Inr ?p)"
    using assms(1) by (simp add: jwt_ok_def expiry_div)
  then show ?thesis by (simp add: verify_session_token_def issue_session_token_def Let_def whole_second_div)
qed

subsection \<open>Lemmas: revocations\<close>

lemma find_revocation_revoke:
  "find_revocation (revoke_sessions t user by db) v =
     (if v = user then Some \<lparr>sv_user = user, sv_before = whole_second t, sv_by = by\<rparr> else find_revocation db v)"
proof -
  have [simp]: "find (\<lambda>r. sv_user r = v) (map (\<lambda>r. if sv_user r = user then r\<lparr>sv_before := c, sv_by := by\<rparr> else r) rs) =
      (if v = user then map_option (\<lambda>r. r\<lparr>sv_before := c, sv_by := by\<rparr>) (find (\<lambda>r. sv_user r = v) rs)
       else find (\<lambda>r. sv_user r = v) rs)" for rs c
    by (induction rs) auto
  have [simp]: "find P (xs @ [x]) = (case find P xs of Some y \<Rightarrow> Some y | None \<Rightarrow> if P x then Some x else None)"
    for P and xs :: "session_revocation list" and x by (induction xs) auto
  show ?thesis
  proof (cases "find_revocation db user")
    case None
    then show ?thesis
      by (auto simp: revoke_sessions_def find_revocation_def split: option.splits)
  next
    case (Some r)
    then have "sv_user r = user" by (auto simp: find_revocation_def find_Some_iff)
    then show ?thesis using Some by (cases r) (auto simp: revoke_sessions_def find_revocation_def)
  qed
qed

lemma revoke_frame [simp]:
  "ac_users (revoke_sessions t user by db) = ac_users db" "ac_memberships (revoke_sessions t user by db) = ac_memberships db"
  "ac_next_id (revoke_sessions t user by db) = ac_next_id db"
  by (simp_all add: revoke_sessions_def Let_def split: option.split)

lemma resolve_frame [simp]:
  "ac_revocations (snd (resolve_or_create_app_user subject email name db)) = ac_revocations db"
  "ac_memberships (snd (resolve_or_create_app_user subject email name db)) = ac_memberships db"
  by (simp_all add: resolve_or_create_app_user_def Let_def split: option.split)

lemma sign_in_frame:
  "sign_in jwt t secret ttl subject email name db = Inr (token, db') \<Longrightarrow> ac_revocations db' = ac_revocations db"
  using resolve_frame(1) [of subject email name db]
  by (cases "resolve_or_create_app_user subject email name db") (auto simp: sign_in_def split: if_splits)

definition cut_off :: "uuid \<Rightarrow> datetime \<Rightarrow> datetime \<times> account_db \<Rightarrow> bool" where
  \<comment> \<open>the sessions of a user issued before a time are over\<close>
  "cut_off user c s \<longleftrightarrow> c \<le> whole_second (fst s) \<and> (\<exists>r. find_revocation (snd s) user = Some r \<and> c \<le> sv_before r)"

lemma cut_off_revoke: "cut_off user c (t, db) \<Longrightarrow> cut_off user c (t, revoke_sessions t who by db)"
  by (auto simp: cut_off_def find_revocation_revoke)

lemma cut_off_cong: "ac_revocations db' = ac_revocations db \<Longrightarrow> cut_off user c (t, db') = cut_off user c (t, db)"
  by (simp add: cut_off_def find_revocation_def)

lemma cut_off_route:
  assumes "cut_off user c s" "route_step jwt s s'"
  shows "cut_off user c s'"
  using assms(2)
proof cases
  case (Ticked t t' db)
  then show ?thesis using assms(1) whole_second_mono [of t t'] by (auto simp: cut_off_def)
next
  case (Signed_in t secret ttl subject email name db token db')
  then show ?thesis using assms(1) cut_off_cong [OF sign_in_frame [OF Signed_in(3)], of user c t] by simp
next
  case (Revoked_user t who v db db')
  then show ?thesis using assms(1) by (auto simp: revoke_user_sessions_def result_simps cut_off_revoke split: if_splits)
next
  case (Revoked_own t db who)
  then show ?thesis using assms(1) by (simp add: revoke_own_sessions_def cut_off_revoke)
next
  case (Created t db name who)
  then show ?thesis using assms(1) by (simp add: create_workspace_def Let_def cut_off_def find_revocation_def)
qed

interpretation revocations: state_machine "account_step jwt" "cut_off user c"
proof
  fix s t assume "cut_off user c s" "account_step jwt s t"
  from this(2,1) show "cut_off user c t"
    by (cases rule: account_step.cases) (auto intro: cut_off_route simp: cut_off_cong [of "db\<lparr>ac_users := us, ac_memberships := ms\<rparr>" db for db us ms])
qed

text \<open>
  C40 (safety). A revoked session stays out: a session issued in an earlier second than the one in which the user's
  sessions were revoked, by the user or by an owner, opens nothing at any later time, whatever happens
  to the accounts in between: sign-ins, further revocations, rows edited from outside.
\<close>

theorem revoked_sessions_stay_out:
  assumes "jwt_ok sp_iat sp_exp jwt" "whole_second t0 < whole_second t1"
    and "(account_step jwt)\<^sup>*\<^sup>* (t1, revoke_sessions t1 user by db) (t2, db2)"
  shows "\<exists>why. require_authenticated_user jwt (Some secret) t2
     (Some (fst (issue_session_token jwt t0 user secret ttl))) db2 = Inl (401, why)"
proof -
  have "cut_off user (whole_second t1) (t1, revoke_sessions t1 user by db)" by (simp add: cut_off_def find_revocation_revoke)
  then have cut: "cut_off user (whole_second t1) (t2, db2)" by (rule revocations.reachable_keeps [OF assms(3)])
  then have "whole_second t1 \<le> whole_second t2" by (simp add: cut_off_def)
  then have "t0 \<le> t2" using assms(2) whole_second_mono [of t2 t0] by linarith
  note token = issued_token [OF assms(1) this, of secret user ttl]
  have revoked: "is_session_revoked db2 user (whole_second t0)"
    using cut assms(2) by (auto simp: cut_off_def is_session_revoked_def)
  have "au_id u = user" if "find_user db2 user = Some u" for u using that by (auto simp: find_user_def find_Some_iff)
  then show ?thesis using revoked
    by (auto simp: require_authenticated_user_def token split: option.split)
qed

subsection \<open>Lemmas: signing in\<close>

definition accounts_ok :: "datetime \<times> account_db \<Rightarrow> bool" where
  \<comment> \<open>the unique columns, a linked account is not an invited one, no revocation is of the future\<close>
  "accounts_ok s \<longleftrightarrow>
     distinct (map au_id (ac_users (snd s))) \<and> distinct (map au_email (ac_users (snd s)))
     \<and> (\<forall>u \<in> set (ac_users (snd s)). \<forall>v \<in> set (ac_users (snd s)). au_subject u \<noteq> None \<and> au_subject u = au_subject v \<longrightarrow> u = v)
     \<and> (\<forall>u \<in> set (ac_users (snd s)). au_id u < ac_next_id (snd s) \<and> (au_subject u \<noteq> None \<longrightarrow> au_status u \<in> {''active'', ''disabled''}))
     \<and> (\<forall>r \<in> set (ac_revocations (snd s)). sv_before r \<le> whole_second (fst s))"

lemma resolve_cases:
  obtains (Known) u where "find (\<lambda>u. au_subject u = Some subject) (ac_users db) = Some u"
      "resolve_or_create_app_user subject email name db = (u, db)"
  | (Linked) u where "find (\<lambda>u. au_subject u = Some subject) (ac_users db) = None" "find (\<lambda>u. au_email u = email) (ac_users db) = Some u"
      "au_status u \<noteq> ''disabled''"
      "resolve_or_create_app_user subject email name db = (u\<lparr>au_subject := Some subject, au_status := ''active''\<rparr>,
         db\<lparr>ac_users := map (\<lambda>v. if au_id v = au_id u then u\<lparr>au_subject := Some subject, au_status := ''active''\<rparr> else v) (ac_users db)\<rparr>)"
  | (Refused) u where "find (\<lambda>u. au_subject u = Some subject) (ac_users db) = None" "find (\<lambda>u. au_email u = email) (ac_users db) = Some u"
      "au_status u = ''disabled''" "resolve_or_create_app_user subject email name db = (u, db)"
  | (Created) u where "find (\<lambda>u. au_subject u = Some subject) (ac_users db) = None" "find (\<lambda>u. au_email u = email) (ac_users db) = None"
      "u = \<lparr>au_id = ac_next_id db, au_email = email, au_display_name = name, au_status = ''active'', au_subject = Some subject\<rparr>"
      "resolve_or_create_app_user subject email name db = (u, db\<lparr>ac_next_id := ac_next_id db + 1, ac_users := ac_users db @ [u]\<rparr>)"
  unfolding resolve_or_create_app_user_def Let_def
  by (cases "find (\<lambda>u. au_subject u = Some subject) (ac_users db)"; cases "find (\<lambda>u. au_email u = email) (ac_users db)") (auto split: if_splits)

lemma find_user_unique: "distinct (map au_id (ac_users db)) \<Longrightarrow> u \<in> set (ac_users db) \<Longrightarrow> find_user db (au_id u) = Some u"
proof -
  have "distinct (map au_id us) \<Longrightarrow> u \<in> set us \<Longrightarrow> find (\<lambda>v. au_id v = au_id u) us = Some u" for us
    by (induction us) (auto simp: rev_image_eqI)
  then show "distinct (map au_id (ac_users db)) \<Longrightarrow> u \<in> set (ac_users db) \<Longrightarrow> find_user db (au_id u) = Some u"
    by (simp add: find_user_def)
qed

lemma sign_in_result:
  assumes "accounts_ok (t, db)" "sign_in jwt t secret ttl subject email name db = Inr (token, db')"
  obtains u where "find_user db' (au_id u) = Some u" "au_status u = ''active''" "au_subject u = Some subject"
    "token = fst (issue_session_token jwt t (au_id u) secret ttl)"
proof -
  let ?r = "resolve_or_create_app_user subject email name db"
  obtain u where r: "?r = (u, db')" "au_status u \<noteq> ''disabled''" "token = fst (issue_session_token jwt t (au_id u) secret ttl)"
    using assms(2) by (cases ?r) (auto simp: sign_in_def split: if_splits)
  have ids: "distinct (map au_id (ac_users db))" "\<forall>u \<in> set (ac_users db). au_id u < ac_next_id db"
    and known: "\<forall>u \<in> set (ac_users db). au_subject u \<noteq> None \<longrightarrow> au_status u \<in> {''active'', ''disabled''}"
    using assms(1) by (auto simp: accounts_ok_def)
  show thesis
  proof (cases rule: resolve_cases [of subject db email name])
    case (Known v)
    then have "v \<in> set (ac_users db)" "au_subject v = Some subject" by (auto simp: find_Some_iff)
    then show thesis using that [OF _ _ _ r(3)] r Known ids known find_user_unique by auto
  next
    case (Linked v)
    let ?v = "v\<lparr>au_subject := Some subject, au_status := ''active''\<rparr>"
    have "v \<in> set (ac_users db)" using Linked by (auto simp: find_Some_iff)
    moreover have "map au_id (map (\<lambda>w. if au_id w = au_id v then ?v else w) us) = map au_id us" for us by (induction us) auto
    ultimately have "find_user (db\<lparr>ac_users := map (\<lambda>w. if au_id w = au_id v then ?v else w) (ac_users db)\<rparr>) (au_id ?v) = Some ?v"
      using ids by (intro find_user_unique) (auto simp: rev_image_eqI simp del: map_map)
    then show thesis using that [OF _ _ _ r(3)] r Linked by auto
  next
    case (Refused v)
    then show thesis using r by simp
  next
    case (Created v)
    then have "find_user (db\<lparr>ac_next_id := ac_next_id db + 1, ac_users := ac_users db @ [v]\<rparr>) (au_id v) = Some v"
      using ids by (intro find_user_unique) auto
    then show thesis using that [OF _ _ _ r(3)] r Created by auto
  qed
qed

text \<open>
  Signing in opens a session: when a sign-in succeeds, its cookie authenticates the account linked to
  the subject the identity provider names, from that moment until the session expires.
\<close>

theorem sign_in_opens_a_session:
  assumes "jwt_ok sp_iat sp_exp jwt" "accounts_ok (t, db)" "sign_in jwt t secret ttl subject email name db = Inr (token, db')"
    and "t \<le> now" "now < whole_second t + ttl * second_ticks"
  shows "\<exists>u. require_authenticated_user jwt (Some secret) now (Some token) db' = Inr u \<and> au_subject u = Some subject \<and> au_status u = ''active''"
proof -
  obtain u where u: "find_user db' (au_id u) = Some u" "au_status u = ''active''" "au_subject u = Some subject"
      "token = fst (issue_session_token jwt t (au_id u) secret ttl)"
    using sign_in_result [OF assms(2,3)] .
  have "sv_before r \<le> whole_second t" if "find_revocation db' (au_id u) = Some r" for r
    using that assms(2) sign_in_frame [OF assms(3)] by (auto simp: accounts_ok_def find_revocation_def find_Some_iff)
  then have "\<not> is_session_revoked db' (au_id u) (whole_second t)" by (auto simp: is_session_revoked_def split: option.split)
  moreover have "verify_session_token jwt now secret token = Inr \<lparr>sc_user = au_id u, sc_issued_at = whole_second t\<rparr>"
    using issued_token [OF assms(1,4)] assms(5) u(4) by simp
  ultimately show ?thesis using u by (simp add: require_authenticated_user_def)
qed

subsection \<open>Lemmas: accounts\<close>

definition shut_out :: "app_user \<Rightarrow> datetime \<times> account_db \<Rightarrow> bool" where
  "shut_out u s \<longleftrightarrow> accounts_ok s \<and> u \<in> set (ac_users (snd s)) \<and> au_status u = ''disabled''"

lemma accounts_ok_cong:
  "ac_users db' = ac_users db \<Longrightarrow> ac_next_id db \<le> ac_next_id db' \<Longrightarrow> ac_revocations db' = ac_revocations db \<Longrightarrow>
   accounts_ok (t, db) \<Longrightarrow> accounts_ok (t, db')"
  by (fastforce simp: accounts_ok_def)

lemma accounts_ok_later: "accounts_ok (t, db) \<Longrightarrow> t \<le> t' \<Longrightarrow> accounts_ok (t', db)"
  using whole_second_mono [of t t'] by (fastforce simp: accounts_ok_def)

lemma accounts_ok_revoke: "accounts_ok (t, db) \<Longrightarrow> accounts_ok (t, revoke_sessions t user by db)"
  unfolding accounts_ok_def fst_conv snd_conv revoke_frame
  by (auto simp: revoke_sessions_def Let_def split: option.split)

lemma accounts_ok_users:
  "accounts_ok (t, db\<lparr>ac_users := us\<rparr>) \<longleftrightarrow> distinct (map au_id us) \<and> distinct (map au_email us)
     \<and> (\<forall>u \<in> set us. \<forall>v \<in> set us. au_subject u \<noteq> None \<and> au_subject u = au_subject v \<longrightarrow> u = v)
     \<and> (\<forall>u \<in> set us. au_id u < ac_next_id db \<and> (au_subject u \<noteq> None \<longrightarrow> au_status u \<in> {''active'', ''disabled''}))
     \<and> (\<forall>r \<in> set (ac_revocations db). sv_before r \<le> whole_second t)"
  by (simp add: accounts_ok_def)

lemma accounts_okD:
  assumes "accounts_ok (t, db)"
  shows "distinct (map au_id (ac_users db))" "distinct (map au_email (ac_users db))"
    "\<forall>x \<in> set (ac_users db). \<forall>y \<in> set (ac_users db). au_subject x \<noteq> None \<and> au_subject x = au_subject y \<longrightarrow> x = y"
    "\<forall>x \<in> set (ac_users db). au_id x < ac_next_id db \<and> (au_subject x \<noteq> None \<longrightarrow> au_status x \<in> {''active'', ''disabled''})"
    "\<forall>r \<in> set (ac_revocations db). sv_before r \<le> whole_second t"
  using assms unfolding accounts_ok_def fst_conv snd_conv by blast+

lemma resolve_keeps:
  assumes "accounts_ok (t, db)" "resolve_or_create_app_user subject email name db = (w, db')"
  shows "accounts_ok (t, db')"
    and "u \<in> set (ac_users db) \<Longrightarrow> au_status u = ''disabled'' \<Longrightarrow> u \<in> set (ac_users db') \<and> (w = u \<or> au_id w \<noteq> au_id u)"
proof -
  have inj: "x = y" if "x \<in> set (ac_users db)" "y \<in> set (ac_users db)" "au_id x = au_id y" for x y
    using assms(1) that by (auto simp: accounts_ok_def distinct_map inj_on_def)
  have "accounts_ok (t, db') \<and> (u \<in> set (ac_users db) \<and> au_status u = ''disabled'' \<longrightarrow> u \<in> set (ac_users db') \<and> (w = u \<or> au_id w \<noteq> au_id u))"
  proof (cases rule: resolve_cases [of subject db email name])
    case (Known v)
    then have "v \<in> set (ac_users db)" by (auto simp: find_Some_iff)
    then show ?thesis using Known assms inj by auto
  next
    case (Linked v)
    let ?v = "v\<lparr>au_subject := Some subject, au_status := ''active''\<rparr>"
    let ?us = "map (\<lambda>x. if au_id x = au_id v then ?v else x) (ac_users db)"
    have v: "v \<in> set (ac_users db)" using Linked by (auto simp: find_Some_iff)
    have db': "db' = db\<lparr>ac_users := ?us\<rparr>" "w = ?v" using Linked assms(2) by simp_all
    have us: "set ?us = insert ?v (set (ac_users db) - {v})" using v inj by (auto simp: image_iff)
    have keys: "map au_id ?us = map au_id (ac_users db)" "map au_email ?us = map au_email (ac_users db)" using v inj by auto
    have fresh: "au_subject x \<noteq> Some subject" if "x \<in> set (ac_users db)" for x using Linked(1) that by (auto simp: find_None_iff)
    note ok = accounts_okD [OF assms(1)]
    have "\<forall>x \<in> set ?us. \<forall>y \<in> set ?us. au_subject x \<noteq> None \<and> au_subject x = au_subject y \<longrightarrow> x = y"
      unfolding us using ok(3) fresh by (auto, force+)
    moreover have "\<forall>x \<in> set ?us. au_id x < ac_next_id db \<and> (au_subject x \<noteq> None \<longrightarrow> au_status x \<in> {''active'', ''disabled''})"
      unfolding us using ok(4) v by auto
    ultimately have "accounts_ok (t, db')"
      using ok(1,2,5) unfolding db' accounts_ok_users keys by blast
    moreover have "u \<in> set ?us \<and> au_id ?v \<noteq> au_id u" if "u \<in> set (ac_users db)" "au_status u = ''disabled''"
      unfolding us using that Linked(3) inj [OF v that(1)] by auto
    ultimately show ?thesis using db' by auto
  next
    case (Refused v)
    then have "v \<in> set (ac_users db)" by (auto simp: find_Some_iff)
    then show ?thesis using Refused assms inj by auto
  next
    case (Created v)
    then have db': "db' = db\<lparr>ac_next_id := ac_next_id db + 1, ac_users := ac_users db @ [v]\<rparr>" "w = v" using assms(2) by simp_all
    have fresh: "au_subject x \<noteq> Some subject" "au_email x \<noteq> email" if "x \<in> set (ac_users db)" for x
      using Created(1,2) that by (auto simp: find_None_iff)
    note ok = accounts_okD [OF assms(1)]
    have "distinct (map au_id (ac_users db @ [v]))" using ok(1,4) Created(3) by auto
    moreover have "distinct (map au_email (ac_users db @ [v]))" using ok(2) fresh(2) Created(3) by auto
    moreover have sub: "au_subject v = Some subject" using Created(3) by simp
    have "x = y" if "x \<in> set (ac_users db @ [v])" "y \<in> set (ac_users db @ [v])" "au_subject x \<noteq> None" "au_subject x = au_subject y" for x y
      using that ok(3) fresh(1) [of x] fresh(1) [of y] sub by (cases "x = v"; cases "y = v") auto
    then have "\<forall>x \<in> set (ac_users db @ [v]). \<forall>y \<in> set (ac_users db @ [v]). au_subject x \<noteq> None \<and> au_subject x = au_subject y \<longrightarrow> x = y"
      by blast
    moreover have "\<forall>x \<in> set (ac_users db @ [v]). au_id x < ac_next_id db + 1 \<and> (au_subject x \<noteq> None \<longrightarrow> au_status x \<in> {''active'', ''disabled''})"
      using ok(4) Created(3) by auto
    ultimately have "accounts_ok (t, (db\<lparr>ac_next_id := ac_next_id db + 1\<rparr>)\<lparr>ac_users := ac_users db @ [v]\<rparr>)"
      using ok(5) unfolding accounts_ok_users by simp
    then have "accounts_ok (t, db')" by (simp add: db')
    moreover have "au_id v \<noteq> au_id x" if "x \<in> set (ac_users db)" for x using assms(1) that Created(3) by (auto simp: accounts_ok_def)
    ultimately show ?thesis using db' by auto
  qed
  then show "accounts_ok (t, db')"
    and "u \<in> set (ac_users db) \<Longrightarrow> au_status u = ''disabled'' \<Longrightarrow> u \<in> set (ac_users db') \<and> (w = u \<or> au_id w \<noteq> au_id u)" by auto
qed

lemma sign_in_elim:
  assumes "sign_in jwt t secret ttl subject email name db = Inr (token, db')"
  obtains w where "resolve_or_create_app_user subject email name db = (w, db')" "au_status w \<noteq> ''disabled''"
    "token = fst (issue_session_token jwt t (au_id w) secret ttl)"
  using assms by (cases "resolve_or_create_app_user subject email name db") (auto simp: sign_in_def split: if_splits)

lemma shut_out_route:
  assumes "shut_out u s" "route_step jwt s s'"
  shows "shut_out u s'"
  using assms(2)
proof cases
  case (Ticked t t' db)
  then show ?thesis using assms(1) by (auto simp: shut_out_def intro: accounts_ok_later)
next
  case (Signed_in t secret ttl subject email name db token db')
  from Signed_in(3) obtain w where "resolve_or_create_app_user subject email name db = (w, db')" by (rule sign_in_elim)
  then show ?thesis using assms(1) Signed_in(1,2) resolve_keeps(1) resolve_keeps(2) [where u = u] by (auto simp: shut_out_def)
next
  case (Revoked_user t who v db db')
  then show ?thesis using assms(1)
    by (auto simp: shut_out_def revoke_user_sessions_def result_simps intro: accounts_ok_revoke split: if_splits)
next
  case (Revoked_own t db who)
  then show ?thesis using assms(1) by (simp add: shut_out_def revoke_own_sessions_def accounts_ok_revoke)
next
  case (Created t db name who)
  then show ?thesis using assms(1) accounts_ok_cong [of "snd (create_workspace name who db)" db t]
    by (simp add: shut_out_def create_workspace_def Let_def)
qed

interpretation disabled: state_machine "route_step jwt" "shut_out u"
  by unfold_locales (rule shut_out_route)

text \<open>
  A disabled account stays out: no sequence of sign-ins, revocations and new workspaces lets it in.
  Whatever the cookie, the authenticated user is another one, and a sign-in that succeeds opens the
  session of another one.
\<close>

theorem disabled_accounts_stay_out:
  assumes "accounts_ok (t, db)" "u \<in> set (ac_users db)" "au_status u = ''disabled''" "(route_step jwt)\<^sup>*\<^sup>* (t, db) (t2, db2)"
  shows "(\<forall>secret now session v. require_authenticated_user jwt secret now session db2 = Inr v \<longrightarrow> au_id v \<noteq> au_id u)
    \<and> (\<forall>secret ttl subject email name token db'. sign_in jwt t2 secret ttl subject email name db2 = Inr (token, db') \<longrightarrow>
         (\<exists>w. w \<noteq> au_id u \<and> token = fst (issue_session_token jwt t2 w secret ttl)))"
proof -
  have "shut_out u (t, db)" using assms(1-3) by (simp add: shut_out_def)
  then have out: "accounts_ok (t2, db2)" "u \<in> set (ac_users db2)"
    using disabled.reachable_keeps [OF assms(4), of u] by (simp_all add: shut_out_def)
  have found: "find_user db2 (au_id u) = Some u" using out by (intro find_user_unique) (simp_all add: accounts_ok_def)
  have "au_id v \<noteq> au_id u" if answered: "require_authenticated_user jwt secret now session db2 = Inr v" for secret now session v
  proof
    assume "au_id v = au_id u"
    moreover obtain user where "find_user db2 user = Some v" "au_status v = ''active''"
      using answered unfolding require_authenticated_user_def by (auto split: prod.splits option.splits sum.splits if_splits)
    moreover from this have "au_id v = user" by (auto simp: find_user_def find_Some_iff)
    ultimately show False using found assms(3) by simp
  qed
  moreover have "\<exists>w. w \<noteq> au_id u \<and> token = fst (issue_session_token jwt t2 w secret ttl)"
    if signed: "sign_in jwt t2 secret ttl subject email name db2 = Inr (token, db')" for secret ttl subject email name token db'
  proof -
    obtain w where w: "resolve_or_create_app_user subject email name db2 = (w, db')" "au_status w \<noteq> ''disabled''"
        "token = fst (issue_session_token jwt t2 (au_id w) secret ttl)"
      using signed by (rule sign_in_elim)
    then have "au_id w \<noteq> au_id u" using resolve_keeps(2) [OF out(1) w(1) out(2) assms(3)] assms(3) by auto
    then show ?thesis using w(3) by blast
  qed
  ultimately show ?thesis by blast
qed

subsection \<open>Lemmas: tickets\<close>

definition spent :: "uuid \<Rightarrow> datetime \<Rightarrow> datetime \<times> used_tickets \<Rightarrow> bool" where
  "spent jti expires_at s \<longleftrightarrow> expires_at \<le> fst s \<or> (jti, expires_at) \<in> set (snd s)"

lemma consume_refuses: "spent jti e (t, used) \<Longrightarrow> fst (consume t jti e used) = False"
  by (force simp: spent_def consume_def purge_expired_def Let_def)

lemma consume_keeps: "spent jti e (t, used) \<Longrightarrow> consume t j x used = (b, used') \<Longrightarrow> spent jti e (t, used')"
  by (force simp: spent_def consume_def purge_expired_def Let_def split: if_splits)

lemma consume_spends: "consume t jti e used = (True, used') \<Longrightarrow> spent jti e (t, used')"
  by (auto simp: spent_def consume_def Let_def split: if_splits)

interpretation tickets: state_machine ticket_step "spent jti e"
proof
  fix s t assume "spent jti e s" "ticket_step s t"
  from this(2,1) show "spent jti e t"
    by cases (auto simp: consume_keeps, auto simp: spent_def)
qed

lemma issued_ticket:
  assumes "jwt_ok tp_iat tp_exp jwt" "t0 \<le> now"
  shows "verify_and_consume_ticket jwt now secret (fst (issue_ticket jwt t0 jti secret workspace exchange symbol timeframe ttl)) used =
     (if whole_second t0 + ttl * second_ticks \<le> now then (Inl ''ticket_expired'', used)
      else case consume now jti (whole_second t0 + ttl * second_ticks) used of
        (True, used1) \<Rightarrow> (Inr \<lparr>tc_jti = jti, tc_workspace = workspace, tc_exchange = exchange, tc_symbol = symbol,
           tc_timeframe = timeframe, tc_expires_at = whole_second t0 + ttl * second_ticks\<rparr>, used1)
      | (False, used1) \<Rightarrow> (Inl ''ticket_already_used'', used1))"
proof -
  let ?p = "\<lparr>tp_jti = Some jti, tp_workspace = Some workspace, tp_exchange = Some exchange, tp_symbol = Some symbol,
    tp_timeframe = Some timeframe, tp_iat = Some (whole_second t0 div second_ticks),
    tp_exp = Some ((whole_second t0 + ttl * second_ticks) div second_ticks)\<rparr>"
  have "whole_second t0 div second_ticks * second_ticks \<le> now"
    using whole_second_le [of t0] assms(2) by (simp add: whole_second_div)
  then have "jw_decode jwt now secret (jw_encode jwt secret ?p) =
      (if whole_second t0 + ttl * second_ticks \<le> now then Inl Expired_signature else Inr ?p)"
    using assms(1) by (simp add: jwt_ok_def expiry_div)
  then show ?thesis by (simp add: verify_and_consume_ticket_def issue_ticket_def Let_def claims_of_def expiry_div split: prod.split bool.split)
qed

text \<open>
  A stream ticket opens one stream: a ticket that has not expired and whose id was not used yet is
  accepted with the claims it was issued for, and from then on it is refused, whatever other tickets
  are redeemed and however long the process runs: its id is forgotten only when the ticket itself has
  expired.
\<close>

theorem tickets_open_one_stream:
  assumes "jwt_ok tp_iat tp_exp jwt" "t0 \<le> t1" "t1 < whole_second t0 + ttl * second_ticks" "jti \<notin> fst ` set used"
    and "ticket = fst (issue_ticket jwt t0 jti secret workspace exchange symbol timeframe ttl)"
  shows "\<exists>claims used1. verify_and_consume_ticket jwt t1 secret ticket used = (Inr claims, used1)
     \<and> tc_workspace claims = workspace \<and> tc_exchange claims = exchange \<and> tc_symbol claims = symbol \<and> tc_timeframe claims = timeframe
     \<and> (\<forall>t2 used2. ticket_step\<^sup>*\<^sup>* (t1, used1) (t2, used2) \<longrightarrow>
         (\<exists>code. fst (verify_and_consume_ticket jwt t2 secret ticket used2) = Inl code))"
proof -
  let ?e = "whole_second t0 + ttl * second_ticks"
  have "jti \<notin> fst ` set (purge_expired t1 used)" using assms(4) by (auto simp: purge_expired_def)
  then obtain used1 where used1: "consume t1 jti ?e used = (True, used1)"
    using assms(3) by (auto simp: consume_def Let_def)
  have "t1 \<le> t2" if "ticket_step\<^sup>*\<^sup>* (t1, used1) (t2, used2)" for t2 used2
  proof -
    have "ticket_step\<^sup>*\<^sup>* s s' \<Longrightarrow> fst s \<le> fst s'" for s s'
      by (induction rule: rtranclp_induct) (auto elim!: ticket_stepE)
    then show ?thesis using that by fastforce
  qed
  moreover have "fst (consume t2 jti ?e used2) = False" if "ticket_step\<^sup>*\<^sup>* (t1, used1) (t2, used2)" for t2 used2
    using consume_refuses [OF tickets.reachable_keeps [OF that consume_spends [OF used1]]] .
  ultimately have "\<exists>code. fst (verify_and_consume_ticket jwt t2 secret ticket used2) = Inl code"
    if "ticket_step\<^sup>*\<^sup>* (t1, used1) (t2, used2)" for t2 used2
    using that issued_ticket [OF assms(1), of t0 t2 secret jti workspace exchange symbol timeframe ttl used2] assms(2)
    by (fastforce simp: assms(5) split: prod.split bool.split)
  then show ?thesis
    using issued_ticket [OF assms(1,2), of secret jti workspace exchange symbol timeframe ttl used] assms(3) used1 by (auto simp: assms(5))
qed

end
