(* ===== verification/Notifications.thy ===== *)
theory Notifications
  imports Trading_Halts Access_Control "HOL-Library.List_Lexorder" "HOL-Library.Char_ord"
begin

text \<open>
  Telling people what happened, \<open>app/notifications\<close>: the rows of the outbox are claimed in batches and each
  is delivered to the owners and operators of its workspace over the configured channels, with retries
  and a last announcement (\<open>deliver_notifications.py\<close>, \<open>recipients.py\<close>); a person acknowledges what is
  shown in the application (\<open>api/routes/notifications.py\<close>). What an adapter answers is a parameter. An
  email is an effect outside the database: the model keeps the log of the messages handed over, which
  a rollback does not undo.
\<close>

subsection \<open>Rows\<close>

datatype recipient = User_ref uuid | Address string \<comment> \<open>\<open>recipient_ref\<close>: the text of an id, or an address\<close>

type_synonym channel = string

record notification =
  nt_id :: uuid
  nt_workspace :: uuid
  nt_event :: uuid
  nt_channel :: channel
  nt_recipient :: recipient
  nt_status :: string
  nt_attempts :: nat
  nt_sent_at :: "datetime option"
  nt_acknowledged_at :: "datetime option"
  nt_acknowledged_by :: "uuid option"

record notify_db =
  nd_trading :: trading_db
  nd_accounts :: account_db
  nd_notifications :: "notification list"

definition notify_fresh_id :: "notify_db \<Rightarrow> uuid \<times> notify_db" where
  "notify_fresh_id db = (let (n, t) = fresh_id (nd_trading db) in (n, db\<lparr>nd_trading := t\<rparr>))"

definition store_outbox :: "outbox_event \<Rightarrow> notify_db \<Rightarrow> notify_db" where
  "store_outbox e db = db\<lparr>nd_trading := (nd_trading db)\<lparr>db_outbox :=
     map (\<lambda>x. if ob_id x = ob_id e then e else x) (db_outbox (nd_trading db))\<rparr>\<rparr>"

definition store_notification :: "notification \<Rightarrow> notify_db \<Rightarrow> notify_db" where
  "store_notification n db = db\<lparr>nd_notifications := map (\<lambda>x. if nt_id x = nt_id n then n else x) (nd_notifications db)\<rparr>"

subsection \<open>Recipients and channels\<close>

definition notified_roles :: "string list" where
  "notified_roles = [''owner'', ''operator'']"

definition workspace_member_recipients :: "notify_db \<Rightarrow> system_event \<Rightarrow> (channel \<times> recipient) list" where
  "workspace_member_recipients db e =
     concat (map (\<lambda>u. [(''in_app'', User_ref (au_id u)), (''email'', Address (au_email u))])
       (sort_key au_email (concat (map (\<lambda>u. map (\<lambda>_. u)
            (filter (\<lambda>m. um_user m = au_id u \<and> um_workspace m = se_workspace e \<and> um_role m \<in> set notified_roles)
              (ac_memberships (nd_accounts db))))
          (filter (\<lambda>u. au_status u = ''active'') (ac_users (nd_accounts db)))))))"

datatype delivery = Handed_over | Not_delivered | Send_raised string
  \<comment> \<open>\<open>Not_delivered\<close>: an \<open>OSError\<close> or \<open>SMTPException\<close>; any other exception is not caught\<close>

type_synonym adapter = "recipient \<Rightarrow> system_event \<Rightarrow> delivery"

definition build_adapters :: "adapter option \<Rightarrow> channel \<rightharpoonup> adapter" where
  \<comment> \<open>the adapter of the mail server, when one is configured\<close>
  "build_adapters smtp = (\<lambda>channel.
     if channel = ''in_app'' then Some (\<lambda>_ _. Handed_over) else if channel = ''email'' then smtp else None)"

subsection \<open>Delivery\<close>

definition batch_size :: nat where "batch_size = 50"
definition max_attempts :: nat where "max_attempts = 5"
definition backoff_base_seconds :: int where "backoff_base_seconds = 30"
definition give_up_event_type :: string where "give_up_event_type = ''notification_delivery_failed''"

type_synonym handed_over = "(uuid \<times> channel \<times> recipient) list" \<comment> \<open>the event, in the order of the messages\<close>

definition claim_pending_outbox_events :: "tx_env \<Rightarrow> (uuid \<Rightarrow> bool) \<Rightarrow> notify_db \<Rightarrow> outbox_event list" where
  \<comment> \<open>without the rows another worker has locked\<close>
  "claim_pending_outbox_events env locked db =
     take batch_size (sort_key ob_available_at (filter (\<lambda>e. ob_status e = ''pending'' \<and> ob_available_at e \<le> env_now env \<and> \<not> locked (ob_id e))
       (db_outbox (nd_trading db))))"

definition find_notification :: "notify_db \<Rightarrow> uuid \<Rightarrow> channel \<Rightarrow> recipient \<Rightarrow> notification option" where
  "find_notification db event channel r =
     find (\<lambda>n. nt_event n = event \<and> nt_channel n = channel \<and> nt_recipient n = r) (nd_notifications db)"

definition received :: "notification \<Rightarrow> bool" where
  "received n \<longleftrightarrow> nt_status n \<in> {''sent'', ''acknowledged''}"

definition ensure_notification :: "system_event \<Rightarrow> channel \<Rightarrow> recipient \<Rightarrow> notify_db \<Rightarrow> notification \<times> notify_db" where
  "ensure_notification s channel r db =
     (case find_notification db (se_id s) channel r of
        Some n \<Rightarrow> (n, db)
      | None \<Rightarrow>
          let (nid, db1) = notify_fresh_id db;
              n = \<lparr>nt_id = nid, nt_workspace = se_workspace s, nt_event = se_id s, nt_channel = channel, nt_recipient = r,
                nt_status = ''queued'', nt_attempts = 0, nt_sent_at = None, nt_acknowledged_at = None, nt_acknowledged_by = None\<rparr>
          in (n, db1\<lparr>nd_notifications := nd_notifications db1 @ [n]\<rparr>))"

definition deliver_to ::
  "tx_env \<Rightarrow> (channel \<rightharpoonup> adapter) \<Rightarrow> system_event \<Rightarrow> bool \<times> handed_over \<times> notify_db \<Rightarrow> channel \<times> recipient \<Rightarrow>
     (handed_over \<times> string, bool \<times> handed_over \<times> notify_db) result" where
  \<comment> \<open>one recipient; whether a delivery failed so far, the log, the database\<close>
  "deliver_to env adapters s = (\<lambda>(any_failed, out, db) (channel, r).
     case adapters channel of
       None \<Rightarrow> Inr (any_failed, out, db)
     | Some send \<Rightarrow>
         if (case find_notification db (se_id s) channel r of Some n \<Rightarrow> received n | None \<Rightarrow> False) then Inr (any_failed, out, db)
         else let (n, db1) = ensure_notification s channel r db
           in (case send r s of
                Handed_over \<Rightarrow> Inr (any_failed, out @ [(se_id s, channel, r)],
                  store_notification (n\<lparr>nt_status := ''sent'', nt_sent_at := Some (env_now env)\<rparr>) db1)
              | Not_delivered \<Rightarrow> Inr (True, out, store_notification (n\<lparr>nt_status := ''failed'', nt_attempts := nt_attempts n + 1\<rparr>) db1)
              | Send_raised e \<Rightarrow> Inl (out, e)))"

definition failed_channels :: "uuid \<Rightarrow> notify_db \<Rightarrow> channel list" where
  "failed_channels event db =
     sort (remdups (map nt_channel (filter (\<lambda>n. nt_event n = event \<and> nt_status n = ''failed'') (nd_notifications db))))"

definition announce_give_up :: "tx_env \<Rightarrow> outbox_event \<Rightarrow> system_event \<Rightarrow> notify_db \<Rightarrow> notify_db" where
  "announce_give_up env e s db =
     (if ob_event_type e = give_up_event_type then db
      else let channels = failed_channels (se_id s) db
        in db\<lparr>nd_trading := snd (publish_system_event env (se_workspace s) ''error'' ''notification'' give_up_event_type
             (Some ''delivery_failed'') (se_message s @ channels)
             [(''original_event_type'', D_text (se_event_type s)), (''original_event_id'', D_id (se_id s)),
              (''failed_channels'', D_list (map D_text channels)), (''attempts'', D_int (int (ob_attempts e)))]
             ''outbox_event'' (ob_id e) ''notification_worker'' None None None None (nd_trading db))\<rparr>)"

definition settle :: "tx_env \<Rightarrow> outbox_event \<Rightarrow> system_event \<Rightarrow> bool \<Rightarrow> notify_db \<Rightarrow> notify_db" where
  \<comment> \<open>after the recipients: published, parked until its backoff is over, or given up\<close>
  "settle env e s any_failed db =
     (if \<not> any_failed then store_outbox (e\<lparr>ob_status := ''published'', ob_published_at := Some (env_now env)\<rparr>) db
      else let e1 = e\<lparr>ob_attempts := ob_attempts e + 1\<rparr>
        in if max_attempts \<le> ob_attempts e1 then announce_give_up env e1 s (store_outbox (e1\<lparr>ob_status := ''failed''\<rparr>) db)
           else store_outbox (e1\<lparr>ob_available_at := env_now env + seconds (backoff_base_seconds * 2 ^ ob_attempts e1)\<rparr>) db)"

definition system_event_of :: "notify_db \<Rightarrow> outbox_event \<Rightarrow> system_event option" where
  "system_event_of db e = find (\<lambda>s. se_correlation s = ob_correlation e) (db_events (nd_trading db))"

definition deliver_event ::
  "tx_env \<Rightarrow> (channel \<rightharpoonup> adapter) \<Rightarrow> (notify_db \<Rightarrow> system_event \<Rightarrow> (channel \<times> recipient) list) \<Rightarrow>
     nat \<times> handed_over \<times> notify_db \<Rightarrow> outbox_event \<Rightarrow> (handed_over \<times> string, nat \<times> handed_over \<times> notify_db) result" where
  "deliver_event env adapters recipient_resolver = (\<lambda>(processed, out, db) e.
     case system_event_of db e of
       None \<Rightarrow> Inr (processed, out, store_outbox (e\<lparr>ob_status := ''failed'', ob_attempts := ob_attempts e + 1\<rparr>) db)
     | Some s \<Rightarrow>
         res_bind (run_steps (deliver_to env adapters s) (False, out, db) (recipient_resolver db s)) (\<lambda>(any_failed, out1, db1).
         Inr (processed + 1, out1, settle env e s any_failed db1)))"

definition deliver_pending_notifications ::
  "tx_env \<Rightarrow> (channel \<rightharpoonup> adapter) \<Rightarrow> (notify_db \<Rightarrow> system_event \<Rightarrow> (channel \<times> recipient) list) \<Rightarrow> (uuid \<Rightarrow> bool) \<Rightarrow> notify_db \<Rightarrow>
     handed_over \<times> (string, nat \<times> notify_db) result" where
  \<comment> \<open>what was handed over, and the committed database; an exception rolls back and leaves the log\<close>
  "deliver_pending_notifications env adapters recipient_resolver locked db =
     (case run_steps (deliver_event env adapters recipient_resolver) (0, [], db) (claim_pending_outbox_events env locked db) of
        Inl (out, e) \<Rightarrow> (out, Inl e)
      | Inr (processed, out, db') \<Rightarrow> (out, Inr (processed, db')))"

subsection \<open>Acknowledging\<close>

definition own_notification :: "uuid \<Rightarrow> uuid \<Rightarrow> notification \<Rightarrow> bool" where
  "own_notification workspace user n \<longleftrightarrow>
     nt_workspace n = workspace \<and> nt_channel n = ''in_app'' \<and> nt_recipient n = User_ref user \<and> received n"

definition acknowledged :: "tx_env \<Rightarrow> uuid \<Rightarrow> notification \<Rightarrow> notification" where
  "acknowledged env user n = n\<lparr>nt_status := ''acknowledged'', nt_acknowledged_at := Some (env_now env), nt_acknowledged_by := Some user\<rparr>"

definition acknowledge_all_notifications :: "tx_env \<Rightarrow> uuid \<Rightarrow> uuid \<Rightarrow> notify_db \<Rightarrow> nat \<times> notify_db" where
  "acknowledge_all_notifications env workspace user db =
     (let mine = (\<lambda>n. own_notification workspace user n \<and> nt_status n = ''sent'')
      in (length (filter mine (nd_notifications db)),
          db\<lparr>nd_notifications := map (\<lambda>n. if mine n then acknowledged env user n else n) (nd_notifications db)\<rparr>))"

definition acknowledge_notification :: "tx_env \<Rightarrow> uuid \<Rightarrow> uuid \<Rightarrow> uuid \<Rightarrow> notify_db \<Rightarrow> (http_error, notification \<times> notify_db) result" where
  "acknowledge_notification env workspace user notification_id db =
     (case find (\<lambda>n. nt_id n = notification_id \<and> own_notification workspace user n
          \<and> nt_event n \<in> se_id ` set (db_events (nd_trading db))) (nd_notifications db) of
        None \<Rightarrow> Inl (404, ''Notification not found'')
      | Some n \<Rightarrow>
          if nt_status n \<noteq> ''acknowledged'' then Inr (acknowledged env user n, store_notification (acknowledged env user n) db)
          else Inr (n, db))"

subsection \<open>Lemmas: what a delivery leaves alone\<close>

definition rest_alone :: "notify_db \<Rightarrow> notify_db \<Rightarrow> bool" where
  \<comment> \<open>only notifications change\<close>
  "rest_alone db db' \<longleftrightarrow> nd_accounts db' = nd_accounts db \<and> db_outbox (nd_trading db') = db_outbox (nd_trading db)
     \<and> db_events (nd_trading db') = db_events (nd_trading db) \<and> db_next_id (nd_trading db) \<le> db_next_id (nd_trading db')"

lemma rest_alone_refl: "rest_alone db db" by (simp add: rest_alone_def)

lemma rest_alone_trans: "rest_alone a b \<Longrightarrow> rest_alone b c \<Longrightarrow> rest_alone a c"
  unfolding rest_alone_def by (elim conjE) (intro conjI; simp)

lemma store_notification_alone: "rest_alone db (store_notification n db)"
  by (simp add: rest_alone_def store_notification_def)

lemma ensure_alone: "ensure_notification s c r db = (n, db1) \<Longrightarrow> rest_alone db db1"
  by (auto simp: ensure_notification_def rest_alone_def notify_fresh_id_def fresh_id_def Let_def split: option.splits)

lemma deliver_to_cases:
  assumes "deliver_to env adapters s (f, out, db) (c, r) = Inr (f', out', db')"
  obtains (Skipped) "adapters c = None \<or> (\<exists>n. find_notification db (se_id s) c r = Some n \<and> received n)" "(f', out', db') = (f, out, db)"
  | (Sent) send n db1 where "adapters c = Some send" "send r s = Handed_over" "ensure_notification s c r db = (n, db1)"
      "\<And>n. find_notification db (se_id s) c r = Some n \<Longrightarrow> \<not> received n" "f' = f" "out' = out @ [(se_id s, c, r)]"
      "db' = store_notification (n\<lparr>nt_status := ''sent'', nt_sent_at := Some (env_now env)\<rparr>) db1"
  | (Missed) send n db1 where "adapters c = Some send" "send r s = Not_delivered" "ensure_notification s c r db = (n, db1)"
      "\<And>n. find_notification db (se_id s) c r = Some n \<Longrightarrow> \<not> received n" "f'" "out' = out"
      "db' = store_notification (n\<lparr>nt_status := ''failed'', nt_attempts := nt_attempts n + 1\<rparr>) db1"
proof (cases "adapters c")
  case None
  then show thesis using assms Skipped by (simp add: deliver_to_def)
next
  case (Some send)
  show thesis
  proof (cases "case find_notification db (se_id s) c r of Some n \<Rightarrow> received n | None \<Rightarrow> False")
    case True
    then show thesis using assms Skipped Some by (auto simp: deliver_to_def split: option.splits)
  next
    case False
    then have new: "\<And>n. find_notification db (se_id s) c r = Some n \<Longrightarrow> \<not> received n" by auto
    obtain n db1 where e: "ensure_notification s c r db = (n, db1)" by fastforce
    show thesis
    proof (cases "send r s")
      case Handed_over
      then show thesis using assms Some False e Sent [OF Some Handed_over e new] by (simp add: deliver_to_def)
    next
      case Not_delivered
      then show thesis using assms Some False e Missed [OF Some Not_delivered e new] by (simp add: deliver_to_def)
    next
      case (Send_raised x)
      then show thesis using assms Some False e by (simp add: deliver_to_def)
    qed
  qed
qed

lemma deliver_to_alone: "deliver_to env adapters s (f, out, db) x = Inr (f', out', db') \<Longrightarrow> rest_alone db db'"
proof (cases x)
  case (Pair c r)
  assume "deliver_to env adapters s (f, out, db) x = Inr (f', out', db')"
  then show ?thesis unfolding Pair
  proof (cases rule: deliver_to_cases)
    case (Sent send n db1)
    then show ?thesis using rest_alone_trans [OF ensure_alone [OF Sent(3)] store_notification_alone] by simp
  next
    case (Missed send n db1)
    then show ?thesis using rest_alone_trans [OF ensure_alone [OF Missed(3)] store_notification_alone] by simp
  qed (simp add: rest_alone_refl)
qed

interpretation alone: loop_progress "deliver_to env adapters s" "\<lambda>(_, _, db) (_, _, db'). rest_alone db db'"
  by unfold_locales (auto simp: rest_alone_refl split: prod.splits intro: rest_alone_trans deliver_to_alone)

subsection \<open>Lemmas: who was told\<close>

definition note_key :: "notification \<Rightarrow> uuid \<times> channel \<times> recipient" where
  "note_key n = (nt_event n, nt_channel n, nt_recipient n)"

definition told :: "handed_over \<times> notify_db \<Rightarrow> bool" where
  "told s \<longleftrightarrow> distinct (fst s) \<and> (\<forall>k \<in> set (fst s). \<exists>n \<in> set (nd_notifications (snd s)). note_key n = k \<and> received n)
     \<and> distinct (map note_key (nd_notifications (snd s))) \<and> distinct (map nt_id (nd_notifications (snd s)))
     \<and> (\<forall>n \<in> set (nd_notifications (snd s)). nt_id n < db_next_id (nd_trading (snd s)))"

lemma find_note:
  assumes "distinct (map note_key (nd_notifications db))"
  shows "find_notification db e c r = Some n \<longleftrightarrow> n \<in> set (nd_notifications db) \<and> note_key n = (e, c, r)"
proof -
  have "distinct (map note_key ns) \<Longrightarrow>
      find (\<lambda>n. nt_event n = e \<and> nt_channel n = c \<and> nt_recipient n = r) ns = Some n \<longleftrightarrow> n \<in> set ns \<and> note_key n = (e, c, r)" for ns
    by (induction ns) (auto simp: note_key_def image_iff)
  then show ?thesis using assms by (simp add: find_notification_def)
qed

lemma ensure_told:
  assumes "told (out, db)" "ensure_notification s c r db = (n, db1)"
  shows "told (out, db1)" "n \<in> set (nd_notifications db1)" "note_key n = (se_id s, c, r)"
    "set (nd_notifications db) \<subseteq> set (nd_notifications db1)" "find_notification db (se_id s) c r = None \<Longrightarrow> \<not> received n"
proof -
  have keys: "distinct (map note_key (nd_notifications db))" using assms(1) by (simp add: told_def)
  have all: "told (out, db1) \<and> n \<in> set (nd_notifications db1) \<and> note_key n = (se_id s, c, r)
      \<and> set (nd_notifications db) \<subseteq> set (nd_notifications db1) \<and> (find_notification db (se_id s) c r = None \<longrightarrow> \<not> received n)"
  proof (cases "find_notification db (se_id s) c r")
    case (Some x)
    then have "n = x" "db1 = db" using assms(2) by (simp_all add: ensure_notification_def)
    moreover have "x \<in> set (nd_notifications db)" "note_key x = (se_id s, c, r)" using Some find_note [OF keys] by blast+
    ultimately show ?thesis
      using assms(1) Some by simp
  next
    case None
    have "(se_id s, c, r) \<notin> note_key ` set (nd_notifications db)"
    proof
      assume "(se_id s, c, r) \<in> note_key ` set (nd_notifications db)"
      then obtain x where "find_notification db (se_id s) c r = Some x" using find_note [OF keys] by (metis imageE)
      then show False using None by simp
    qed
    moreover have n: "n = \<lparr>nt_id = fst (notify_fresh_id db), nt_workspace = se_workspace s, nt_event = se_id s, nt_channel = c,
        nt_recipient = r, nt_status = ''queued'', nt_attempts = 0, nt_sent_at = None, nt_acknowledged_at = None,
        nt_acknowledged_by = None\<rparr>" "db1 = (snd (notify_fresh_id db))\<lparr>nd_notifications := nd_notifications (snd (notify_fresh_id db)) @ [n]\<rparr>"
      using assms(2) None by (auto simp: ensure_notification_def Let_def split: prod.splits)
    ultimately show ?thesis
      using assms(1) n by (auto simp: told_def notify_fresh_id_def fresh_id_def Let_def note_key_def received_def less_Suc_eq)
  qed
  then show "told (out, db1)" "n \<in> set (nd_notifications db1)" "note_key n = (se_id s, c, r)"
    "set (nd_notifications db) \<subseteq> set (nd_notifications db1)" "find_notification db (se_id s) c r = None \<Longrightarrow> \<not> received n" by blast+
qed

lemma store_told:
  assumes "told (out, db)" "n \<in> set (nd_notifications db)" "nt_id n' = nt_id n" "note_key n' = note_key n" "received n \<longrightarrow> received n'"
  shows "told (out, store_notification n' db)"
proof -
  let ?f = "\<lambda>x. if nt_id x = nt_id n' then n' else x"
  have inj: "x = n" if "x \<in> set (nd_notifications db)" "nt_id x = nt_id n'" for x
    using assms(1-3) that by (auto simp: told_def distinct_map inj_on_def)
  have same: "map nt_id (map ?f (nd_notifications db)) = map nt_id (nd_notifications db)"
    "map note_key (map ?f (nd_notifications db)) = map note_key (nd_notifications db)" using inj assms(4) by auto
  have "\<exists>n \<in> set (map ?f (nd_notifications db)). note_key n = k \<and> received n" if logged: "k \<in> set out" for k
  proof -
    obtain m where "m \<in> set (nd_notifications db)" "note_key m = k" "received m" using assms(1) logged by (auto simp: told_def)
    then show ?thesis using inj [of m] assms(4,5) by (intro bexI [of _ "?f m"]) auto
  qed
  moreover have "nt_id n < db_next_id (nd_trading db)" if "n \<in> set (map ?f (nd_notifications db))" for n
    using assms(1,2,3) that by (auto simp: told_def)
  ultimately show ?thesis using assms(1) same unfolding told_def store_notification_def by (simp del: map_map set_map)
qed

lemma deliver_to_told:
  assumes "told (past @ out, db)" "deliver_to env adapters s (f, out, db) x = Inr (f', out', db')"
  shows "told (past @ out', db')"
proof -
  obtain c r where x: "x = (c, r)" by fastforce
  have keys: "distinct (map note_key (nd_notifications db))" using assms(1) by (simp add: told_def)
  from assms(2) show ?thesis unfolding x
  proof (cases rule: deliver_to_cases)
    case (Sent send n db1)
    let ?n = "n\<lparr>nt_status := ''sent'', nt_sent_at := Some (env_now env)\<rparr>"
    note e = ensure_told [OF assms(1) Sent(3)]
    have "(se_id s, c, r) \<notin> set (past @ out)"
    proof
      assume "(se_id s, c, r) \<in> set (past @ out)"
      then obtain m where "m \<in> set (nd_notifications db)" "note_key m = (se_id s, c, r)" "received m" using assms(1) by (force simp: told_def)
      then show False using Sent(4) find_note [OF keys] by blast
    qed
    moreover have key: "note_key ?n = note_key n" "received ?n" "nt_id ?n = nt_id n" by (simp_all add: note_key_def received_def)
    then have "told (past @ out, store_notification ?n db1)" using store_told [OF e(1,2)] by blast
    moreover have "?n \<in> set (nd_notifications (store_notification ?n db1))" using e(2) by (force simp: store_notification_def)
    ultimately have "told (past @ out @ [(se_id s, c, r)], store_notification ?n db1)"
      using key(2) e(3) key(1) unfolding told_def by (simp del: nt_status_update_def) blast
    then show ?thesis using Sent by simp
  next
    case (Missed send n db1)
    let ?n = "n\<lparr>nt_status := ''failed'', nt_attempts := nt_attempts n + 1\<rparr>"
    note e = ensure_told [OF assms(1) Missed(3)]
    have "\<not> received n"
    proof (cases "find_notification db (se_id s) c r")
      case (Some m)
      then show ?thesis using Missed(3) Missed(4) by (simp add: ensure_notification_def)
    qed (rule e(5))
    then show ?thesis using store_told [OF e(1,2), of ?n] Missed by (simp add: note_key_def)
  qed (simp add: assms(1))
qed

interpretation telling: loop_progress "deliver_to env adapters s"
  "\<lambda>(_, out, db) (_, out', db'). \<forall>past. told (past @ out, db) \<longrightarrow> told (past @ out', db')"
  by unfold_locales (auto split: prod.splits dest: deliver_to_told)

definition got :: "notify_db \<Rightarrow> uuid \<times> channel \<times> recipient \<Rightarrow> bool" where
  "got db k \<longleftrightarrow> (\<exists>n \<in> set (nd_notifications db). note_key n = k \<and> received n)"

lemma got_store:
  assumes "told (out, db)" "n \<in> set (nd_notifications db)" "nt_id n' = nt_id n" "note_key n' = note_key n" "received n \<longrightarrow> received n'"
  shows "got db k \<Longrightarrow> got (store_notification n' db) k" "received n' \<Longrightarrow> got (store_notification n' db) (note_key n)"
    "got (store_notification n' db) k \<Longrightarrow> got db k \<or> (received n' \<and> k = note_key n)"
proof -
  have inj: "x = n" if "x \<in> set (nd_notifications db)" "nt_id x = nt_id n'" for x
    using assms(1-3) that by (auto simp: told_def distinct_map inj_on_def)
  have stored: "set (nd_notifications (store_notification n' db)) = insert n' (set (nd_notifications db) - {n})"
    using assms(2,3) inj by (auto simp: store_notification_def image_iff)
  show "got db k \<Longrightarrow> got (store_notification n' db) k" "received n' \<Longrightarrow> got (store_notification n' db) (note_key n)"
    "got (store_notification n' db) k \<Longrightarrow> got db k \<or> (received n' \<and> k = note_key n)"
    unfolding got_def stored using assms(4,5) by auto
qed

lemma got_ensure:
  assumes "told (out, db)" "ensure_notification s c r db = (n, db1)"
  shows "got db1 k \<longleftrightarrow> got db k"
  using assms by (cases "find_notification db (se_id s) c r")
    (auto simp: ensure_notification_def got_def notify_fresh_id_def fresh_id_def Let_def received_def)

lemma deliver_to_got:
  assumes "told (past @ out, db)" "deliver_to env adapters s (f, out, db) (c, r) = Inr (f', out', db')"
  shows "got db k \<longrightarrow> got db' k" "f \<longrightarrow> f'" "\<not> f' \<and> adapters c \<noteq> None \<longrightarrow> got db' (se_id s, c, r)"
    "got db' k \<longrightarrow> got db k \<or> (k = (se_id s, c, r) \<and> (\<exists>send. adapters c = Some send \<and> send r s = Handed_over))"
proof -
  have keys: "distinct (map note_key (nd_notifications db))" using assms(1) by (simp add: told_def)
  have "(got db k \<longrightarrow> got db' k) \<and> (f \<longrightarrow> f') \<and> (\<not> f' \<and> adapters c \<noteq> None \<longrightarrow> got db' (se_id s, c, r))
    \<and> (got db' k \<longrightarrow> got db k \<or> (k = (se_id s, c, r) \<and> (\<exists>send. adapters c = Some send \<and> send r s = Handed_over)))"
    using assms(2)
  proof (cases rule: deliver_to_cases)
    case Skipped
    then show ?thesis using find_note [OF keys] by (auto simp: got_def)
  next
    case (Sent send n db1)
    let ?n = "n\<lparr>nt_status := ''sent'', nt_sent_at := Some (env_now env)\<rparr>"
    note e = ensure_told [OF assms(1) Sent(3)]
    have same: "nt_id ?n = nt_id n" "note_key ?n = note_key n" "received n \<longrightarrow> received ?n" "received ?n"
      by (simp_all add: note_key_def received_def)
    note store = got_store [OF e(1,2) same(1-3)]
    have "got db k \<Longrightarrow> got db' k" using store(1) [of k] got_ensure [OF assms(1) Sent(3), of k] Sent(7) by simp
    moreover have "got db' (se_id s, c, r)" using store(2) [OF same(4)] e(3) Sent(7) by simp
    moreover have "got db' k \<Longrightarrow> got db k \<or> k = (se_id s, c, r)"
      using store(3) [of k] got_ensure [OF assms(1) Sent(3), of k] e(3) Sent(7) by auto
    ultimately show ?thesis using Sent(1,2,5) by auto
  next
    case (Missed send n db1)
    let ?n = "n\<lparr>nt_status := ''failed'', nt_attempts := nt_attempts n + 1\<rparr>"
    note e = ensure_told [OF assms(1) Missed(3)]
    have "\<not> received n"
    proof (cases "find_notification db (se_id s) c r")
      case (Some m)
      then show ?thesis using Missed(3) Missed(4) by (simp add: ensure_notification_def)
    qed (rule e(5))
    then have same: "nt_id ?n = nt_id n" "note_key ?n = note_key n" "received n \<longrightarrow> received ?n" "\<not> received ?n"
      by (simp_all add: note_key_def received_def)
    note store = got_store [OF e(1,2) same(1-3)]
    have "got db k \<Longrightarrow> got db' k" using store(1) [of k] got_ensure [OF assms(1) Missed(3), of k] Missed(7) by simp
    moreover have "got db' k \<Longrightarrow> got db k" using store(3) [of k] same(4) got_ensure [OF assms(1) Missed(3), of k] Missed(7) by simp
    ultimately show ?thesis using Missed(5) by auto
  qed
  then show "got db k \<longrightarrow> got db' k" "f \<longrightarrow> f'" "\<not> f' \<and> adapters c \<noteq> None \<longrightarrow> got db' (se_id s, c, r)"
    "got db' k \<longrightarrow> got db k \<or> (k = (se_id s, c, r) \<and> (\<exists>send. adapters c = Some send \<and> send r s = Handed_over))" by blast+
qed

lemma delivered_all:
  assumes "run_steps (deliver_to env adapters s) (f, out, db) rs = Inr (f', out', db')" "told (past @ out, db)"
  shows "got db k \<longrightarrow> got db' k" "f \<longrightarrow> f'" "\<not> f' \<longrightarrow> (\<forall>(c, r) \<in> set rs. adapters c \<noteq> None \<longrightarrow> got db' (se_id s, c, r))"
proof -
  have "(\<forall>k. got db k \<longrightarrow> got db' k) \<and> (f \<longrightarrow> f') \<and> (\<not> f' \<longrightarrow> (\<forall>(c, r) \<in> set rs. adapters c \<noteq> None \<longrightarrow> got db' (se_id s, c, r)))"
    using assms
  proof (induction rs arbitrary: f out db)
    case (Cons x rs)
    obtain c r where x: "x = (c, r)" by fastforce
    from Cons.prems(1) obtain f1 out1 db1 where one: "deliver_to env adapters s (f, out, db) (c, r) = Inr (f1, out1, db1)"
        and rest: "run_steps (deliver_to env adapters s) (f1, out1, db1) rs = Inr (f', out', db')"
      by (auto simp: x result_simps)
    note step = deliver_to_got [OF Cons.prems(2) one]
    have "told (past @ out1, db1)" by (rule deliver_to_told [OF Cons.prems(2) one])
    note later = Cons.IH [OF rest this]
    show ?case unfolding x using step(1-3) later by auto
  qed simp
  then show "got db k \<longrightarrow> got db' k" "f \<longrightarrow> f'" "\<not> f' \<longrightarrow> (\<forall>(c, r) \<in> set rs. adapters c \<noteq> None \<longrightarrow> got db' (se_id s, c, r))" by blast+
qed

subsection \<open>Lemmas: the outbox\<close>

abbreviation outbox :: "notify_db \<Rightarrow> outbox_event list" where
  "outbox db \<equiv> db_outbox (nd_trading db)"

definition is_give_up :: "outbox_event \<Rightarrow> bool" where
  "is_give_up e \<longleftrightarrow> ob_event_type e = give_up_event_type"

definition gave_up :: "outbox_event \<Rightarrow> bool" where
  "gave_up e \<longleftrightarrow> \<not> is_give_up e \<and> ob_status e = ''failed''"

definition replaced :: "outbox_event \<Rightarrow> outbox_event list \<Rightarrow> outbox_event list" where
  "replaced e os = map (\<lambda>x. if ob_id x = ob_id e then e else x) os"

definition outbox_ok :: "notify_db \<Rightarrow> bool" where
  "outbox_ok db \<longleftrightarrow> distinct (map ob_id (outbox db)) \<and> (\<forall>e \<in> set (outbox db). ob_id e < db_next_id (nd_trading db)
       \<and> (ob_status e = ''pending'' \<longrightarrow> ob_attempts e < max_attempts))
     \<and> length (filter is_give_up (outbox db)) \<le> length (filter gave_up (outbox db))"

definition moved :: "tx_env \<Rightarrow> outbox_event \<Rightarrow> outbox_event \<Rightarrow> bool" where
  \<comment> \<open>what a pass makes of a row it has claimed\<close>
  "moved env e e' \<longleftrightarrow> ob_id e' = ob_id e \<and> ob_event_type e' = ob_event_type e \<and> ob_correlation e' = ob_correlation e
     \<and> (ob_status e' = ''published'' \<and> ob_attempts e' = ob_attempts e
        \<or> ob_attempts e' = ob_attempts e + 1
          \<and> (ob_status e' = ''failed'' \<or> ob_status e' = ob_status e \<and> ob_attempts e' < max_attempts
               \<and> ob_available_at e' = env_now env + seconds (backoff_base_seconds * 2 ^ ob_attempts e')))"

definition announced :: "outbox_event \<Rightarrow> outbox_event list \<Rightarrow> uuid \<Rightarrow> uuid \<Rightarrow> bool" where
  \<comment> \<open>the rows a delivery adds, for an event it gave up\<close>
  "announced e' ext old_id new_id \<longleftrightarrow> ext = [] \<or> (\<exists>g. ext = [g] \<and> is_give_up g \<and> ob_status g = ''pending'' \<and> ob_attempts g = 0
     \<and> old_id \<le> ob_id g \<and> ob_id g < new_id \<and> gave_up e')"

lemma publish_outbox:
  assumes "t' = snd (publish_system_event env w sev cat ty rc msg pl agt ai st si tt ti co t)"
  obtains o' s' where "db_outbox t' = db_outbox t @ [o']" "db_events t' = db_events t @ [s']"
    "ob_event_type o' = ty" "ob_status o' = ''pending''" "ob_attempts o' = 0" "db_next_id t \<le> ob_id o'" "ob_id o' < db_next_id t'"
  using assms by (cases co) (auto simp: publish_system_event_def fresh_id_def Let_def)

lemma settle_effect:
  "\<exists>e' ext evs. moved env e e' \<and> outbox (settle env e s f db) = replaced e' (outbox db) @ ext
     \<and> announced e' ext (db_next_id (nd_trading db)) (db_next_id (nd_trading (settle env e s f db)))
     \<and> nd_accounts (settle env e s f db) = nd_accounts db \<and> nd_notifications (settle env e s f db) = nd_notifications db
     \<and> db_events (nd_trading (settle env e s f db)) = db_events (nd_trading db) @ evs
     \<and> db_next_id (nd_trading db) \<le> db_next_id (nd_trading (settle env e s f db))
     \<and> (ob_status e' = ''published'' \<longrightarrow> \<not> f \<or> ob_status e = ''published'')"
proof -
  let ?e1 = "e\<lparr>ob_attempts := ob_attempts e + 1\<rparr>"
  let ?kept = "\<lambda>e'. moved env e e' \<and> settle env e s f db = store_outbox e' db \<and> (ob_status e' = ''published'' \<longrightarrow> \<not> f \<or> ob_status e = ''published'')"
  have kept: ?thesis if "?kept e'" for e'
    using that by (intro exI [of _ e'] exI [of _ "[]"]) (auto simp: store_outbox_def replaced_def announced_def moved_def)
  show ?thesis
  proof (cases "f \<and> max_attempts \<le> ob_attempts e + 1 \<and> ob_event_type e \<noteq> give_up_event_type")
    case False
    then consider "\<not> f" | "f" "\<not> max_attempts \<le> ob_attempts e + 1" | "f" "max_attempts \<le> ob_attempts e + 1" "ob_event_type e = give_up_event_type"
      by blast
    then show ?thesis
    proof cases
      case 1
      then show ?thesis by (intro kept [of "e\<lparr>ob_status := ''published'', ob_published_at := Some (env_now env)\<rparr>"]) (simp add: settle_def moved_def)
    next
      case 2
      then show ?thesis
        by (intro kept [of "?e1\<lparr>ob_available_at := env_now env + seconds (backoff_base_seconds * 2 ^ ob_attempts ?e1)\<rparr>"])
           (simp add: settle_def moved_def)
    next
      case 3
      then show ?thesis by (intro kept [of "?e1\<lparr>ob_status := ''failed''\<rparr>"]) (simp add: settle_def moved_def announce_give_up_def)
    qed
  next
    case True
    let ?f = "?e1\<lparr>ob_status := ''failed''\<rparr>" let ?db1 = "store_outbox ?f db" let ?ch = "failed_channels (se_id s) ?db1"
    define pay where "pay = [(''original_event_type'', D_text (se_event_type s)), (''original_event_id'', D_id (se_id s)),
      (''failed_channels'', D_list (map D_text ?ch)), (''attempts'', D_int (int (ob_attempts e + 1)))]"
    have "nd_trading (settle env e s f db) = snd (publish_system_event env (se_workspace s) ''error'' ''notification''
        give_up_event_type (Some ''delivery_failed'') (se_message s @ ?ch) pay ''outbox_event'' (ob_id e)
        ''notification_worker'' None None None None (nd_trading ?db1))"
      using True by (simp add: settle_def announce_give_up_def pay_def Let_def)
    then obtain o' s' where pub: "outbox (settle env e s f db) = outbox ?db1 @ [o']"
        "db_events (nd_trading (settle env e s f db)) = db_events (nd_trading ?db1) @ [s']"
        "ob_event_type o' = give_up_event_type" "ob_status o' = ''pending''" "ob_attempts o' = 0"
        "db_next_id (nd_trading ?db1) \<le> ob_id o'" "ob_id o' < db_next_id (nd_trading (settle env e s f db))"
      by (rule publish_outbox)
    have same: "nd_accounts (settle env e s f db) = nd_accounts db" "nd_notifications (settle env e s f db) = nd_notifications db"
      using True by (simp_all add: settle_def announce_give_up_def store_outbox_def Let_def)
    have "db_next_id (nd_trading ?db1) = db_next_id (nd_trading db)" "db_events (nd_trading ?db1) = db_events (nd_trading db)"
      "outbox ?db1 = replaced ?f (outbox db)" by (simp_all add: store_outbox_def replaced_def)
    then show ?thesis using pub same True
      by (intro exI [of _ ?f] exI [of _ "[o']"] exI [of _ "[s']"]) (auto simp: moved_def announced_def is_give_up_def gave_up_def)
  qed
qed

lemma replaced_ids [simp]: "map ob_id (replaced e os) = map ob_id os"
  by (auto simp: replaced_def)

lemma replaced_count:
  assumes "distinct (map ob_id os)" "e \<in> set os" "ob_id e' = ob_id e"
  shows "length (filter P (replaced e' os)) + (if P e then 1 else 0) = length (filter P os) + (if P e' then 1 else 0)"
  using assms(1,2)
proof (induction os)
  case (Cons x os)
  show ?case
  proof (cases "x = e")
    case True
    then have "replaced e' os = os" using Cons.prems(1) assms(3) unfolding replaced_def by (intro map_idI) (auto simp: image_iff)
    then show ?thesis using True assms(3) by (simp add: replaced_def)
  next
    case False
    then have "ob_id x \<noteq> ob_id e'" using Cons.prems assms(3) by auto
    then show ?thesis using Cons False by (simp add: replaced_def)
  qed
qed simp

lemma outbox_ok_move:
  assumes "outbox_ok db" "e \<in> set (outbox db)" "ob_status e = ''pending''" "moved env e e'"
    and "outbox db' = replaced e' (outbox db) @ ext" "announced e' ext (db_next_id (nd_trading db)) (db_next_id (nd_trading db'))"
    and "db_next_id (nd_trading db) \<le> db_next_id (nd_trading db')"
  shows "outbox_ok db'"
proof -
  have e': "ob_id e' = ob_id e" "is_give_up e' = is_give_up e" "\<not> gave_up e"
    "ob_status e' = ''pending'' \<longrightarrow> ob_attempts e' < max_attempts"
    using assms(3,4) by (auto simp: moved_def is_give_up_def gave_up_def)
  have ids: "distinct (map ob_id (outbox db))" "\<forall>x \<in> set (outbox db). ob_id x < db_next_id (nd_trading db)"
    using assms(1) by (simp_all add: outbox_ok_def)
  have "distinct (map ob_id (outbox db'))" using assms(5,6) ids by (auto simp: announced_def)
  moreover have "ob_id x < db_next_id (nd_trading db') \<and> (ob_status x = ''pending'' \<longrightarrow> ob_attempts x < max_attempts)"
    if stored: "x \<in> set (outbox db')" for x
  proof -
    consider "x = e'" | "x \<in> set (outbox db)" | "x \<in> set ext" using stored assms(5) by (auto simp: replaced_def split: if_splits)
    then show ?thesis
    proof cases
      case 1
      then show ?thesis using e' ids(2) assms(2,7) by (auto intro: less_le_trans)
    next
      case 2
      then have "ob_id x < db_next_id (nd_trading db)" "ob_status x = ''pending'' \<longrightarrow> ob_attempts x < max_attempts"
        using assms(1) by (simp_all add: outbox_ok_def)
      then show ?thesis using assms(7) by simp
    next
      case 3
      then show ?thesis using assms(6) by (auto simp: announced_def max_attempts_def)
    qed
  qed
  moreover have "length (filter is_give_up (outbox db')) \<le> length (filter gave_up (outbox db'))"
  proof -
    have "length (filter is_give_up (replaced e' (outbox db))) = length (filter is_give_up (outbox db))"
      "length (filter gave_up (replaced e' (outbox db))) = length (filter gave_up (outbox db)) + (if gave_up e' then 1 else 0)"
      using replaced_count [OF ids(1) assms(2) e'(1), of is_give_up] replaced_count [OF ids(1) assms(2) e'(1), of gave_up] e'(2,3) by auto
    then show ?thesis using assms(1,5,6) by (auto simp: outbox_ok_def announced_def)
  qed
  ultimately show ?thesis by (simp add: outbox_ok_def)
qed

lemma told_cong:
  "told (out, db) \<Longrightarrow> nd_notifications db' = nd_notifications db \<Longrightarrow> db_next_id (nd_trading db) \<le> db_next_id (nd_trading db') \<Longrightarrow> told (out, db')"
  unfolding told_def fst_conv snd_conv by (auto intro: less_le_trans)

definition reached :: "(channel \<rightharpoonup> adapter) \<Rightarrow> notify_db \<Rightarrow> outbox_event \<Rightarrow> (channel \<times> recipient) list \<Rightarrow> system_event \<Rightarrow> bool" where
  \<comment> \<open>the recipients of an event on the configured channels have received it\<close>
  "reached adapters db e rs s \<longleftrightarrow> s \<in> set (db_events (nd_trading db)) \<and> se_correlation s = ob_correlation e
     \<and> (\<forall>(c, r) \<in> set rs. adapters c \<noteq> None \<longrightarrow> got db (se_id s, c, r))"

lemma reached_mono:
  "reached adapters db e rs s \<Longrightarrow> (\<And>k. got db k \<Longrightarrow> got db' k) \<Longrightarrow>
   set (db_events (nd_trading db)) \<subseteq> set (db_events (nd_trading db')) \<Longrightarrow> reached adapters db' e rs s"
  by (auto simp: reached_def)

lemma recipients_cong: "nd_accounts db' = nd_accounts db \<Longrightarrow> workspace_member_recipients db' s = workspace_member_recipients db s"
  by (simp add: workspace_member_recipients_def)

lemma deliver_event_effect:
  assumes "deliver_event env adapters workspace_member_recipients (p, out, db) e = Inr (p', out', db')" "told (past @ out, db)"
  obtains e' ext evs where "moved env e e'" "outbox db' = replaced e' (outbox db) @ ext"
    "announced e' ext (db_next_id (nd_trading db)) (db_next_id (nd_trading db'))" "db_next_id (nd_trading db) \<le> db_next_id (nd_trading db')"
    "nd_accounts db' = nd_accounts db" "db_events (nd_trading db') = db_events (nd_trading db) @ evs" "told (past @ out', db')"
    "\<And>k. got db k \<Longrightarrow> got db' k"
    "ob_status e = ''pending'' \<Longrightarrow> ob_status e' = ''published'' \<Longrightarrow> \<exists>s. reached adapters db' e (workspace_member_recipients db s) s"
proof (cases "system_event_of db e")
  case None
  let ?e = "e\<lparr>ob_status := ''failed'', ob_attempts := ob_attempts e + 1\<rparr>"
  have db': "out' = out" "db' = store_outbox ?e db" using assms(1) None by (simp_all add: deliver_event_def)
  show thesis
    by (rule that [of ?e "[]" "[]"])
       (use assms(2) in \<open>simp_all add: db' moved_def announced_def store_outbox_def replaced_def got_def told_def\<close>)
next
  case (Some s)
  from assms(1) Some obtain f db1 where run: "run_steps (deliver_to env adapters s) (False, out, db) (workspace_member_recipients db s) = Inr (f, out', db1)"
      and db': "db' = settle env e s f db1"
    by (auto simp: deliver_event_def result_simps)
  have alone: "rest_alone db db1" using alone.run_rel [OF run] by simp
  have "told (past @ out', db1)" using telling.run_rel [OF run] assms(2) by auto
  note all = delivered_all [OF run assms(2)]
  obtain e' ext evs where eff: "moved env e e'" "outbox db' = replaced e' (outbox db1) @ ext"
      "announced e' ext (db_next_id (nd_trading db1)) (db_next_id (nd_trading db'))" "nd_accounts db' = nd_accounts db1"
      "nd_notifications db' = nd_notifications db1" "db_events (nd_trading db') = db_events (nd_trading db1) @ evs"
      "db_next_id (nd_trading db1) \<le> db_next_id (nd_trading db')" "ob_status e' = ''published'' \<longrightarrow> \<not> f \<or> ob_status e = ''published''"
    using settle_effect [of env e s f db1] unfolding db' by blast
  have s: "s \<in> set (db_events (nd_trading db))" "se_correlation s = ob_correlation e"
    using Some by (auto simp: system_event_of_def find_Some_iff)
  have got': "got db' k \<longleftrightarrow> got db1 k" for k by (simp add: got_def eff(5))
  show thesis
  proof (rule that [of e' ext evs])
    show "announced e' ext (db_next_id (nd_trading db)) (db_next_id (nd_trading db'))"
      using eff(3) alone by (auto simp: announced_def rest_alone_def)
    show "told (past @ out', db')" by (rule told_cong [OF \<open>told (past @ out', db1)\<close> eff(5,7)])
    show "got db k \<Longrightarrow> got db' k" for k using all(1) got' by blast
    show "\<exists>s. reached adapters db' e (workspace_member_recipients db s) s" if "ob_status e = ''pending''" "ob_status e' = ''published''"
      using that all(3) eff(6,8) s alone got' by (intro exI [of _ s]) (auto simp: reached_def rest_alone_def)
  qed (use eff alone in \<open>auto simp: rest_alone_def\<close>)
qed

lemma pass_effect:
  assumes "run_steps (deliver_event env adapters workspace_member_recipients) (p, out, db) es = Inr (p', out', db')"
    and "told (past @ out, db)" "outbox_ok db" "distinct (map ob_id es)" "set es \<subseteq> set (outbox db)" "\<forall>e \<in> set es. ob_status e = ''pending''"
  shows "told (past @ out', db') \<and> outbox_ok db' \<and> nd_accounts db' = nd_accounts db \<and> (\<forall>k. got db k \<longrightarrow> got db' k)
    \<and> set (db_events (nd_trading db)) \<subseteq> set (db_events (nd_trading db'))
    \<and> (\<forall>x \<in> set (outbox db). ob_id x \<notin> ob_id ` set es \<longrightarrow> x \<in> set (outbox db'))
    \<and> (\<forall>e \<in> set es. \<exists>e' \<in> set (outbox db'). moved env e e'
         \<and> (ob_status e' = ''published'' \<longrightarrow> (\<exists>s. reached adapters db' e (workspace_member_recipients db s) s)))"
  using assms
proof (induction es arbitrary: p out db)
  case (Cons e es)
  from Cons.prems(1) obtain p1 out1 db1 where
      one: "deliver_event env adapters workspace_member_recipients (p, out, db) e = Inr (p1, out1, db1)"
      and rest: "run_steps (deliver_event env adapters workspace_member_recipients) (p1, out1, db1) es = Inr (p', out', db')"
    by (auto simp: result_simps)
  obtain e' ext evs where eff: "moved env e e'" "outbox db1 = replaced e' (outbox db) @ ext"
      "announced e' ext (db_next_id (nd_trading db)) (db_next_id (nd_trading db1))" "db_next_id (nd_trading db) \<le> db_next_id (nd_trading db1)"
      "nd_accounts db1 = nd_accounts db" "db_events (nd_trading db1) = db_events (nd_trading db) @ evs" "told (past @ out1, db1)"
      "\<And>k. got db k \<Longrightarrow> got db1 k"
      "ob_status e' = ''published'' \<Longrightarrow> \<exists>s. reached adapters db1 e (workspace_member_recipients db s) s"
    using deliver_event_effect [OF one Cons.prems(2)] Cons.prems(6) by (metis list.set_intros(1))
  have e: "e \<in> set (outbox db)" "ob_status e = ''pending''" "ob_id e' = ob_id e"
    using Cons.prems(5,6) eff(1) by (auto simp: moved_def)
  have kept: "x \<in> set (outbox db1)" if "x \<in> set (outbox db)" "ob_id x \<noteq> ob_id e" for x
    using that eff(2) e(3) by (auto simp: replaced_def image_iff)
  have "e' \<in> set (outbox db1)" using eff(2) e by (auto simp: replaced_def image_iff)
  have ok: "outbox_ok db1" by (rule outbox_ok_move [OF Cons.prems(3) e(1,2) eff(1-4)])
  have sub: "set es \<subseteq> set (outbox db1)" using Cons.prems(4,5) kept by (fastforce simp: image_iff)
  note later = Cons.IH [OF rest eff(7) ok _ sub]
  have later: "told (past @ out', db')" "outbox_ok db'" "nd_accounts db' = nd_accounts db1" "\<And>k. got db1 k \<Longrightarrow> got db' k"
      "set (db_events (nd_trading db1)) \<subseteq> set (db_events (nd_trading db'))"
      "\<And>x. x \<in> set (outbox db1) \<Longrightarrow> ob_id x \<notin> ob_id ` set es \<Longrightarrow> x \<in> set (outbox db')"
      "\<And>x. x \<in> set es \<Longrightarrow> \<exists>x' \<in> set (outbox db'). moved env x x'
         \<and> (ob_status x' = ''published'' \<longrightarrow> (\<exists>s. reached adapters db' x (workspace_member_recipients db1 s) s))"
    using later Cons.prems(4,6) by auto
  have "e' \<in> set (outbox db')" using later(6) \<open>e' \<in> set (outbox db1)\<close> Cons.prems(4) e(3) by auto
  moreover have "\<exists>s. reached adapters db' e (workspace_member_recipients db s) s" if "ob_status e' = ''published''"
    using eff(9) [OF that] reached_mono [OF _ later(4,5)] by blast
  ultimately have first: "\<exists>e' \<in> set (outbox db'). moved env e e'
      \<and> (ob_status e' = ''published'' \<longrightarrow> (\<exists>s. reached adapters db' e (workspace_member_recipients db s) s))" using eff(1) by blast
  have each: "\<exists>x' \<in> set (outbox db'). moved env x x'
      \<and> (ob_status x' = ''published'' \<longrightarrow> (\<exists>s. reached adapters db' x (workspace_member_recipients db s) s))" if "x \<in> set (e # es)" for x
  proof (cases "x = e")
    case True
    show ?thesis unfolding True by (rule first)
  next
    case False
    then show ?thesis using later(7) [of x] that unfolding recipients_cong [OF eff(5)] by simp
  qed
  have others: "x \<in> set (outbox db')" if "x \<in> set (outbox db)" "ob_id x \<notin> ob_id ` set (e # es)" for x
    using later(6) [OF kept] that by simp
  have "nd_accounts db' = nd_accounts db" using later(3) eff(5) by simp
  moreover have "\<forall>k. got db k \<longrightarrow> got db' k" using eff(8) later(4) by blast
  moreover have "set (db_events (nd_trading db)) \<subseteq> set (db_events (nd_trading db'))" using eff(6) later(5) by auto
  moreover have "\<forall>x \<in> set (outbox db). ob_id x \<notin> ob_id ` set (e # es) \<longrightarrow> x \<in> set (outbox db')" using others by (intro ballI impI)
  moreover have "\<forall>x \<in> set (e # es). \<exists>x' \<in> set (outbox db'). moved env x x'
      \<and> (ob_status x' = ''published'' \<longrightarrow> (\<exists>s. reached adapters db' x (workspace_member_recipients db s) s))" using each by (intro ballI)
  ultimately show ?case using later(1,2) by (intro conjI)
qed simp

subsection \<open>Passes\<close>

lemma claimed_rows:
  assumes "outbox_ok db"
  shows "distinct (map ob_id (claim_pending_outbox_events env locked db))"
    and "e \<in> set (claim_pending_outbox_events env locked db) \<Longrightarrow> e \<in> set (outbox db) \<and> ob_status e = ''pending''"
proof -
  let ?ready = "\<lambda>e. ob_status e = ''pending'' \<and> ob_available_at e \<le> env_now env \<and> \<not> locked (ob_id e)"
  have "distinct (map ob_id (filter ?ready (outbox db)))" using assms by (simp add: outbox_ok_def distinct_map_filter)
  then have "distinct (map ob_id (sort_key ob_available_at (filter ?ready (outbox db))))" by (simp add: distinct_map)
  then show "distinct (map ob_id (claim_pending_outbox_events env locked db))"
    by (simp add: claim_pending_outbox_events_def take_map [symmetric])
  show "e \<in> set (claim_pending_outbox_events env locked db) \<Longrightarrow> e \<in> set (outbox db) \<and> ob_status e = ''pending''"
    by (auto simp: claim_pending_outbox_events_def dest!: in_set_takeD)
qed

lemma committed_pass:
  assumes "deliver_pending_notifications env adapters workspace_member_recipients locked db = (out, Inr (n, db'))"
    and "told (past, db)" "outbox_ok db"
  shows "told (past @ out, db')" "outbox_ok db'"
    and "e \<in> set (claim_pending_outbox_events env locked db) \<Longrightarrow> \<exists>e' \<in> set (outbox db'). moved env e e'
         \<and> (ob_status e' = ''published'' \<longrightarrow> (\<exists>s. reached adapters db' e (workspace_member_recipients db s) s))"
proof -
  have run: "run_steps (deliver_event env adapters workspace_member_recipients) (0, [], db) (claim_pending_outbox_events env locked db) = Inr (n, out, db')"
    using assms(1) by (auto simp: deliver_pending_notifications_def split: sum.splits)
  note effect = pass_effect [OF run, of past, simplified append_Nil2, OF assms(2,3) claimed_rows(1) [OF assms(3)]]
  have "set (claim_pending_outbox_events env locked db) \<subseteq> set (outbox db)"
    "\<forall>e \<in> set (claim_pending_outbox_events env locked db). ob_status e = ''pending''"
    using claimed_rows(2) [OF assms(3)] by blast+
  note effect = effect [OF this]
  show "told (past @ out, db')" "outbox_ok db'" using effect by blast+
  show "e \<in> set (claim_pending_outbox_events env locked db) \<Longrightarrow> \<exists>e' \<in> set (outbox db'). moved env e e'
         \<and> (ob_status e' = ''published'' \<longrightarrow> (\<exists>s. reached adapters db' e (workspace_member_recipients db s) s))"
    using effect by blast
qed

text \<open>
  Published means delivered: after a pass commits, a row it claimed and marked published belongs to an
  event every owner and operator of the workspace has received, on every configured channel; and every
  row it claimed has moved: published, given up, or parked with one more attempt until twice the
  previous backoff is over.
\<close>

theorem published_means_delivered:
  assumes "deliver_pending_notifications env adapters workspace_member_recipients locked db = (out, Inr (n, db'))"
    and "told ([], db)" "outbox_ok db" "e \<in> set (claim_pending_outbox_events env locked db)"
  shows "\<exists>e' \<in> set (db_outbox (nd_trading db')). ob_id e' = ob_id e
     \<and> (ob_status e' = ''published'' \<and> (\<exists>s \<in> set (db_events (nd_trading db')). se_correlation s = ob_correlation e
            \<and> (\<forall>(c, r) \<in> set (workspace_member_recipients db s). adapters c \<noteq> None \<longrightarrow>
                 (\<exists>x \<in> set (nd_notifications db'). nt_event x = se_id s \<and> nt_channel x = c \<and> nt_recipient x = r \<and> received x)))
        \<or> ob_attempts e' = ob_attempts e + 1 \<and> ob_status e' = ''failed''
        \<or> ob_attempts e' = ob_attempts e + 1 \<and> ob_attempts e' < max_attempts \<and> ob_status e' = ''pending''
          \<and> ob_available_at e' = env_now env + seconds (backoff_base_seconds * 2 ^ ob_attempts e'))"
proof -
  have "ob_status e = ''pending''" using claimed_rows(2) [OF assms(3,4)] by blast
  moreover obtain e' where "e' \<in> set (outbox db')" "moved env e e'"
      "ob_status e' = ''published'' \<longrightarrow> (\<exists>s. reached adapters db' e (workspace_member_recipients db s) s)"
    using committed_pass(3) [OF assms] by blast
  ultimately show ?thesis
    by (intro bexI [of _ e']) (auto simp: moved_def reached_def got_def note_key_def)
qed

subsection \<open>The system\<close>

inductive notify_step :: "handed_over \<times> notify_db \<Rightarrow> handed_over \<times> notify_db \<Rightarrow> bool" where
  Delivered: "deliver_pending_notifications env adapters workspace_member_recipients locked db = (sent, Inr (n, db')) \<Longrightarrow>
    notify_step (out, db) (out @ sent, db')"
| Occurred: "ty \<noteq> give_up_event_type \<Longrightarrow>
    t' = snd (publish_system_event env w sev cat ty rc msg pl agt ai st si tt ti co (nd_trading db)) \<Longrightarrow>
    notify_step (out, db) (out, db\<lparr>nd_trading := t'\<rparr>)"
| Read_all: "notify_step (out, db) (out, snd (acknowledge_all_notifications env workspace user db))"
| Read_one: "acknowledge_notification env workspace user nid db = Inr (note, db') \<Longrightarrow> notify_step (out, db) (out, db')"
| Members_changed: "notify_step (out, db) (out, db\<lparr>nd_accounts := a\<rparr>)"

definition delivery_ok :: "handed_over \<times> notify_db \<Rightarrow> bool" where
  "delivery_ok s \<longleftrightarrow> told s \<and> outbox_ok (snd s)"

lemma outbox_ok_cong: "nd_trading db' = nd_trading db \<Longrightarrow> outbox_ok db' \<longleftrightarrow> outbox_ok db"
  by (simp add: outbox_ok_def)

lemma occurred_ok:
  assumes "outbox_ok db" "ty \<noteq> give_up_event_type"
    and "t' = snd (publish_system_event env w sev cat ty rc msg pl agt ai st si tt ti co (nd_trading db))"
  shows "outbox_ok (db\<lparr>nd_trading := t'\<rparr>)" "db_next_id (nd_trading db) \<le> db_next_id t'"
proof -
  obtain o' s' where pub: "db_outbox t' = outbox db @ [o']" "ob_event_type o' = ty" "ob_status o' = ''pending''" "ob_attempts o' = 0"
      "db_next_id (nd_trading db) \<le> ob_id o'" "ob_id o' < db_next_id t'"
    using publish_outbox [OF assms(3)] by metis
  show "db_next_id (nd_trading db) \<le> db_next_id t'" using pub by simp
  show "outbox_ok (db\<lparr>nd_trading := t'\<rparr>)"
    using assms(1,2) pub by (auto simp: outbox_ok_def is_give_up_def gave_up_def max_attempts_def)
qed

lemma told_ack:
  assumes "told (out, db)" "\<And>n. received (f n) = received n" "\<And>n. note_key (f n) = note_key n" "\<And>n. nt_id (f n) = nt_id n"
  shows "told (out, db\<lparr>nd_notifications := map f (nd_notifications db)\<rparr>)"
  using assms by (simp add: told_def comp_def)

lemma find_in_append: "find P xs = Some x \<Longrightarrow> find P (xs @ ys) = Some x"
  by (induction xs) (auto split: if_splits)

lemma find_SomeD: "find P xs = Some x \<Longrightarrow> x \<in> set xs \<and> P x"
  by (induction xs) (auto split: if_splits)

lemma received_acknowledged: "own_notification w u n \<Longrightarrow> received (acknowledged env u n) = received n"
  by (simp add: own_notification_def received_def acknowledged_def)

lemma note_key_acknowledged [simp]: "note_key (acknowledged env u n) = note_key n" "nt_id (acknowledged env u n) = nt_id n"
  by (simp_all add: acknowledged_def note_key_def)

interpretation delivery: state_machine notify_step delivery_ok
proof
  fix s t assume "delivery_ok s" "notify_step s t"
  from this(2,1) show "delivery_ok t"
  proof cases
    case (Delivered env adapters locked db sent n db' out)
    then show ?thesis using \<open>delivery_ok s\<close> committed_pass(1,2) [OF Delivered(3), of out] by (simp add: delivery_ok_def)
  next
    case (Occurred ty t' env w sev cat rc msg pl agt ai src si tt ti co db out)
    then show ?thesis
      using \<open>delivery_ok s\<close> occurred_ok [OF _ Occurred(3,4)] told_cong [of out db "db\<lparr>nd_trading := t'\<rparr>"] by (simp add: delivery_ok_def)
  next
    case (Read_all out db env workspace user)
    let ?f = "\<lambda>n. if own_notification workspace user n \<and> nt_status n = ''sent'' then acknowledged env user n else n"
    have "told (out, db\<lparr>nd_notifications := map ?f (nd_notifications db)\<rparr>)"
      using \<open>delivery_ok s\<close> Read_all(1) by (intro told_ack) (auto simp: delivery_ok_def received_acknowledged)
    then show ?thesis using \<open>delivery_ok s\<close> Read_all
      by (simp add: delivery_ok_def acknowledge_all_notifications_def outbox_ok_def)
  next
    case (Read_one env workspace user nid db shown db' out)
    have "told (out, db')"
    proof (cases "db' = db")
      case True
      then show ?thesis using \<open>delivery_ok s\<close> Read_one(1) by (simp add: delivery_ok_def)
    next
      case False
      then obtain n where n: "n \<in> set (nd_notifications db)" "own_notification workspace user n" "db' = store_notification (acknowledged env user n) db"
        using Read_one(3) by (auto simp: acknowledge_notification_def dest!: find_SomeD split: option.splits if_splits)
      then show ?thesis
        using store_told [of out db n "acknowledged env user n"] \<open>delivery_ok s\<close> Read_one(1)
        by (simp add: delivery_ok_def received_acknowledged)
    qed
    moreover have trading: "nd_trading db' = nd_trading db"
      using Read_one(3) by (auto simp: acknowledge_notification_def store_notification_def split: option.splits if_splits)
    moreover have "outbox_ok db'" using \<open>delivery_ok s\<close> Read_one(1) trading by (simp add: delivery_ok_def outbox_ok_def)
    ultimately show ?thesis using Read_one(2) by (simp add: delivery_ok_def)
  next
    case (Members_changed out db a)
    then show ?thesis using \<open>delivery_ok s\<close> by (simp add: delivery_ok_def told_def outbox_ok_def)
  qed
qed

text \<open>
  C39 (safety). Nobody is told twice: over any sequence of passes that commit, new events, acknowledgements and
  changes of the membership, no message about an event is handed over to the same recipient on the same
  channel a second time, and each one handed over stays on record as received. A row that waits has
  attempts left, and the announcements of failed deliveries are no more than the rows given up that were
  not themselves such announcements, so announcing never feeds itself.
\<close>

theorem nobody_is_told_twice:
  assumes "told ([], db)" "outbox_ok db" "notify_step\<^sup>*\<^sup>* ([], db) (out, db')"
  shows "distinct out \<and> (\<forall>(e, c, r) \<in> set out. \<exists>n \<in> set (nd_notifications db'). nt_event n = e \<and> nt_channel n = c \<and> nt_recipient n = r \<and> received n)
    \<and> (\<forall>x \<in> set (db_outbox (nd_trading db')). ob_status x = ''pending'' \<longrightarrow> ob_attempts x < max_attempts)
    \<and> length (filter (\<lambda>x. ob_event_type x = give_up_event_type) (db_outbox (nd_trading db')))
        \<le> length (filter (\<lambda>x. ob_event_type x \<noteq> give_up_event_type \<and> ob_status x = ''failed'') (db_outbox (nd_trading db')))"
proof -
  have "delivery_ok (out, db')" by (rule delivery.reachable_keeps [OF assms(3)]) (simp add: delivery_ok_def assms(1,2))
  then have ok: "told (out, db')" "outbox_ok db'" by (simp_all add: delivery_ok_def)
  have "\<exists>n \<in> set (nd_notifications db'). nt_event n = e \<and> nt_channel n = c \<and> nt_recipient n = r \<and> received n"
    if "(e, c, r) \<in> set out" for e c r using ok(1) that by (force simp: told_def note_key_def)
  then have "\<forall>(e, c, r) \<in> set out. \<exists>n \<in> set (nd_notifications db'). nt_event n = e \<and> nt_channel n = c \<and> nt_recipient n = r \<and> received n"
    by blast
  moreover have "distinct out" using ok(1) by (simp add: told_def)
  moreover have "is_give_up = (\<lambda>x. ob_event_type x = give_up_event_type)"
    "gave_up = (\<lambda>x. ob_event_type x \<noteq> give_up_event_type \<and> ob_status x = ''failed'')"
    by (simp_all add: fun_eq_iff is_give_up_def gave_up_def)
  ultimately show ?thesis using ok(2) unfolding outbox_ok_def by (metis (no_types, lifting))
qed

subsection \<open>A message that cannot be sent\<close>

definition unsendable :: "(channel \<rightharpoonup> adapter) \<Rightarrow> system_event \<Rightarrow> channel \<Rightarrow> bool" where
  \<comment> \<open>the adapter raises what is not caught, whoever the recipient\<close>
  "unsendable adapters s c \<longleftrightarrow> (\<exists>send. adapters c = Some send \<and> (\<forall>r s'. se_id s' = se_id s \<longrightarrow> (\<exists>x. send r s' = Send_raised x)))"

lemma unsendableD: "unsendable adapters s c \<Longrightarrow> se_id s' = se_id s \<Longrightarrow> \<exists>send x. adapters c = Some send \<and> send r s' = Send_raised x"
  by (auto simp: unsendable_def)

definition untold :: "system_event \<Rightarrow> channel \<Rightarrow> notify_db \<Rightarrow> bool" where
  "untold s c db \<longleftrightarrow> (\<forall>r. \<not> got db (se_id s, c, r))"

lemma untold_run:
  assumes "run_steps (deliver_to env adapters s') (f, out, db) rs = Inr (f', out', db')" "told (past @ out, db)"
    and "unsendable adapters s c" "untold s c db"
  shows "untold s c db'"
  using assms(1,2,4)
proof (induction rs arbitrary: f out db)
  case (Cons x rs)
  obtain c' r' where x: "x = (c', r')" by fastforce
  from Cons.prems(1) obtain f1 out1 db1 where one: "deliver_to env adapters s' (f, out, db) (c', r') = Inr (f1, out1, db1)"
      and rest: "run_steps (deliver_to env adapters s') (f1, out1, db1) rs = Inr (f', out', db')"
    by (auto simp: x result_simps)
  have "\<not> got db1 (se_id s, c, r)" for r
    using deliver_to_got(4) [OF Cons.prems(2) one, of "(se_id s, c, r)"] Cons.prems(3) unsendableD [OF assms(3), of s' r]
    by (auto simp: untold_def)
  then have "untold s c db1" by (simp add: untold_def)
  then show ?case using Cons.IH [OF rest deliver_to_told [OF Cons.prems(2) one]] by blast
qed simp

lemma unsendable_raises:
  assumes "(c, r) \<in> set rs" "told (past @ out, db)" "unsendable adapters s c" "untold s c db"
  shows "\<exists>x. run_steps (deliver_to env adapters s) (f, out, db) rs = Inl x"
  using assms(1,2,4)
proof (induction rs arbitrary: f out db)
  case (Cons y rs)
  have keys: "distinct (map note_key (nd_notifications db))" using Cons.prems(2) by (simp add: told_def)
  show ?case
  proof (cases "deliver_to env adapters s (f, out, db) y")
    case (Inr t)
    obtain f1 out1 db1 where t: "t = (f1, out1, db1)" by (cases t) auto
    have one: "run_steps (deliver_to env adapters s) (f, out, db) [y] = Inr (f1, out1, db1)" using Inr t by simp
    have "y \<noteq> (c, r)"
    proof
      assume "y = (c, r)"
      moreover obtain send x where "adapters c = Some send" "send r s = Send_raised x" using unsendableD [OF assms(3) refl] by blast
      moreover have "\<not> (case find_notification db (se_id s) c r of Some n \<Rightarrow> received n | None \<Rightarrow> False)"
        using Cons.prems(3) find_note [OF keys] by (auto simp: untold_def got_def split: option.split)
      ultimately show False using Inr by (simp add: deliver_to_def split_beta)
    qed
    moreover have "told (past @ out1, db1)" using telling.run_rel [OF one] Cons.prems(2) by auto
    moreover have "untold s c db1" by (rule untold_run [OF one Cons.prems(2) assms(3) Cons.prems(3)])
    ultimately show ?thesis using Cons.IH [of out1 db1 f1] Cons.prems(1) Inr t by auto
  qed simp
qed simp

lemma untold_event:
  assumes "deliver_event env adapters workspace_member_recipients (p, out, db) x = Inr (p', out', db')" "told (past @ out, db)"
    and "unsendable adapters s c" "untold s c db"
  shows "untold s c db'"
proof (cases "system_event_of db x")
  case None
  then show ?thesis using assms(1,4) by (auto simp: deliver_event_def store_outbox_def untold_def got_def)
next
  case (Some s')
  from assms(1) Some obtain f db1 where run: "run_steps (deliver_to env adapters s') (False, out, db) (workspace_member_recipients db s') = Inr (f, out', db1)"
      and db': "db' = settle env x s' f db1"
    by (auto simp: deliver_event_def result_simps)
  have "nd_notifications db' = nd_notifications db1" using settle_effect [of env x s' f db1] unfolding db' by blast
  then show ?thesis using untold_run [OF run assms(2-4)] by (simp add: untold_def got_def)
qed

lemma unsendable_pass:
  assumes "e \<in> set es" "told (past @ out, db)" "unsendable adapters s c" "untold s c db" "system_event_of db e = Some s"
    and "(c, r) \<in> set (workspace_member_recipients db s)"
  shows "\<exists>x. run_steps (deliver_event env adapters workspace_member_recipients) (p, out, db) es = Inl x"
  using assms(1,2,4-6)
proof (induction es arbitrary: p out db)
  case (Cons y es)
  show ?case
  proof (cases "deliver_event env adapters workspace_member_recipients (p, out, db) y")
    case (Inr t)
    obtain p1 out1 db1 where t: "t = (p1, out1, db1)" by (cases t) auto
    have "y \<noteq> e"
    proof
      assume "y = e"
      moreover obtain x where "run_steps (deliver_to env adapters s) (False, out, db) (workspace_member_recipients db s) = Inl x"
        using unsendable_raises [OF Cons.prems(5,2) assms(3) Cons.prems(3)] by blast
      ultimately show False using Inr Cons.prems(4) by (simp add: deliver_event_def)
    qed
    moreover note one = Inr [unfolded t]
    obtain evs where "nd_accounts db1 = nd_accounts db" "db_events (nd_trading db1) = db_events (nd_trading db) @ evs" "told (past @ out1, db1)"
      using deliver_event_effect [OF one Cons.prems(2)] by metis
    moreover from this have "system_event_of db1 e = Some s"
      using Cons.prems(4) by (simp add: system_event_of_def find_in_append)
    moreover have "untold s c db1" by (rule untold_event [OF one Cons.prems(2) assms(3) Cons.prems(3)])
    ultimately show ?thesis
      using Cons.IH [of out1 db1 p1] Cons.prems(1,5) recipients_cong [of db1 db s] Inr t by auto
  qed simp
qed simp


end
