(* ===== verification/Account_Examples.thy ===== *)
theory Account_Examples
  imports Database_Examples Notifications
begin

text \<open>
  A workspace with one owner and one disabled account: sessions, tickets and notifications at work. The
  properties of \<open>Access_Control\<close> and \<open>Notifications\<close> are applied to it.
\<close>

declare One_nat_def [simp del]

subsection \<open>A library that signs tokens\<close>

definition demo_jwt :: "('p \<Rightarrow> int option) \<Rightarrow> ('p \<Rightarrow> int option) \<Rightarrow> ('p, string \<times> 'p) jwt_library" where
  \<comment> \<open>a token is its secret and its payload\<close>
  "demo_jwt iat_of exp_of = \<lparr>jw_encode = Pair, jw_decode = (\<lambda>now secret (key, p).
     if key \<noteq> secret then Inl Invalid_token
     else case exp_of p of Some e \<Rightarrow> if e * second_ticks \<le> now then Inl Expired_signature else Inr p | None \<Rightarrow> Inr p)\<rparr>"

lemma demo_jwt_ok: "jwt_ok iat_of exp_of (demo_jwt iat_of exp_of)"
  by (simp add: jwt_ok_def demo_jwt_def)

abbreviation session_jwt :: "(session_payload, string \<times> session_payload) jwt_library" where
  "session_jwt \<equiv> demo_jwt sp_iat sp_exp"

abbreviation ticket_jwt :: "(ticket_payload, string \<times> ticket_payload) jwt_library" where
  "ticket_jwt \<equiv> demo_jwt tp_iat tp_exp"

subsection \<open>Accounts\<close>

definition owner :: app_user where
  "owner = \<lparr>au_id = 1, au_email = ''o'', au_display_name = ''Owner'', au_status = ''active'', au_subject = Some ''s1''\<rparr>"

definition leaver :: app_user where
  "leaver = \<lparr>au_id = 2, au_email = ''d'', au_display_name = ''Leaver'', au_status = ''disabled'', au_subject = Some ''s2''\<rparr>"

definition demo_accounts :: account_db where
  "demo_accounts = \<lparr>ac_next_id = 3, ac_users = [owner, leaver],
     ac_memberships = [\<lparr>um_workspace = 1, um_user = 1, um_role = ''owner''\<rparr>], ac_revocations = [], ac_workspaces = [(1, ''w'')]\<rparr>"

lemma demo_accounts_ok: "accounts_ok (t, demo_accounts)"
  by (simp add: accounts_ok_def demo_accounts_def owner_def leaver_def)

theorem revoked_sessions_stay_out_witness:
  "\<exists>why. require_authenticated_user session_jwt (Some ''k'') 9000000
     (Some (fst (issue_session_token session_jwt 500000 1 ''k'' 3600))) (revoke_sessions 2000000 1 1 demo_accounts) = Inl (401, why)"
proof -
  have "(account_step session_jwt)\<^sup>*\<^sup>* (2000000, revoke_sessions 2000000 1 1 demo_accounts) (9000000, revoke_sessions 2000000 1 1 demo_accounts)"
    by (intro r_into_rtranclp account_step.Routed route_step.Ticked) simp
  then show ?thesis
    by (intro revoked_sessions_stay_out [OF demo_jwt_ok, where ?t1.0 = 2000000]) (simp_all add: whole_second_def second_ticks_def)
qed

theorem sign_in_opens_a_session_witness:
  "\<exists>token u. sign_in session_jwt 500000 ''k'' 3600 ''s1'' ''o'' ''Owner'' demo_accounts = Inr (token, demo_accounts)
     \<and> require_authenticated_user session_jwt (Some ''k'') 9000000 (Some token) demo_accounts = Inr u \<and> au_subject u = Some ''s1''"
proof -
  have "sign_in session_jwt 500000 ''k'' 3600 ''s1'' ''o'' ''Owner'' demo_accounts =
      Inr (fst (issue_session_token session_jwt 500000 1 ''k'' 3600), demo_accounts)"
    by (simp add: sign_in_def resolve_or_create_app_user_def demo_accounts_def owner_def)
  moreover from sign_in_opens_a_session [OF demo_jwt_ok demo_accounts_ok this, of 9000000]
  have "\<exists>u. require_authenticated_user session_jwt (Some ''k'') 9000000 (Some (fst (issue_session_token session_jwt 500000 1 ''k'' 3600)))
      demo_accounts = Inr u \<and> au_subject u = Some ''s1'' \<and> au_status u = ''active''"
    by (simp add: whole_second_def second_ticks_def)
  ultimately show ?thesis by blast
qed

theorem disabled_accounts_stay_out_witness:
  "\<not> (\<exists>v. require_authenticated_user session_jwt (Some ''k'') 9000000
     (Some (fst (issue_session_token session_jwt 500000 2 ''k'' 3600))) demo_accounts = Inr v \<and> au_id v = 2)"
proof -
  have "leaver \<in> set (ac_users demo_accounts)" "au_status leaver = ''disabled''" "au_id leaver = 2"
    by (simp_all add: demo_accounts_def leaver_def)
  then show ?thesis
    using disabled_accounts_stay_out [OF demo_accounts_ok, of leaver session_jwt 0 0 demo_accounts] by auto
qed

theorem tickets_open_one_stream_witness:
  "\<exists>claims used1. verify_and_consume_ticket ticket_jwt 2000000 ''k'' (fst (issue_ticket ticket_jwt 500000 7 ''k'' 1 ''oanda'' ''USD_JPY'' ''1h'' 60)) []
       = (Inr claims, used1)
     \<and> (\<exists>code. fst (verify_and_consume_ticket ticket_jwt 9000000 ''k''
          (fst (issue_ticket ticket_jwt 500000 7 ''k'' 1 ''oanda'' ''USD_JPY'' ''1h'' 60)) used1) = Inl code)"
proof -
  have "(500000 :: int) \<le> 2000000" "2000000 < whole_second 500000 + 60 * second_ticks" "7 \<notin> fst ` set ([] :: used_tickets)"
    by (simp_all add: whole_second_def second_ticks_def)
  moreover have "ticket_step\<^sup>*\<^sup>* (2000000, used1) (9000000, used1)" for used1
    by (intro r_into_rtranclp ticket_step.Waited) simp
  ultimately show ?thesis using tickets_open_one_stream [OF demo_jwt_ok _ _ _ refl, of 500000 2000000 60 7 "[]" "''k''" 1 "''oanda''" "''USD_JPY''" "''1h''"] by blast
qed

subsection \<open>Notifications\<close>

definition demo_event :: system_event where
  "demo_event = \<lparr>se_id = 3, se_workspace = 1, se_occurred_at = 0, se_severity = ''error'', se_category = ''system'',
     se_event_type = ''bot_failed'', se_reason = None, se_source_type = ''trading_worker'', se_source_id = None, se_target_type = None,
     se_target_id = None, se_correlation = 4, se_message = [''bot''], se_payload = []\<rparr>"

definition demo_row :: outbox_event where
  "demo_row = \<lparr>ob_id = 5, ob_aggregate_type = ''trading_bot'', ob_aggregate_id = 6, ob_event_type = ''bot_failed'', ob_payload = [],
     ob_correlation = 4, ob_status = ''pending'', ob_attempts = 0, ob_available_at = 0, ob_published_at = None\<rparr>"

definition demo_notify :: notify_db where
  "demo_notify = \<lparr>nd_trading = demo_db\<lparr>db_events := [demo_event], db_outbox := [demo_row]\<rparr>, nd_accounts = demo_accounts, nd_notifications = []\<rparr>"

definition at_noon :: tx_env where
  "at_noon = \<lparr>env_now = 43200000000, env_column = pg_numeric18\<rparr>"

abbreviation no_mail :: "channel \<rightharpoonup> adapter" where
  "no_mail \<equiv> build_adapters None"

abbreviation bad_mail :: "channel \<rightharpoonup> adapter" where
  "bad_mail \<equiv> build_adapters (Some (\<lambda>_ _. Send_raised ''ValueError''))"

lemma demo_notify_ok: "told ([], demo_notify)" "outbox_ok demo_notify"
  by (simp_all add: told_def outbox_ok_def demo_notify_def demo_row_def demo_db_def max_attempts_def is_give_up_def give_up_event_type_def)

lemma demo_recipients: "workspace_member_recipients demo_notify demo_event = [(''in_app'', User_ref 1), (''email'', Address ''o'')]"
  by (simp add: workspace_member_recipients_def demo_notify_def demo_accounts_def owner_def leaver_def demo_event_def notified_roles_def)

lemma demo_claimed: "claim_pending_outbox_events at_noon (\<lambda>_. False) demo_notify = [demo_row]"
  by (simp add: claim_pending_outbox_events_def demo_notify_def demo_row_def at_noon_def batch_size_def)

lemma demo_system_event: "system_event_of demo_notify demo_row = Some demo_event"
  by (simp add: system_event_of_def demo_notify_def demo_row_def demo_event_def)

lemma demo_pass: "\<exists>n db'. deliver_pending_notifications at_noon no_mail workspace_member_recipients (\<lambda>_. False) demo_notify
    = ([(3, ''in_app'', User_ref 1)], Inr (n, db')) \<and> ob_status (hd (db_outbox (nd_trading db'))) = ''published''
      \<and> length (db_outbox (nd_trading db')) = 1"
proof -
  have "find_notification demo_notify 3 ''in_app'' (User_ref 1) = None" by (simp add: find_notification_def demo_notify_def)
  moreover have "se_id demo_event = 3" "db_outbox (nd_trading demo_notify) = [demo_row]" by (simp_all add: demo_event_def demo_notify_def)
  ultimately show ?thesis
    by (simp add: deliver_pending_notifications_def demo_claimed deliver_event_def demo_system_event demo_recipients deliver_to_def
        build_adapters_def ensure_notification_def notify_fresh_id_def fresh_id_def Let_def settle_def store_outbox_def store_notification_def)
qed

theorem nobody_is_told_twice_witness:
  "\<exists>db'. notify_step\<^sup>*\<^sup>* ([], demo_notify) ([(3, ''in_app'', User_ref 1)], db')
     \<and> (\<exists>n \<in> set (nd_notifications db'). nt_event n = 3 \<and> nt_recipient n = User_ref 1 \<and> received n)"
proof -
  obtain n db' where "deliver_pending_notifications at_noon no_mail workspace_member_recipients (\<lambda>_. False) demo_notify
      = ([(3, ''in_app'', User_ref 1)], Inr (n, db'))" using demo_pass by blast
  then have "notify_step ([], demo_notify) ([] @ [(3, ''in_app'', User_ref 1)], db')" by (rule notify_step.Delivered)
  then have steps: "notify_step\<^sup>*\<^sup>* ([], demo_notify) ([(3, ''in_app'', User_ref 1)], db')" by (intro r_into_rtranclp) simp
  then show ?thesis using nobody_is_told_twice [OF demo_notify_ok steps] by auto
qed

theorem published_means_delivered_witness:
  "\<exists>n db' s. deliver_pending_notifications at_noon no_mail workspace_member_recipients (\<lambda>_. False) demo_notify
      = ([(3, ''in_app'', User_ref 1)], Inr (n, db')) \<and> s \<in> set (db_events (nd_trading db')) \<and> se_correlation s = 4"
proof -
  obtain n db' where pass: "deliver_pending_notifications at_noon no_mail workspace_member_recipients (\<lambda>_. False) demo_notify
      = ([(3, ''in_app'', User_ref 1)], Inr (n, db'))" and row: "ob_status (hd (db_outbox (nd_trading db'))) = ''published''"
      "length (db_outbox (nd_trading db')) = 1"
    using demo_pass by blast
  have claimed: "demo_row \<in> set (claim_pending_outbox_events at_noon (\<lambda>_. False) demo_notify)" by (simp add: demo_claimed)
  obtain x where "db_outbox (nd_trading db') = [x]" using row(2) by (cases "db_outbox (nd_trading db')") auto
  then show ?thesis
    using published_means_delivered [OF pass demo_notify_ok claimed] row(1) pass by (auto simp: demo_row_def)
qed


end
