(* ===== verification/Market_Reports.thy ===== *)
theory Market_Reports
  imports Market_Collection Outage_Alerts
begin

text \<open>
  What watches the market data (\<open>app/market_data/application\<close>): the check that the worker keeps up with the
  subscriptions (\<open>worker_watchdog.py\<close>), the report of missing candles (\<open>gap_reports.py\<close>), and the observed
  spreads with their sampled history (\<open>spread_tracking.py\<close>).
\<close>

subsection \<open>The watchdog\<close>

definition market_watchdog_event_type :: string where
  "market_watchdog_event_type = ''market_data_worker_stalled''"

definition find_overdue_subscriptions ::
  "market_db \<Rightarrow> datetime \<Rightarrow> timedelta \<Rightarrow> uuid option \<Rightarrow> (uuid \<times> string \<times> string \<times> datetime) list" where
  "find_overdue_subscriptions db now overdue_after workspace =
     sort_key (\<lambda>(_, _, _, due). due)
       [(fk_workspace (wf_feed s), i_symbol i, fk_timeframe (wf_feed s), wf_next_run s).
          s \<leftarrow> md_subscriptions db, i \<leftarrow> at_instruments (md_access db), i_id i = fk_instrument (wf_feed s),
          sb_enabled s \<and> sb_blocked s = None \<and> wf_next_run s < now - overdue_after
            \<and> (case workspace of None \<Rightarrow> True | Some w \<Rightarrow> fk_workspace (wf_feed s) = w)]"

definition overdue_label :: "uuid \<times> string \<times> string \<times> datetime \<Rightarrow> stalled" where
  "overdue_label = (\<lambda>(w, symbol, timeframe, due). (w, symbol @ '' '' @ timeframe, due))"

definition market_worker_alert :: "tx_env \<Rightarrow> timedelta \<Rightarrow> uuid \<Rightarrow> (string \<times> datetime) list \<Rightarrow> trading_db \<Rightarrow> trading_db" where
  \<comment> \<open>of the message its parts, without the number of minutes\<close>
  "market_worker_alert env overdue_after workspace overdue db =
     snd (publish_system_event env workspace ''error'' ''market_data'' market_watchdog_event_type (Some ''worker_stalled'')
       (market_watchdog_event_type # take 5 (map fst overdue) @ (if 5 < length overdue then [''others''] else []))
       [(''overdue'', D_list (map (\<lambda>x. D_text (fst x)) overdue)),
        (''oldest_due'', D_time (seq_min (map snd overdue))),
        (''overdue_after_seconds'', D_int \<lfloor>total_seconds overdue_after\<rfloor>)]
       ''workspace'' workspace ''watchdog'' None None None None db)"

definition check_market_data_worker :: "tx_env \<Rightarrow> datetime \<Rightarrow> timedelta \<Rightarrow> market_db \<Rightarrow> nat \<times> market_db" where
  "check_market_data_worker env now overdue_after db =
     (let rows = map overdue_label (find_overdue_subscriptions db now overdue_after None);
          (alerted, t) = alert_all market_watchdog_event_type (market_worker_alert env overdue_after) rows (md_trading db)
      in (alerted, db\<lparr>md_trading := t\<rparr>))"

interpretation market_watchdog: outage_alerts market_watchdog_event_type "market_worker_alert env overdue_after" "env_now env" db_bots
  by unfold_locales (simp_all add: market_worker_alert_def alerts_of_def publish_system_event_def fresh_id_def Let_def)

text \<open>
  No overdue subscription goes unnoticed: after a check, the workspace of every subscription that is
  enabled, not blocked and has been due for longer than allowed has an alert no older than the time at
  which that subscription was due.
\<close>

theorem overdue_subscriptions_are_reported:
  assumes "check_market_data_worker env now overdue_after db = (n, db')" "now - overdue_after \<le> env_now env"
    and "s \<in> set (md_subscriptions db)" "i \<in> set (at_instruments (md_access db))" "i_id i = fk_instrument (wf_feed s)"
    and "sb_enabled s" "sb_blocked s = None" "wf_next_run s < now - overdue_after"
  shows "\<exists>t. last_alert market_watchdog_event_type (md_trading db') (fk_workspace (wf_feed s)) = Some t \<and> wf_next_run s \<le> t"
proof -
  let ?rows = "find_overdue_subscriptions db now overdue_after None"
  obtain t where t: "alert_all market_watchdog_event_type (market_worker_alert env overdue_after) (map overdue_label ?rows) (md_trading db) = (n, t)"
      "db' = db\<lparr>md_trading := t\<rparr>"
    using assms(1) by (auto simp: check_market_data_worker_def Let_def split: prod.splits)
  have "(fk_workspace (wf_feed s), i_symbol i, fk_timeframe (wf_feed s), wf_next_run s) \<in> set ?rows"
    using assms(3-8) by (auto simp: find_overdue_subscriptions_def)
  then have "(fk_workspace (wf_feed s), i_symbol i @ '' '' @ fk_timeframe (wf_feed s), wf_next_run s) \<in> set (map overdue_label ?rows)"
    by (force simp: overdue_label_def)
  from market_watchdog.row_reported [OF t(1) this] show ?thesis using assms(2,8) t(2) by simp
qed

subsection \<open>Missing candles\<close>

record gap_report =
  gp_gap :: gap_row
  gp_symbol :: string
  gp_exchange :: string
  gp_latest_job :: "worker_backfill option"
  gp_bots :: "string list"

definition can_backfill :: "gap_report \<Rightarrow> bool" where
  "can_backfill r \<longleftrightarrow> gr_status (gp_gap r) = ''open'' \<and> gp_exchange r \<noteq> ''binance_public''
     \<and> (case gp_latest_job r of None \<Rightarrow> True | Some job \<Rightarrow> bf_status job \<notin> {''queued'', ''running''})"

definition visible_gaps :: "market_db \<Rightarrow> uuid \<Rightarrow> (gap_row \<times> string \<times> string) list" where
  "visible_gaps db workspace_id =
     [(g, i_symbol i, xs_code e). g \<leftarrow> md_gaps db, i \<leftarrow> at_instruments (md_access db), i_id i = gr_instrument g,
        e \<leftarrow> at_exchanges (md_access db), xs_id e = i_exchange i,
        xs_code e = ''binance_public'' \<or> gr_instrument g \<in> set (readable_instrument_ids (md_access db) workspace_id)]"

definition latest_jobs :: "market_db \<Rightarrow> uuid \<Rightarrow> uuid list \<Rightarrow> uuid \<rightharpoonup> worker_backfill" where
  "latest_jobs db workspace_id gap_ids =
     foldl (\<lambda>m job. case bf_gap job of Some g \<Rightarrow> m(g \<mapsto> job) | None \<Rightarrow> m) Map.empty
       (sort_key bf_created (filter (\<lambda>b. fk_workspace (wf_feed b) = workspace_id
          \<and> (case bf_gap b of Some g \<Rightarrow> g \<in> set gap_ids | None \<Rightarrow> False)) (md_backfills db)))"

definition affected_bots :: "market_db \<Rightarrow> uuid \<Rightarrow> uuid \<Rightarrow> string list" where
  \<comment> \<open>the entry of an instrument\<close>
  "affected_bots db workspace_id instrument_id =
     sort (map b_name (filter (\<lambda>b. b_workspace b = workspace_id \<and> b_instrument b = instrument_id \<and> b_actual b \<in> {Running, Paused})
       (db_bots (md_trading db))))"

definition max_page_size :: int where "max_page_size = 200"

definition list_gaps ::
  "market_db \<Rightarrow> uuid \<Rightarrow> string list \<Rightarrow> uuid option \<Rightarrow> string option \<Rightarrow> int \<Rightarrow> nat \<Rightarrow> nat \<times> gap_report list" where
  "list_gaps db workspace_id statuses instrument_id timeframe limit offset =
     (let limit' = nat (max 1 (min limit max_page_size));
          base = filter (\<lambda>(g, _, _). (statuses = [] \<or> gr_status g \<in> set statuses)
             \<and> (case instrument_id of None \<Rightarrow> True | Some i \<Rightarrow> gr_instrument g = i)
             \<and> (case timeframe of None \<Rightarrow> True | Some tf \<Rightarrow> gr_timeframe g = tf)) (visible_gaps db workspace_id);
          rows = take limit' (drop offset (sort_key (\<lambda>(g, _, _). (- gr_from g, gr_id g)) base));
          jobs = latest_jobs db workspace_id (map (\<lambda>(g, _, _). gr_id g) rows)
      in (length base,
          map (\<lambda>(g, symbol, code). \<lparr>gp_gap = g, gp_symbol = symbol, gp_exchange = code, gp_latest_job = jobs (gr_id g),
            gp_bots = affected_bots db workspace_id (gr_instrument g)\<rparr>) rows))"

record gap_summary =
  gy_instrument :: uuid
  gy_symbol :: string
  gy_exchange :: string
  gy_timeframe :: string
  gy_open_count :: nat
  gy_open_missing :: nat
  gy_ignored_count :: nat
  gy_resolved_count :: nat

definition gap_group :: "gap_row \<times> string \<times> string \<Rightarrow> uuid \<times> string \<times> string \<times> string" where
  "gap_group = (\<lambda>(g, symbol, code). (gr_instrument g, symbol, code, gr_timeframe g))"

definition summarize_group :: "(gap_row \<times> string \<times> string) list \<Rightarrow> uuid \<times> string \<times> string \<times> string \<Rightarrow> gap_summary" where
  "summarize_group rows = (\<lambda>(instrument, symbol, code, timeframe).
     let gaps = map fst (filter (\<lambda>r. gap_group r = (instrument, symbol, code, timeframe)) rows);
         in_status = (\<lambda>st. filter (\<lambda>g. gr_status g = st) gaps)
     in \<lparr>gy_instrument = instrument, gy_symbol = symbol, gy_exchange = code, gy_timeframe = timeframe,
       gy_open_count = length (in_status ''open''), gy_open_missing = sum_list (map gr_missing (in_status ''open'')),
       gy_ignored_count = length (in_status ''ignored''), gy_resolved_count = length (in_status ''resolved'')\<rparr>)"

definition summarize_gaps :: "market_db \<Rightarrow> uuid \<Rightarrow> gap_summary list" where
  "summarize_gaps db workspace_id =
     (let rows = visible_gaps db workspace_id
      in sort_key (\<lambda>s. (- int (gy_open_missing s), gy_symbol s, gy_timeframe s))
           (map (summarize_group rows) (remdups (map gap_group rows))))"

lemma visible_row:
  "(g, symbol, code) \<in> set (visible_gaps db w) \<Longrightarrow> \<exists>i e. g \<in> set (md_gaps db) \<and> i \<in> set (at_instruments (md_access db))
     \<and> i_id i = gr_instrument g \<and> e \<in> set (at_exchanges (md_access db)) \<and> xs_id e = i_exchange i \<and> code = xs_code e
     \<and> (xs_code e = ''binance_public'' \<or> gr_instrument g \<in> set (readable_instrument_ids (md_access db) w))"
  unfolding visible_gaps_def by (simp add: if_distrib [of set] cong: if_cong) blast

lemma in_concat_map: "x \<in> set (concat (map f xs)) \<longleftrightarrow> (\<exists>a \<in> set xs. x \<in> set (f a))"
  by auto

lemma readable_ids:
  assumes "j \<in> set (readable_instrument_ids db w)"
  shows "instrument_is_readable db w j"
proof -
  define named where "named = [i_id i. i \<leftarrow> at_instruments db, e \<leftarrow> at_exchanges db, i_exchange i = xs_id e,
        _ \<leftarrow> restrict_to_selected_account db w e, i_id i = j \<and> mi_status i = ''active'']"
  obtain i e row where i: "i \<in> set (at_instruments db)" "j = i_id i" "mi_status i = ''active''"
      and e: "e \<in> set (at_exchanges db)" "i_exchange i = xs_id e" "row \<in> set (restrict_to_selected_account db w e)"
    using assms unfolding readable_instrument_ids_def
    unfolding in_concat_map by (elim bexE) (auto simp only: in_concat_map list.set empty_iff insert_iff split: if_splits)
  have "j \<in> set named"
    unfolding named_def in_concat_map
    by (rule bexI [OF _ i(1)], rule bexI [OF _ e(1)]) (subst if_P [OF e(2)], unfold in_concat_map, rule bexI [OF _ e(3)], simp add: i)
  then have "named \<noteq> []" by auto
  then show ?thesis unfolding instrument_is_readable_def named_def .
qed

lemma readable_workspace: "instrument_is_readable db w i \<Longrightarrow> find (\<lambda>x. ws_id x = w) (at_workspaces db) \<noteq> None"
  by (auto simp: instrument_is_readable_def restrict_to_selected_account_def find_None_iff)

lemma listed_row:
  assumes "list_gaps db workspace_id statuses instrument_id timeframe limit offset = (found, rows)" "r \<in> set rows"
  shows "(gp_gap r, gp_symbol r, gp_exchange r) \<in> set (visible_gaps db workspace_id)"
  using assms by (auto simp: list_gaps_def Let_def dest!: in_set_takeD in_set_dropD)

lemma code_unique:
  assumes "distinct (map i_id (at_instruments db))" "distinct (map xs_id (at_exchanges db))"
    and "i \<in> set (at_instruments db)" "e \<in> set (at_exchanges db)" "xs_id e = i_exchange i"
  shows "exchange_code_of db (i_id i) = Some (xs_code e)"
proof -
  define codes where "codes = [xs_code e. i' \<leftarrow> at_instruments db, i_id i' = i_id i, e \<leftarrow> at_exchanges db, xs_id e = i_exchange i']"
  have "set codes = xs_code ` {x \<in> set (at_exchanges db). \<exists>j \<in> set (at_instruments db). i_id j = i_id i \<and> xs_id x = i_exchange j}"
    unfolding codes_def by (simp add: if_distrib [of set] cong: if_cong) blast
  also have "{x \<in> set (at_exchanges db). \<exists>j \<in> set (at_instruments db). i_id j = i_id i \<and> xs_id x = i_exchange j} = {e}"
  proof -
    have "j = i" if "j \<in> set (at_instruments db)" "i_id j = i_id i" for j
      using assms(1,3) that by (simp add: distinct_map inj_on_def)
    moreover have "x = e" if "x \<in> set (at_exchanges db)" "xs_id x = i_exchange i" for x
      using assms(2,4,5) that by (simp add: distinct_map inj_on_def)
    ultimately show ?thesis using assms(3-5) by blast
  qed
  finally have "set codes = {xs_code e}" by simp
  moreover from this obtain rest where "codes = xs_code e # rest" by (cases codes) auto
  moreover have "exchange_code_of db (i_id i) = (case codes of [] \<Rightarrow> None | c # _ \<Rightarrow> Some c)"
    unfolding exchange_code_of_def codes_def ..
  ultimately show ?thesis by simp
qed

text \<open>
  An offer can be taken: when the report says that a listed gap can be filled from here, queueing the
  backfill of this gap for the workspace succeeds, provided the credentials can be used, no other
  backfill of the range is under way, and the range is within a year; the job is for this gap and covers
  it with a candle on either side.
\<close>

theorem offered_gaps_can_be_queued:
  assumes "list_gaps db workspace_id statuses instrument_id timeframe limit offset = (found, rows)" "r \<in> set rows" "can_backfill r"
    and "distinct (map gr_id (md_gaps db))" "distinct (map i_id (at_instruments (md_access db)))" "distinct (map xs_id (at_exchanges (md_access db)))"
    and "timeframe_delta (gr_timeframe (gp_gap r)) = Inr delta" "gr_to (gp_gap r) - gr_from (gp_gap r) + 2 * delta \<le> days 365"
    and "check_access cfg db workspace_id (gr_instrument (gp_gap r)) = Inr ()"
    and "\<not> overlapping_backfill db \<lparr>fk_workspace = workspace_id, fk_instrument = gr_instrument (gp_gap r), fk_timeframe = gr_timeframe (gp_gap r)\<rparr>
          (gr_from (gp_gap r) - delta) (gr_to (gp_gap r) + delta)"
  shows "\<exists>job db'. enqueue_gap_backfill cfg env workspace_id (gr_id (gp_gap r)) db = Inr (job, db') \<and> bf_gap job = Some (gr_id (gp_gap r))
    \<and> bf_status job = ''queued'' \<and> bf_from job = gr_from (gp_gap r) - delta \<and> bf_to job = gr_to (gp_gap r) + delta"
proof -
  let ?g = "gp_gap r"
  obtain i e where ie: "?g \<in> set (md_gaps db)" "i \<in> set (at_instruments (md_access db))" "i_id i = gr_instrument ?g"
      "e \<in> set (at_exchanges (md_access db))" "xs_id e = i_exchange i" "gp_exchange r = xs_code e"
      "xs_code e = ''binance_public'' \<or> gr_instrument ?g \<in> set (readable_instrument_ids (md_access db) workspace_id)"
    using visible_row [OF listed_row [OF assms(1,2)]] by blast
  have "xs_code e \<noteq> ''binance_public''" "gr_status ?g = ''open''" using assms(3) ie(6) by (simp_all add: can_backfill_def)
  then have readable: "instrument_is_readable (md_access db) workspace_id (gr_instrument ?g)" using ie(7) readable_ids by blast
  have "\<not> is_research_instrument db (gr_instrument ?g)"
    using code_unique [OF assms(5,6) ie(2,4,5)] ie(3) \<open>xs_code e \<noteq> ''binance_public''\<close> by (simp add: is_research_instrument_def)
  moreover have "find (\<lambda>g. gr_id g = gr_id ?g) (md_gaps db) = Some ?g" by (rule find_unique [OF assms(4) ie(1)])
  moreover have "find (\<lambda>w. ws_id w = workspace_id) (at_workspaces (md_access db)) \<noteq> None" by (rule readable_workspace [OF readable])
  moreover have "\<not> days 365 < gr_to ?g + delta - (gr_from ?g - delta)" using assms(8) by simp
  moreover note readable \<open>gr_status ?g = ''open''\<close> assms(7,9,10)
  ultimately show ?thesis
    by (simp add: enqueue_gap_backfill_def require_workspace_def require_instrument_access_def ensure_no_overlapping_backfill_def
        raise_if_def Let_def) (simp add: split_beta new_backfill_def Let_def)
qed

subsection \<open>Spreads\<close>

record spread_row =
  sw_instrument :: uuid
  sw_bid :: decimal
  sw_ask :: decimal
  sw_observed_at :: datetime
  sw_source :: string

record spread_tables =
  st_current :: "spread_row list"
  st_history :: "spread_row list"

definition history_min_interval :: timedelta where
  "history_min_interval = seconds 300"

definition upsert_spread :: "spread_row \<Rightarrow> spread_row list \<Rightarrow> spread_row list" where
  \<comment> \<open>a newer observation replaces the row of the instrument\<close>
  "upsert_spread x rows =
     (if list_ex (\<lambda>r. sw_instrument r = sw_instrument x) rows
      then map (\<lambda>r. if sw_instrument r = sw_instrument x \<and> sw_observed_at r < sw_observed_at x then x else r) rows
      else rows @ [x])"

definition insert_history :: "spread_row \<Rightarrow> spread_row list \<Rightarrow> spread_row list" where
  "insert_history x rows =
     (if list_ex (\<lambda>r. sw_instrument r = sw_instrument x \<and> sw_observed_at x - history_min_interval < sw_observed_at r) rows
      then rows else rows @ [x])"

definition record_spread_observation ::
  "tx_env \<Rightarrow> bool \<Rightarrow> uuid \<Rightarrow> decimal \<Rightarrow> decimal \<Rightarrow> datetime \<Rightarrow> string \<Rightarrow> spread_tables \<Rightarrow> spread_tables" where
  \<comment> \<open>two transactions; whether the database refuses the second is an argument\<close>
  "record_spread_observation env history_fails instrument bid ask observed_at source db =
     (let x = \<lparr>sw_instrument = instrument, sw_bid = env_column env bid, sw_ask = env_column env ask, sw_observed_at = observed_at,
            sw_source = source\<rparr>;
          db1 = db\<lparr>st_current := upsert_spread x (st_current db)\<rparr>
      in if history_fails then db1 else db1\<lparr>st_history := insert_history x (st_history db1)\<rparr>)"

definition spaced :: "spread_row list \<Rightarrow> bool" where
  "spaced rows \<longleftrightarrow> sorted_wrt (\<lambda>a b. sw_instrument a = sw_instrument b \<longrightarrow> sw_observed_at a + history_min_interval \<le> sw_observed_at b) rows"

definition observe :: "spread_tables \<Rightarrow> tx_env \<times> bool \<times> spread_row \<Rightarrow> spread_tables" where
  "observe db = (\<lambda>(env, history_fails, x). record_spread_observation env history_fails (sw_instrument x) (sw_bid x) (sw_ask x)
     (sw_observed_at x) (sw_source x) db)"

lemma insert_spaced: "spaced rows \<Longrightarrow> spaced (insert_history x rows)"
  by (auto simp: spaced_def insert_history_def sorted_wrt_append list_ex_iff)

lemma upsert_newest:
  assumes "distinct (map sw_instrument rows)" "r \<in> set (upsert_spread x rows)" "sw_instrument r = sw_instrument x"
  shows "sw_observed_at r = (case find (\<lambda>r. sw_instrument r = sw_instrument x) rows of
     None \<Rightarrow> sw_observed_at x | Some r0 \<Rightarrow> max (sw_observed_at r0) (sw_observed_at x))"
proof (cases "find (\<lambda>r. sw_instrument r = sw_instrument x) rows")
  case None
  then have "\<not> list_ex (\<lambda>r. sw_instrument r = sw_instrument x) rows" by (auto simp: find_None_iff list_ex_iff)
  then have "r = x" using assms(2,3) \<open>\<not> list_ex _ rows\<close> by (auto simp: upsert_spread_def list_ex_iff)
  then show ?thesis using None by simp
next
  case (Some r0)
  then have r0: "r0 \<in> set rows" "sw_instrument r0 = sw_instrument x" by (auto simp: find_Some_iff)
  have only: "z = r0" if "z \<in> set rows" "sw_instrument z = sw_instrument x" for z
    using assms(1) that r0 by (simp add: distinct_map inj_on_def)
  have "list_ex (\<lambda>r. sw_instrument r = sw_instrument x) rows" using r0 unfolding list_ex_iff by blast
  then obtain z where z: "z \<in> set rows" "r = (if sw_instrument z = sw_instrument x \<and> sw_observed_at z < sw_observed_at x then x else z)"
    using assms(2) by (auto simp: upsert_spread_def)
  then have "z = r0" using only assms(3) by (cases "sw_instrument z = sw_instrument x") simp_all
  then show ?thesis using z(2) r0(2) Some by (simp add: max_def)
qed

lemma upsert_instruments:
  "sw_instrument ` set (upsert_spread x rows) = insert (sw_instrument x) (sw_instrument ` set rows)"
  "distinct (map sw_instrument rows) \<Longrightarrow> distinct (map sw_instrument (upsert_spread x rows))"
proof -
  have same: "map sw_instrument (map (\<lambda>r. if sw_instrument r = sw_instrument x \<and> sw_observed_at r < sw_observed_at x then x else r) rows)
      = map sw_instrument rows" by auto
  have known: "list_ex (\<lambda>r. sw_instrument r = sw_instrument x) rows \<longleftrightarrow> sw_instrument x \<in> set (map sw_instrument rows)"
    unfolding list_ex_iff set_map by (metis image_iff)
  have names: "map sw_instrument (upsert_spread x rows)
      = (if sw_instrument x \<in> set (map sw_instrument rows) then map sw_instrument rows else map sw_instrument rows @ [sw_instrument x])"
    unfolding upsert_spread_def known using same by (simp del: map_map)
  have "set (map sw_instrument (upsert_spread x rows)) = insert (sw_instrument x) (set (map sw_instrument rows))"
    unfolding names by auto
  then show "sw_instrument ` set (upsert_spread x rows) = insert (sw_instrument x) (sw_instrument ` set rows)" by simp
  show "distinct (map sw_instrument rows) \<Longrightarrow> distinct (map sw_instrument (upsert_spread x rows))"
    unfolding names by simp
qed

lemma upsert_other: "r \<in> set (upsert_spread x rows) \<Longrightarrow> sw_instrument r \<noteq> sw_instrument x \<Longrightarrow> r \<in> set rows"
  by (auto simp: upsert_spread_def split: if_splits)

text \<open>
  Out of any sequence of observations, in any order and with any failures of the history, the current
  row of an instrument is the newest observation of it, and the history holds rows in time order at
  least five minutes apart.
\<close>

theorem spreads_are_newest_and_spaced:
  assumes "foldl observe \<lparr>st_current = [], st_history = []\<rparr> obs = db"
  shows "spaced (st_history db) \<and> distinct (map sw_instrument (st_current db))
    \<and> (\<forall>r \<in> set (st_current db). sw_observed_at r = Max (sw_observed_at ` {x \<in> snd ` snd ` set obs. sw_instrument x = sw_instrument r}))
    \<and> sw_instrument ` set (st_current db) = sw_instrument ` snd ` snd ` set obs"
proof -
  let ?seen = "\<lambda>i obs. sw_observed_at ` {x \<in> snd ` snd ` set obs. sw_instrument x = i}"
  have "spaced (st_history db) \<and> distinct (map sw_instrument (st_current db))
    \<and> sw_instrument ` set (st_current db) = sw_instrument ` snd ` snd ` set obs
    \<and> (\<forall>r \<in> set (st_current db). sw_observed_at r = Max (?seen (sw_instrument r) obs))"
    using assms
  proof (induction obs arbitrary: db rule: rev_induct)
    case (snoc o' obs)
    obtain env fails x where o': "o' = (env, fails, x)" by (cases o') auto
    define db0 where "db0 = foldl observe \<lparr>st_current = [], st_history = []\<rparr> obs"
    have IH: "spaced (st_history db0)" "distinct (map sw_instrument (st_current db0))"
        "sw_instrument ` set (st_current db0) = sw_instrument ` snd ` snd ` set obs"
        "\<And>r. r \<in> set (st_current db0) \<Longrightarrow> sw_observed_at r = Max (?seen (sw_instrument r) obs)"
      using snoc.IH [OF db0_def [symmetric]] by blast+
    define y where "y = \<lparr>sw_instrument = sw_instrument x, sw_bid = env_column env (sw_bid x), sw_ask = env_column env (sw_ask x),
      sw_observed_at = sw_observed_at x, sw_source = sw_source x\<rparr>"
    have y: "sw_instrument y = sw_instrument x" "sw_observed_at y = sw_observed_at x" by (simp_all add: y_def)
    have db: "st_current db = upsert_spread y (st_current db0)" "st_history db = (if fails then st_history db0 else insert_history y (st_history db0))"
    proof -
      have "db = observe db0 (env, fails, x)" using snoc.prems by (simp only: foldl_append foldl.simps db0_def o')
      then show "st_current db = upsert_spread y (st_current db0)" "st_history db = (if fails then st_history db0 else insert_history y (st_history db0))"
        by (simp_all add: observe_def record_spread_observation_def y_def Let_def)
    qed
    have "sw_observed_at r = Max (?seen (sw_instrument r) (obs @ [o']))" if r: "r \<in> set (st_current db)" for r
    proof (cases "sw_instrument r = sw_instrument x")
      case False
      then have "{z \<in> snd ` snd ` set (obs @ [o']). sw_instrument z = sw_instrument r} = {z \<in> snd ` snd ` set obs. sw_instrument z = sw_instrument r}"
        by (auto simp: o')
      then show ?thesis using IH(4) [OF upsert_other] r False by (simp add: db(1) y)
    next
      case True
      have seen: "?seen (sw_instrument r) (obs @ [o']) = insert (sw_observed_at x) (?seen (sw_instrument r) obs)" using True by (auto simp: o')
      have newest: "sw_observed_at r = (case find (\<lambda>r. sw_instrument r = sw_instrument y) (st_current db0) of
          None \<Rightarrow> sw_observed_at y | Some r0 \<Rightarrow> max (sw_observed_at r0) (sw_observed_at y))"
        by (rule upsert_newest [OF IH(2)]) (use r True in \<open>simp_all add: db(1) y\<close>)
      show ?thesis
      proof (cases "find (\<lambda>r. sw_instrument r = sw_instrument y) (st_current db0)")
        case None
        then have "sw_instrument x \<notin> sw_instrument ` set (st_current db0)" using y(1) by (auto simp: find_None_iff)
        then have "\<forall>z \<in> snd ` snd ` set obs. sw_instrument z \<noteq> sw_instrument x" unfolding IH(3) by (metis imageI)
        then have none: "?seen (sw_instrument r) obs = {}" unfolding True by blast
        have "Max (?seen (sw_instrument r) (obs @ [o'])) = sw_observed_at x" unfolding seen none by simp
        moreover have "sw_observed_at r = sw_observed_at x" using newest [unfolded None] by (simp only: y option.case)
        ultimately show ?thesis by (simp only:)
      next
        case (Some r0)
        then have r0: "r0 \<in> set (st_current db0)" "sw_instrument r0 = sw_instrument r"
          using True y(1) by (auto simp: find_Some_iff)
        then have "sw_instrument r \<in> sw_instrument ` snd ` snd ` set obs" using IH(3) by (metis image_eqI)
        then obtain z where z: "sw_instrument r = sw_instrument z" "z \<in> snd ` snd ` set obs" by (rule imageE)
        then have "sw_observed_at z \<in> ?seen (sw_instrument r) obs" by (intro imageI CollectI conjI) (simp_all only:)
        then have "?seen (sw_instrument r) obs \<noteq> {}" by (metis empty_iff)
        moreover have "finite (?seen (sw_instrument r) obs)" by (intro finite_imageI finite_Collect_conjI disjI1) simp
        ultimately have "Max (insert (sw_observed_at x) (?seen (sw_instrument r) obs)) = max (sw_observed_at x) (Max (?seen (sw_instrument r) obs))"
          by (intro Max_insert)
        moreover have "Max (?seen (sw_instrument r) obs) = sw_observed_at r0" using IH(4) [OF r0(1)] unfolding r0(2) by (rule sym)
        ultimately have "Max (?seen (sw_instrument r) (obs @ [o'])) = max (sw_observed_at x) (sw_observed_at r0)"
          unfolding seen by (rule trans [OF _ arg_cong])
        moreover have "sw_observed_at r = max (sw_observed_at r0) (sw_observed_at x)" using newest [unfolded Some] by (simp only: y option.case)
        ultimately show ?thesis by (simp only: max.commute)
      qed
    qed
    moreover have "spaced (st_history db)" using IH(1) insert_spaced by (simp add: db(2))
    moreover have "distinct (map sw_instrument (st_current db))" using upsert_instruments(2) [OF IH(2)] by (simp add: db(1))
    moreover have "sw_instrument ` set (st_current db) = sw_instrument ` snd ` snd ` set (obs @ [o'])"
      using IH(3) by (simp add: db(1) upsert_instruments(1) y o')
    ultimately show ?case by blast
  qed (simp add: spaced_def)
  then show ?thesis by blast
qed

end
