(* ===== verification/Spec2Isabelle.thy ===== *)
theory Spec2Isabelle
  imports Replay_Examples Bot_Examples Ledger_Examples Market_Examples Account_Examples Market_Reports
begin

text \<open>
  A verification development for AI System Trading, a Python service that backtests trading strategies,
  runs them as bots on paper accounts, and collects the market data both need.

  \<^bold>\<open>The program.\<close> A signal generator reads the last candles of an instrument and answers buy, sell or
  hold. The Risk Gate turns a buy or sell into an allowed quantity or a denial. The order flow fills
  the order against the latest candle, nets it into the account's position, and books the ledger. A
  halt blocks new entries of a bot, an account or a workspace until it is relaxed or released. A bot is
  a row that commands start, pause, resume and stop, and that a worker evaluates once per bar; a bot that
  keeps failing is stopped, records that do not reconcile stop their account, and a watchdog tells of a
  worker that stands still. The backtest replays the same signal, gate and fill arithmetic over a stored
  candle series in memory. The candles come from a second worker, which claims feeds under leases, fetches
  them page by page and keeps account of the gaps. Events go out through an outbox to the members of a
  workspace.

  \<^bold>\<open>The theories.\<close> Paths are under \<open>app/\<close>.
  \<^item> \<open>Rounding\<close>, \<open>Decimal_Context\<close>: half-even rounding of rationals to a number of digits; \<open>Decimal\<close>
    operations are the rational operation rounded to 28 digits (\<open>dadd\<close>, \<open>dmul\<close>, \<open>ddiv\<close>, ...), \<open>float\<close>
    values are rationals rounded to 53 bits (\<open>fround\<close>).
  \<^item> \<open>Trading_Prelude\<close>: the result monad (a raise is \<open>Inl\<close> of its code or message), loops as
    \<open>run_steps\<close>, slices, clock values (\<open>datetime\<close> is an int number of microseconds), and the locales
    \<open>loop_progress\<close> (what a loop keeps) and \<open>state_machine\<close> (what reachable states keep).
  \<^item> \<open>Market\<close>, \<open>Indicators\<close>, \<open>Signals\<close>: \<open>models/market_data.py\<close>, \<open>models/instruments.py\<close>,
    \<open>exchanges/types.py\<close>, \<open>indicators.py\<close>, the generators and \<open>live_strategies.py\<close>.
  \<^item> \<open>Fills\<close>, \<open>Risk_Gate\<close>, \<open>Replay\<close>, \<open>Metrics\<close>, \<open>Walk_Forward\<close>: \<open>backtest_fill.py\<close>, the pure half of
    \<open>risk_gate.py\<close>, \<open>backtest_replay.py\<close>, \<open>backtest_metrics.py\<close>, \<open>backtest_walk_forward.py\<close>, all under
    \<open>trading/application\<close>. The mutable \<open>_ReplayState\<close> is a record that each step returns updated.
  \<^item> \<open>Trading_Db\<close>: the rows of \<open>models\<close> the trading code touches; a table is the list of its rows,
    the database a record of tables, a transaction a function that raises or returns the database it
    leaves. The locale \<open>numeric_column\<close> states what the code relies on from a \<open>numeric(38, 18)\<close> column;
    it is interpreted on the rounding PostgreSQL documents.
  \<^item> \<open>Trading_Halts\<close>: \<open>publish_event.py\<close>, \<open>trading_halt.py\<close> and the release routes; \<open>Accounts\<close>:
    \<open>account_valuation.py\<close>, \<open>account_funding.py\<close>; \<open>Order_Flow\<close>: \<open>order_flow.py\<close>.
  \<^item> \<open>Risk_Evaluation\<close>: the database half of \<open>risk_gate.py\<close> and \<open>risk_locks.py\<close>; \<open>Bot_Evaluation\<close>:
    \<open>bot_evaluation.py\<close>; \<open>Bot_Lifecycle\<close>: \<open>bot_lifecycle.py\<close>; \<open>Emergency_Stop\<close>: \<open>emergency_stop.py\<close>;
    \<open>Execution_Loop\<close>: \<open>bot_execution_loop.py\<close>.
  \<^item> \<open>Outage_Alerts\<close>: the alerting the two watchdogs share, as the locale \<open>outage_alerts\<close>;
    \<open>Worker_Watchdog\<close>: \<open>trading/application/worker_watchdog.py\<close>; \<open>Ledger_Reconciliation\<close>:
    \<open>ledger_reconciliation.py\<close>, \<open>ledger_check.py\<close>.
  \<^item> \<open>Coverage\<close>, \<open>Iso_Time\<close>, \<open>Ingestion_Report\<close>: \<open>market_data/domain\<close>; \<open>Market_Access\<close>: the selected
    account, endpoints and credentials (\<open>access.py\<close>, \<open>page_access.py\<close>); \<open>Market_Leases\<close>: \<open>leases.py\<close>,
    \<open>candidates.py\<close>; \<open>Candle_Store\<close>, \<open>Market_Pages\<close>: \<open>candle_store.py\<close>, \<open>pages.py\<close>, \<open>execute_page.py\<close>,
    \<open>page_errors.py\<close>, one piece of work of \<open>runner.py\<close>; \<open>Market_Collection\<close>: \<open>use_cases.py\<close>,
    \<open>backfill_locks.py\<close>, \<open>normalize.py\<close>, and the step relation of commands and workers; \<open>Market_Reports\<close>:
    the market data watchdog, \<open>gap_reports.py\<close>, \<open>spread_tracking.py\<close>.
  \<^item> \<open>Access_Control\<close>: \<open>security/session.py\<close>, \<open>security/rbac.py\<close>, the account behind a sign-in, revocation,
    workspace creation, \<open>stream_tickets.py\<close>; \<open>Notifications\<close>: \<open>deliver_notifications.py\<close>, \<open>recipients.py\<close>,
    the acknowledging routes.
  \<^item> \<open>Replay_Examples\<close>, \<open>Database_Examples\<close>, \<open>Bot_Examples\<close>, \<open>Ledger_Examples\<close>, \<open>Market_Examples\<close>,
    \<open>Account_Examples\<close>: concrete states and runs to which the properties are applied.

  \<^bold>\<open>What the lemmas show.\<close> Arithmetic: bounds of the indicators, sizing on a step, sizing monotone in
  risk. Gate: the decision agrees with the recorded rules, an approved quantity is inside every limit.
  Replay: no look-ahead, whole closes and no flips, tradable protective exits, one equity point per bar;
  a window replay is a walk over the whole series; selection sees the training window alone. Metrics: the
  one-pass drawdown is the largest drop. Halts: one active halt per cause, the ladder, no automatic
  release of an emergency stop. Orders: the paper account refines the backtest's accounting, the books
  stay consistent under any interleaving, halts gate entries and only entries. Bots: a position is opened
  only with an approval, a bar is evaluated once, commands are available exactly in their states, a
  stopped bot leaves no working order, an emergency stop takes hold, a pass keeps the database
  consistent and stops a bot that fails five times in a row. Ledger: reconciling never objects to what the order
  flow wrote, up to sums of rounded money, and a mismatch stops the account. Market data: leases
  exclude each other and fence off superseded workers, due work is the earliest, a saved page advances,
  a finished backfill completes, a candle of another source is kept, the gaps are the missing candles,
  blocked work stays blocked. Accounts and notifications: a revoked session and a disabled account stay
  out, a ticket opens one stream, nobody is told twice by passes that commit, and a message that cannot be
  rendered stops the batch. The step relations are \<open>order_step\<close> (interpretation \<open>ledger_life\<close>), \<open>bot_step\<close>
  (\<open>bot_life\<close>), \<open>market_step\<close> (\<open>market_life\<close>, \<open>fencing\<close>, \<open>blocking\<close>), \<open>account_step\<close>, \<open>route_step\<close>
  and \<open>ticket_step\<close> (\<open>revocations\<close>, \<open>disabled\<close>, \<open>tickets\<close>) and \<open>notify_step\<close> (\<open>delivery\<close>), each an
  interpretation of \<open>state_machine\<close>.

  \<^bold>\<open>Choices.\<close> Exceptions are \<open>Inl\<close> of the code's error code. Identifiers are natural numbers drawn from
  \<open>db_next_id\<close>. The clock is read once per transaction; times are UTC, and \<open>fromisoformat\<close> is asked to read
  only what \<open>isoformat\<close> wrote. A failed command leaves the database as it was, as the session rolls back; the
  cancellations of pausing and stopping a bot, which the code commits one by one, belong to one
  transaction. Values never overflow 38 digits. The unique constraint on the time of an account snapshot,
  log lines and message texts are not modelled; messages are lists of their parts. Parameters stand for
  what is outside the repository: what the database raises (\<open>faults\<close>) or answers to a try lock, the
  New York clock, \<open>urlparse\<close>, the secret store, the exchange clients, the token library and the notification
  adapters. The points of a page are deduplicated before they are stored, so their keys are distinct.
  There is no fuel: every loop is structural recursion or has a measure.

  \<^bold>\<open>Not modelled.\<close> Streaming, the exchange adapters, most HTTP routes, OIDC and the secret store, the read
  models of the interface, batch backtests, robustness and parity reports, the import of public research
  candles and the price refresh (so they are no steps of \<open>market_step\<close>; \<open>normalize\<close> and coverage
  queries are modelled and are no steps either), scripts, migrations and process entry points.
\<close>

end
